(* ===== verification/Ledger_Prelude.thy ===== *)
theory Ledger_Prelude
  imports Main "HOL-Library.Multiset" "HOL-Library.Char_ord" "HOL-Library.List_Lexorder"
    "HOL-Library.Product_Lexorder"
begin

text \<open>
  Shared vocabulary of the development: the result type of fallible Go calls, the collections of
  rewrite rules that the component proofs use, and the generic facts on sums over lists, on partial
  maps and on sorting that several components need.

  A Go function that returns \<open>(T, error)\<close> is a function into \<open>'e + 't\<close>, \<open>Inl\<close> being the non-nil
  error; one that returns only an \<open>error\<close> is a function into \<open>'e option\<close>, \<open>None\<close> being \<open>nil\<close>.
  A method that mutates its receiver returns the new receiver next to its result.
\<close>

type_synonym ('e, 'a) res = "'e + 'a"

named_theorems go_consts \<open>the string constants of the source\<close>
named_theorems frame \<open>fields an operation leaves alone\<close>

subsection \<open>Sums over lists\<close>

lemma sum_list_if_conj:
  "(\<Sum>x\<leftarrow>xs. if P x then f x else 0) = sum_list (map f (filter P xs))"
  for f :: "'a \<Rightarrow> 'b :: comm_monoid_add"
  by (induction xs) auto

lemma sum_list_diff:
  "(\<Sum>x\<leftarrow>xs. f x - g x) = (\<Sum>x\<leftarrow>xs. f x) - (\<Sum>x\<leftarrow>xs. g x)"
  for f :: "'a \<Rightarrow> 'b :: ab_group_add"
  by (induction xs) (auto simp: algebra_simps)

lemma sum_list_mset_cong:
  "mset xs = mset ys \<Longrightarrow> (\<Sum>x\<leftarrow>xs. f x) = (\<Sum>x\<leftarrow>ys. f x)"
  for f :: "'a \<Rightarrow> 'b :: comm_monoid_add"
  by (metis mset_map sum_mset_sum_list)

lemma sum_list_nonneg_le:
  "(\<And>x. x \<in> set xs \<Longrightarrow> 0 \<le> f x) \<Longrightarrow> 0 \<le> (\<Sum>x\<leftarrow>xs. f x)"
  for f :: "'a \<Rightarrow> 'b :: linordered_ab_group_add"
  by (induction xs) auto

text \<open>Exchanging a sum over a finite set of keys with a sum over a list of keyed amounts.\<close>

lemma sum_keys_list:
  fixes f :: "'a \<Rightarrow> 'b :: comm_monoid_add"
  assumes "finite K"
  shows "(\<Sum>k\<in>K. \<Sum>x\<leftarrow>xs. if key x = k then f x else 0)
       = (\<Sum>x\<leftarrow>xs. if key x \<in> K then f x else 0)"
  using assms by (induction xs) (auto simp: sum.distrib)

subsection \<open>Partial maps as Go maps\<close>

text \<open>A Go map read of a missing key yields the zero value of the element type.\<close>

definition map_get :: "'v \<Rightarrow> ('k \<rightharpoonup> 'v) \<Rightarrow> 'k \<Rightarrow> 'v" where
  "map_get z m k = (case m k of None \<Rightarrow> z | Some v \<Rightarrow> v)"

lemma map_get_Some [simp]: "m k = Some v \<Longrightarrow> map_get z m k = v"
  by (simp add: map_get_def)

lemma map_get_upd [simp]: "map_get z (m(k \<mapsto> v)) k' = (if k' = k then v else map_get z m k')"
  by (simp add: map_get_def)

lemma map_le_Some: "m \<subseteq>\<^sub>m m' \<Longrightarrow> m k = Some v \<Longrightarrow> m' k = Some v"
  by (metis domI map_le_def)

lemma inj_on_map_upd:
  assumes "inj_on m (dom m)" and "v \<notin> ran m"
  shows "inj_on (m(k \<mapsto> v)) (dom (m(k \<mapsto> v)))"
  using assms by (auto simp: inj_on_def ran_def dom_def split: if_splits)

subsection \<open>Sorting\<close>

text \<open>
  \<open>sort.Slice\<close> promises a permutation in which no element is followed by a smaller one, and nothing
  about equal elements. With a key that determines the element there is only one such permutation,
  so \<open>sort_key\<close> is what any implementation of it returns.
\<close>

lemma sort_key_unique:
  fixes f :: "'a \<Rightarrow> 'b :: linorder"
  assumes "inj_on f (set xs)" and "mset ys = mset xs" and "sorted (map f ys)"
  shows "ys = sort_key f xs"
proof -
  have "set ys = set xs"
    using assms(2) by (metis set_mset_mset)
  moreover have "map f ys = map f (sort_key f xs)"
    by (metis assms(2,3) mset_map mset_sort properties_for_sort sorted_sort_key)
  ultimately show ?thesis
    using assms(1) by (auto intro: map_inj_on)
qed

subsection \<open>Updating one element of a filtered list\<close>

lemma filter_list_update_out:
  "\<not> P (xs ! i) \<Longrightarrow> \<not> P y \<Longrightarrow> filter P (xs[i := y]) = filter P xs"
proof (induction xs arbitrary: i)
  case (Cons x xs)
  then show ?case by (cases i) auto
qed simp

lemma filter_list_update_in:
  assumes "i < length xs" and "P (xs ! i)" and "P y"
  obtains j where "j < length (filter P xs)" and "filter P xs ! j = xs ! i"
    and "filter P (xs[i := y]) = (filter P xs)[j := y]"
  using assms
proof (induction xs arbitrary: i thesis)
  case (Cons x xs)
  show ?case
  proof (cases i)
    case 0
    with Cons.prems show ?thesis by (intro Cons.prems(1) [of 0]) auto
  next
    case (Suc i')
    with Cons.prems have *: "i' < length xs" "P (xs ! i')" "P y" by auto
    from Cons.IH [OF _ this] obtain j where "j < length (filter P xs)" "filter P xs ! j = xs ! i'"
      "filter P (xs[i' := y]) = (filter P xs)[j := y]" by blast
    with Suc show ?thesis
      by (intro Cons.prems(1) [of "if P x then Suc j else j"]) auto
  qed
qed simp

end
