(* ===== verification/Domain.thy ===== *)
theory Domain
  imports Ledger_Prelude
begin

text \<open>
  The data of \<open>internal/ledger/domain.go\<close> and the checks of \<open>internal/ledger/validators.go\<close>.

  Amounts. The source computes with \<open>decimal.Decimal\<close> of the package shopspring/decimal: exact,
  arbitrary-precision values of which the source uses \<open>Add\<close>, \<open>Sub\<close>, \<open>Neg\<close>, \<open>Equal\<close>,
  \<open>IsNegative\<close>, \<open>IsZero\<close>, \<open>IsPositive\<close> and \<open>Zero\<close>. That package is not part of the repository, so
  the type of amounts is a parameter of every definition: a type \<open>'d\<close> of class
  \<open>linordered_ab_group_add\<close>, whose laws (a linearly ordered commutative group) are what the package
  documents of these methods and all that the development uses. \<open>Add\<close>, \<open>Sub\<close>, \<open>Neg\<close> are \<open>+\<close>, \<open>-\<close>
  and unary minus; \<open>Equal\<close> is \<open>=\<close>, so a \<open>'d\<close> stands for a numeric value and not for one of its
  representations (\<open>1\<close>, \<open>1.0\<close>); \<open>IsNegative\<close>, \<open>IsZero\<close>, \<open>IsPositive\<close> compare with \<open>0\<close>, which is
  also the Go zero value.

  Times are integers, nanoseconds since Go's zero \<open>time.Time\<close>, so that \<open>IsZero t\<close> is \<open>t = 0\<close>;
  durations are integers in nanoseconds. Identifiers are strings, as in the source.
\<close>

type_synonym time = int

text \<open>The ledger of accounts created without one (a constant of \<open>store.go\<close>).\<close>

definition DefaultLedgerID :: string where
  "DefaultLedgerID = ''00000000-0000-0000-0000-000000000000''"

subsection \<open>Enumerations\<close>

text \<open>\<open>AccountType\<close> is a Go string type: any string is a value of it, five of them are valid.\<close>

type_synonym AccountType = string

definition AssetType :: AccountType where "AssetType = ''asset''"
definition LiabilityType :: AccountType where "LiabilityType = ''liability''"
definition EquityType :: AccountType where "EquityType = ''equity''"
definition RevenueType :: AccountType where "RevenueType = ''revenue''"
definition ExpenseType :: AccountType where "ExpenseType = ''expense''"

lemmas account_types [go_consts] =
  AssetType_def LiabilityType_def EquityType_def RevenueType_def ExpenseType_def

datatype TransferStatus = TransferPending | TransferCompleted | TransferCompensated | TransferFailed

subsection \<open>Requests, responses and models\<close>

record CreateAccountRequest =
  car_LedgerID :: string
  car_Name :: string
  car_Type :: AccountType

record 'd EntryRequest =
  AccountID :: string
  Credit :: 'd
  Debit :: 'd

record 'd CreateTransactionRequest =
  ctr_Entries :: "'d EntryRequest list"
  ctr_IdempotencyKey :: string

record 'd TransferRequest =
  SourceLedgerID :: string
  SourceAccountID :: string
  DestinationLedgerID :: string
  DestinationAccountID :: string
  Amount :: 'd
  IdempotencyKey :: string

record GetAccountEntriesParams =
  From :: time
  To :: time

record 'd TransferResponse =
  r_ID :: string
  r_SourceLedgerID :: string
  r_SourceAccountID :: string
  r_DestinationLedgerID :: string
  r_DestinationAccountID :: string
  r_Amount :: 'd
  r_Status :: TransferStatus
  r_CreatedAt :: time
  r_UpdatedAt :: time

record 'd Account =
  a_ID :: string
  a_LedgerID :: string
  a_Name :: string
  a_Type :: AccountType
  a_Balance :: 'd

record 'd Entry =
  e_ID :: string
  e_AccountID :: string
  e_TransactionID :: string
  e_Credit :: 'd
  e_Debit :: 'd

record 'd Transaction =
  t_ID :: string
  t_LedgerID :: string
  t_Entries :: "'d Entry list"
  t_Timestamp :: time

record 'd GetAccountEntriesResponse =
  Entries :: "'d Entry list"
  RunningBalance :: 'd

text \<open>The events of the outbox as they are published, and the answers of the projection.\<close>

record 'd TransactionPostedEvent =
  pe_EventID :: string
  pe_Type :: string
  pe_TransactionID :: string
  pe_LedgerID :: string
  pe_Timestamp :: time
  pe_Entries :: "'d Entry list"

record 'd DailyAggregate =
  da_Day :: int
  da_Debit :: 'd
  da_Credit :: 'd

record 'd AggregateResponse =
  Aggregates :: "'d DailyAggregate list"
  ProjectionTimestamp :: time
  LastEventID :: string

record TransactionProjectionStatus =
  ps_TransactionID :: string
  ps_EventID :: string
  ps_Consumer :: string
  ps_Projected :: bool

subsection \<open>Errors\<close>

text \<open>
  One constructor per error the source builds, with the values its message prints. A transfer hook
  may return any error; of such an error the source only looks at whether it is a
  \<open>TransientError\<close> whose \<open>Transient()\<close> is true, the first argument of \<open>HookError\<close>.
  \<open>NilDereference\<close> is the run-time panic of a read through a nil pointer. \<open>DbFault\<close> and \<open>DbConstraint\<close>
  are errors of the database, from outside and from a constraint of the schema; their first argument
  is the text the source wraps them with, or the constraint.
\<close>

text \<open>
  How a call of the database can fail for a reason outside the program: a serialization failure
  (SQLSTATE 40001), an expired context, or anything else.
\<close>

datatype dbfault = SerializationFailure | ContextExpired | OtherFault string

datatype 'd err =
    AccountNameEmpty
  | InvalidAccountType string
  | TooFewEntries
  | NegativeAmount
  | ZeroEntry
  | DebitAndCredit
  | TotalsDiffer 'd 'd
  | AccountNotFound string
  | SpansLedgers
  | TransactionNotFound string
  | MissingTransaction
  | IdempotencyKeyConflict
  | TransferEndpointsRequired
  | IdempotencyKeyRequired
  | AmountNotPositive
  | TransferIdempotencyConflict
  | SourceNotInLedger
  | DestinationNotInLedger
  | SameLedger
  | InsufficientFunds
  | TransferNotFound string
  | UnknownOutboxStep string
  | HookError bool string
  | NilDereference
  | InvalidID string string
  | DbFault string dbfault
  | DbConstraint string
  | NoRows
  | PostingAccountNotFound string
  | PostingAccountsNotFound
  | UnexpectedPostingAccount string
  | InsufficientFundsFor string
  | TransactionRetryExhausted
  | InvalidBatchSize nat
  | InvalidBatchConfiguration
  | SourceOrDestinationNotFound
  | SourceOutsideLedger
  | DestinationOutsideLedger
  | ClearingAccountMissing string
  | LockedAccountsMismatch nat nat
  | UnknownOutboxEvent string
  | ConsumerRequired
  | UnexpectedEventType string
  | ProjectionNotFound string
  | PublishError string
  | InvalidPublisherResult
  | NotNonNegativeInteger string string
  | NotPositive string
  | NotDuration string string
  | NotBoolean string string
  | DedicatedPoolsNotPositive
  | DedicatedPoolsTooLarge int
  | BalancesUpdated nat nat
  | AccountOutsideLedger

subsection \<open>Validators\<close>

definition ValidateAccount :: "string \<Rightarrow> AccountType \<Rightarrow> 'd err option" where
  "ValidateAccount name typ =
     (if name = '''' then Some AccountNameEmpty
      else if typ \<in> {AssetType, LiabilityType, EquityType, RevenueType, ExpenseType} then None
      else Some (InvalidAccountType typ))"

text \<open>The loop over the entries, with the running totals as accumulators.\<close>

fun ValidateEntries ::
  "'d :: linordered_ab_group_add \<Rightarrow> 'd \<Rightarrow> 'd EntryRequest list \<Rightarrow> ('d err, 'd \<times> 'd) res" where
  "ValidateEntries totalDebit totalCredit [] = Inr (totalDebit, totalCredit)"
| "ValidateEntries totalDebit totalCredit (entry # entries) =
     (if Debit entry < 0 \<or> Credit entry < 0 then Inl NegativeAmount
      else if Debit entry = 0 \<and> Credit entry = 0 then Inl ZeroEntry
      else if Debit entry \<noteq> 0 \<and> Credit entry \<noteq> 0 then Inl DebitAndCredit
      else ValidateEntries (totalDebit + Debit entry) (totalCredit + Credit entry) entries)"

definition ValidateTransaction ::
  "'d :: linordered_ab_group_add EntryRequest list \<Rightarrow> 'd err option" where
  "ValidateTransaction entries =
     (if length entries < 2 then Some TooFewEntries
      else case ValidateEntries 0 0 entries of
        Inl e \<Rightarrow> Some e
      | Inr (totalDebit, totalCredit) \<Rightarrow>
          if totalDebit \<noteq> totalCredit then Some (TotalsDiffer totalDebit totalCredit) else None)"

subsection \<open>Displayed balance\<close>

text \<open>
  Shared by the stores (\<open>displayedBalanceAfter\<close> of \<open>postgres_store.go\<close>): an asset or expense account
  shows its stored balance, every other account its negation.
\<close>

definition displayedBalanceAfter ::
  "AccountType \<Rightarrow> 'd :: linordered_ab_group_add \<Rightarrow> 'd \<Rightarrow> 'd \<Rightarrow> 'd" where
  "displayedBalanceAfter accountType storedBalance debit credit =
     (if accountType = AssetType \<or> accountType = ExpenseType
      then storedBalance + debit - credit
      else - storedBalance + credit - debit)"

subsection \<open>What the validators accept\<close>

text \<open>
  The reference definition of a valid request: an entry moves a positive amount on exactly one side,
  and the two sides of the request are equal.
\<close>

definition entry_ok :: "'d :: linordered_ab_group_add EntryRequest \<Rightarrow> bool" where
  "entry_ok e \<longleftrightarrow> (0 < Debit e \<and> Credit e = 0) \<or> (Debit e = 0 \<and> 0 < Credit e)"

definition balanced :: "'d :: linordered_ab_group_add EntryRequest list \<Rightarrow> bool" where
  "balanced es \<longleftrightarrow> (\<Sum>e\<leftarrow>es. Debit e) = (\<Sum>e\<leftarrow>es. Credit e)"

definition valid_request :: "'d :: linordered_ab_group_add EntryRequest list \<Rightarrow> bool" where
  "valid_request es \<longleftrightarrow> 2 \<le> length es \<and> list_all entry_ok es \<and> balanced es"

lemma entry_ok_iff:
  "entry_ok e \<longleftrightarrow> \<not> (Debit e < 0 \<or> Credit e < 0) \<and> \<not> (Debit e = 0 \<and> Credit e = 0)
     \<and> \<not> (Debit e \<noteq> 0 \<and> Credit e \<noteq> 0)"
  by (auto simp: entry_ok_def)

lemma ValidateEntries_Inr:
  "ValidateEntries d c es = Inr (d', c') \<longleftrightarrow>
     list_all entry_ok es \<and> d' = d + (\<Sum>e\<leftarrow>es. Debit e) \<and> c' = c + (\<Sum>e\<leftarrow>es. Credit e)"
  by (induction d c es rule: ValidateEntries.induct) (auto simp: entry_ok_iff add.assoc)

lemma ValidateEntries_cases:
  obtains (bad) e where "ValidateEntries d c es = Inl e" "\<not> list_all entry_ok es"
  | (good) "ValidateEntries d c es = Inr (d + (\<Sum>e\<leftarrow>es. Debit e), c + (\<Sum>e\<leftarrow>es. Credit e))"
      "list_all entry_ok es"
proof (cases "ValidateEntries d c es")
  case (Inl e)
  moreover from Inl have "\<not> list_all entry_ok es"
    using ValidateEntries_Inr [of d c es] by auto
  ultimately show ?thesis by (rule bad)
next
  case (Inr p)
  then show ?thesis
    using good ValidateEntries_Inr [of d c es "fst p" "snd p"] by (cases p) auto
qed

lemma ValidateTransaction_None_iff: "ValidateTransaction es = None \<longleftrightarrow> valid_request es"
  by (rule ValidateEntries_cases [of 0 0 es])
    (auto simp: ValidateTransaction_def valid_request_def balanced_def)

lemma ValidateAccount_None_iff:
  "ValidateAccount name typ = None \<longleftrightarrow>
     name \<noteq> [] \<and> typ \<in> {AssetType, LiabilityType, EquityType, RevenueType, ExpenseType}"
  by (simp add: ValidateAccount_def)

text \<open>Which error is reported: the first offending entry decides, totals are compared last.\<close>

lemma ValidateEntries_first_error:
  assumes "list_all entry_ok pre" and "\<not> entry_ok e"
  shows "ValidateEntries d c (pre @ e # post) =
     Inl (if Debit e < 0 \<or> Credit e < 0 then NegativeAmount
          else if Debit e = 0 \<and> Credit e = 0 then ZeroEntry else DebitAndCredit)"
  using assms
  by (induction pre arbitrary: d c) (auto simp: entry_ok_iff)

text \<open>A valid request does not depend on the order of its entries.\<close>

lemma valid_request_mset:
  assumes "mset es = mset es'"
  shows "valid_request es = valid_request es'"
proof -
  have "length es = length es'" "set es = set es'"
    using assms by (metis size_mset, metis set_mset_mset)
  then show ?thesis
    using sum_list_mset_cong [OF assms, of Debit] sum_list_mset_cong [OF assms, of Credit]
    by (simp add: valid_request_def balanced_def list_all_iff)
qed

end
