(* ===== verification/Idempotency.thy ===== *)
theory Idempotency
  imports Domain
begin

text \<open>
  \<open>internal/ledger/idempotency.go\<close>: the checksum that recognises a repeated transaction request.

  The functions the checksum is composed of are arguments of the model, collected in a record of
  type \<open>codec\<close>: \<open>strings.ToLower\<close>, \<open>Decimal.StringFixed\<close>, \<open>json.Marshal\<close> of the canonical request and
  \<open>sha256.Sum256\<close>. Everything the file itself does, the canonical form, the sort and the hexadecimal
  text of the digest, is written out. What depends on a property of the four functions names it as
  a hypothesis.
\<close>

record canonicalTransactionEntry =
  c_AccountID :: string
  c_Credit :: string
  c_Debit :: string

record canonicalTransactionRequest =
  c_LedgerID :: string
  c_Entries :: "canonicalTransactionEntry list"

record 'd codec =
  ToLower :: "string \<Rightarrow> string"
  StringFixed :: "int \<Rightarrow> 'd \<Rightarrow> string"
  jsonMarshal :: "canonicalTransactionRequest \<Rightarrow> string"
  Sum256 :: "string \<Rightarrow> string"

definition transactionAmountScale :: int where
  "transactionAmountScale = 2"

subsection \<open>Hexadecimal text\<close>

definition hex_digits :: string where
  "hex_digits = ''0123456789abcdef''"

definition EncodeToString :: "string \<Rightarrow> string" where
  "EncodeToString bs =
     concat (map (\<lambda>b. [hex_digits ! (of_char b div 16), hex_digits ! (of_char b mod 16)]) bs)"

subsection \<open>The canonical request\<close>

definition canonicalEntry :: "('d, 'm) codec_scheme \<Rightarrow> 'd EntryRequest \<Rightarrow> canonicalTransactionEntry" where
  "canonicalEntry c entry =
     \<lparr>c_AccountID = ToLower c (AccountID entry),
      c_Credit = StringFixed c transactionAmountScale (Credit entry),
      c_Debit = StringFixed c transactionAmountScale (Debit entry)\<rparr>"

text \<open>
  The comparison passed to \<open>sort.Slice\<close> compares account, then debit, then credit. It is the
  lexicographic order of the triple, which determines the entry; by \<open>sort_key_unique\<close> every
  implementation of \<open>sort.Slice\<close> returns the same list.
\<close>

definition canonicalLess :: "canonicalTransactionEntry \<Rightarrow> canonicalTransactionEntry \<Rightarrow> bool" where
  "canonicalLess left right =
     (if c_AccountID left \<noteq> c_AccountID right then c_AccountID left < c_AccountID right
      else if c_Debit left \<noteq> c_Debit right then c_Debit left < c_Debit right
      else c_Credit left < c_Credit right)"

definition canonicalKey :: "canonicalTransactionEntry \<Rightarrow> string \<times> string \<times> string" where
  "canonicalKey e = (c_AccountID e, c_Debit e, c_Credit e)"

definition canonicalSort :: "canonicalTransactionEntry list \<Rightarrow> canonicalTransactionEntry list" where
  "canonicalSort = sort_key canonicalKey"

definition canonicalRequest ::
  "('d, 'm) codec_scheme \<Rightarrow> string \<Rightarrow> 'd EntryRequest list \<Rightarrow> canonicalTransactionRequest" where
  "canonicalRequest c ledgerID entries =
     \<lparr>c_LedgerID = ledgerID, c_Entries = canonicalSort (map (canonicalEntry c) entries)\<rparr>"

definition TransactionRequestChecksum ::
  "('d, 'm) codec_scheme \<Rightarrow> string \<Rightarrow> 'd EntryRequest list \<Rightarrow> string" where
  "TransactionRequestChecksum c ledgerID entries =
     EncodeToString (Sum256 c (jsonMarshal c (canonicalRequest c ledgerID entries)))"

subsection \<open>The sort is the one the comparison defines\<close>

lemma canonicalKey_inj: "canonicalKey e = canonicalKey e' \<longleftrightarrow> e = e'"
  by (cases e, cases e') (auto simp: canonicalKey_def)

lemma canonicalLess_key: "canonicalLess e e' \<longleftrightarrow> canonicalKey e < canonicalKey e'"
  by (auto simp: canonicalLess_def canonicalKey_def less_prod_def)

lemma canonicalSort_unique:
  assumes "mset ys = mset es" and "sorted_wrt (\<lambda>x y. \<not> canonicalLess y x) ys"
  shows "ys = canonicalSort es"
  unfolding canonicalSort_def
proof (rule sort_key_unique)
  show "inj_on canonicalKey (set es)"
    by (simp add: inj_on_def canonicalKey_inj)
  show "sorted (map canonicalKey ys)"
    using assms(2) by (simp add: canonicalLess_key sorted_map not_less)
qed (rule assms(1))

lemma mset_canonicalSort [simp]: "mset (canonicalSort es) = mset es"
  by (simp add: canonicalSort_def)

lemma sorted_canonicalSort: "sorted_wrt (\<lambda>x y. \<not> canonicalLess y x) (canonicalSort es)"
  using sorted_sort_key [of canonicalKey es]
  by (simp add: canonicalSort_def canonicalLess_key not_less sorted_map)

lemma canonicalSort_mset_iff: "canonicalSort es = canonicalSort es' \<longleftrightarrow> mset es = mset es'"
  by (metis canonicalSort_unique mset_canonicalSort sorted_canonicalSort)

subsection \<open>Hexadecimal text determines the bytes\<close>

lemma hex_digit_inj:
  "i < 16 \<Longrightarrow> j < 16 \<Longrightarrow> hex_digits ! i = hex_digits ! j \<Longrightarrow> i = j"
  using nth_eq_iff_index_eq [of hex_digits i j] by (simp add: hex_digits_def)

lemma EncodeToString_Nil [simp]: "EncodeToString [] = []"
  and EncodeToString_Cons [simp]: "EncodeToString (b # bs) =
    hex_digits ! (of_char b div 16) # hex_digits ! (of_char b mod 16) # EncodeToString bs"
  by (simp_all add: EncodeToString_def)

lemma EncodeToString_inj: "EncodeToString xs = EncodeToString ys \<Longrightarrow> xs = ys"
proof (induction xs arbitrary: ys)
  case Nil
  then show ?case by (cases ys) auto
next
  case (Cons x xs)
  then obtain y ys' where ys: "ys = y # ys'" by (cases ys) auto
  have lt: "(of_char b :: nat) div 16 < 16" for b
    using mod_less_divisor [of 256 "of_char b :: nat"] by (simp add: div_less_iff_less_mult)
  have "(of_char x :: nat) div 16 = of_char y div 16" "(of_char x :: nat) mod 16 = of_char y mod 16"
    using Cons.prems ys by (auto intro!: hex_digit_inj lt)
  then have "(of_char x :: nat) = of_char y"
    by (metis div_mult_mod_eq)
  moreover have "xs = ys'"
    using Cons ys by simp
  ultimately show ?case using ys by simp
qed

subsection \<open>Facts on the checksum\<close>

lemma canonicalRequest_eq_iff:
  "canonicalRequest c l es = canonicalRequest c l' es' \<longleftrightarrow>
     l = l' \<and> image_mset (canonicalEntry c) (mset es) = image_mset (canonicalEntry c) (mset es')"
  by (simp add: canonicalRequest_def canonicalSort_mset_iff)

lemma checksum_canonical:
  "canonicalRequest c l es = canonicalRequest c l' es' \<Longrightarrow>
     TransactionRequestChecksum c l es = TransactionRequestChecksum c l' es'"
  by (simp add: TransactionRequestChecksum_def)

text \<open>
  The hypothesis under which equal checksums mean equal canonical requests: the digests of the two
  requests compared do not collide. (No hash function can satisfy it for all pairs at once.)
\<close>

definition no_collision ::
  "('d, 'm) codec_scheme \<Rightarrow> canonicalTransactionRequest \<Rightarrow> canonicalTransactionRequest \<Rightarrow> bool" where
  "no_collision c r r' \<longleftrightarrow>
     (Sum256 c (jsonMarshal c r) = Sum256 c (jsonMarshal c r') \<longrightarrow> r = r')"

lemma checksum_eq_iff:
  assumes "no_collision c (canonicalRequest c l es) (canonicalRequest c l' es')"
  shows "TransactionRequestChecksum c l es = TransactionRequestChecksum c l' es' \<longleftrightarrow>
    canonicalRequest c l es = canonicalRequest c l' es'"
  using assms
  by (auto simp: TransactionRequestChecksum_def no_collision_def dest!: EncodeToString_inj)

end
