(* ===== verification/Memory_Store.thy ===== *)
theory Memory_Store
  imports Idempotency
begin

text \<open>
  \<open>internal/ledger/store.go\<close>: the in-memory store. The record \<open>MemoryStore\<close> has the fields of the Go
  struct; the mutex is not a field, every public method holds it for its whole body (a method of
  this theory is one atomic step), and \<open>ProcessOutbox\<close>, which releases it between events, is modelled
  event by event in \<open>Memory_Transfer\<close>.

  The environment of the store is the record \<open>go_env\<close>: the functions of the checksum, the identifiers
  that successive calls of \<open>uuid.New\<close> return and the instants that successive calls of \<open>time.Now\<close>
  return. How many of these calls have been made is counted in the store (\<open>uuids\<close>, \<open>clock\<close>), as is the
  number of calls of the test hook \<open>DestinationFailure\<close>, whose answer may depend on it.
\<close>

record 'd go_env = "'d codec" +
  uuidNew :: "nat \<Rightarrow> string"
  timeNow :: "nat \<Rightarrow> time"

record memoryIdempotencyKey =
  k_transactionID :: string
  k_checksum :: string

record 'd memorySaga =
  s_response :: "'d TransferResponse"
  sourceTransactionID :: string
  destinationTransactionID :: string
  compensationTransactionID :: string

record memoryOutboxEvent =
  ev_id :: string
  ev_sagaID :: string
  ev_step :: string
  ev_attempts :: nat
  ev_nextAttempt :: time
  ev_processed :: bool

record 'd MemoryStore =
  accounts :: "string \<rightharpoonup> 'd Account"
  transactions :: "'d Transaction list"
  idempotencyKeys :: "string \<rightharpoonup> memoryIdempotencyKey"
  sagas :: "string \<rightharpoonup> 'd memorySaga"
  transferKeys :: "string \<rightharpoonup> string"
  outbox :: "memoryOutboxEvent list"
  clearingAccounts :: "string \<rightharpoonup> string"
  DestinationFailure :: "(nat \<Rightarrow> 'd TransferRequest \<Rightarrow> 'd err option) option"
  uuids :: nat
  clock :: nat
  hookCalls :: nat

definition NewMemoryStore :: "'d MemoryStore" where
  "NewMemoryStore =
     \<lparr>accounts = Map.empty, transactions = [], idempotencyKeys = Map.empty, sagas = Map.empty,
      transferKeys = Map.empty, outbox = [], clearingAccounts = Map.empty,
      DestinationFailure = None, uuids = 0, clock = 0, hookCalls = 0\<rparr>"

definition newUUID :: "'d go_env \<Rightarrow> 'd MemoryStore \<Rightarrow> string \<times> 'd MemoryStore" where
  "newUUID env s = (uuidNew env (uuids s), s\<lparr>uuids := Suc (uuids s)\<rparr>)"

definition now :: "'d go_env \<Rightarrow> 'd MemoryStore \<Rightarrow> time \<times> 'd MemoryStore" where
  "now env s = (timeNow env (clock s), s\<lparr>clock := Suc (clock s)\<rparr>)"

text \<open>Reading a missing key of \<open>accounts\<close> yields the zero \<open>Account\<close>.\<close>

definition zeroAccount :: "'d :: zero Account" where
  "zeroAccount = \<lparr>a_ID = '''', a_LedgerID = '''', a_Name = '''', a_Type = '''', a_Balance = 0\<rparr>"

abbreviation getAccount :: "'d :: zero MemoryStore \<Rightarrow> string \<Rightarrow> 'd Account" where
  "getAccount s \<equiv> map_get zeroAccount (accounts s)"

subsection \<open>Accounts\<close>

definition CreateAccountInLedger ::
  "'d go_env \<Rightarrow> string \<Rightarrow> string \<Rightarrow> AccountType \<Rightarrow> 'd :: linordered_ab_group_add MemoryStore
     \<Rightarrow> 'd MemoryStore \<times> ('d err, 'd Account) res" where
  "CreateAccountInLedger env ledgerID name accType s =
     (case ValidateAccount name accType of
        Some e \<Rightarrow> (s, Inl e)
      | None \<Rightarrow>
          let (id, s) = newUUID env s;
              account = \<lparr>a_ID = id, a_LedgerID = ledgerID, a_Name = name, a_Type = accType,
                         a_Balance = 0\<rparr>
          in (s\<lparr>accounts := (accounts s)(id \<mapsto> account)\<rparr>, Inr account))"

definition CreateAccount ::
  "'d go_env \<Rightarrow> string \<Rightarrow> AccountType \<Rightarrow> 'd :: linordered_ab_group_add MemoryStore
     \<Rightarrow> 'd MemoryStore \<times> ('d err, 'd Account) res" where
  "CreateAccount env name accType = CreateAccountInLedger env DefaultLedgerID name accType"

subsection \<open>Posting a transaction\<close>

definition updateAccountBalance ::
  "'d :: linordered_ab_group_add Account \<Rightarrow> 'd \<Rightarrow> 'd \<Rightarrow> 'd Account" where
  "updateAccountBalance account credit debit =
     account\<lparr>a_Balance := a_Balance account + debit - credit\<rparr>"

fun checkAccounts :: "(string \<rightharpoonup> 'd Account) \<Rightarrow> 'd EntryRequest list \<Rightarrow> 'd err option" where
  "checkAccounts m [] = None"
| "checkAccounts m (entry # entries) =
     (case m (AccountID entry) of
        None \<Rightarrow> Some (AccountNotFound (AccountID entry))
      | Some _ \<Rightarrow> checkAccounts m entries)"

fun postEntries ::
  "'d go_env \<Rightarrow> string \<Rightarrow> 'd EntryRequest list \<Rightarrow> 'd :: linordered_ab_group_add MemoryStore
     \<Rightarrow> 'd Entry list \<times> 'd MemoryStore" where
  "postEntries env transactionID [] s = ([], s)"
| "postEntries env transactionID (entry # entries) s =
     (let account = getAccount s (AccountID entry);
          (entryID, s) = newUUID env s;
          newEntry = \<lparr>e_ID = entryID, e_AccountID = a_ID account, e_TransactionID = transactionID,
                      e_Credit = Credit entry, e_Debit = Debit entry\<rparr>;
          account = updateAccountBalance account (Credit entry) (Debit entry);
          s = s\<lparr>accounts := (accounts s)(a_ID account \<mapsto> account)\<rparr>;
          (transactionEntries, s) = postEntries env transactionID entries s
      in (newEntry # transactionEntries, s))"

definition createTransaction ::
  "'d go_env \<Rightarrow> 'd EntryRequest list \<Rightarrow> 'd :: linordered_ab_group_add MemoryStore
     \<Rightarrow> 'd MemoryStore \<times> ('d err, 'd Transaction) res" where
  "createTransaction env entries s =
     (case ValidateTransaction entries of
        Some e \<Rightarrow> (s, Inl e)
      | None \<Rightarrow>
          let (transactionID, s) = newUUID env s;
              (sec, s) = now env s
          in case checkAccounts (accounts s) entries of
               Some e \<Rightarrow> (s, Inl e)
             | None \<Rightarrow>
                 let ledgerID = a_LedgerID (getAccount s (AccountID (hd entries)))
                 in if list_ex (\<lambda>entry. a_LedgerID (getAccount s (AccountID entry)) \<noteq> ledgerID)
                         (tl entries)
                    then (s, Inl SpansLedgers)
                    else
                      let (transactionEntries, s) = postEntries env transactionID entries s;
                          transaction = \<lparr>t_ID = transactionID, t_LedgerID = ledgerID,
                                         t_Entries = transactionEntries, t_Timestamp = sec\<rparr>
                      in (s\<lparr>transactions := transactions s @ [transaction]\<rparr>, Inr transaction))"

definition getTransactionByID ::
  "string \<Rightarrow> 'd MemoryStore \<Rightarrow> ('d err, 'd Transaction) res" where
  "getTransactionByID transactionID s =
     (case find (\<lambda>t. t_ID t = transactionID) (transactions s) of
        Some t \<Rightarrow> Inr t
      | None \<Rightarrow> Inl (TransactionNotFound transactionID))"

definition CreateTransaction ::
  "'d go_env \<Rightarrow> string \<Rightarrow> 'd EntryRequest list \<Rightarrow> 'd :: linordered_ab_group_add MemoryStore
     \<Rightarrow> 'd MemoryStore \<times> ('d err, 'd Transaction \<times> bool) res" where
  "CreateTransaction env idempotencyKey entries s =
     (let checksum = TransactionRequestChecksum env '''' entries;
          existing = (if idempotencyKey \<noteq> '''' then idempotencyKeys s idempotencyKey else None)
      in case existing of
           Some existingKey \<Rightarrow>
             if k_checksum existingKey \<noteq> checksum then (s, Inl IdempotencyKeyConflict)
             else (case getTransactionByID (k_transactionID existingKey) s of
                     Inl _ \<Rightarrow> (s, Inl MissingTransaction)
                   | Inr transaction \<Rightarrow> (s, Inr (transaction, True)))
         | None \<Rightarrow>
             (case createTransaction env entries s of
                (s, Inl e) \<Rightarrow> (s, Inl e)
              | (s, Inr transaction) \<Rightarrow>
                  (if idempotencyKey \<noteq> ''''
                   then s\<lparr>idempotencyKeys := (idempotencyKeys s)(idempotencyKey \<mapsto>
                           \<lparr>k_transactionID = t_ID transaction, k_checksum = checksum\<rparr>)\<rparr>
                   else s,
                   Inr (transaction, False))))"

subsection \<open>Reading\<close>

definition GetBalance :: "string \<Rightarrow> 'd :: linordered_ab_group_add MemoryStore \<Rightarrow> ('d err, 'd) res" where
  "GetBalance accountID s =
     (case accounts s accountID of
        None \<Rightarrow> Inl (AccountNotFound accountID)
      | Some account \<Rightarrow>
          if a_Type account = LiabilityType \<or> a_Type account = EquityType
             \<or> a_Type account = RevenueType
          then Inr (- a_Balance account) else Inr (a_Balance account))"

text \<open>
  \<open>sort.Slice\<close> orders the transactions by timestamp; among equal timestamps it promises no order, and
  \<open>sort_key\<close> is the stable choice. The running balance does not depend on that choice.
\<close>

definition inWindow :: "GetAccountEntriesParams \<Rightarrow> 'd Transaction \<Rightarrow> bool" where
  "inWindow params t \<longleftrightarrow>
     \<not> ((From params \<noteq> 0 \<and> t_Timestamp t < From params) \<or>
        (To params \<noteq> 0 \<and> t_Timestamp t > To params))"

fun collectEntries ::
  "string \<Rightarrow> 'd :: linordered_ab_group_add Entry list \<Rightarrow> 'd Entry list \<times> 'd
     \<Rightarrow> 'd Entry list \<times> 'd" where
  "collectEntries accountID [] (entries, runningBalance) = (entries, runningBalance)"
| "collectEntries accountID (entry # rest) (entries, runningBalance) =
     (if e_AccountID entry = accountID
      then collectEntries accountID rest
             (entries @ [entry], runningBalance + e_Debit entry - e_Credit entry)
      else collectEntries accountID rest (entries, runningBalance))"

fun collectTransactions ::
  "string \<Rightarrow> GetAccountEntriesParams \<Rightarrow> 'd :: linordered_ab_group_add Transaction list
     \<Rightarrow> 'd Entry list \<times> 'd \<Rightarrow> 'd Entry list \<times> 'd" where
  "collectTransactions accountID params [] acc = acc"
| "collectTransactions accountID params (t # ts) acc =
     (if \<not> inWindow params t then collectTransactions accountID params ts acc
      else collectTransactions accountID params ts (collectEntries accountID (t_Entries t) acc))"

definition GetAccountEntries ::
  "string \<Rightarrow> GetAccountEntriesParams \<Rightarrow> 'd :: linordered_ab_group_add MemoryStore
     \<Rightarrow> ('d err, 'd GetAccountEntriesResponse) res" where
  "GetAccountEntries accountID params s =
     (let sortedTransactions = sort_key t_Timestamp (transactions s);
          (entries, runningBalance) =
            collectTransactions accountID params sortedTransactions ([], 0)
      in Inr \<lparr>Entries = entries, RunningBalance = runningBalance\<rparr>)"

subsection \<open>The effect of a posting\<close>

text \<open>The net movement of an account in a list of entries, and the entries a request turns into.\<close>

definition net :: "string \<Rightarrow> 'd :: linordered_ab_group_add Entry list \<Rightarrow> 'd" where
  "net k es = (\<Sum>e\<leftarrow>es. if e_AccountID e = k then e_Debit e - e_Credit e else 0)"

fun entryLines :: "'d go_env \<Rightarrow> string \<Rightarrow> nat \<Rightarrow> 'd EntryRequest list \<Rightarrow> 'd Entry list" where
  "entryLines env tid n [] = []"
| "entryLines env tid n (e # es) =
     \<lparr>e_ID = uuidNew env n, e_AccountID = AccountID e, e_TransactionID = tid,
      e_Credit = Credit e, e_Debit = Debit e\<rparr> # entryLines env tid (Suc n) es"

definition applyNet ::
  "'d :: linordered_ab_group_add Entry list \<Rightarrow> (string \<rightharpoonup> 'd Account) \<Rightarrow> (string \<rightharpoonup> 'd Account)" where
  "applyNet es m = (\<lambda>k. map_option (\<lambda>a. a\<lparr>a_Balance := a_Balance a + net k es\<rparr>) (m k))"

definition keyed :: "(string \<rightharpoonup> 'd Account) \<Rightarrow> bool" where
  "keyed m \<longleftrightarrow> (\<forall>k a. m k = Some a \<longrightarrow> a_ID a = k)"

lemma net_Nil [simp]: "net k [] = 0"
  and net_Cons [simp]:
    "net k (e # es) = (if e_AccountID e = k then e_Debit e - e_Credit e else 0) + net k es"
  and net_append [simp]: "net k (es @ es') = net k es + net k es'"
  by (simp_all add: net_def)

lemma net_notin: "k \<notin> e_AccountID ` set es \<Longrightarrow> net k es = 0"
  by (induction es) auto

lemma keyedD: "keyed m \<Longrightarrow> m k = Some a \<Longrightarrow> a_ID a = k"
  by (simp add: keyed_def)

lemma dom_applyNet [simp]: "dom (applyNet es m) = dom m"
  by (auto simp: applyNet_def)

lemma applyNet_Nil [simp]: "applyNet [] m = m"
proof
  show "applyNet [] m k = m k" for k
    by (cases "m k") (simp_all add: applyNet_def)
qed

lemma applyNet_Some:
  "applyNet es m k = Some a \<longleftrightarrow> (\<exists>b. m k = Some b \<and> a = b\<lparr>a_Balance := a_Balance b + net k es\<rparr>)"
  by (auto simp: applyNet_def)

lemma keyed_applyNet: "keyed m \<Longrightarrow> keyed (applyNet es m)"
  by (auto simp: keyed_def applyNet_Some)

lemma entryLines_proj [simp]:
  "map e_AccountID (entryLines env tid n es) = map AccountID es"
  "map e_Debit (entryLines env tid n es) = map Debit es"
  "map e_Credit (entryLines env tid n es) = map Credit es"
  "map e_TransactionID (entryLines env tid n es) = replicate (length es) tid"
  "length (entryLines env tid n es) = length es"
  by (induction es arbitrary: n) auto

lemma entryLines_set:
  "e \<in> set (entryLines env tid n es) \<Longrightarrow>
     e_TransactionID e = tid \<and>
     (\<exists>r \<in> set es. AccountID r = e_AccountID e \<and> Debit r = e_Debit e \<and> Credit r = e_Credit e)"
  by (induction es arbitrary: n) auto

text \<open>The loop over the entries adds the net movement to every account and touches nothing else.\<close>

lemma postEntries_eq:
  assumes "keyed (accounts s)" and "\<forall>e \<in> set es. AccountID e \<in> dom (accounts s)"
  shows "postEntries env tid es s =
    (entryLines env tid (uuids s) es,
     s\<lparr>accounts := applyNet (entryLines env tid (uuids s) es) (accounts s),
       uuids := uuids s + length es\<rparr>)"
  using assms
proof (induction es arbitrary: s)
  case Nil
  then show ?case by simp
next
  case (Cons e es)
  obtain a where a: "accounts s (AccountID e) = Some a" using Cons.prems by auto
  then have aid: "a_ID a = AccountID e" using Cons.prems by (simp add: keyedD)
  let ?a = "updateAccountBalance a (Credit e) (Debit e)"
  let ?s = "s\<lparr>uuids := Suc (uuids s), accounts := (accounts s)(AccountID e \<mapsto> ?a)\<rparr>"
  let ?l = "entryLines env tid (Suc (uuids s)) es"
  let ?e = "\<lparr>e_ID = uuidNew env (uuids s), e_AccountID = AccountID e, e_TransactionID = tid,
      e_Credit = Credit e, e_Debit = Debit e\<rparr>"
  have "keyed (accounts ?s)" and "\<forall>e \<in> set es. AccountID e \<in> dom (accounts ?s)"
    using Cons.prems aid by (auto simp: keyed_def updateAccountBalance_def)
  moreover have "uuids ?s = Suc (uuids s)" by simp
  ultimately have IH: "postEntries env tid es ?s =
     (?l, ?s\<lparr>accounts := applyNet ?l (accounts ?s), uuids := Suc (uuids s) + length es\<rparr>)"
    using Cons.IH [of ?s] by metis
  have net: "applyNet ?l (accounts ?s) = applyNet (?e # ?l) (accounts s)"
    using a by (auto simp: applyNet_def fun_eq_iff updateAccountBalance_def algebra_simps)
  have "postEntries env tid (e # es) s = (let (l, s') = postEntries env tid es ?s in (?e # l, s'))"
    using a aid by (simp add: newUUID_def updateAccountBalance_def Let_def)
  then show ?case
    unfolding IH net by (simp add: Let_def)
qed

subsection \<open>The outcomes of \<open>createTransaction\<close>\<close>

definition postable ::
  "(string \<rightharpoonup> 'd :: linordered_ab_group_add Account) \<Rightarrow> string \<Rightarrow> 'd EntryRequest list \<Rightarrow> bool" where
  "postable m l es \<longleftrightarrow> valid_request es \<and>
     (\<forall>e \<in> set es. \<exists>a. m (AccountID e) = Some a \<and> a_LedgerID a = l)"

definition postedTx ::
  "'d go_env \<Rightarrow> string \<Rightarrow> 'd EntryRequest list \<Rightarrow> 'd MemoryStore \<Rightarrow> 'd Transaction" where
  "postedTx env l es s =
     \<lparr>t_ID = uuidNew env (uuids s), t_LedgerID = l,
      t_Entries = entryLines env (uuidNew env (uuids s)) (Suc (uuids s)) es,
      t_Timestamp = timeNow env (clock s)\<rparr>"

definition addPosting ::
  "'d :: linordered_ab_group_add Transaction \<Rightarrow> 'd MemoryStore \<Rightarrow> 'd MemoryStore" where
  "addPosting t s =
     s\<lparr>accounts := applyNet (t_Entries t) (accounts s), transactions := transactions s @ [t],
       uuids := Suc (uuids s) + length (t_Entries t), clock := Suc (clock s)\<rparr>"

lemma addPosting_simps [simp]:
  "accounts (addPosting t s) = applyNet (t_Entries t) (accounts s)"
  "transactions (addPosting t s) = transactions s @ [t]"
  "uuids (addPosting t s) = Suc (uuids s) + length (t_Entries t)"
  "clock (addPosting t s) = Suc (clock s)"
  "idempotencyKeys (addPosting t s) = idempotencyKeys s"
  "sagas (addPosting t s) = sagas s"
  "transferKeys (addPosting t s) = transferKeys s"
  "outbox (addPosting t s) = outbox s"
  "clearingAccounts (addPosting t s) = clearingAccounts s"
  "DestinationFailure (addPosting t s) = DestinationFailure s"
  "hookCalls (addPosting t s) = hookCalls s"
  by (simp_all add: addPosting_def)

lemma checkAccounts_None_iff:
  "checkAccounts m es = None \<longleftrightarrow> (\<forall>e \<in> set es. AccountID e \<in> dom m)"
  by (induction es) (auto split: option.splits)

lemma createTransaction_postable:
  assumes "keyed (accounts s)" and "postable (accounts s) l es"
  shows "createTransaction env es s =
    (addPosting (postedTx env l es s) s, Inr (postedTx env l es s))"
proof -
  let ?s = "s\<lparr>uuids := Suc (uuids s), clock := Suc (clock s)\<rparr>"
  have dom: "\<forall>e \<in> set es. AccountID e \<in> dom (accounts s)"
    and led: "\<And>e. e \<in> set es \<Longrightarrow> a_LedgerID (getAccount s (AccountID e)) = l"
    using assms(2) by (auto simp: postable_def map_get_def dom_def split: option.splits)
  have "es \<noteq> []" using assms(2) by (auto simp: postable_def valid_request_def)
  then have hd: "a_LedgerID (getAccount s (AccountID (hd es))) = l"
    and tl: "\<not> list_ex (\<lambda>e. a_LedgerID (getAccount s (AccountID e)) \<noteq> l) (tl es)"
    using led by (auto simp: list_ex_iff dest: list.set_sel(2))
  have "postEntries env (uuidNew env (uuids s)) es ?s =
    (entryLines env (uuidNew env (uuids s)) (Suc (uuids s)) es,
     ?s\<lparr>accounts := applyNet (entryLines env (uuidNew env (uuids s)) (Suc (uuids s)) es) (accounts s),
       uuids := Suc (uuids s) + length es\<rparr>)"
    using postEntries_eq [of ?s es env "uuidNew env (uuids s)"] assms(1) dom by simp
  then show ?thesis
    using assms(2) dom hd tl checkAccounts_None_iff [of "accounts s" es]
      ValidateTransaction_None_iff [of es]
    by (simp add: createTransaction_def newUUID_def now_def postable_def addPosting_def postedTx_def
        Let_def)
qed

lemma createTransaction_not_postable:
  assumes "\<nexists>l. postable (accounts s) l es"
  obtains e u c where "createTransaction env es s = (s\<lparr>uuids := u, clock := c\<rparr>, Inl e)"
    and "u = uuids s \<and> c = clock s \<or> u = Suc (uuids s) \<and> c = Suc (clock s)"
proof (cases "ValidateTransaction es")
  case (Some e)
  then have "createTransaction env es s = (s\<lparr>uuids := uuids s, clock := clock s\<rparr>, Inl e)"
    by (simp add: createTransaction_def)
  then show ?thesis using that by blast
next
  case None
  then have valid: "valid_request es" by (simp add: ValidateTransaction_None_iff)
  let ?s = "s\<lparr>uuids := Suc (uuids s), clock := Suc (clock s)\<rparr>"
  have "\<exists>e. createTransaction env es s = (?s, Inl e)"
  proof (cases "checkAccounts (accounts s) es")
    case (Some e)
    then show ?thesis using None by (simp add: createTransaction_def newUUID_def now_def)
  next
    case dom: None
    let ?l = "a_LedgerID (getAccount s (AccountID (hd es)))"
    have "\<not> postable (accounts s) ?l es" using assms by blast
    with valid dom obtain e where "e \<in> set es" and
      "\<And>a. accounts s (AccountID e) = Some a \<Longrightarrow> a_LedgerID a \<noteq> ?l" "AccountID e \<in> dom (accounts s)"
      unfolding postable_def checkAccounts_None_iff by blast
    then have "\<exists>e \<in> set es. a_LedgerID (getAccount s (AccountID e)) \<noteq> ?l"
      by (intro bexI [of _ e]) auto
    then have "list_ex (\<lambda>e. a_LedgerID (getAccount s (AccountID e)) \<noteq> ?l) (tl es)"
      by (cases es) (auto simp: list_ex_iff)
    then show ?thesis using None dom by (simp add: createTransaction_def newUUID_def now_def)
  qed
  then show ?thesis using that by blast
qed

lemma postable_ledger_unique:
  "postable m l es \<Longrightarrow> postable m l' es \<Longrightarrow> l = l'"
  unfolding postable_def valid_request_def by (cases es) auto

end
