(* ===== verification/Memory_Invariant.thy ===== *)
theory Memory_Invariant
  imports Memory_Store
begin

text \<open>
  The invariant of the in-memory store and the proof that its methods keep it: the journal holds only
  valid, balanced transactions of one ledger each, every account's stored balance is the sum of its
  journal entries, and identifiers refer to what they should. The books of every ledger therefore
  balance to zero.
\<close>

subsection \<open>The books\<close>

definition tx_ok :: "(string \<rightharpoonup> 'd :: linordered_ab_group_add Account) \<Rightarrow> 'd Transaction \<Rightarrow> bool" where
  "tx_ok m t \<longleftrightarrow>
     2 \<le> length (t_Entries t) \<and>
     (\<forall>e \<in> set (t_Entries t).
        ((0 < e_Debit e \<and> e_Credit e = 0) \<or> (e_Debit e = 0 \<and> 0 < e_Credit e)) \<and>
        e_TransactionID e = t_ID t \<and>
        (\<exists>a. m (e_AccountID e) = Some a \<and> a_LedgerID a = t_LedgerID t)) \<and>
     (\<Sum>e\<leftarrow>t_Entries t. e_Debit e) = (\<Sum>e\<leftarrow>t_Entries t. e_Credit e)"

definition books_ok ::
  "(string \<rightharpoonup> 'd :: linordered_ab_group_add Account) \<Rightarrow> 'd Transaction list \<Rightarrow> bool" where
  "books_ok m ts \<longleftrightarrow>
     keyed m \<and> finite (dom m) \<and> (\<forall>t \<in> set ts. tx_ok m t) \<and>
     (\<forall>k a. m k = Some a \<longrightarrow> a_Balance a = net k (concat (map t_Entries ts)))"

definition ledgerAccounts :: "(string \<rightharpoonup> 'd Account) \<Rightarrow> string \<Rightarrow> string set" where
  "ledgerAccounts m l = {k. \<exists>a. m k = Some a \<and> a_LedgerID a = l}"

definition ledgerTotal :: "(string \<rightharpoonup> 'd :: linordered_ab_group_add Account) \<Rightarrow> string \<Rightarrow> 'd" where
  "ledgerTotal m l = (\<Sum>k \<in> ledgerAccounts m l. a_Balance (map_get zeroAccount m k))"

lemma books_ok_empty: "books_ok Map.empty []"
  by (simp add: books_ok_def keyed_def)

lemma tx_ok_extend:
  assumes "tx_ok m t" and "\<And>k a. m k = Some a \<Longrightarrow> \<exists>b. m' k = Some b \<and> a_LedgerID b = a_LedgerID a"
  shows "tx_ok m' t"
  using assms unfolding tx_ok_def by metis

lemma books_ok_journal_accounts:
  assumes "books_ok m ts" and "e \<in> set (concat (map t_Entries ts))"
  shows "e_AccountID e \<in> dom m"
  using assms by (fastforce simp: books_ok_def tx_ok_def)

lemma books_ok_new_account:
  assumes "books_ok m ts" and "m k = None" and "a_ID a = k" and "a_Balance a = 0"
  shows "books_ok (m(k \<mapsto> a)) ts"
proof -
  have "net k (concat (map t_Entries ts)) = 0"
    by (rule net_notin) (metis assms(1,2) books_ok_journal_accounts domIff imageE)
  moreover have "tx_ok (m(k \<mapsto> a)) t" if "t \<in> set ts" for t
    by (rule tx_ok_extend [of m]) (use assms(1,2) that in \<open>auto simp: books_ok_def\<close>)
  ultimately show ?thesis
    using assms by (auto simp: books_ok_def keyed_def)
qed

lemma tx_ok_posted:
  assumes "postable m l es" and "t_LedgerID t = l" and "t_Entries t = entryLines env (t_ID t) n es"
  shows "tx_ok m t"
  unfolding tx_ok_def
proof (intro conjI ballI)
  show "2 \<le> length (t_Entries t)"
    and "(\<Sum>e\<leftarrow>t_Entries t. e_Debit e) = (\<Sum>e\<leftarrow>t_Entries t. e_Credit e)"
    using assms by (simp_all add: postable_def valid_request_def balanced_def)
next
  fix e assume "e \<in> set (t_Entries t)"
  then obtain r where r: "r \<in> set es" "AccountID r = e_AccountID e" "Debit r = e_Debit e"
    "Credit r = e_Credit e" and "e_TransactionID e = t_ID t"
    using assms(3) by (auto dest: entryLines_set)
  then show "e_TransactionID e = t_ID t" by simp
  have "entry_ok r"
    using r assms(1) by (auto simp: postable_def valid_request_def list_all_iff)
  then show "(0 < e_Debit e \<and> e_Credit e = 0) \<or> (e_Debit e = 0 \<and> 0 < e_Credit e)"
    using r by (simp add: entry_ok_def)
  show "\<exists>a. m (e_AccountID e) = Some a \<and> a_LedgerID a = t_LedgerID t"
    using r assms by (auto simp: postable_def)
qed

lemma books_ok_post:
  assumes "books_ok m ts" and "postable m l es"
    and "t_LedgerID t = l" and "t_Entries t = entryLines env (t_ID t) n es"
  shows "books_ok (applyNet (t_Entries t) m) (ts @ [t])"
proof -
  have ext: "tx_ok (applyNet (t_Entries t) m) t'" if "tx_ok m t'" for t'
    using that by (rule tx_ok_extend) (auto simp: applyNet_Some)
  have "tx_ok m t" using assms(2-4) by (rule tx_ok_posted)
  with ext assms(1) have "\<forall>t' \<in> set (ts @ [t]). tx_ok (applyNet (t_Entries t) m) t'"
    by (auto simp: books_ok_def)
  then show ?thesis
    using assms(1) by (auto simp: books_ok_def keyed_applyNet applyNet_Some)
qed

lemma net_sum_tx:
  assumes "tx_ok m t" and "finite (dom m)"
  shows "(\<Sum>k \<in> ledgerAccounts m l. net k (t_Entries t)) = 0"
proof -
  have "finite (ledgerAccounts m l)"
    using assms(2) by (rule finite_subset [rotated]) (auto simp: ledgerAccounts_def)
  then have "(\<Sum>k \<in> ledgerAccounts m l. net k (t_Entries t)) =
      (\<Sum>e\<leftarrow>t_Entries t. if e_AccountID e \<in> ledgerAccounts m l then e_Debit e - e_Credit e else 0)"
    unfolding net_def by (rule sum_keys_list)
  also have "\<dots> = (\<Sum>e\<leftarrow>t_Entries t. if t_LedgerID t = l then e_Debit e - e_Credit e else 0)"
  proof -
    have "e_AccountID e \<in> ledgerAccounts m l \<longleftrightarrow> t_LedgerID t = l" if "e \<in> set (t_Entries t)" for e
      using assms(1) that by (fastforce simp: tx_ok_def ledgerAccounts_def)
    then show ?thesis
      by (intro arg_cong [where f = sum_list] map_cong) auto
  qed
  also have "\<dots> = 0"
    using assms(1) by (cases "t_LedgerID t = l") (simp_all add: tx_ok_def sum_list_diff)
  finally show ?thesis .
qed

lemma net_sum_journal:
  assumes "\<forall>t \<in> set ts. tx_ok m t" and "finite (dom m)"
  shows "(\<Sum>k \<in> ledgerAccounts m l. net k (concat (map t_Entries ts))) = 0"
  using assms by (induction ts) (simp_all add: sum.distrib net_sum_tx)

lemma ledgerTotal_zero:
  assumes "books_ok m ts"
  shows "ledgerTotal m l = 0"
proof -
  have "a_Balance (map_get zeroAccount m k) = net k (concat (map t_Entries ts))"
    if "k \<in> ledgerAccounts m l" for k
    using that assms by (auto simp: ledgerAccounts_def books_ok_def)
  then have "ledgerTotal m l = (\<Sum>k \<in> ledgerAccounts m l. net k (concat (map t_Entries ts)))"
    unfolding ledgerTotal_def by (rule sum.cong [OF refl])
  also have "\<dots> = 0"
    using assms by (intro net_sum_journal) (auto simp: books_ok_def)
  finally show ?thesis .
qed

subsection \<open>Identifiers and keys\<close>

text \<open>What the store relies on of \<open>uuid.New\<close>: it never returns the same identifier twice, nor an empty one.\<close>

definition fresh_ids :: "'d go_env \<Rightarrow> bool" where
  "fresh_ids env \<longleftrightarrow> inj (uuidNew env) \<and> (\<forall>n. uuidNew env n \<noteq> '''')"

definition issued :: "'d go_env \<Rightarrow> nat \<Rightarrow> string set" where
  "issued env n = uuidNew env ` {..<n}"

definition clearing_ok :: "(string \<rightharpoonup> 'd Account) \<Rightarrow> (string \<rightharpoonup> string) \<Rightarrow> bool" where
  "clearing_ok m cl \<longleftrightarrow> (\<forall>l k. cl l = Some k \<longrightarrow>
     (\<exists>a. m k = Some a \<and> a_LedgerID a = l \<and> a_Type a = AssetType))"

definition ids_ok :: "string set \<Rightarrow> 'd MemoryStore \<Rightarrow> bool" where
  "ids_ok I s \<longleftrightarrow>
     distinct (map t_ID (transactions s)) \<and>
     t_ID ` set (transactions s) \<subseteq> I \<and> dom (accounts s) \<subseteq> I \<and>
     (\<forall>k m. idempotencyKeys s k = Some m \<longrightarrow> k_transactionID m \<in> t_ID ` set (transactions s))"

definition store_inv :: "'d go_env \<Rightarrow> 'd :: linordered_ab_group_add MemoryStore \<Rightarrow> bool" where
  "store_inv env s \<longleftrightarrow>
     books_ok (accounts s) (transactions s) \<and> ids_ok (issued env (uuids s)) s \<and>
     clearing_ok (accounts s) (clearingAccounts s)"

lemma clearing_ok_extend:
  assumes "clearing_ok m cl"
    and "\<And>k a. m k = Some a \<Longrightarrow> \<exists>b. m' k = Some b \<and> a_LedgerID b = a_LedgerID a \<and> a_Type b = a_Type a"
  shows "clearing_ok m' cl"
  using assms unfolding clearing_ok_def by metis

lemma ids_ok_mono: "ids_ok I s \<Longrightarrow> I \<subseteq> J \<Longrightarrow> ids_ok J s"
  by (auto simp: ids_ok_def)

lemma issued_mono: "m \<le> n \<Longrightarrow> issued env m \<subseteq> issued env n"
  by (auto simp: issued_def)

lemma fresh_next: "fresh_ids env \<Longrightarrow> m \<le> n \<Longrightarrow> uuidNew env n \<notin> issued env m"
  by (auto simp: fresh_ids_def issued_def dest: injD)

lemma issued_next: "n < m \<Longrightarrow> uuidNew env n \<in> issued env m"
  by (auto simp: issued_def)

lemma store_inv_books: "store_inv env s \<Longrightarrow> books_ok (accounts s) (transactions s)"
  by (simp add: store_inv_def)

lemma store_inv_keyed: "store_inv env s \<Longrightarrow> keyed (accounts s)"
  by (simp add: store_inv_def books_ok_def)

lemma store_inv_NewMemoryStore: "store_inv env NewMemoryStore"
  by (simp add: store_inv_def NewMemoryStore_def books_ok_empty ids_ok_def clearing_ok_def)

text \<open>Fields the invariant does not mention, and counters that grow.\<close>

lemma store_inv_frame [frame]:
  "store_inv env (s\<lparr>sagas := x\<rparr>) = store_inv env s"
  "store_inv env (s\<lparr>transferKeys := y\<rparr>) = store_inv env s"
  "store_inv env (s\<lparr>outbox := z\<rparr>) = store_inv env s"
  "store_inv env (s\<lparr>hookCalls := h\<rparr>) = store_inv env s"
  "store_inv env (s\<lparr>clock := c\<rparr>) = store_inv env s"
  by (simp_all add: store_inv_def ids_ok_def)

lemma store_inv_uuids:
  assumes "store_inv env s" and "uuids s \<le> u"
  shows "store_inv env (s\<lparr>uuids := u\<rparr>)"
  using assms ids_ok_mono [OF _ issued_mono [OF assms(2), of env], of s]
  by (simp add: store_inv_def ids_ok_def)

lemma store_inv_key:
  assumes "store_inv env s" and "k_transactionID m \<in> t_ID ` set (transactions s)"
  shows "store_inv env (s\<lparr>idempotencyKeys := (idempotencyKeys s)(k \<mapsto> m)\<rparr>)"
  using assms by (auto simp: store_inv_def ids_ok_def)

lemma store_inv_next_account:
  assumes "fresh_ids env" and "store_inv env s"
  shows "accounts s (uuidNew env (uuids s)) = None"
  using assms fresh_next [of env "uuids s" "uuids s"] by (auto simp: store_inv_def ids_ok_def)

lemma store_inv_new_account:
  assumes "fresh_ids env" and "store_inv env s" and "a_ID a = uuidNew env (uuids s)"
    and "a_Balance a = 0"
  shows "store_inv env (s\<lparr>uuids := Suc (uuids s), accounts := (accounts s)(a_ID a \<mapsto> a)\<rparr>)"
proof -
  have new: "accounts s (a_ID a) = None"
    using store_inv_next_account [OF assms(1,2)] assms(3) by simp
  then have "books_ok ((accounts s)(a_ID a \<mapsto> a)) (transactions s)"
    using assms by (intro books_ok_new_account) (auto simp: store_inv_def)
  moreover have "clearing_ok ((accounts s)(a_ID a \<mapsto> a)) (clearingAccounts s)"
    using new assms(2) by (auto simp: store_inv_def elim!: clearing_ok_extend)
  moreover have "ids_ok (issued env (Suc (uuids s))) s"
    using assms(2) issued_mono [of "uuids s" "Suc (uuids s)" env]
    by (auto simp: store_inv_def intro: ids_ok_mono)
  ultimately show ?thesis
    using assms(3) by (simp add: store_inv_def ids_ok_def issued_next)
qed

lemma store_inv_addPosting:
  assumes "fresh_ids env" and "store_inv env s" and "postable (accounts s) l es"
  shows "store_inv env (addPosting (postedTx env l es s) s)"
proof -
  let ?t = "postedTx env l es s" and ?s = "addPosting (postedTx env l es s) s"
  have "books_ok (accounts ?s) (transactions ?s)"
    unfolding addPosting_def using assms(2,3)
    by (simp, intro books_ok_post) (auto simp: store_inv_def postedTx_def)
  moreover have "clearing_ok (accounts ?s) (clearingAccounts ?s)"
    using assms(2) by (auto simp: store_inv_def addPosting_def applyNet_Some elim!: clearing_ok_extend)
  moreover have "ids_ok (issued env (uuids ?s)) ?s"
  proof -
    have "t_ID ?t \<notin> t_ID ` set (transactions s)"
      using assms(1,2) fresh_next [of env "uuids s" "uuids s"]
      by (auto simp: store_inv_def ids_ok_def postedTx_def)
    moreover have "t_ID ?t \<in> issued env (uuids ?s)"
      by (simp add: postedTx_def addPosting_def issued_next)
    moreover have "ids_ok (issued env (uuids ?s)) s"
      using assms(2) issued_mono [of "uuids s" "uuids ?s" env]
      by (auto simp: store_inv_def addPosting_def intro: ids_ok_mono)
    ultimately show ?thesis
      by (auto simp: ids_ok_def addPosting_def)
  qed
  ultimately show ?thesis by (simp add: store_inv_def)
qed

subsection \<open>The methods keep the invariant\<close>

lemma CreateAccountInLedger_inv:
  assumes "fresh_ids env" and "store_inv env s"
  shows "store_inv env (fst (CreateAccountInLedger env l name typ s))"
proof (cases "ValidateAccount name typ :: 'a err option")
  case None
  let ?a = "\<lparr>a_ID = uuidNew env (uuids s), a_LedgerID = l, a_Name = name, a_Type = typ,
    a_Balance = 0 :: 'a\<rparr>"
  show ?thesis
    using store_inv_new_account [OF assms, of ?a] None
    by (simp add: CreateAccountInLedger_def newUUID_def Let_def)
qed (simp add: CreateAccountInLedger_def assms)

lemma createTransaction_inv:
  assumes "fresh_ids env" and "store_inv env s"
  shows "store_inv env (fst (createTransaction env es s))"
proof (cases "\<exists>l. postable (accounts s) l es")
  case True
  then obtain l where l: "postable (accounts s) l es" by blast
  show ?thesis
    using createTransaction_postable [OF store_inv_keyed [OF assms(2)] l, of env]
      store_inv_addPosting [OF assms l] by simp
next
  case False
  then obtain e u c where
    "createTransaction env es s = (s\<lparr>uuids := u, clock := c\<rparr>, Inl e)" and "uuids s \<le> u"
    by (metis createTransaction_not_postable le_refl le_SucI)
  then show ?thesis
    using store_inv_uuids [OF assms(2), of u] by (simp add: frame)
qed

lemma store_inv_find:
  assumes "store_inv env s" and "t \<in> set (transactions s)"
  shows "getTransactionByID (t_ID t) s = Inr t"
proof -
  have "find (\<lambda>u. t_ID u = t_ID t) ts = Some t" if "distinct (map t_ID ts)" "t \<in> set ts" for ts
    using that by (induction ts) (auto simp: rev_image_eqI)
  then show ?thesis
    using assms by (simp add: getTransactionByID_def store_inv_def ids_ok_def)
qed

text \<open>A new key: the posting is made, and recorded under the key when there is one.\<close>

definition recordKey ::
  "'d go_env \<Rightarrow> string \<Rightarrow> 'd EntryRequest list \<Rightarrow> 'd Transaction \<Rightarrow> 'd MemoryStore \<Rightarrow> 'd MemoryStore" where
  "recordKey env key es t s =
     (if key \<noteq> '''' then s\<lparr>idempotencyKeys := (idempotencyKeys s)(key \<mapsto>
        \<lparr>k_transactionID = t_ID t, k_checksum = TransactionRequestChecksum env '''' es\<rparr>)\<rparr> else s)"

lemma store_inv_recordKey:
  assumes "store_inv env s" and "t \<in> set (transactions s)"
  shows "store_inv env (recordKey env key es t s)"
  using assms by (simp add: recordKey_def store_inv_key)

lemma CreateTransaction_new:
  assumes "key = '''' \<or> idempotencyKeys s key = None"
  shows "CreateTransaction env key es s =
    (case createTransaction env es s of
       (s', Inl e) \<Rightarrow> (s', Inl e) | (s', Inr t) \<Rightarrow> (recordKey env key es t s', Inr (t, False)))"
  using assms by (auto simp: CreateTransaction_def recordKey_def Let_def split: prod.splits sum.splits)

lemma CreateTransaction_known:
  assumes "store_inv env s" and "key \<noteq> ''''" and "idempotencyKeys s key = Some m"
  shows "CreateTransaction env key es s =
    (s, if k_checksum m \<noteq> TransactionRequestChecksum env '''' es then Inl IdempotencyKeyConflict
        else Inr (the (find (\<lambda>t. t_ID t = k_transactionID m) (transactions s)), True))"
proof -
  have "k_transactionID m \<in> t_ID ` set (transactions s)"
    using assms(1,3) by (simp add: store_inv_def ids_ok_def)
  then obtain t where "t \<in> set (transactions s)" and "k_transactionID m = t_ID t" by blast
  then show ?thesis
    using store_inv_find [OF assms(1), of t] assms(2,3)
    by (auto simp: CreateTransaction_def getTransactionByID_def Let_def split: option.splits)
qed

lemma CreateTransaction_cases [consumes 1, case_names known posted rejected]:
  assumes "store_inv env s"
  obtains (known) m where "key \<noteq> ''''" "idempotencyKeys s key = Some m"
      "CreateTransaction env key es s =
        (s, if k_checksum m \<noteq> TransactionRequestChecksum env '''' es then Inl IdempotencyKeyConflict
            else Inr (the (find (\<lambda>t. t_ID t = k_transactionID m) (transactions s)), True))"
  | (posted) l where "key = '''' \<or> idempotencyKeys s key = None" "postable (accounts s) l es"
      "CreateTransaction env key es s =
        (recordKey env key es (postedTx env l es s) (addPosting (postedTx env l es s) s),
         Inr (postedTx env l es s, False))"
  | (rejected) e u c where "key = '''' \<or> idempotencyKeys s key = None"
      "\<nexists>l. postable (accounts s) l es" "uuids s \<le> u"
      "CreateTransaction env key es s = (s\<lparr>uuids := u, clock := c\<rparr>, Inl e)"
proof (cases "key = '''' \<or> idempotencyKeys s key = None")
  case new: True
  show ?thesis
  proof (cases "\<exists>l. postable (accounts s) l es")
    case True
    then obtain l where l: "postable (accounts s) l es" by blast
    show ?thesis
      using posted [OF new l] CreateTransaction_new [OF new, of env es]
        createTransaction_postable [OF store_inv_keyed [OF assms] l, of env] by simp
  next
    case False
    then obtain e u c where
      "createTransaction env es s = (s\<lparr>uuids := u, clock := c\<rparr>, Inl e)" and "uuids s \<le> u"
      by (metis createTransaction_not_postable le_refl le_SucI)
    then show ?thesis
      using rejected [OF new False, of u c e] CreateTransaction_new [OF new, of env es] by simp
  qed
next
  case False
  then obtain m where m: "key \<noteq> ''''" "idempotencyKeys s key = Some m" by auto
  then show ?thesis using known CreateTransaction_known [OF assms m, of es] by blast
qed

lemma CreateTransaction_inv:
  assumes "fresh_ids env" and "store_inv env s"
  shows "store_inv env (fst (CreateTransaction env key es s))"
  using assms(2)
proof (cases rule: CreateTransaction_cases [where key = key and es = es])
  case (posted l)
  then have "store_inv env (addPosting (postedTx env l es s) s)"
    using store_inv_addPosting [OF assms] by blast
  then show ?thesis
    using posted by (simp add: store_inv_recordKey)
next
  case (rejected e u c)
  then show ?thesis using store_inv_uuids [OF assms(2), of u] by (simp add: frame)
qed (simp add: assms)

subsection \<open>Reading the journal\<close>

lemma collectEntries_eq:
  "collectEntries k es (out, rb) = (out @ filter (\<lambda>e. e_AccountID e = k) es, rb + net k es)"
  by (induction es arbitrary: out rb) (auto simp: algebra_simps)

lemma collectTransactions_eq:
  "collectTransactions k p ts (out, rb) =
     (out @ filter (\<lambda>e. e_AccountID e = k) (concat (map t_Entries (filter (inWindow p) ts))),
      rb + net k (concat (map t_Entries (filter (inWindow p) ts))))"
  by (induction ts arbitrary: out rb) (auto simp: collectEntries_eq algebra_simps)

lemma net_concat: "net k (concat (map f ts)) = (\<Sum>t\<leftarrow>ts. net k (f t))"
  by (induction ts) auto

lemma net_window_sort:
  "net k (concat (map t_Entries (filter P (sort_key g ts)))) =
   net k (concat (map t_Entries (filter P ts)))"
  unfolding net_concat by (rule sum_list_mset_cong) (simp add: filter_sort)

lemma GetAccountEntries_eq:
  "GetAccountEntries k p s = Inr
     \<lparr>Entries = filter (\<lambda>e. e_AccountID e = k)
        (concat (map t_Entries (filter (inWindow p) (sort_key t_Timestamp (transactions s))))),
      RunningBalance = net k (concat (map t_Entries (filter (inWindow p) (transactions s))))\<rparr>"
  by (simp add: GetAccountEntries_def collectTransactions_eq net_window_sort)

end
