(* ===== verification/Memory_Transfer.thy ===== *)
theory Memory_Transfer
  imports Memory_Store
begin

text \<open>
  \<open>internal/ledger/transfer.go\<close>: transfers between ledgers as sagas of the in-memory store. A transfer
  debits a clearing account of the source ledger at once and leaves a \<open>destination_credit\<close> event in the
  outbox; \<open>ProcessOutbox\<close> credits the destination, retries transient failures a bounded number of
  times, and schedules a \<open>compensate_source\<close> event after a permanent one.

  Sagas and outbox events are pointers in Go. A saga is addressed by its key in \<open>sagas\<close>, an event by
  its index in \<open>outbox\<close>; no pointer to either leaves the methods (\<open>CreateTransfer\<close> and \<open>GetTransfer\<close>
  return copies of the response).
\<close>

definition validateTransfer :: "'d :: linordered_ab_group_add TransferRequest \<Rightarrow> 'd err option" where
  "validateTransfer req =
     (if SourceLedgerID req = '''' \<or> SourceAccountID req = '''' \<or> DestinationLedgerID req = ''''
         \<or> DestinationAccountID req = ''''
      then Some TransferEndpointsRequired
      else if IdempotencyKey req = '''' then Some IdempotencyKeyRequired
      else if \<not> 0 < Amount req then Some AmountNotPositive
      else None)"

definition sameTransfer :: "'d TransferResponse \<Rightarrow> 'd TransferRequest \<Rightarrow> bool" where
  "sameTransfer r req \<longleftrightarrow>
     r_SourceLedgerID r = SourceLedgerID req \<and> r_SourceAccountID r = SourceAccountID req
     \<and> r_DestinationLedgerID r = DestinationLedgerID req
     \<and> r_DestinationAccountID r = DestinationAccountID req \<and> r_Amount r = Amount req"

definition clearingAccountLocked ::
  "'d go_env \<Rightarrow> string \<Rightarrow> 'd :: linordered_ab_group_add MemoryStore \<Rightarrow> 'd Account \<times> 'd MemoryStore" where
  "clearingAccountLocked env ledgerID s =
     (case clearingAccounts s ledgerID of
        Some aid \<Rightarrow> (getAccount s aid, s)
      | None \<Rightarrow>
          let (aid, s) = newUUID env s;
              a = \<lparr>a_ID = aid, a_LedgerID = ledgerID, a_Name = ''__transfer_clearing__'',
                   a_Type = AssetType, a_Balance = 0\<rparr>
          in (a, s\<lparr>accounts := (accounts s)(a_ID a \<mapsto> a),
                   clearingAccounts := (clearingAccounts s)(ledgerID \<mapsto> a_ID a)\<rparr>))"

definition creditLine :: "string \<Rightarrow> 'd :: zero \<Rightarrow> 'd EntryRequest" where
  "creditLine account amount = \<lparr>AccountID = account, Credit = amount, Debit = 0\<rparr>"

definition debitLine :: "string \<Rightarrow> 'd :: zero \<Rightarrow> 'd EntryRequest" where
  "debitLine account amount = \<lparr>AccountID = account, Credit = 0, Debit = amount\<rparr>"

definition CreateTransfer ::
  "'d go_env \<Rightarrow> 'd TransferRequest \<Rightarrow> 'd :: linordered_ab_group_add MemoryStore
     \<Rightarrow> 'd MemoryStore \<times> ('d err, 'd TransferResponse \<times> bool) res" where
  "CreateTransfer env req s =
     (case validateTransfer req of
        Some e \<Rightarrow> (s, Inl e)
      | None \<Rightarrow>
        (case transferKeys s (IdempotencyKey req) of
           Some sid \<Rightarrow>
             (case sagas s sid of
                None \<Rightarrow> (s, Inl NilDereference)
              | Some saga \<Rightarrow>
                  if \<not> sameTransfer (s_response saga) req then (s, Inl TransferIdempotencyConflict)
                  else (s, Inr (s_response saga, True)))
         | None \<Rightarrow>
          (case accounts s (SourceAccountID req) of
             None \<Rightarrow> (s, Inl SourceNotInLedger)
           | Some source \<Rightarrow>
             if a_LedgerID source \<noteq> SourceLedgerID req then (s, Inl SourceNotInLedger)
             else
          (case accounts s (DestinationAccountID req) of
             None \<Rightarrow> (s, Inl DestinationNotInLedger)
           | Some destination \<Rightarrow>
             if a_LedgerID destination \<noteq> DestinationLedgerID req
             then (s, Inl DestinationNotInLedger)
             else if SourceLedgerID req = DestinationLedgerID req then (s, Inl SameLedger)
             else if displayedBalanceAfter (a_Type source) (a_Balance source) 0 (Amount req) < 0
             then (s, Inl InsufficientFunds)
                else
                  let (clearing, s) = clearingAccountLocked env (SourceLedgerID req) s
                  in case createTransaction env
                            [creditLine (a_ID source) (Amount req),
                             debitLine (a_ID clearing) (Amount req)] s of
                       (s, Inl e) \<Rightarrow> (s, Inl e)
                     | (s, Inr debit) \<Rightarrow>
                         let (t, s) = now env s;
                             (sid, s) = newUUID env s;
                             response =
                               \<lparr>r_ID = sid, r_SourceLedgerID = SourceLedgerID req,
                                r_SourceAccountID = SourceAccountID req,
                                r_DestinationLedgerID = DestinationLedgerID req,
                                r_DestinationAccountID = DestinationAccountID req,
                                r_Amount = Amount req, r_Status = TransferPending,
                                r_CreatedAt = t, r_UpdatedAt = t\<rparr>;
                             saga = \<lparr>s_response = response, sourceTransactionID = t_ID debit,
                                     destinationTransactionID = '''',
                                     compensationTransactionID = ''''\<rparr>;
                             (evid, s) = newUUID env s;
                             event = \<lparr>ev_id = evid, ev_sagaID = sid, ev_step = ''destination_credit'',
                                      ev_attempts = 0, ev_nextAttempt = t, ev_processed = False\<rparr>
                         in (s\<lparr>sagas := (sagas s)(sid \<mapsto> saga),
                               transferKeys := (transferKeys s)(IdempotencyKey req \<mapsto> sid),
                               outbox := outbox s @ [event]\<rparr>,
                             Inr (response, False))))))"

definition GetTransfer :: "string \<Rightarrow> 'd MemoryStore \<Rightarrow> ('d err, 'd TransferResponse) res" where
  "GetTransfer sid s =
     (case sagas s sid of None \<Rightarrow> Inl (TransferNotFound sid) | Some saga \<Rightarrow> Inr (s_response saga))"

subsection \<open>Processing one event\<close>

definition setStatus :: "TransferStatus \<Rightarrow> 'd memorySaga \<Rightarrow> 'd memorySaga" where
  "setStatus st saga = saga\<lparr>s_response := (s_response saga)\<lparr>r_Status := st\<rparr>\<rparr>"

definition setUpdatedAt :: "time \<Rightarrow> 'd memorySaga \<Rightarrow> 'd memorySaga" where
  "setUpdatedAt t saga = saga\<lparr>s_response := (s_response saga)\<lparr>r_UpdatedAt := t\<rparr>\<rparr>"

definition putSaga :: "string \<Rightarrow> 'd memorySaga \<Rightarrow> 'd MemoryStore \<Rightarrow> 'd MemoryStore" where
  "putSaga sid saga s = s\<lparr>sagas := (sagas s)(sid \<mapsto> saga)\<rparr>"

definition sagaRequest :: "'d memorySaga \<Rightarrow> 'd TransferRequest" where
  "sagaRequest saga =
     \<lparr>SourceLedgerID = r_SourceLedgerID (s_response saga),
      SourceAccountID = r_SourceAccountID (s_response saga),
      DestinationLedgerID = r_DestinationLedgerID (s_response saga),
      DestinationAccountID = r_DestinationAccountID (s_response saga),
      Amount = r_Amount (s_response saga), IdempotencyKey = ''''\<rparr>"

definition callHook ::
  "'d TransferRequest \<Rightarrow> 'd MemoryStore \<Rightarrow> 'd err option \<times> 'd MemoryStore" where
  "callHook req s =
     (case DestinationFailure s of
        None \<Rightarrow> (None, s)
      | Some f \<Rightarrow> (f (hookCalls s) req, s\<lparr>hookCalls := Suc (hookCalls s)\<rparr>))"

text \<open>The leg that both steps post: debit an account of a ledger, credit its clearing account.\<close>

definition postLegMem ::
  "'d go_env \<Rightarrow> string \<Rightarrow> string \<Rightarrow> 'd \<Rightarrow> 'd :: linordered_ab_group_add MemoryStore
     \<Rightarrow> 'd MemoryStore \<times> ('d err, 'd Transaction) res" where
  "postLegMem env ledgerID account amount s =
     (let (clearing, s) = clearingAccountLocked env ledgerID s
      in createTransaction env [debitLine account amount, creditLine (a_ID clearing) amount] s)"

definition processEventLocked ::
  "'d go_env \<Rightarrow> memoryOutboxEvent \<Rightarrow> 'd :: linordered_ab_group_add MemoryStore
     \<Rightarrow> 'd MemoryStore \<times> 'd err option" where
  "processEventLocked env event s =
     (case sagas s (ev_sagaID event) of
        None \<Rightarrow> (s, Some NilDereference)
      | Some saga \<Rightarrow>
        let req = sagaRequest saga
        in if ev_step event = ''destination_credit'' then
             if destinationTransactionID saga \<noteq> ''''
             then (putSaga (ev_sagaID event) (setStatus TransferCompleted saga) s, None)
             else (case callHook req s of
                 (Some e, s) \<Rightarrow> (s, Some e)
               | (None, s) \<Rightarrow>
                   (case postLegMem env (DestinationLedgerID req) (DestinationAccountID req)
                           (Amount req) s of
                      (s, Inl e) \<Rightarrow> (s, Some e)
                    | (s, Inr tx) \<Rightarrow>
                        let (t, s) = now env s
                        in (putSaga (ev_sagaID event)
                              (setUpdatedAt t (setStatus TransferCompleted
                                (saga\<lparr>destinationTransactionID := t_ID tx\<rparr>))) s, None)))
           else if ev_step event = ''compensate_source'' then
             if compensationTransactionID saga \<noteq> ''''
             then (putSaga (ev_sagaID event) (setStatus TransferCompensated saga) s, None)
             else (case postLegMem env (SourceLedgerID req) (SourceAccountID req) (Amount req) s of
                 (s, Inl e) \<Rightarrow> (s, Some e)
               | (s, Inr tx) \<Rightarrow>
                   let (t, s) = now env s
                   in (putSaga (ev_sagaID event)
                         (setUpdatedAt t (setStatus TransferCompensated
                           (saga\<lparr>compensationTransactionID := t_ID tx\<rparr>))) s, None))
           else (s, Some (UnknownOutboxStep (ev_step event))))"

subsection \<open>The worker loop\<close>

fun isTransient :: "'d err \<Rightarrow> bool" where
  "isTransient (HookError transient _) = transient"
| "isTransient _ = False"

definition readyEvent :: "time \<Rightarrow> memoryOutboxEvent \<Rightarrow> bool" where
  "readyEvent t candidate \<longleftrightarrow> \<not> ev_processed candidate \<and> \<not> ev_nextAttempt candidate > t"

fun findIndex :: "('a \<Rightarrow> bool) \<Rightarrow> 'a list \<Rightarrow> nat option" where
  "findIndex P [] = None"
| "findIndex P (x # xs) = (if P x then Some 0 else map_option Suc (findIndex P xs))"

definition retryDelay :: "nat \<Rightarrow> int" where
  "retryDelay attempts = 2 ^ (attempts - 1) * 10 * 1000000"

definition updateEvent ::
  "nat \<Rightarrow> (memoryOutboxEvent \<Rightarrow> memoryOutboxEvent) \<Rightarrow> 'd MemoryStore \<Rightarrow> 'd MemoryStore" where
  "updateEvent i f s = s\<lparr>outbox := (outbox s)[i := f (outbox s ! i)]\<rparr>"

datatype 'd iteration = Idle | Progress | Stop "'d err"

text \<open>
  One iteration of the loop of \<open>ProcessOutbox\<close>, from \<open>Lock\<close> to \<open>Unlock\<close>: \<open>Idle\<close> when no event is
  ready (the loop breaks), \<open>Progress\<close> when \<open>processed\<close> is incremented, \<open>Stop\<close> when the method
  returns the error.
\<close>

definition outboxIteration ::
  "'d go_env \<Rightarrow> 'd :: linordered_ab_group_add MemoryStore \<Rightarrow> 'd MemoryStore \<times> 'd iteration" where
  "outboxIteration env s =
     (let (t, s) = now env s
      in case findIndex (readyEvent t) (outbox s) of
           None \<Rightarrow> (s, Idle)
         | Some i \<Rightarrow>
             (case sagas s (ev_sagaID (outbox s ! i)) of
                None \<Rightarrow> (s, Stop NilDereference) \<comment> \<open>\<open>processEventLocked\<close> reads through the nil saga\<close>
              | Some _ \<Rightarrow>
             (case processEventLocked env (outbox s ! i) s of
                (s, None) \<Rightarrow> (updateEvent i (\<lambda>e. e\<lparr>ev_processed := True\<rparr>) s, Progress)
              | (s, Some err) \<Rightarrow>
                  let s = updateEvent i (\<lambda>e. e\<lparr>ev_attempts := Suc (ev_attempts e)\<rparr>) s;
                      event = outbox s ! i
                  in if isTransient err \<and> ev_attempts event < 5
                     then (updateEvent i
                             (\<lambda>e. e\<lparr>ev_nextAttempt := t + retryDelay (ev_attempts e)\<rparr>) s, Progress)
                     else if ev_step event = ''destination_credit''
                     then (case sagas s (ev_sagaID event) of
                             None \<Rightarrow> (s, Stop NilDereference)
                           | Some saga \<Rightarrow>
                               let s = putSaga (ev_sagaID event)
                                         (setUpdatedAt t (setStatus TransferFailed saga)) s;
                                   s = updateEvent i (\<lambda>e. e\<lparr>ev_processed := True\<rparr>) s;
                                   (evid, s) = newUUID env s;
                                   compensation =
                                     \<lparr>ev_id = evid, ev_sagaID = ev_sagaID event,
                                      ev_step = ''compensate_source'', ev_attempts = 0,
                                      ev_nextAttempt = t, ev_processed = False\<rparr>
                               in (s\<lparr>outbox := outbox s @ [compensation]\<rparr>, Progress))
                     else (s, Stop err))))"

fun outboxLoop ::
  "'d go_env \<Rightarrow> nat \<Rightarrow> nat \<Rightarrow> 'd :: linordered_ab_group_add MemoryStore
     \<Rightarrow> 'd MemoryStore \<times> nat \<times> 'd err option" where
  "outboxLoop env 0 processed s = (s, processed, None)"
| "outboxLoop env (Suc remaining) processed s =
     (case outboxIteration env s of
        (s, Idle) \<Rightarrow> (s, processed, None)
      | (s, Progress) \<Rightarrow> outboxLoop env remaining (Suc processed) s
      | (s, Stop e) \<Rightarrow> (s, processed, Some e))"

definition ProcessOutbox ::
  "'d go_env \<Rightarrow> int \<Rightarrow> 'd :: linordered_ab_group_add MemoryStore
     \<Rightarrow> 'd MemoryStore \<times> nat \<times> 'd err option" where
  "ProcessOutbox env limit s =
     (let limit = (if limit \<le> 0 then 100 else limit) in outboxLoop env (nat limit) 0 s)"

end
