(* ===== verification/Memory_Saga.thy ===== *)
theory Memory_Saga
  imports Memory_Invariant Memory_Transfer
begin

text \<open>
  The transfer sagas of the in-memory store: what a saga's status says about its postings and its
  outbox events, that every method keeps this, and the consequences: postings of a saga never fail,
  a saga is never both completed and compensated, and no transfer is forgotten.
\<close>

subsection \<open>Growth of the books\<close>

definition grows :: "'d MemoryStore \<Rightarrow> 'd MemoryStore \<Rightarrow> bool" where
  "grows s s' \<longleftrightarrow>
     (\<forall>k a. accounts s k = Some a \<longrightarrow>
        (\<exists>b. accounts s' k = Some b \<and> a_LedgerID b = a_LedgerID a \<and> a_Type b = a_Type a)) \<and>
     set (transactions s) \<subseteq> set (transactions s') \<and>
     clearingAccounts s \<subseteq>\<^sub>m clearingAccounts s' \<and> uuids s \<le> uuids s'"

definition saga_frame :: "'d MemoryStore \<Rightarrow> 'd MemoryStore \<Rightarrow> bool" where
  "saga_frame s s' \<longleftrightarrow> sagas s' = sagas s \<and> transferKeys s' = transferKeys s \<and> outbox s' = outbox s
     \<and> DestinationFailure s' = DestinationFailure s \<and> hookCalls s' = hookCalls s
     \<and> idempotencyKeys s' = idempotencyKeys s"

lemma grows_refl [simp]: "grows s s"
  by (simp add: grows_def)

lemma grows_trans: "grows s s' \<Longrightarrow> grows s' s'' \<Longrightarrow> grows s s''"
  unfolding grows_def by (intro conjI; (meson map_le_trans order_trans subset_trans)?; metis)

lemma saga_frame_refl [simp]: "saga_frame s s"
  by (simp add: saga_frame_def)

lemma saga_frame_trans: "saga_frame s s' \<Longrightarrow> saga_frame s' s'' \<Longrightarrow> saga_frame s s''"
  by (simp add: saga_frame_def)

lemma grows_fields [frame]:
  "grows s (s'\<lparr>sagas := x\<rparr>) = grows s s'"
  "grows s (s'\<lparr>transferKeys := y\<rparr>) = grows s s'"
  "grows s (s'\<lparr>outbox := z\<rparr>) = grows s s'"
  "grows s (s'\<lparr>hookCalls := h\<rparr>) = grows s s'"
  "grows s (s'\<lparr>clock := c\<rparr>) = grows s s'"
  "grows s (s'\<lparr>idempotencyKeys := i\<rparr>) = grows s s'"
  "grows s (s'\<lparr>DestinationFailure := d\<rparr>) = grows s s'"
  by (simp_all add: grows_def)

lemma grows_uuids: "grows s s' \<Longrightarrow> uuids s' \<le> u \<Longrightarrow> grows s (s'\<lparr>uuids := u\<rparr>)"
  by (auto simp: grows_def)

lemma grows_addPosting: "grows s (addPosting t s)"
  by (auto simp: grows_def applyNet_Some)

subsection \<open>Clearing accounts and legs\<close>

lemma clearingAccountLocked_all:
  assumes "fresh_ids env" and "store_inv env s"
    and "clearingAccountLocked env l s = (c, s')"
  shows "store_inv env s' \<and> grows s s' \<and> saga_frame s s' \<and> accounts s' (a_ID c) = Some c \<and>
    a_LedgerID c = l \<and> clearingAccounts s' l = Some (a_ID c) \<and> transactions s' = transactions s \<and>
    (\<forall>k a. accounts s k = Some a \<longrightarrow> accounts s' k = Some a)"
proof (cases "clearingAccounts s l")
  case (Some k)
  then obtain a where "accounts s k = Some a" "a_LedgerID a = l"
    using assms(2) by (auto simp: store_inv_def clearing_ok_def)
  then show ?thesis
    using assms Some keyedD [OF store_inv_keyed [OF assms(2)]]
    by (auto simp: clearingAccountLocked_def)
next
  case None
  let ?a = "\<lparr>a_ID = uuidNew env (uuids s), a_LedgerID = l, a_Name = ''__transfer_clearing__'',
    a_Type = AssetType, a_Balance = 0 :: 'a\<rparr>"
  let ?s = "s\<lparr>uuids := Suc (uuids s), accounts := (accounts s)(a_ID ?a \<mapsto> ?a)\<rparr>"
  have new: "accounts s (a_ID ?a) = None"
    using store_inv_next_account [OF assms(1,2)] by simp
  have "store_inv env ?s" by (rule store_inv_new_account [OF assms(1,2)]) simp_all
  then have inv: "store_inv env (?s\<lparr>clearingAccounts := (clearingAccounts s)(l \<mapsto> a_ID ?a)\<rparr>)"
    by (simp add: store_inv_def clearing_ok_def ids_ok_def)
  have "grows s (?s\<lparr>clearingAccounts := (clearingAccounts s)(l \<mapsto> a_ID ?a)\<rparr>)"
    using new None by (auto simp: grows_def map_le_def dom_def)
  then show ?thesis
    using assms(3) inv None new
    by (auto simp: clearingAccountLocked_def newUUID_def saga_frame_def Let_def)
qed

lemma clearingAccountLocked_ok:
  assumes "fresh_ids env" and "store_inv env s"
    and "clearingAccountLocked env l s = (c, s')"
  shows "store_inv env s'" and "grows s s'" and "saga_frame s s'"
    and "accounts s' (a_ID c) = Some c" and "a_LedgerID c = l"
    and "clearingAccounts s' l = Some (a_ID c)" and "transactions s' = transactions s"
    and "\<And>k a. accounts s k = Some a \<Longrightarrow> accounts s' k = Some a"
  using clearingAccountLocked_all [OF assms] by blast+

text \<open>The lines of a posted transaction, without the identifiers.\<close>

definition tx_lines :: "'d Transaction \<Rightarrow> (string \<times> 'd \<times> 'd) list" where
  "tx_lines t = map (\<lambda>e. (e_AccountID e, e_Debit e, e_Credit e)) (t_Entries t)"

definition request_lines :: "'d EntryRequest list \<Rightarrow> (string \<times> 'd \<times> 'd) list" where
  "request_lines es = map (\<lambda>e. (AccountID e, Debit e, Credit e)) es"

lemma entryLines_lines:
  "map (\<lambda>e. (e_AccountID e, e_Debit e, e_Credit e)) (entryLines env tid n es) = request_lines es"
  by (induction es arbitrary: n) (auto simp: request_lines_def)

lemma tx_lines_postedTx [simp]: "tx_lines (postedTx env l es s) = request_lines es"
  by (simp add: tx_lines_def postedTx_def entryLines_lines)

text \<open>
  A two-line transfer of a positive amount between an account of the ledger and the ledger's clearing
  account always posts.
\<close>

lemma leg_posts:
  assumes env: "fresh_ids env" and inv: "store_inv env s" and "0 < amount"
    and acc: "accounts s k = Some a" "a_LedgerID a = l"
    and c: "clearingAccountLocked env l s = (c, s1)"
    and es: "es = [debitLine k amount, creditLine (a_ID c) amount]
      \<or> es = [creditLine k amount, debitLine (a_ID c) amount]"
  obtains s2 t where "createTransaction env es s1 = (s2, Inr t)" and "store_inv env s2"
    and "grows s s2" and "saga_frame s s2" and "clearingAccounts s2 l = Some (a_ID c)"
    and "t \<in> set (transactions s2)" and "t_ID t \<noteq> ''''" and "t_LedgerID t = l"
    and "tx_lines t = request_lines es" and "transactions s2 = transactions s @ [t]"
    and "accounts s2 = applyNet (t_Entries t) (accounts s1)"
proof -
  note cl = clearingAccountLocked_ok [OF env inv c]
  have "postable (accounts s1) l es"
    using es cl(4,5,8) acc assms(3)
    by (auto simp: postable_def valid_request_def balanced_def entry_ok_def debitLine_def creditLine_def)
  note post = createTransaction_postable [OF store_inv_keyed [OF cl(1)] this, of env]
    store_inv_addPosting [OF env cl(1) this]
  show ?thesis
    using that [of "addPosting (postedTx env l es s1) s1" "postedTx env l es s1"] post env cl
      grows_trans [OF cl(2) grows_addPosting]
    by (simp add: saga_frame_def fresh_ids_def) (simp add: postedTx_def)
qed

subsection \<open>The saga invariant\<close>

text \<open>
  \<open>leg_posted s tid l k amount side\<close>: the transaction \<open>tid\<close> is in the journal, belongs to ledger \<open>l\<close>,
  and moves \<open>amount\<close> between account \<open>k\<close> and the ledger's clearing account; \<open>side\<close> says whether
  \<open>k\<close> is debited.
\<close>

definition leg_posted ::
  "'d :: linordered_ab_group_add MemoryStore \<Rightarrow> string \<Rightarrow> string \<Rightarrow> string \<Rightarrow> 'd \<Rightarrow> bool \<Rightarrow> bool" where
  "leg_posted s tid l k amount debited \<longleftrightarrow>
     (\<exists>t \<in> set (transactions s). \<exists>c. t_ID t = tid \<and> t_LedgerID t = l \<and>
        clearingAccounts s l = Some c \<and>
        tx_lines t = request_lines
          (if debited then [debitLine k amount, creditLine c amount]
           else [creditLine k amount, debitLine c amount]))"

definition account_in :: "'d MemoryStore \<Rightarrow> string \<Rightarrow> string \<Rightarrow> bool" where
  "account_in s k l \<longleftrightarrow> (\<exists>a. accounts s k = Some a \<and> a_LedgerID a = l)"

definition saga_data_ok :: "'d :: linordered_ab_group_add MemoryStore \<Rightarrow> string \<Rightarrow> 'd memorySaga \<Rightarrow> bool" where
  "saga_data_ok s sid g \<longleftrightarrow>
     (let r = s_response g in
      r_ID r = sid \<and> 0 < r_Amount r \<and>
      account_in s (r_SourceAccountID r) (r_SourceLedgerID r) \<and>
      account_in s (r_DestinationAccountID r) (r_DestinationLedgerID r) \<and>
      leg_posted s (sourceTransactionID g) (r_SourceLedgerID r) (r_SourceAccountID r) (r_Amount r) False \<and>
      (destinationTransactionID g \<noteq> '''' \<longrightarrow>
         leg_posted s (destinationTransactionID g) (r_DestinationLedgerID r)
           (r_DestinationAccountID r) (r_Amount r) True) \<and>
      (compensationTransactionID g \<noteq> '''' \<longrightarrow>
         leg_posted s (compensationTransactionID g) (r_SourceLedgerID r)
           (r_SourceAccountID r) (r_Amount r) True))"

definition events_of :: "string \<Rightarrow> memoryOutboxEvent list \<Rightarrow> memoryOutboxEvent list" where
  "events_of sid evs = filter (\<lambda>e. ev_sagaID e = sid) evs"

text \<open>How status, recorded postings and events of a saga go together.\<close>

definition credit_event :: "bool \<Rightarrow> memoryOutboxEvent \<Rightarrow> bool" where
  "credit_event done e \<longleftrightarrow> ev_step e = ''destination_credit'' \<and> ev_processed e = done"

definition comp_event :: "bool \<Rightarrow> memoryOutboxEvent \<Rightarrow> bool" where
  "comp_event done e \<longleftrightarrow> ev_step e = ''compensate_source'' \<and> ev_processed e = done"

definition saga_phase :: "'d memorySaga \<Rightarrow> memoryOutboxEvent list \<Rightarrow> bool" where
  "saga_phase g evs \<longleftrightarrow>
     (case r_Status (s_response g) of
        TransferPending \<Rightarrow>
          destinationTransactionID g = '''' \<and> compensationTransactionID g = '''' \<and>
          (\<exists>e. evs = [e] \<and> credit_event False e \<and> ev_attempts e < 5)
      | TransferCompleted \<Rightarrow>
          destinationTransactionID g \<noteq> '''' \<and> compensationTransactionID g = '''' \<and>
          (\<exists>e. evs = [e] \<and> credit_event True e)
      | TransferFailed \<Rightarrow>
          destinationTransactionID g = '''' \<and> compensationTransactionID g = '''' \<and>
          (\<exists>e e'. evs = [e, e'] \<and> credit_event True e \<and> comp_event False e')
      | TransferCompensated \<Rightarrow>
          destinationTransactionID g = '''' \<and> compensationTransactionID g \<noteq> '''' \<and>
          (\<exists>e e'. evs = [e, e'] \<and> credit_event True e \<and> comp_event True e'))"

definition saga_inv :: "'d go_env \<Rightarrow> 'd :: linordered_ab_group_add MemoryStore \<Rightarrow> bool" where
  "saga_inv env s \<longleftrightarrow>
     store_inv env s \<and>
     (\<forall>sid g. sagas s sid = Some g \<longrightarrow> saga_data_ok s sid g \<and> saga_phase g (events_of sid (outbox s))) \<and>
     (\<forall>e \<in> set (outbox s). ev_sagaID e \<in> dom (sagas s)) \<and>
     dom (sagas s) \<subseteq> issued env (uuids s) \<and>
     ran (transferKeys s) = dom (sagas s) \<and> inj_on (transferKeys s) (dom (transferKeys s))"

lemma saga_inv_NewMemoryStore: "saga_inv env NewMemoryStore"
  using store_inv_NewMemoryStore [of env] by (auto simp: saga_inv_def NewMemoryStore_def)

lemma leg_posted_grows: "leg_posted s tid l k x b \<Longrightarrow> grows s s' \<Longrightarrow> leg_posted s' tid l k x b"
  unfolding leg_posted_def grows_def map_le_def by (metis domI subsetD)

lemma account_in_grows: "account_in s k l \<Longrightarrow> grows s s' \<Longrightarrow> account_in s' k l"
  unfolding account_in_def grows_def by metis

lemma saga_data_ok_grows: "saga_data_ok s sid g \<Longrightarrow> grows s s' \<Longrightarrow> saga_data_ok s' sid g"
  unfolding saga_data_ok_def Let_def by (meson account_in_grows leg_posted_grows)

text \<open>Steps that only grow the books keep the saga invariant.\<close>

lemma saga_inv_grows:
  assumes "saga_inv env s" and "store_inv env s'" and "grows s s'"
    and "sagas s' = sagas s" "outbox s' = outbox s" "transferKeys s' = transferKeys s"
  shows "saga_inv env s'"
  using assms saga_data_ok_grows [OF _ assms(3)] issued_mono [of "uuids s" "uuids s'" env]
  unfolding saga_inv_def grows_def by (auto 4 3)

text \<open>Changing one saga and its events, or adding a saga under a new key.\<close>

lemma saga_inv_update:
  assumes inv: "saga_inv env s" and "store_inv env s'" and grows: "grows s s'"
    and sagas: "sagas s' = (sagas s)(sid \<mapsto> g)" and "saga_data_ok s' sid g"
    and "saga_phase g (events_of sid (outbox s'))"
    and others: "\<And>x. x \<noteq> sid \<Longrightarrow> events_of x (outbox s') = events_of x (outbox s)"
    and "sid \<in> issued env (uuids s')"
    and keys: "transferKeys s' = transferKeys s \<and> sid \<in> dom (sagas s) \<or>
      (\<exists>k. transferKeys s k = None \<and> transferKeys s' = (transferKeys s)(k \<mapsto> sid) \<and> sid \<notin> dom (sagas s))"
  shows "saga_inv env s'"
  unfolding saga_inv_def
proof (intro conjI allI impI ballI)
  fix x h assume "sagas s' x = Some h"
  then show "saga_data_ok s' x h" and "saga_phase h (events_of x (outbox s'))"
    using assms saga_data_ok_grows [OF _ grows] by (auto simp: saga_inv_def split: if_splits)
next
  fix e assume e: "e \<in> set (outbox s')"
  show "ev_sagaID e \<in> dom (sagas s')"
  proof (cases "ev_sagaID e = sid")
    case False
    have "e \<in> set (events_of (ev_sagaID e) (outbox s'))" using e by (simp add: events_of_def)
    with others [OF False] have "e \<in> set (events_of (ev_sagaID e) (outbox s))" by simp
    then show ?thesis using inv by (auto simp: saga_inv_def events_of_def sagas)
  qed (simp add: sagas)
next
  show "dom (sagas s') \<subseteq> issued env (uuids s')"
    using assms issued_mono [of "uuids s" "uuids s'" env] by (auto simp: saga_inv_def grows_def)
  from keys show "ran (transferKeys s') = dom (sagas s')"
    using inv by (auto simp: saga_inv_def sagas)
  have "inj_on (transferKeys s) (dom (transferKeys s))" "ran (transferKeys s) = dom (sagas s)"
    using inv by (simp_all add: saga_inv_def)
  with keys show "inj_on (transferKeys s') (dom (transferKeys s'))"
    by (metis inj_on_map_upd)
qed (rule assms)

lemma saga_inv_store: "saga_inv env s \<Longrightarrow> store_inv env s"
  by (simp add: saga_inv_def)

subsection \<open>Accounts and transactions keep it\<close>

lemma CreateAccountInLedger_grows:
  assumes "fresh_ids env" and "store_inv env s"
  shows "grows s (fst (CreateAccountInLedger env l name ty s))"
    and "saga_frame s (fst (CreateAccountInLedger env l name ty s))"
  using store_inv_next_account [OF assms]
  by (auto simp: CreateAccountInLedger_def newUUID_def grows_def saga_frame_def Let_def
      split: option.splits)

lemma CreateTransaction_grows:
  assumes "store_inv env s"
  shows "grows s (fst (CreateTransaction env key es s))"
    and "sagas (fst (CreateTransaction env key es s)) = sagas s"
    and "outbox (fst (CreateTransaction env key es s)) = outbox s"
    and "transferKeys (fst (CreateTransaction env key es s)) = transferKeys s"
  using assms
  by (cases rule: CreateTransaction_cases [where key = key and es = es];
      simp add: recordKey_def frame grows_addPosting grows_uuids)+

lemma CreateAccountInLedger_saga_inv:
  assumes "fresh_ids env" and "saga_inv env s"
  shows "saga_inv env (fst (CreateAccountInLedger env l name ty s))"
  using CreateAccountInLedger_grows [OF assms(1) saga_inv_store [OF assms(2)], of l name ty]
    CreateAccountInLedger_inv [OF assms(1) saga_inv_store [OF assms(2)], of l name ty]
  by (intro saga_inv_grows [OF assms(2)]) (auto simp: saga_frame_def)

lemma CreateTransaction_saga_inv:
  assumes "fresh_ids env" and "saga_inv env s"
  shows "saga_inv env (fst (CreateTransaction env key es s))"
  by (rule saga_inv_grows [OF assms(2)])
    (simp_all add: CreateTransaction_inv CreateTransaction_grows assms saga_inv_store)

subsection \<open>Opening a transfer\<close>

definition transferable :: "'d :: linordered_ab_group_add MemoryStore \<Rightarrow> 'd TransferRequest \<Rightarrow> 'd Account \<Rightarrow> bool" where
  "transferable s req source \<longleftrightarrow>
     validateTransfer req = None \<and> transferKeys s (IdempotencyKey req) = None \<and>
     accounts s (SourceAccountID req) = Some source \<and> a_LedgerID source = SourceLedgerID req \<and>
     account_in s (DestinationAccountID req) (DestinationLedgerID req) \<and>
     SourceLedgerID req \<noteq> DestinationLedgerID req \<and>
     0 \<le> displayedBalanceAfter (a_Type source) (a_Balance source) 0 (Amount req)"

definition newResponse :: "'d go_env \<Rightarrow> 'd TransferRequest \<Rightarrow> 'd MemoryStore \<Rightarrow> 'd TransferResponse" where
  "newResponse env req s =
     \<lparr>r_ID = uuidNew env (uuids s), r_SourceLedgerID = SourceLedgerID req,
      r_SourceAccountID = SourceAccountID req, r_DestinationLedgerID = DestinationLedgerID req,
      r_DestinationAccountID = DestinationAccountID req, r_Amount = Amount req,
      r_Status = TransferPending, r_CreatedAt = timeNow env (clock s),
      r_UpdatedAt = timeNow env (clock s)\<rparr>"

definition newSaga :: "'d TransferResponse \<Rightarrow> string \<Rightarrow> 'd memorySaga" where
  "newSaga r tid = \<lparr>s_response = r, sourceTransactionID = tid, destinationTransactionID = '''',
     compensationTransactionID = ''''\<rparr>"

definition newEvent :: "'d go_env \<Rightarrow> 'd MemoryStore \<Rightarrow> memoryOutboxEvent" where
  "newEvent env s = \<lparr>ev_id = uuidNew env (Suc (uuids s)), ev_sagaID = uuidNew env (uuids s),
     ev_step = ''destination_credit'', ev_attempts = 0, ev_nextAttempt = timeNow env (clock s),
     ev_processed = False\<rparr>"

definition openSaga :: "'d go_env \<Rightarrow> 'd TransferRequest \<Rightarrow> string \<Rightarrow> 'd MemoryStore \<Rightarrow> 'd MemoryStore" where
  "openSaga env req tid s =
     s\<lparr>clock := Suc (clock s), uuids := Suc (Suc (uuids s)),
       sagas := (sagas s)(uuidNew env (uuids s) \<mapsto> newSaga (newResponse env req s) tid),
       transferKeys := (transferKeys s)(IdempotencyKey req \<mapsto> uuidNew env (uuids s)),
       outbox := outbox s @ [newEvent env s]\<rparr>"

lemma validateTransfer_amount: "validateTransfer req = None \<Longrightarrow> 0 < Amount req"
  by (auto simp: validateTransfer_def split: if_splits)

lemma CreateTransfer_transferable:
  assumes "fresh_ids env" and "saga_inv env s" and "transferable s req source"
  obtains s2 t c where
    "CreateTransfer env req s = (openSaga env req (t_ID t) s2, Inr (newResponse env req s2, False))"
    and "store_inv env s2" and "grows s s2" and "saga_frame s s2"
    and "clearingAccounts s2 (SourceLedgerID req) = Some c" and "t \<in> set (transactions s2)"
    and "t_LedgerID t = SourceLedgerID req"
    and "tx_lines t = request_lines [creditLine (SourceAccountID req) (Amount req), debitLine c (Amount req)]"
    and "transactions s2 = transactions s @ [t]"
proof -
  note T = assms(3) [unfolded transferable_def]
  obtain c s1 where c: "clearingAccountLocked env (SourceLedgerID req) s = (c, s1)"
    by (cases "clearingAccountLocked env (SourceLedgerID req) s")
  let ?es = "[creditLine (SourceAccountID req) (Amount req), debitLine (a_ID c) (Amount req)]"
  have src: "a_ID source = SourceAccountID req"
    using T keyedD [OF store_inv_keyed [OF saga_inv_store [OF assms(2)]]] by blast
  obtain s2 t where post: "createTransaction env ?es s1 = (s2, Inr t)" "store_inv env s2" "grows s s2"
    "saga_frame s s2" "clearingAccounts s2 (SourceLedgerID req) = Some (a_ID c)"
    "t \<in> set (transactions s2)" "t_LedgerID t = SourceLedgerID req"
    "tx_lines t = request_lines ?es" "transactions s2 = transactions s @ [t]"
    using leg_posts [OF assms(1) saga_inv_store [OF assms(2)] validateTransfer_amount _ _ c, of req
        "SourceAccountID req" source ?es] T by blast
  obtain d where "accounts s (DestinationAccountID req) = Some d"
    "a_LedgerID d = DestinationLedgerID req" using T by (auto simp: account_in_def)
  then have "CreateTransfer env req s = (openSaga env req (t_ID t) s2, Inr (newResponse env req s2, False))"
    using T c post(1) src
    by (simp add: CreateTransfer_def openSaga_def newResponse_def newSaga_def newEvent_def now_def
        newUUID_def Let_def not_less)
  then show ?thesis using that post by blast
qed

lemma CreateTransfer_not_transferable:
  assumes "saga_inv env s" and "\<nexists>source. transferable s req source"
  shows "fst (CreateTransfer env req s) = s"
proof (cases "validateTransfer req = None \<and> transferKeys s (IdempotencyKey req) = None")
  case True
  then show ?thesis
    using assms(2)
    by (auto simp: CreateTransfer_def transferable_def account_in_def not_less split: option.splits)
next
  case False
  then show ?thesis by (auto simp: CreateTransfer_def split: option.splits)
qed

lemma saga_fresh:
  assumes "fresh_ids env" and "saga_inv env s" and "uuids s \<le> n"
  shows "uuidNew env n \<notin> dom (sagas s)" and "events_of (uuidNew env n) (outbox s) = []"
proof -
  show *: "uuidNew env n \<notin> dom (sagas s)"
    using assms fresh_next [OF assms(1,3)] unfolding saga_inv_def by blast
  show "events_of (uuidNew env n) (outbox s) = []"
    using assms(2) * by (auto simp: events_of_def filter_empty_conv saga_inv_def)
qed

lemma CreateTransfer_saga_inv:
  assumes "fresh_ids env" and "saga_inv env s"
  shows "saga_inv env (fst (CreateTransfer env req s))"
proof (cases "\<exists>source. transferable s req source")
  case False
  then show ?thesis using CreateTransfer_not_transferable [OF assms(2) False] assms(2) by simp
next
  case True
  then obtain source where T: "transferable s req source" by blast
  from CreateTransfer_transferable [OF assms T]
  obtain s2 t c where ct: "CreateTransfer env req s = (openSaga env req (t_ID t) s2, Inr (newResponse env req s2, False))"
    and s2: "store_inv env s2" "grows s s2" "saga_frame s s2" and
    leg: "clearingAccounts s2 (SourceLedgerID req) = Some c" "t \<in> set (transactions s2)"
      "t_LedgerID t = SourceLedgerID req"
      "tx_lines t = request_lines [creditLine (SourceAccountID req) (Amount req), debitLine c (Amount req)]"
    by blast
  have inv2: "saga_inv env s2"
    using saga_inv_grows [OF assms(2) s2(1,2)] s2(3) by (simp add: saga_frame_def)
  let ?sid = "uuidNew env (uuids s2)" and ?s = "openSaga env req (t_ID t) s2"
  have grows': "grows s2 ?s" by (simp add: openSaga_def frame grows_uuids)
  have new: "?sid \<notin> dom (sagas s2)" "events_of ?sid (outbox s2) = []"
    using saga_fresh [OF assms(1) inv2 le_refl] by auto
  have key: "transferKeys s2 (IdempotencyKey req) = None"
    using T s2(3) by (simp add: transferable_def saga_frame_def)
  let ?g = "newSaga (newResponse env req s2) (t_ID t)"
  have "saga_inv env ?s"
  proof (rule saga_inv_update [where s = s2 and sid = ?sid and g = ?g])
    show "store_inv env ?s"
      using s2(1) by (simp add: openSaga_def frame store_inv_uuids)
    show "sagas ?s = (sagas s2)(?sid \<mapsto> ?g)" by (simp add: openSaga_def)
    have "account_in s2 (SourceAccountID req) (SourceLedgerID req)"
      and "account_in s2 (DestinationAccountID req) (DestinationLedgerID req)"
      using T account_in_grows [OF _ s2(2)] by (auto simp: transferable_def account_in_def)
    moreover have "leg_posted s2 (t_ID t) (SourceLedgerID req) (SourceAccountID req) (Amount req) False"
      using leg by (auto simp: leg_posted_def)
    ultimately have "saga_data_ok s2 ?sid ?g"
      using T by (simp add: saga_data_ok_def newSaga_def newResponse_def transferable_def
          validateTransfer_amount)
    then show "saga_data_ok ?s ?sid ?g" using grows' by (rule saga_data_ok_grows)
    have "events_of ?sid (outbox ?s) = [newEvent env s2]"
      using new(2) by (simp add: openSaga_def events_of_def newEvent_def)
    then show "saga_phase ?g (events_of ?sid (outbox ?s))"
      by (simp add: saga_phase_def newSaga_def newResponse_def newEvent_def credit_event_def)
    show "events_of x (outbox ?s) = events_of x (outbox s2)" if "x \<noteq> ?sid" for x
      using that by (simp add: openSaga_def events_of_def newEvent_def)
    show "?sid \<in> issued env (uuids ?s)" by (simp add: openSaga_def issued_next)
    show "transferKeys ?s = transferKeys s2 \<and> ?sid \<in> dom (sagas s2) \<or>
      (\<exists>k. transferKeys s2 k = None \<and> transferKeys ?s = (transferKeys s2)(k \<mapsto> ?sid) \<and>
        ?sid \<notin> dom (sagas s2))"
      using key new(1) by (auto simp: openSaga_def)
  qed (rule inv2 grows')+
  then show ?thesis by (simp add: ct)
qed

subsection \<open>One event\<close>

text \<open>An unprocessed event belongs to a pending saga (credit) or to a failed one (compensation).\<close>

lemma unprocessed_event:
  assumes "saga_inv env s" and "i < length (outbox s)" and "\<not> ev_processed (outbox s ! i)"
  defines "e \<equiv> outbox s ! i"
  obtains (credit) g where "sagas s (ev_sagaID e) = Some g" "r_Status (s_response g) = TransferPending"
      "destinationTransactionID g = ''''" "compensationTransactionID g = ''''"
      "events_of (ev_sagaID e) (outbox s) = [e]" "credit_event False e" "ev_attempts e < 5"
  | (comp) g e' where "sagas s (ev_sagaID e) = Some g" "r_Status (s_response g) = TransferFailed"
      "destinationTransactionID g = ''''" "compensationTransactionID g = ''''"
      "events_of (ev_sagaID e) (outbox s) = [e', e]" "credit_event True e'" "comp_event False e"
proof -
  have mem: "e \<in> set (events_of (ev_sagaID e) (outbox s))" "\<not> ev_processed e"
    using assms(2,3) by (simp_all add: events_of_def e_def)
  have "ev_sagaID e \<in> dom (sagas s)"
    using assms(1) nth_mem [OF assms(2)] unfolding saga_inv_def e_def by blast
  then obtain g where g: "sagas s (ev_sagaID e) = Some g" by blast
  then have "saga_phase g (events_of (ev_sagaID e) (outbox s))"
    using assms(1) by (simp add: saga_inv_def)
  then consider
    (p) x where "r_Status (s_response g) = TransferPending" "destinationTransactionID g = ''''"
      "compensationTransactionID g = ''''" "events_of (ev_sagaID e) (outbox s) = [x]"
      "credit_event False x" "ev_attempts x < 5"
  | (c) x where "events_of (ev_sagaID e) (outbox s) = [x]" "credit_event True x"
  | (f) x y where "r_Status (s_response g) = TransferFailed" "destinationTransactionID g = ''''"
      "compensationTransactionID g = ''''" "events_of (ev_sagaID e) (outbox s) = [x, y]"
      "credit_event True x" "comp_event False y"
  | (d) x y where "events_of (ev_sagaID e) (outbox s) = [x, y]" "credit_event True x" "comp_event True y"
    unfolding saga_phase_def by (cases "r_Status (s_response g)") auto
  then show ?thesis
  proof cases
    case p
    with mem have "x = e" by simp
    with p g show ?thesis by (intro credit) auto
  next
    case c
    with mem show ?thesis by (simp add: credit_event_def)
  next
    case f
    with mem have "y = e" by (auto simp: credit_event_def)
    with f g show ?thesis by (intro comp) auto
  next
    case d
    with mem show ?thesis by (auto simp: credit_event_def comp_event_def)
  qed
qed

lemma findIndex_Some: "findIndex P xs = Some i \<Longrightarrow> i < length xs \<and> P (xs ! i)"
  by (induction xs arbitrary: i) (auto split: if_splits)

lemma findIndex_None: "findIndex P xs = None \<longleftrightarrow> (\<forall>x \<in> set xs. \<not> P x)"
  by (induction xs) auto

text \<open>Rewriting an event leaves the events of the other sagas alone.\<close>

lemma events_of_update_other:
  assumes "ev_sagaID (evs ! i) \<noteq> x" and "ev_sagaID y = ev_sagaID (evs ! i)"
  shows "events_of x (evs[i := y]) = events_of x evs"
  unfolding events_of_def using assms by (intro filter_list_update_out) auto

lemma events_of_update_single:
  assumes "i < length evs" and "events_of (ev_sagaID (evs ! i)) evs = [e]"
    and "ev_sagaID y = ev_sagaID (evs ! i)"
  shows "events_of (ev_sagaID (evs ! i)) (evs[i := y]) = [y]"
  using filter_list_update_in [of i evs "\<lambda>e. ev_sagaID e = ev_sagaID (evs ! i)" y] assms
  unfolding events_of_def by (metis length_Cons less_Suc0 list.size(3) list_update_code(2))

lemma events_of_update_last:
  assumes "i < length evs" and "events_of (ev_sagaID (evs ! i)) evs = [e, evs ! i]"
    and "e \<noteq> evs ! i" and "ev_sagaID y = ev_sagaID (evs ! i)"
  shows "events_of (ev_sagaID (evs ! i)) (evs[i := y]) = [e, y]"
proof -
  obtain j where j: "j < length [e, evs ! i]" "[e, evs ! i] ! j = evs ! i"
    "events_of (ev_sagaID (evs ! i)) (evs[i := y]) = [e, evs ! i][j := y]"
    using filter_list_update_in [of i evs "\<lambda>e. ev_sagaID e = ev_sagaID (evs ! i)" y] assms
    unfolding events_of_def by metis
  with assms(3) have "j = 1" by (cases j) auto
  with j show ?thesis by simp
qed

end
