(* ===== verification/Memory_Outbox.thy ===== *)
theory Memory_Outbox
  imports Memory_Saga
begin

text \<open>
  The outbox worker of the in-memory store: the outcomes of one iteration of \<open>ProcessOutbox\<close>, that each
  keeps the saga invariant and moves one saga along the allowed transitions, and that the work left
  decreases.
\<close>

lemma putSaga_simps [simp]:
  "sagas (putSaga sid g s) = (sagas s)(sid \<mapsto> g)"
  "outbox (putSaga sid g s) = outbox s"
  "transferKeys (putSaga sid g s) = transferKeys s"
  "uuids (putSaga sid g s) = uuids s"
  "accounts (putSaga sid g s) = accounts s"
  "transactions (putSaga sid g s) = transactions s"
  "clock (putSaga sid g s) = clock s"
  "grows s' (putSaga sid g s) = grows s' s"
  "store_inv env (putSaga sid g s) = store_inv env s"
  by (simp_all add: putSaga_def frame)

lemma updateEvent_simps [simp]:
  "outbox (updateEvent i f s) = (outbox s)[i := f (outbox s ! i)]"
  "sagas (updateEvent i f s) = sagas s"
  "transferKeys (updateEvent i f s) = transferKeys s"
  "uuids (updateEvent i f s) = uuids s"
  "accounts (updateEvent i f s) = accounts s"
  "transactions (updateEvent i f s) = transactions s"
  "clock (updateEvent i f s) = clock s"
  "grows s' (updateEvent i f s) = grows s' s"
  "store_inv env (updateEvent i f s) = store_inv env s"
  by (simp_all add: updateEvent_def frame)

lemma saga_setters [simp]:
  "r_Status (s_response (setStatus st g)) = st"
  "r_Status (s_response (setUpdatedAt t g)) = r_Status (s_response g)"
  "destinationTransactionID (setStatus st g) = destinationTransactionID g"
  "destinationTransactionID (setUpdatedAt t g) = destinationTransactionID g"
  "compensationTransactionID (setStatus st g) = compensationTransactionID g"
  "compensationTransactionID (setUpdatedAt t g) = compensationTransactionID g"
  "saga_data_ok s sid (setStatus st g) = saga_data_ok s sid g"
  "saga_data_ok s sid (setUpdatedAt t g) = saga_data_ok s sid g"
  by (simp_all add: setStatus_def setUpdatedAt_def saga_data_ok_def Let_def)

lemma saga_data_ok_frame [simp]:
  "saga_data_ok (putSaga x h s) sid g = saga_data_ok s sid g"
  "saga_data_ok (updateEvent i f s) sid g = saga_data_ok s sid g"
  "saga_data_ok (s\<lparr>outbox := evs\<rparr>) sid g = saga_data_ok s sid g"
  "saga_data_ok (s\<lparr>uuids := u\<rparr>) sid g = saga_data_ok s sid g"
  "saga_data_ok (s\<lparr>clock := c\<rparr>) sid g = saga_data_ok s sid g"
  by (simp_all add: putSaga_def updateEvent_def saga_data_ok_def leg_posted_def account_in_def Let_def)

lemma postLegMem_ok:
  assumes "fresh_ids env" and "store_inv env s" and "0 < amount" and "account_in s k l"
  obtains s2 t where "postLegMem env l k amount s = (s2, Inr t)" and "store_inv env s2"
    and "grows s s2" and "saga_frame s s2" and "t_ID t \<noteq> ''''"
    and "leg_posted s2 (t_ID t) l k amount True" and "transactions s2 = transactions s @ [t]"
proof -
  obtain c s1 where c: "clearingAccountLocked env l s = (c, s1)"
    by (cases "clearingAccountLocked env l s")
  obtain a where a: "accounts s k = Some a" "a_LedgerID a = l"
    using assms(4) by (auto simp: account_in_def)
  obtain s2 t where post:
    "createTransaction env [debitLine k amount, creditLine (a_ID c) amount] s1 = (s2, Inr t)"
    "store_inv env s2" "grows s s2" "saga_frame s s2" "clearingAccounts s2 l = Some (a_ID c)"
    "t \<in> set (transactions s2)" "t_ID t \<noteq> ''''" "t_LedgerID t = l"
    "tx_lines t = request_lines [debitLine k amount, creditLine (a_ID c) amount]"
    "transactions s2 = transactions s @ [t]"
    using leg_posts [OF assms(1-3) a c, of "[debitLine k amount, creditLine (a_ID c) amount]"]
    by blast
  then have "leg_posted s2 (t_ID t) l k amount True"
    by (auto simp: leg_posted_def)
  with post c show ?thesis by (intro that [of s2 t]) (auto simp: postLegMem_def)
qed

subsection \<open>The outcomes of an iteration\<close>

text \<open>
  The state in which an iteration handles its event: the clock has been read, and on the way to a
  credit the hook has been called.
\<close>

definition hooked :: "'d MemoryStore \<Rightarrow> 'd MemoryStore" where
  "hooked s = (if DestinationFailure s = None then s else s\<lparr>hookCalls := Suc (hookCalls s)\<rparr>)"

definition hookResult :: "'d memorySaga \<Rightarrow> 'd MemoryStore \<Rightarrow> 'd err option" where
  "hookResult g s = (case DestinationFailure s of None \<Rightarrow> None | Some f \<Rightarrow> f (hookCalls s) (sagaRequest g))"

lemma callHook_eq: "callHook (sagaRequest g) s = (hookResult g s, hooked s)"
  by (auto simp: callHook_def hookResult_def hooked_def split: option.splits)

lemma hooked_simps [simp]:
  "outbox (hooked s) = outbox s" "sagas (hooked s) = sagas s" "transferKeys (hooked s) = transferKeys s"
  "uuids (hooked s) = uuids s" "clock (hooked s) = clock s" "accounts (hooked s) = accounts s"
  "transactions (hooked s) = transactions s"
  "store_inv env (hooked s) = store_inv env s" "grows s' (hooked s) = grows s' s"
  "saga_inv env (hooked s) = saga_inv env s"
  "saga_data_ok (hooked s) sid g = saga_data_ok s sid g"
  "grows (hooked s) s' = grows s s'"
  by (simp_all add: hooked_def frame grows_def saga_inv_def saga_data_ok_def leg_posted_def account_in_def Let_def)

lemma saga_inv_clock [simp]: "saga_inv env (s\<lparr>clock := c\<rparr>) = saga_inv env s"
  by (simp add: saga_inv_def frame)

definition bumped :: "nat \<Rightarrow> 'd MemoryStore \<Rightarrow> 'd MemoryStore" where
  "bumped i s = updateEvent i (\<lambda>e. e\<lparr>ev_attempts := Suc (ev_attempts e)\<rparr>) s"

definition processed :: "nat \<Rightarrow> 'd MemoryStore \<Rightarrow> 'd MemoryStore" where
  "processed i s = updateEvent i (\<lambda>e. e\<lparr>ev_processed := True\<rparr>) s"

definition rescheduled :: "time \<Rightarrow> nat \<Rightarrow> 'd MemoryStore \<Rightarrow> 'd MemoryStore" where
  "rescheduled t i s = updateEvent i (\<lambda>e. e\<lparr>ev_nextAttempt := t + retryDelay (ev_attempts e)\<rparr>) s"

definition compensationEvent :: "'d go_env \<Rightarrow> time \<Rightarrow> string \<Rightarrow> 'd MemoryStore \<Rightarrow> memoryOutboxEvent" where
  "compensationEvent env t sid s = \<lparr>ev_id = uuidNew env (uuids s), ev_sagaID = sid,
     ev_step = ''compensate_source'', ev_attempts = 0, ev_nextAttempt = t, ev_processed = False\<rparr>"

definition failedSaga :: "'d go_env \<Rightarrow> time \<Rightarrow> nat \<Rightarrow> string \<Rightarrow> 'd memorySaga \<Rightarrow> 'd MemoryStore \<Rightarrow> 'd MemoryStore" where
  "failedSaga env t i sid g s =
     (let s' = processed i (putSaga sid (setUpdatedAt t (setStatus TransferFailed g)) (bumped i s))
      in s'\<lparr>uuids := Suc (uuids s'), outbox := outbox s' @ [compensationEvent env t sid s']\<rparr>)"

lemma outboxIteration_cases [consumes 2, case_names idle credited retried failed compensated]:
  assumes "fresh_ids env" and "saga_inv env s"
  defines "t \<equiv> timeNow env (clock s)" and "s0 \<equiv> s\<lparr>clock := Suc (clock s)\<rparr>"
  obtains (idle) "findIndex (readyEvent t) (outbox s) = None" "outboxIteration env s = (s0, Idle)"
  | (credited) i g s2 tx where "i < length (outbox s)" "readyEvent t (outbox s ! i)"
      "sagas s (ev_sagaID (outbox s ! i)) = Some g" "r_Status (s_response g) = TransferPending"
      "events_of (ev_sagaID (outbox s ! i)) (outbox s) = [outbox s ! i]"
      "credit_event False (outbox s ! i)" "hookResult g s0 = None"
      "store_inv env s2" "grows s s2" "saga_frame (hooked s0) s2" "t_ID tx \<noteq> ''''"
      "leg_posted s2 (t_ID tx) (r_DestinationLedgerID (s_response g))
        (r_DestinationAccountID (s_response g)) (r_Amount (s_response g)) True"
      "transactions s2 = transactions s @ [tx]"
      "outboxIteration env s = (processed i (putSaga (ev_sagaID (outbox s ! i))
         (setUpdatedAt (timeNow env (clock s2)) (setStatus TransferCompleted
           (g\<lparr>destinationTransactionID := t_ID tx\<rparr>))) (s2\<lparr>clock := Suc (clock s2)\<rparr>)), Progress)"
  | (retried) i g err where "i < length (outbox s)" "readyEvent t (outbox s ! i)"
      "sagas s (ev_sagaID (outbox s ! i)) = Some g" "r_Status (s_response g) = TransferPending"
      "events_of (ev_sagaID (outbox s ! i)) (outbox s) = [outbox s ! i]"
      "credit_event False (outbox s ! i)" "hookResult g s0 = Some err" "isTransient err"
      "Suc (ev_attempts (outbox s ! i)) < 5"
      "outboxIteration env s = (rescheduled t i (bumped i (hooked s0)), Progress)"
  | (failed) i g err where "i < length (outbox s)" "readyEvent t (outbox s ! i)"
      "sagas s (ev_sagaID (outbox s ! i)) = Some g" "r_Status (s_response g) = TransferPending"
      "events_of (ev_sagaID (outbox s ! i)) (outbox s) = [outbox s ! i]"
      "credit_event False (outbox s ! i)" "hookResult g s0 = Some err"
      "\<not> (isTransient err \<and> Suc (ev_attempts (outbox s ! i)) < 5)"
      "outboxIteration env s =
         (failedSaga env t i (ev_sagaID (outbox s ! i)) g (hooked s0), Progress)"
  | (compensated) i g e' s2 tx where "i < length (outbox s)" "readyEvent t (outbox s ! i)"
      "sagas s (ev_sagaID (outbox s ! i)) = Some g" "r_Status (s_response g) = TransferFailed"
      "events_of (ev_sagaID (outbox s ! i)) (outbox s) = [e', outbox s ! i]"
      "credit_event True e'" "comp_event False (outbox s ! i)"
      "store_inv env s2" "grows s s2" "saga_frame s0 s2" "t_ID tx \<noteq> ''''"
      "leg_posted s2 (t_ID tx) (r_SourceLedgerID (s_response g))
        (r_SourceAccountID (s_response g)) (r_Amount (s_response g)) True"
      "transactions s2 = transactions s @ [tx]"
      "outboxIteration env s = (processed i (putSaga (ev_sagaID (outbox s ! i))
         (setUpdatedAt (timeNow env (clock s2)) (setStatus TransferCompensated
           (g\<lparr>compensationTransactionID := t_ID tx\<rparr>))) (s2\<lparr>clock := Suc (clock s2)\<rparr>)), Progress)"
proof (cases "findIndex (readyEvent t) (outbox s)")
  case None
  then show ?thesis using idle by (simp add: outboxIteration_def now_def t_def s0_def)
next
  case (Some i)
  note i = findIndex_Some [OF Some, THEN conjunct1] findIndex_Some [OF Some, THEN conjunct2]
  have np: "\<not> ev_processed (outbox s ! i)" using i(2) by (simp add: readyEvent_def)
  have s0: "store_inv env s0" "outbox s0 = outbox s" "sagas s0 = sagas s" "transactions s0 = transactions s"
    using saga_inv_store [OF assms(2)] by (simp_all add: s0_def frame)
  have data: "saga_data_ok s sid g" if "sagas s sid = Some g" for sid g
    using assms(2) that by (simp add: saga_inv_def)
  have grow: "grows s s2" if "grows s0 s2" for s2
    using that grows_trans [of s s0 s2] by (simp add: s0_def frame)
  have post: thesis
    if "0 < amount" "account_in s k l" "store_inv env s1" "accounts s1 = accounts s"
      and "\<And>s2 tx. postLegMem env l k amount s1 = (s2, Inr tx) \<Longrightarrow> store_inv env s2 \<Longrightarrow>
        grows s1 s2 \<Longrightarrow> saga_frame s1 s2 \<Longrightarrow> t_ID tx \<noteq> '''' \<Longrightarrow>
        leg_posted s2 (t_ID tx) l k amount True \<Longrightarrow> transactions s2 = transactions s1 @ [tx] \<Longrightarrow> thesis"
    for amount k l s1 thesis
  proof -
    have "account_in s1 k l" using that(2,4) by (simp add: account_in_def)
    then show thesis by (rule postLegMem_ok [OF assms(1) that(3,1)]) (rule that(5))
  qed
  show ?thesis
    using assms(2) i(1) np
  proof (cases rule: unprocessed_event)
    case (credit g)
    let ?r = "s_response g"
    have legs: "0 < r_Amount ?r" "account_in s (r_DestinationAccountID ?r) (r_DestinationLedgerID ?r)"
      using data [OF credit(1)] by (simp_all add: saga_data_ok_def Let_def)
    show ?thesis
    proof (cases "hookResult g s0")
      case None
      show ?thesis
      proof (rule post [OF legs, of "hooked s0"])
        fix s2 tx
        assume p: "postLegMem env (r_DestinationLedgerID ?r) (r_DestinationAccountID ?r) (r_Amount ?r)
            (hooked s0) = (s2, Inr tx)" and q: "store_inv env s2" "grows (hooked s0) s2"
          "saga_frame (hooked s0) s2" "t_ID tx \<noteq> ''''"
          "leg_posted s2 (t_ID tx) (r_DestinationLedgerID ?r) (r_DestinationAccountID ?r) (r_Amount ?r) True"
          "transactions s2 = transactions (hooked s0) @ [tx]"
        have run: "outboxIteration env s = (processed i (putSaga (ev_sagaID (outbox s ! i))
           (setUpdatedAt (timeNow env (clock s2)) (setStatus TransferCompleted
             (g\<lparr>destinationTransactionID := t_ID tx\<rparr>))) (s2\<lparr>clock := Suc (clock s2)\<rparr>)), Progress)"
          using Some credit None p
          by (simp add: outboxIteration_def now_def s0_def [symmetric] t_def [symmetric] s0
              processEventLocked_def callHook_eq credit_event_def processed_def Let_def)
            (simp add: sagaRequest_def)
        show ?thesis
          using credited [OF i credit(1,2,5,6) None q(1) _ q(3-5) _ run] q(2,6) grow by (simp add: s0(4))
      qed (use s0 in \<open>simp_all add: s0_def\<close>)
    next
      case (Some err)
      have run: "outboxIteration env s =
        (if isTransient err \<and> Suc (ev_attempts (outbox s ! i)) < 5
         then rescheduled t i (bumped i (hooked s0))
         else failedSaga env t i (ev_sagaID (outbox s ! i)) g (hooked s0), Progress)"
        using \<open>findIndex (readyEvent t) (outbox s) = Some i\<close> i(1) credit Some
        by (simp add: outboxIteration_def now_def s0_def [symmetric] t_def [symmetric] s0
            processEventLocked_def callHook_eq credit_event_def bumped_def rescheduled_def
            failedSaga_def processed_def newUUID_def compensationEvent_def Let_def)
      show ?thesis
      proof (cases "isTransient err \<and> Suc (ev_attempts (outbox s ! i)) < 5")
        case True
        then show ?thesis using run by (intro retried [OF i credit(1,2,5,6) Some]) simp_all
      next
        case False
        then show ?thesis
          by (rule failed [OF i credit(1,2,5,6) Some]) (use run False in \<open>simp only: if_False\<close>)
      qed
    qed
  next
    case (comp g e')
    let ?r = "s_response g"
    have legs: "0 < r_Amount ?r" "account_in s (r_SourceAccountID ?r) (r_SourceLedgerID ?r)"
      using data [OF comp(1)] by (simp_all add: saga_data_ok_def Let_def)
    show ?thesis
    proof (rule post [OF legs, of s0])
      fix s2 tx
      assume p: "postLegMem env (r_SourceLedgerID ?r) (r_SourceAccountID ?r) (r_Amount ?r) s0 = (s2, Inr tx)"
        and q: "store_inv env s2" "grows s0 s2" "saga_frame s0 s2" "t_ID tx \<noteq> ''''"
          "leg_posted s2 (t_ID tx) (r_SourceLedgerID ?r) (r_SourceAccountID ?r) (r_Amount ?r) True"
          "transactions s2 = transactions s0 @ [tx]"
      have run: "outboxIteration env s = (processed i (putSaga (ev_sagaID (outbox s ! i))
         (setUpdatedAt (timeNow env (clock s2)) (setStatus TransferCompensated
           (g\<lparr>compensationTransactionID := t_ID tx\<rparr>))) (s2\<lparr>clock := Suc (clock s2)\<rparr>)), Progress)"
        using Some comp p
        by (simp add: outboxIteration_def now_def s0_def [symmetric] t_def [symmetric] s0
            processEventLocked_def comp_event_def processed_def Let_def)
          (simp add: sagaRequest_def)
      show ?thesis
        using compensated [OF i comp(1,2,5,6,7) q(1) _ q(3-5) _ run] q(2,6) grow by (simp add: s0(4))
    qed (use s0 in \<open>simp_all add: s0_def\<close>)
  qed
qed

subsection \<open>An iteration keeps the invariant\<close>

lemma processed_simps [simp]:
  "outbox (processed i s) = (outbox s)[i := (outbox s ! i)\<lparr>ev_processed := True\<rparr>]"
  "sagas (processed i s) = sagas s" "transferKeys (processed i s) = transferKeys s"
  "uuids (processed i s) = uuids s" "transactions (processed i s) = transactions s"
  "accounts (processed i s) = accounts s" "clock (processed i s) = clock s"
  "store_inv env (processed i s) = store_inv env s" "grows s' (processed i s) = grows s' s"
  "saga_data_ok (processed i s) sid g = saga_data_ok s sid g"
  by (simp_all add: processed_def)

lemma bumped_simps [simp]:
  "outbox (bumped i s) = (outbox s)[i := (outbox s ! i)\<lparr>ev_attempts := Suc (ev_attempts (outbox s ! i))\<rparr>]"
  "sagas (bumped i s) = sagas s" "transferKeys (bumped i s) = transferKeys s"
  "uuids (bumped i s) = uuids s" "transactions (bumped i s) = transactions s"
  "accounts (bumped i s) = accounts s" "clock (bumped i s) = clock s"
  "store_inv env (bumped i s) = store_inv env s" "grows s' (bumped i s) = grows s' s"
  "saga_data_ok (bumped i s) sid g = saga_data_ok s sid g"
  by (simp_all add: bumped_def)

lemma rescheduled_simps [simp]:
  "outbox (rescheduled t i s) = (outbox s)[i := (outbox s ! i)
     \<lparr>ev_nextAttempt := t + retryDelay (ev_attempts (outbox s ! i))\<rparr>]"
  "sagas (rescheduled t i s) = sagas s" "transferKeys (rescheduled t i s) = transferKeys s"
  "uuids (rescheduled t i s) = uuids s" "transactions (rescheduled t i s) = transactions s"
  "accounts (rescheduled t i s) = accounts s" "clock (rescheduled t i s) = clock s"
  "store_inv env (rescheduled t i s) = store_inv env s" "grows s' (rescheduled t i s) = grows s' s"
  "saga_data_ok (rescheduled t i s) sid g = saga_data_ok s sid g"
  by (simp_all add: rescheduled_def)

text \<open>An update of a saga of the store together with the event it belongs to.\<close>

lemma saga_inv_event:
  assumes inv: "saga_inv env s" and "store_inv env s'" and "grows s s'"
    and old: "sagas s sid = Some g0" and "sagas s' = (sagas s)(sid \<mapsto> g)" and "saga_data_ok s' sid g"
    and "saga_phase g (events_of sid (outbox s'))"
    and "\<And>x. x \<noteq> sid \<Longrightarrow> events_of x (outbox s') = events_of x (outbox s)"
    and "transferKeys s' = transferKeys s"
  shows "saga_inv env s'"
proof (rule saga_inv_update [OF assms(1-3,5-8)])
  have "sid \<in> issued env (uuids s)" using inv old by (auto simp: saga_inv_def)
  then show "sid \<in> issued env (uuids s')"
    using issued_mono [of "uuids s" "uuids s'" env] assms(3) by (auto simp: grows_def)
qed (use old assms(9) in auto)

lemma saga_inv_data: "saga_inv env s \<Longrightarrow> sagas s sid = Some g \<Longrightarrow> saga_data_ok s sid g"
  and saga_inv_phase: "saga_inv env s \<Longrightarrow> sagas s sid = Some g \<Longrightarrow> saga_phase g (events_of sid (outbox s))"
  by (simp_all add: saga_inv_def)

lemma saga_data_ok_record:
  assumes "saga_data_ok s sid g"
  shows "leg_posted s tid (r_DestinationLedgerID (s_response g)) (r_DestinationAccountID (s_response g))
      (r_Amount (s_response g)) True \<Longrightarrow> saga_data_ok s sid (g\<lparr>destinationTransactionID := tid\<rparr>)"
    and "leg_posted s tid (r_SourceLedgerID (s_response g)) (r_SourceAccountID (s_response g))
      (r_Amount (s_response g)) True \<Longrightarrow> saga_data_ok s sid (g\<lparr>compensationTransactionID := tid\<rparr>)"
  using assms by (simp_all add: saga_data_ok_def Let_def)

lemma outboxIteration_saga_inv:
  assumes "fresh_ids env" and "saga_inv env s"
  shows "saga_inv env (fst (outboxIteration env s))"
  using assms
proof (cases rule: outboxIteration_cases)
  case idle
  then show ?thesis using assms(2) by simp
next
  case (credited i g s2 tx)
  let ?sid = "ev_sagaID (outbox s ! i)"
  let ?g = "setUpdatedAt (timeNow env (clock s2)) (setStatus TransferCompleted (g\<lparr>destinationTransactionID := t_ID tx\<rparr>))"
  have frame: "sagas s2 = sagas s" "outbox s2 = outbox s" "transferKeys s2 = transferKeys s"
    using credited(10) by (simp_all add: saga_frame_def)
  have ph: "destinationTransactionID g = ''''" "compensationTransactionID g = ''''"
    using saga_inv_phase [OF assms(2) credited(3)] credited(4) by (simp_all add: saga_phase_def)
  have "saga_inv env (processed i (putSaga ?sid ?g (s2\<lparr>clock := Suc (clock s2)\<rparr>)))"
  proof (rule saga_inv_event [OF assms(2), where sid = ?sid and g = ?g])
    show "saga_data_ok (processed i (putSaga ?sid ?g (s2\<lparr>clock := Suc (clock s2)\<rparr>))) ?sid ?g"
      using saga_data_ok_record(1) [OF saga_data_ok_grows [OF saga_inv_data [OF assms(2) credited(3)] credited(9)]
        credited(12)] by simp
    show "saga_phase ?g (events_of ?sid (outbox (processed i (putSaga ?sid ?g (s2\<lparr>clock := Suc (clock s2)\<rparr>)))))"
      using events_of_update_single [OF credited(1,5)] credited(6,11) ph
      by (simp add: frame saga_phase_def credit_event_def)
  qed (use credited(3,8,9) frame in \<open>auto simp: events_of_update_other Memory_Saga.grows_fields store_inv_frame\<close>)
  then show ?thesis by (simp add: credited(14))
next
  case (retried i g err)
  let ?sid = "ev_sagaID (outbox s ! i)" and ?s0 = "s\<lparr>clock := Suc (clock s)\<rparr>"
  let ?s' = "rescheduled (timeNow env (clock s)) i (bumped i (hooked ?s0))"
  have ph: "destinationTransactionID g = ''''" "compensationTransactionID g = ''''"
    using saga_inv_phase [OF assms(2) retried(3)] retried(4) by (simp_all add: saga_phase_def)
  have "saga_inv env ?s'"
  proof (rule saga_inv_event [OF assms(2) _ _ retried(3), where g = g])
    show "saga_phase g (events_of ?sid (outbox ?s'))"
      using events_of_update_single [OF retried(1,5)] retried(1,4,6,9) ph
      by (simp add: saga_phase_def credit_event_def)
  qed (use retried(1,3) saga_inv_data [OF assms(2) retried(3)] saga_inv_store [OF assms(2)] in
      \<open>auto simp: events_of_update_other Memory_Saga.grows_fields store_inv_frame\<close>)
  then show ?thesis by (simp add: retried(10))
next
  case (failed i g err)
  let ?sid = "ev_sagaID (outbox s ! i)" and ?s0 = "s\<lparr>clock := Suc (clock s)\<rparr>" and ?t = "timeNow env (clock s)"
  let ?s' = "failedSaga env ?t i ?sid g (hooked ?s0)" and ?g = "setUpdatedAt ?t (setStatus TransferFailed g)"
  have ph: "destinationTransactionID g = ''''" "compensationTransactionID g = ''''"
    using saga_inv_phase [OF assms(2) failed(3)] failed(4) by (simp_all add: saga_phase_def)
  have "saga_inv env ?s'"
  proof (rule saga_inv_event [OF assms(2) _ _ failed(3), where g = ?g])
    show "saga_phase ?g (events_of ?sid (outbox ?s'))"
      using events_of_update_single [OF failed(1,5)] failed(1,4,6) ph
      by (simp add: saga_phase_def credit_event_def comp_event_def failedSaga_def compensationEvent_def
          events_of_def Let_def)
    show "events_of x (outbox ?s') = events_of x (outbox s)" if "x \<noteq> ?sid" for x
      using that failed(1) events_of_update_other [of "outbox s" i x]
      by (simp add: failedSaga_def compensationEvent_def events_of_def Let_def)
  qed (use failed(3) saga_inv_data [OF assms(2) failed(3)] saga_inv_store [OF assms(2)] in
      \<open>simp_all add: failedSaga_def Let_def store_inv_frame Memory_Saga.grows_fields grows_uuids store_inv_uuids\<close>)
  then show ?thesis by (simp add: failed(9))
next
  case (compensated i g e' s2 tx)
  let ?sid = "ev_sagaID (outbox s ! i)"
  let ?g = "setUpdatedAt (timeNow env (clock s2)) (setStatus TransferCompensated (g\<lparr>compensationTransactionID := t_ID tx\<rparr>))"
  have frame: "sagas s2 = sagas s" "outbox s2 = outbox s" "transferKeys s2 = transferKeys s"
    using compensated(10) by (simp_all add: saga_frame_def)
  have ph: "destinationTransactionID g = ''''" "compensationTransactionID g = ''''"
    using saga_inv_phase [OF assms(2) compensated(3)] compensated(4) by (simp_all add: saga_phase_def)
  have ne: "e' \<noteq> outbox s ! i" using compensated(6,7) by (auto simp: credit_event_def comp_event_def)
  have "saga_inv env (processed i (putSaga ?sid ?g (s2\<lparr>clock := Suc (clock s2)\<rparr>)))"
  proof (rule saga_inv_event [OF assms(2), where sid = ?sid and g = ?g])
    show "saga_data_ok (processed i (putSaga ?sid ?g (s2\<lparr>clock := Suc (clock s2)\<rparr>))) ?sid ?g"
      using saga_data_ok_record(2) [OF saga_data_ok_grows [OF saga_inv_data [OF assms(2) compensated(3)] compensated(9)]
        compensated(12)] by simp
    show "saga_phase ?g (events_of ?sid (outbox (processed i (putSaga ?sid ?g (s2\<lparr>clock := Suc (clock s2)\<rparr>)))))"
      using events_of_update_last [OF compensated(1,5) ne] compensated(6,7,11) ph
      by (simp add: frame saga_phase_def credit_event_def comp_event_def)
  qed (use compensated(3,8,9) frame in \<open>auto simp: events_of_update_other Memory_Saga.grows_fields store_inv_frame\<close>)
  then show ?thesis by (simp add: compensated(14))
qed

end
