(* ===== verification/Memory_Runs.thy ===== *)
theory Memory_Runs
  imports Memory_Outbox
begin

text \<open>
  Runs of the in-memory store: the status of a transfer as an abstract state machine that the outbox
  worker refines, the work the outbox holds and why the worker finishes it, and the states reachable by
  any interleaving of the public methods with the iterations of the worker.
\<close>

subsection \<open>The status machine\<close>

text \<open>
  The life of a transfer as \<open>domain.go\<close> and \<open>transfer.go\<close> describe it. \<open>TransferCompleted\<close> and
  \<open>TransferCompensated\<close> have no successor.
\<close>

inductive saga_step :: "TransferStatus \<Rightarrow> TransferStatus \<Rightarrow> bool" where
  complete: "saga_step TransferPending TransferCompleted"
| fail: "saga_step TransferPending TransferFailed"
| compensate: "saga_step TransferFailed TransferCompensated"

inductive_simps saga_step_iff: "saga_step a b"
inductive_cases saga_step_from_Completed: "saga_step TransferCompleted b"
inductive_cases saga_step_from_Compensated: "saga_step TransferCompensated b"

definition settled :: "TransferStatus \<Rightarrow> bool" where
  "settled st \<longleftrightarrow> st = TransferCompleted \<or> st = TransferCompensated"

lemma settled_no_step: "settled a \<Longrightarrow> \<not> saga_step a b"
  by (auto simp: settled_def saga_step_iff)

definition statusOf :: "'d MemoryStore \<Rightarrow> string \<rightharpoonup> TransferStatus" where
  "statusOf s = (\<lambda>sid. map_option (\<lambda>g. r_Status (s_response g)) (sagas s sid))"

definition status_step :: "(string \<rightharpoonup> TransferStatus) \<Rightarrow> (string \<rightharpoonup> TransferStatus) \<Rightarrow> bool" where
  "status_step m m' \<longleftrightarrow>
     m' = m \<or> (\<exists>sid a b. m sid = Some a \<and> saga_step a b \<and> m' = m(sid \<mapsto> b))"

lemma status_step_refl [simp]: "status_step m m"
  by (simp add: status_step_def)

lemma statusOf_upd:
  "sagas s' = (sagas s)(sid \<mapsto> g) \<Longrightarrow> statusOf s' = (statusOf s)(sid \<mapsto> r_Status (s_response g))"
  by (auto simp: statusOf_def)

subsection \<open>The work left in the outbox\<close>

definition weight :: "memoryOutboxEvent \<Rightarrow> nat" where
  "weight e = (if ev_processed e then 0 else if ev_step e = ''destination_credit'' then 6 - ev_attempts e else 1)"

definition work :: "'d MemoryStore \<Rightarrow> nat" where
  "work s = (\<Sum>e\<leftarrow>outbox s. weight e)"

lemma sum_list_update_nat:
  "i < length xs \<Longrightarrow> (\<Sum>x\<leftarrow>xs[i := y]. f x) + f (xs ! i) = (\<Sum>x\<leftarrow>xs. f x) + f y"
  for f :: "'a \<Rightarrow> nat"
proof (induction xs arbitrary: i)
  case (Cons x xs)
  then show ?case by (cases i) (auto simp: add_ac)
qed simp

lemma work_update:
  assumes "i < length evs" and "weight y < weight (evs ! i)"
  shows "(\<Sum>e\<leftarrow>evs[i := y]. weight e) < (\<Sum>e\<leftarrow>evs. weight e)"
  using sum_list_update_nat [OF assms(1), of weight y] assms(2) by simp

lemma work_zero_iff: "work s = 0 \<longleftrightarrow> (\<forall>e \<in> set (outbox s). weight e = 0)"
  by (auto simp: work_def)

subsection \<open>What an iteration does\<close>

definition iteration_ok :: "'d MemoryStore \<Rightarrow> 'd MemoryStore \<Rightarrow> 'd iteration \<Rightarrow> bool" where
  "iteration_ok s s' r \<longleftrightarrow>
     (case r of
        Stop _ \<Rightarrow> False
      | Idle \<Rightarrow> s' = s\<lparr>clock := Suc (clock s)\<rparr>
      | Progress \<Rightarrow> work s' < work s)
     \<and> status_step (statusOf s) (statusOf s')
     \<and> (\<exists>ts. length ts \<le> 1 \<and> transactions s' = transactions s @ ts)
     \<and> transferKeys s' = transferKeys s"

lemma pending_attempts:
  assumes "saga_inv env s" and "sagas s sid = Some g" and "r_Status (s_response g) = TransferPending"
    and "events_of sid (outbox s) = [e]"
  shows "ev_attempts e < 5"
  using saga_inv_phase [OF assms(1,2)] assms(3,4) by (simp add: saga_phase_def)

lemma outboxIteration_ok:
  assumes "fresh_ids env" and "saga_inv env s"
  shows "iteration_ok s (fst (outboxIteration env s)) (snd (outboxIteration env s))"
  using assms
proof (cases rule: outboxIteration_cases)
  case idle
  then show ?thesis by (simp add: iteration_ok_def statusOf_def)
next
  case (credited i g s2 tx)
  have "weight ((outbox s ! i)\<lparr>ev_processed := True\<rparr>) < weight (outbox s ! i)"
    using pending_attempts [OF assms(2) credited(3,4,5)] credited(6) by (simp add: weight_def credit_event_def)
  then have "work (fst (outboxIteration env s)) < work s"
    using credited by (simp add: work_def saga_frame_def work_update)
  moreover have "status_step (statusOf s) (statusOf (fst (outboxIteration env s)))"
    using credited by (auto simp: status_step_def statusOf_def saga_frame_def saga_step_iff fun_eq_iff
      intro!: exI [of _ "ev_sagaID (outbox s ! i)"])
  ultimately show ?thesis using credited by (simp add: iteration_ok_def saga_frame_def)
next
  case (retried i g err)
  have "weight ((outbox s ! i)\<lparr>ev_attempts := Suc (ev_attempts (outbox s ! i)), ev_nextAttempt := t\<rparr>)
      < weight (outbox s ! i)" for t
    using retried(6,9) by (simp add: weight_def credit_event_def)
  then have "work (fst (outboxIteration env s)) < work s"
    using retried(1,10) by (simp add: work_def work_update)
  then show ?thesis using retried by (simp add: iteration_ok_def statusOf_def)
next
  case (failed i g err)
  let ?e = "(outbox s ! i)\<lparr>ev_attempts := Suc (ev_attempts (outbox s ! i)), ev_processed := True\<rparr>"
  have "weight ?e + 1 < weight (outbox s ! i)"
    using failed(6) pending_attempts [OF assms(2) failed(3,4,5)] by (simp add: weight_def credit_event_def)
  then have "(\<Sum>e\<leftarrow>(outbox s)[i := ?e]. weight e) + 1 < (\<Sum>e\<leftarrow>outbox s. weight e)"
    using sum_list_update_nat [OF failed(1), of weight ?e] by simp
  then have "work (fst (outboxIteration env s)) < work s"
    using failed(1,9) by (simp add: work_def failedSaga_def Let_def compensationEvent_def weight_def)
  moreover have "status_step (statusOf s) (statusOf (fst (outboxIteration env s)))"
    using failed by (auto simp: status_step_def statusOf_def saga_step_iff fun_eq_iff failedSaga_def Let_def
      intro!: exI [of _ "ev_sagaID (outbox s ! i)"])
  ultimately show ?thesis using failed by (simp add: iteration_ok_def failedSaga_def Let_def)
next
  case (compensated i g e' s2 tx)
  have "weight ((outbox s ! i)\<lparr>ev_processed := True\<rparr>) < weight (outbox s ! i)"
    using compensated(7) by (simp add: weight_def comp_event_def)
  then have "work (fst (outboxIteration env s)) < work s"
    using compensated by (simp add: work_def saga_frame_def work_update)
  moreover have "status_step (statusOf s) (statusOf (fst (outboxIteration env s)))"
    using compensated by (auto simp: status_step_def statusOf_def saga_frame_def saga_step_iff fun_eq_iff
      intro!: exI [of _ "ev_sagaID (outbox s ! i)"])
  ultimately show ?thesis using compensated by (simp add: iteration_ok_def saga_frame_def)
qed

subsection \<open>The loop\<close>

definition status_le :: "(string \<rightharpoonup> TransferStatus) \<Rightarrow> (string \<rightharpoonup> TransferStatus) \<Rightarrow> bool" where
  "status_le m m' \<longleftrightarrow> (\<forall>sid a. m sid = Some a \<longrightarrow> (\<exists>b. m' sid = Some b \<and> saga_step\<^sup>*\<^sup>* a b))"

lemma status_le_refl [simp]: "status_le m m"
  by (simp add: status_le_def)

lemma status_le_trans: "status_le m m' \<Longrightarrow> status_le m' m'' \<Longrightarrow> status_le m m''"
  unfolding status_le_def by (meson rtranclp_trans)

lemma status_step_le: "status_step m m' \<Longrightarrow> status_le m m'"
  by (auto simp: status_step_def status_le_def)

lemma settled_final: "saga_step\<^sup>*\<^sup>* a b \<Longrightarrow> settled a \<Longrightarrow> b = a"
  by (induction rule: converse_rtranclp_induct) (auto dest: settled_no_step)

lemma status_le_settled: "status_le m m' \<Longrightarrow> m sid = Some a \<Longrightarrow> settled a \<Longrightarrow> m' sid = Some a"
  using settled_final unfolding status_le_def by blast

lemma outboxIteration_Idle:
  assumes "fresh_ids env" and "saga_inv env s" and "outboxIteration env s = (s', Idle)"
  shows "s' = s\<lparr>clock := Suc (clock s)\<rparr>" and "findIndex (readyEvent (timeNow env (clock s))) (outbox s) = None"
proof -
  show "s' = s\<lparr>clock := Suc (clock s)\<rparr>"
    using outboxIteration_ok [OF assms(1,2)] assms(3) by (simp add: iteration_ok_def)
  show "findIndex (readyEvent (timeNow env (clock s))) (outbox s) = None"
    using assms(1,2) by (cases rule: outboxIteration_cases) (use assms(3) in auto)
qed

definition loop_ok :: "'d go_env \<Rightarrow> nat \<Rightarrow> 'd :: linordered_ab_group_add MemoryStore \<Rightarrow> 'd MemoryStore \<Rightarrow> nat \<Rightarrow> bool" where
  "loop_ok env fuel s s' n \<longleftrightarrow>
     saga_inv env s' \<and> n \<le> fuel \<and> work s' + n \<le> work s \<and> status_le (statusOf s) (statusOf s') \<and>
     transferKeys s' = transferKeys s \<and> (\<exists>ts. length ts \<le> n \<and> transactions s' = transactions s @ ts) \<and>
     (n < fuel \<longrightarrow> findIndex (readyEvent (timeNow env (clock s' - 1))) (outbox s') = None)"

lemma outboxLoop_ok:
  assumes "fresh_ids env" and "saga_inv env s"
  shows "\<exists>s' n. outboxLoop env fuel p s = (s', p + n, None) \<and> loop_ok env fuel s s' n"
  using assms(2)
proof (induction fuel arbitrary: p s)
  case 0
  then show ?case by (simp add: loop_ok_def)
next
  case (Suc fuel)
  obtain s1 r where it: "outboxIteration env s = (s1, r)" by (cases "outboxIteration env s")
  have ok: "iteration_ok s s1 r" using outboxIteration_ok [OF assms(1) Suc.prems] it by simp
  have inv: "saga_inv env s1" using outboxIteration_saga_inv [OF assms(1) Suc.prems] it by simp
  show ?case
  proof (cases r)
    case Idle
    note s1 = outboxIteration_Idle [OF assms(1) Suc.prems it [unfolded Idle]]
    have "work s1 = work s" by (simp add: s1 work_def)
    then have "loop_ok env (Suc fuel) s s1 0"
      using inv s1(2) by (simp add: loop_ok_def s1(1) statusOf_def)
    then show ?thesis using it Idle by (auto intro!: exI [of _ s1] exI [of _ 0])
  next
    case Progress
    obtain s' n where rec: "outboxLoop env fuel (Suc p) s1 = (s', Suc p + n, None)" "loop_ok env fuel s1 s' n"
      using Suc.IH [OF inv] by blast
    have "loop_ok env (Suc fuel) s s' (Suc n)"
      using rec(2) ok Progress status_le_trans [OF status_step_le]
      by (fastforce simp: loop_ok_def iteration_ok_def)
    then show ?thesis using rec(1) it Progress by (intro exI [of _ s'] exI [of _ "Suc n"]) simp
  qed (use ok in \<open>simp add: iteration_ok_def\<close>)
qed

definition outboxLimit :: "int \<Rightarrow> nat" where
  "outboxLimit limit = nat (if limit \<le> 0 then 100 else limit)"

lemma outboxLimit_pos: "0 < outboxLimit limit"
  by (simp add: outboxLimit_def)

lemma ProcessOutbox_eq: "ProcessOutbox env limit s = outboxLoop env (outboxLimit limit) 0 s"
  by (simp add: ProcessOutbox_def outboxLimit_def)

lemma ProcessOutbox_ok:
  assumes "fresh_ids env" and "saga_inv env s"
  obtains s' n where "ProcessOutbox env limit s = (s', n, None)" and "loop_ok env (outboxLimit limit) s s' n"
  using outboxLoop_ok [OF assms, of "outboxLimit limit" 0] by (auto simp: ProcessOutbox_eq)

subsection \<open>The worker settles every transfer\<close>

definition workerRounds ::
  "'d go_env \<Rightarrow> int \<Rightarrow> nat \<Rightarrow> 'd :: linordered_ab_group_add MemoryStore \<Rightarrow> 'd MemoryStore" where
  "workerRounds env limit n = (\<lambda>s. fst (ProcessOutbox env limit s)) ^^ n"

lemma workerRounds_Suc: "workerRounds env limit (Suc n) s = workerRounds env limit n (fst (ProcessOutbox env limit s))"
  by (simp add: workerRounds_def funpow_Suc_right del: funpow.simps)

lemma workerRounds_add: "workerRounds env limit (m + n) s = workerRounds env limit n (workerRounds env limit m s)"
  by (simp add: workerRounds_def add.commute [of m] funpow_add)

lemma workerRounds_inv:
  assumes "fresh_ids env" and "saga_inv env s"
  shows "saga_inv env (workerRounds env limit n s) \<and> status_le (statusOf s) (statusOf (workerRounds env limit n s))"
  using assms(2)
proof (induction n arbitrary: s)
  case (Suc n)
  obtain s' k where "ProcessOutbox env limit s = (s', k, None)" "loop_ok env (outboxLimit limit) s s' k"
    by (rule ProcessOutbox_ok [OF assms(1) Suc.prems])
  then show ?case
    using Suc.IH [of s'] status_le_trans by (auto simp: workerRounds_Suc loop_ok_def)
qed (simp add: workerRounds_def)

definition advancing :: "'d go_env \<Rightarrow> bool" where
  "advancing env \<longleftrightarrow> (\<forall>T. \<exists>n. \<forall>m \<ge> n. T \<le> timeNow env m)"

text \<open>A call either makes progress or finds nothing ready and only reads the clock.\<close>

lemma ProcessOutbox_progress:
  assumes "fresh_ids env" and "saga_inv env s"
  shows "work (fst (ProcessOutbox env limit s)) < work s \<or>
    fst (ProcessOutbox env limit s) = s\<lparr>clock := Suc (clock s)\<rparr> \<and>
    (\<forall>e \<in> set (outbox s). \<not> readyEvent (timeNow env (clock s)) e)"
proof -
  obtain fuel where fuel: "outboxLimit limit = Suc fuel"
    using outboxLimit_pos [of limit] gr0_implies_Suc by blast
  obtain s1 r where it: "outboxIteration env s = (s1, r)" by (cases "outboxIteration env s")
  have ok: "iteration_ok s s1 r" using outboxIteration_ok [OF assms] it by simp
  have inv: "saga_inv env s1" using outboxIteration_saga_inv [OF assms] it by simp
  show ?thesis
  proof (cases r)
    case Idle
    then show ?thesis
      using outboxIteration_Idle [OF assms it [unfolded Idle]] it
      by (simp add: ProcessOutbox_eq fuel findIndex_None)
  next
    case Progress
    obtain s' n where "outboxLoop env fuel (Suc 0) s1 = (s', Suc 0 + n, None)" "loop_ok env fuel s1 s' n"
      using outboxLoop_ok [OF assms(1) inv] by blast
    then show ?thesis
      using ok it Progress by (simp add: ProcessOutbox_eq fuel loop_ok_def iteration_ok_def)
  qed (use ok in \<open>simp add: iteration_ok_def\<close>)
qed

lemma workerRounds_decreases:
  assumes "fresh_ids env" and "saga_inv env s" and "e \<in> set (outbox s)" "\<not> ev_processed e"
    and "\<forall>m \<ge> n. ev_nextAttempt e \<le> timeNow env m"
  shows "\<exists>k. work (workerRounds env limit k s) < work s"
  using assms(2,3)
proof (induction "n - clock s" arbitrary: s rule: less_induct)
  case less
  let ?s' = "fst (ProcessOutbox env limit s)"
  show ?case
    using ProcessOutbox_progress [OF assms(1) less.prems(1), of limit]
  proof (elim disjE conjE)
    assume "work ?s' < work s"
    then show ?thesis by (intro exI [of _ 1]) (simp add: workerRounds_def)
  next
    assume idle: "?s' = s\<lparr>clock := Suc (clock s)\<rparr>"
      and none: "\<forall>e \<in> set (outbox s). \<not> readyEvent (timeNow env (clock s)) e"
    have "\<not> readyEvent (timeNow env (clock s)) e" using none less.prems(2) by blast
    then have "clock s < n"
      using assms(4,5) by (meson linorder_not_less readyEvent_def)
    then have "n - clock ?s' < n - clock s" by (simp add: idle)
    then obtain k where "work (workerRounds env limit k ?s') < work ?s'"
      using less.hyps [of ?s'] less.prems idle by auto
    then show ?thesis
      using idle by (intro exI [of _ "Suc k"]) (simp add: workerRounds_Suc work_def)
  qed
qed

lemma workerRounds_drain:
  assumes "fresh_ids env" and "saga_inv env s" and "advancing env"
  shows "\<exists>k. work (workerRounds env limit k s) = 0"
  using assms(2)
proof (induction "work s" arbitrary: s rule: less_induct)
  case less
  show ?case
  proof (cases "work s = 0")
    case True
    then show ?thesis by (intro exI [of _ 0]) (simp add: workerRounds_def)
  next
    case False
    then obtain e where e: "e \<in> set (outbox s)" "\<not> ev_processed e"
      by (auto simp: work_zero_iff weight_def split: if_splits)
    obtain n where "\<forall>m \<ge> n. ev_nextAttempt e \<le> timeNow env m"
      using assms(3) by (auto simp: advancing_def)
    then obtain k where k: "work (workerRounds env limit k s) < work s"
      using workerRounds_decreases [OF assms(1) less.prems e] by blast
    moreover have "saga_inv env (workerRounds env limit k s)"
      using workerRounds_inv [OF assms(1) less.prems] by blast
    ultimately obtain k' where "work (workerRounds env limit k' (workerRounds env limit k s)) = 0"
      using less.hyps by blast
    then show ?thesis by (auto simp: workerRounds_add [symmetric])
  qed
qed

lemma work_zero_settled:
  assumes "saga_inv env s" and "work s = 0" and "statusOf s sid = Some st"
  shows "settled st"
proof -
  obtain g where g: "sagas s sid = Some g" "st = r_Status (s_response g)"
    using assms(3) by (auto simp: statusOf_def)
  have idle: "\<forall>e \<in> set (events_of sid (outbox s)). weight e = 0"
    using assms(2) by (auto simp: work_zero_iff events_of_def)
  show ?thesis
    using saga_inv_phase [OF assms(1) g(1)] idle g(2)
    by (cases st) (auto simp: saga_phase_def settled_def weight_def credit_event_def comp_event_def)
qed

subsection \<open>Reachable states\<close>

text \<open>
  Every method holds the store's mutex for its whole body, except \<open>ProcessOutbox\<close>, which releases it
  after every event: the steps of the store, in any order and by any number of goroutines, are the
  public methods and the iterations of the worker. \<open>DestinationFailure\<close> is a public field.
\<close>

inductive mem_step :: "'d go_env \<Rightarrow> 'd :: linordered_ab_group_add MemoryStore \<Rightarrow> 'd MemoryStore \<Rightarrow> bool" for env where
  step_account: "mem_step env s (fst (CreateAccountInLedger env l name ty s))"
| step_transaction: "mem_step env s (fst (CreateTransaction env key es s))"
| step_transfer: "mem_step env s (fst (CreateTransfer env req s))"
| step_worker: "mem_step env s (fst (outboxIteration env s))"
| step_hook: "mem_step env s (s\<lparr>DestinationFailure := h\<rparr>)"

definition reachable :: "'d go_env \<Rightarrow> 'd :: linordered_ab_group_add MemoryStore \<Rightarrow> bool" where
  "reachable env s \<longleftrightarrow> (mem_step env)\<^sup>*\<^sup>* NewMemoryStore s"

text \<open>
  Postings of sagas are made once: the identifiers of all recorded legs are different. A leg is
  addressed by its number: source, destination, compensation.
\<close>

fun legID :: "nat \<Rightarrow> 'd memorySaga \<Rightarrow> string" where
  "legID 0 g = sourceTransactionID g"
| "legID (Suc 0) g = destinationTransactionID g"
| "legID (Suc (Suc _)) g = compensationTransactionID g"

definition legs_distinct :: "(string \<rightharpoonup> 'd memorySaga) \<Rightarrow> bool" where
  "legs_distinct m \<longleftrightarrow>
     (\<forall>sid sid' g g' i j. m sid = Some g \<and> m sid' = Some g' \<and> i < 3 \<and> j < 3 \<and>
        legID i g = legID j g' \<and> legID i g \<noteq> '''' \<longrightarrow> sid = sid' \<and> i = j)"

lemma legs_distinctD:
  "legs_distinct m \<Longrightarrow> m sid = Some g \<Longrightarrow> m sid' = Some g' \<Longrightarrow> i < 3 \<Longrightarrow> j < 3 \<Longrightarrow>
    legID i g = legID j g' \<Longrightarrow> legID i g \<noteq> '''' \<Longrightarrow> sid = sid' \<and> i = j"
  unfolding legs_distinct_def by blast

lemma legs_distinct_upd:
  assumes "legs_distinct m"
    and "\<And>i. i < 3 \<Longrightarrow> legID i g = '''' \<or> (\<exists>g0. m sid = Some g0 \<and> legID i g = legID i g0) \<or>
      i = k \<and> (\<forall>sid' g' j. m sid' = Some g' \<longrightarrow> j < 3 \<longrightarrow> legID j g' \<noteq> legID i g)"
  shows "legs_distinct (m(sid \<mapsto> g))"
  unfolding legs_distinct_def
proof (intro allI impI, elim conjE)
  fix x y g1 g2 i j
  assume *: "(m(sid \<mapsto> g)) x = Some g1" "(m(sid \<mapsto> g)) y = Some g2" "i < 3" "j < 3"
    "legID i g1 = legID j g2" "legID i g1 \<noteq> ''''"
  show "x = y \<and> i = j"
    using *(1,2) assms(2) [OF *(3)] assms(2) [OF *(4)] *(3-6) legs_distinctD [OF assms(1)]
    by (auto split: if_splits) metis+
qed

lemma leg_in_journal:
  assumes "saga_inv env s" and "sagas s sid = Some g" and "legID i g \<noteq> ''''"
  shows "legID i g \<in> t_ID ` set (transactions s)"
proof -
  have "leg_posted s tid l k x b \<Longrightarrow> tid \<in> t_ID ` set (transactions s)" for tid l k x b
    by (auto simp: leg_posted_def)
  then show ?thesis
    using saga_inv_data [OF assms(1,2)] assms(3)
    by (cases "(i, g)" rule: legID.cases) (auto simp: saga_data_ok_def Let_def)
qed

lemma store_inv_ids: "store_inv env s \<Longrightarrow> t \<in> set (transactions s) \<Longrightarrow> t_ID t \<in> issued env (uuids s)"
  by (auto simp: store_inv_def ids_ok_def)

lemma new_leg:
  assumes "saga_inv env s" and "store_inv env s2" and "transactions s2 = transactions s @ [tx]"
    and "t_ID tx \<noteq> ''''" and "sagas s sid = Some g"
  shows "legID i g \<noteq> t_ID tx"
proof -
  have "t_ID tx \<notin> t_ID ` set (transactions s)"
    using assms(2,3) by (auto simp: store_inv_def ids_ok_def)
  then show ?thesis using leg_in_journal [OF assms(1,5)] assms(4) by metis
qed

lemma CreateTransfer_opens:
  assumes "fresh_ids env" and "saga_inv env s" and "transferable s req source"
  shows "\<exists>s2 t. CreateTransfer env req s = (openSaga env req (t_ID t) s2, Inr (newResponse env req s2, False)) \<and>
    store_inv env s2 \<and> grows s s2 \<and> saga_frame s s2 \<and> transactions s2 = transactions s @ [t] \<and> t_ID t \<noteq> ''''"
proof (rule CreateTransfer_transferable [OF assms])
  fix s2 t c
  assume ct: "CreateTransfer env req s = (openSaga env req (t_ID t) s2, Inr (newResponse env req s2, False))"
    and s2: "store_inv env s2" "grows s s2" "saga_frame s s2" "t \<in> set (transactions s2)"
      "transactions s2 = transactions s @ [t]"
  have "t_ID t \<noteq> ''''"
    using store_inv_ids [OF s2(1,4)] assms(1) by (metis fresh_ids_def imageE issued_def)
  with ct s2 show ?thesis by (intro exI [of _ s2] exI [of _ t] conjI)
qed

lemma less_3_cases: "i < 3 \<Longrightarrow> P 0 \<Longrightarrow> P (Suc 0) \<Longrightarrow> P (Suc (Suc 0)) \<Longrightarrow> P (i :: nat)"
  by (metis One_nat_def Suc_1 less_Suc_eq less_one numeral_3_eq_3)

lemma legs_distinct_CreateTransfer:
  assumes "fresh_ids env" and "saga_inv env s" and "legs_distinct (sagas s)"
  shows "legs_distinct (sagas (fst (CreateTransfer env req s)))"
proof (cases "\<exists>source. transferable s req source")
  case False
  then show ?thesis using CreateTransfer_not_transferable [OF assms(2) False] assms(3) by simp
next
  case True
  then obtain source where T: "transferable s req source" by blast
  from CreateTransfer_opens [OF assms(1,2) T]
  obtain s2 t where ct: "CreateTransfer env req s = (openSaga env req (t_ID t) s2, Inr (newResponse env req s2, False))"
    and s2: "store_inv env s2" "saga_frame s s2" "transactions s2 = transactions s @ [t]" "t_ID t \<noteq> ''''"
    by blast
  note new = new_leg [OF assms(2) s2(1,3,4)]
  have "legs_distinct ((sagas s)(uuidNew env (uuids s2) \<mapsto> newSaga (newResponse env req s2) (t_ID t)))"
  proof (rule legs_distinct_upd [OF assms(3), where k = 0])
    fix i :: nat assume "i < 3"
    then show "legID i (newSaga (newResponse env req s2) (t_ID t)) = '''' \<or>
      (\<exists>g0. sagas s (uuidNew env (uuids s2)) = Some g0 \<and>
        legID i (newSaga (newResponse env req s2) (t_ID t)) = legID i g0) \<or>
      i = 0 \<and> (\<forall>sid' g' j. sagas s sid' = Some g' \<longrightarrow> j < 3 \<longrightarrow>
        legID j g' \<noteq> legID i (newSaga (newResponse env req s2) (t_ID t)))"
      by (rule less_3_cases) (use new in \<open>auto simp: newSaga_def\<close>)
  qed
  then show ?thesis using ct s2(2) by (simp add: openSaga_def saga_frame_def)
qed

lemma legID_setters [simp]:
  "legID i (setStatus st g) = legID i g" "legID i (setUpdatedAt t g) = legID i g"
  by (cases "(i, g)" rule: legID.cases; simp add: setStatus_def setUpdatedAt_def)+

lemma legs_distinct_record:
  assumes "legs_distinct m" and "m sid = Some g" and "\<And>i. legID i g' = (if i = k then tid else legID i g)"
    and "\<And>sid' g' j. m sid' = Some g' \<Longrightarrow> legID j g' \<noteq> tid"
  shows "legs_distinct (m(sid \<mapsto> g'))"
  by (rule legs_distinct_upd [OF assms(1), where k = k]) (use assms(2-4) in auto)

lemma legID_record:
  "i < 3 \<Longrightarrow> legID i (g\<lparr>destinationTransactionID := tid\<rparr>) = (if i = 1 then tid else legID i g)"
  "i < 3 \<Longrightarrow> legID i (g\<lparr>compensationTransactionID := tid\<rparr>) = (if i = 2 then tid else legID i g)"
  by (erule less_3_cases; simp add: numeral_2_eq_2)+

lemma legs_distinct_outboxIteration:
  assumes "fresh_ids env" and "saga_inv env s" and "legs_distinct (sagas s)"
  shows "legs_distinct (sagas (fst (outboxIteration env s)))"
  using assms(1,2)
proof (cases rule: outboxIteration_cases)
  case (credited i g s2 tx)
  have "legs_distinct ((sagas s)(ev_sagaID (outbox s ! i) \<mapsto> setUpdatedAt (timeNow env (clock s2))
      (setStatus TransferCompleted (g\<lparr>destinationTransactionID := t_ID tx\<rparr>))))"
    by (rule legs_distinct_upd [OF assms(3), where k = 1])
      (use credited(3) new_leg [OF assms(2) credited(8,13,11)] in \<open>auto simp: legID_record\<close>)
  then show ?thesis using credited(10,14) by (simp add: saga_frame_def)
next
  case (compensated i g e' s2 tx)
  have "legs_distinct ((sagas s)(ev_sagaID (outbox s ! i) \<mapsto> setUpdatedAt (timeNow env (clock s2))
      (setStatus TransferCompensated (g\<lparr>compensationTransactionID := t_ID tx\<rparr>))))"
    by (rule legs_distinct_upd [OF assms(3), where k = 2])
      (use compensated(3) new_leg [OF assms(2) compensated(8,13,11)] in \<open>auto simp: legID_record\<close>)
  then show ?thesis using compensated(10,14) by (simp add: saga_frame_def)
next
  case (failed i g err)
  have "legs_distinct ((sagas s)(ev_sagaID (outbox s ! i) \<mapsto>
      setUpdatedAt (timeNow env (clock s)) (setStatus TransferFailed g)))"
    by (rule legs_distinct_upd [OF assms(3)]) (use failed(3) in auto)
  then show ?thesis using failed(9) by (simp add: failedSaga_def Let_def)
qed (use assms(3) in simp_all)

definition run_inv :: "'d go_env \<Rightarrow> 'd :: linordered_ab_group_add MemoryStore \<Rightarrow> bool" where
  "run_inv env s \<longleftrightarrow> saga_inv env s \<and> legs_distinct (sagas s)"

lemma saga_inv_hook: "saga_inv env (s\<lparr>DestinationFailure := h\<rparr>) = saga_inv env s"
  by (simp add: saga_inv_def store_inv_def ids_ok_def saga_data_ok_def leg_posted_def account_in_def Let_def)

lemma mem_step_run_inv:
  assumes "mem_step env s s'" and "fresh_ids env" and "run_inv env s"
  shows "run_inv env s'"
proof -
  have inv: "saga_inv env s" "store_inv env s" and legs: "legs_distinct (sagas s)"
    using assms(3) by (simp_all add: run_inv_def saga_inv_store)
  show ?thesis
    using assms(1)
  proof (cases rule: mem_step.cases)
    case (step_account l name ty)
    then show ?thesis
      using legs CreateAccountInLedger_saga_inv [OF assms(2) inv(1), of l name ty]
        CreateAccountInLedger_grows(2) [OF assms(2) inv(2), of l name ty]
      by (simp add: run_inv_def saga_frame_def)
  next
    case (step_transaction key es)
    then show ?thesis
      using legs CreateTransaction_saga_inv [OF assms(2) inv(1), of key es]
        CreateTransaction_grows(2) [OF inv(2), of key es]
      by (simp add: run_inv_def)
  qed (use assms(2) inv legs in \<open>simp_all add: run_inv_def CreateTransfer_saga_inv outboxIteration_saga_inv
      legs_distinct_CreateTransfer legs_distinct_outboxIteration saga_inv_hook\<close>)
qed

lemma reachable_run_inv:
  assumes "fresh_ids env" and "reachable env s"
  shows "run_inv env s"
  using assms(2) unfolding reachable_def
proof (induction rule: rtranclp_induct)
  case base
  show ?case by (simp add: run_inv_def saga_inv_NewMemoryStore) (simp add: legs_distinct_def NewMemoryStore_def)
qed (use mem_step_run_inv [OF _ assms(1)] in blast)

lemma CreateTransfer_statusOf:
  assumes "fresh_ids env" and "saga_inv env s"
  shows "status_le (statusOf s) (statusOf (fst (CreateTransfer env req s)))"
proof (cases "\<exists>source. transferable s req source")
  case True
  then obtain source where T: "transferable s req source" by blast
  from CreateTransfer_opens [OF assms T]
  obtain s2 t where ct: "CreateTransfer env req s = (openSaga env req (t_ID t) s2, Inr (newResponse env req s2, False))"
    and s2: "store_inv env s2" "grows s s2" "saga_frame s s2"
      "transactions s2 = transactions s @ [t]"
    by blast
  have "sagas s (uuidNew env (uuids s2)) = None"
    using saga_fresh(1) [OF assms, of "uuids s2"] s2(2) by (auto simp: grows_def)
  then show ?thesis
    using ct s2(3) by (auto simp: status_le_def statusOf_def openSaga_def saga_frame_def)
next
  case False
  then show ?thesis using CreateTransfer_not_transferable [OF assms(2) False] by simp
qed

lemma mem_step_statusOf:
  assumes "mem_step env s s'" and "fresh_ids env" and "run_inv env s"
  shows "status_le (statusOf s) (statusOf s')"
proof -
  have inv: "saga_inv env s" using assms(3) by (simp add: run_inv_def)
  show ?thesis
    using assms(1)
  proof (cases rule: mem_step.cases)
    case (step_account l name ty)
    then show ?thesis
      using CreateAccountInLedger_grows(2) [OF assms(2) saga_inv_store [OF inv], of l name ty]
      by (simp add: statusOf_def saga_frame_def)
  next
    case (step_transaction key es)
    then show ?thesis
      using CreateTransaction_grows(2) [OF saga_inv_store [OF inv], of key es] by (simp add: statusOf_def)
  next
    case step_worker
    then show ?thesis
      using outboxIteration_ok [OF assms(2) inv] status_step_le by (auto simp: iteration_ok_def)
  qed (use CreateTransfer_statusOf [OF assms(2) inv] in \<open>simp_all add: statusOf_def\<close>)
qed

lemma mem_steps_status_le:
  assumes "(mem_step env)\<^sup>*\<^sup>* s s'" and "fresh_ids env" and "run_inv env s"
  shows "run_inv env s' \<and> status_le (statusOf s) (statusOf s')"
  using assms(1)
proof (induction rule: rtranclp_induct)
  case (step y z)
  then show ?case
    using mem_step_run_inv [OF _ assms(2)] mem_step_statusOf [OF _ assms(2)] status_le_trans by blast
qed (simp add: assms(3))

subsection \<open>What steps keep\<close>

text \<open>
  Recorded keys stay recorded, the journal and the accounts stay, and a saga keeps its endpoints,
  its amount and its creation time.
\<close>

definition response_core :: "'d TransferResponse \<Rightarrow> 'd TransferResponse" where
  "response_core r = r\<lparr>r_Status := TransferPending, r_UpdatedAt := 0\<rparr>"

definition keeps :: "'d MemoryStore \<Rightarrow> 'd MemoryStore \<Rightarrow> bool" where
  "keeps s s' \<longleftrightarrow>
     grows s s' \<and> idempotencyKeys s \<subseteq>\<^sub>m idempotencyKeys s' \<and> transferKeys s \<subseteq>\<^sub>m transferKeys s' \<and>
     (\<forall>sid g. sagas s sid = Some g \<longrightarrow> (\<exists>g'. sagas s' sid = Some g' \<and>
        response_core (s_response g') = response_core (s_response g) \<and>
        sourceTransactionID g' = sourceTransactionID g))"

lemma keeps_refl [simp]: "keeps s s"
  by (simp add: keeps_def)

lemma keeps_trans: "keeps s s' \<Longrightarrow> keeps s' s'' \<Longrightarrow> keeps s s''"
  unfolding keeps_def by (intro conjI; (meson map_le_trans grows_trans)?; metis)

lemma keeps_saga_frame: "grows s s' \<Longrightarrow> saga_frame s s' \<Longrightarrow> keeps s s'"
  by (simp add: keeps_def saga_frame_def)

lemma response_core_setters [simp]:
  "response_core (s_response (setStatus st g)) = response_core (s_response g)"
  "response_core (s_response (setUpdatedAt t g)) = response_core (s_response g)"
  "sourceTransactionID (setStatus st g) = sourceTransactionID g"
  "sourceTransactionID (setUpdatedAt t g) = sourceTransactionID g"
  by (simp_all add: response_core_def setStatus_def setUpdatedAt_def)

lemma idempotencyKeys_frame [simp]:
  "idempotencyKeys (putSaga sid g s) = idempotencyKeys s"
  "idempotencyKeys (processed i s) = idempotencyKeys s"
  "idempotencyKeys (bumped i s) = idempotencyKeys s"
  "idempotencyKeys (rescheduled t i s) = idempotencyKeys s"
  "idempotencyKeys (hooked s) = idempotencyKeys s"
  by (simp_all add: putSaga_def processed_def bumped_def rescheduled_def updateEvent_def hooked_def)

lemma outboxIteration_keeps:
  assumes "fresh_ids env" and "saga_inv env s"
  shows "keeps s (fst (outboxIteration env s))"
  using assms
proof (cases rule: outboxIteration_cases)
  case idle
  then show ?thesis by (simp add: keeps_def grows_fields)
next
  case (credited i g s2 tx)
  then show ?thesis by (simp add: keeps_def saga_frame_def grows_fields)
next
  case (retried i g err)
  then show ?thesis by (simp add: keeps_def grows_fields)
next
  case (failed i g err)
  then show ?thesis by (simp add: keeps_def failedSaga_def Let_def grows_fields grows_uuids)
next
  case (compensated i g e' s2 tx)
  then show ?thesis by (simp add: keeps_def saga_frame_def grows_fields)
qed

lemma CreateTransaction_keeps:
  assumes "store_inv env s"
  shows "keeps s (fst (CreateTransaction env key es s))"
proof -
  have "idempotencyKeys s \<subseteq>\<^sub>m idempotencyKeys (fst (CreateTransaction env key es s))"
    using assms
    by (cases rule: CreateTransaction_cases [where key = key and es = es])
      (auto simp: recordKey_def map_le_def dom_def)
  then show ?thesis using CreateTransaction_grows [OF assms, of key es] by (simp add: keeps_def)
qed

lemma CreateTransfer_keeps:
  assumes "fresh_ids env" and "saga_inv env s"
  shows "keeps s (fst (CreateTransfer env req s))"
proof (cases "\<exists>source. transferable s req source")
  case True
  then obtain source where T: "transferable s req source" by blast
  from CreateTransfer_opens [OF assms T]
  obtain s2 t where ct: "CreateTransfer env req s = (openSaga env req (t_ID t) s2, Inr (newResponse env req s2, False))"
    and s2: "grows s s2" "saga_frame s s2" "transactions s2 = transactions s @ [t]"
    by blast
  have "sagas s (uuidNew env (uuids s2)) = None" "transferKeys s (IdempotencyKey req) = None"
    using saga_fresh(1) [OF assms, of "uuids s2"] s2(1) T by (auto simp: grows_def transferable_def)
  then show ?thesis
    using ct s2(1,2)
    by (auto simp: keeps_def openSaga_def saga_frame_def grows_fields grows_uuids map_le_def dom_def)
next
  case False
  then show ?thesis using CreateTransfer_not_transferable [OF assms(2) False] by simp
qed

lemma mem_step_keeps:
  assumes "mem_step env s s'" and "fresh_ids env" and "run_inv env s"
  shows "keeps s s'"
proof -
  have inv: "saga_inv env s" "store_inv env s" using assms(3) by (simp_all add: run_inv_def saga_inv_store)
  show ?thesis
    using assms(1)
  proof (cases rule: mem_step.cases)
    case (step_account l name ty)
    then show ?thesis
      using CreateAccountInLedger_grows [OF assms(2) inv(2), of l name ty] by (simp add: keeps_saga_frame)
  next
    case (step_hook h)
    then show ?thesis by (simp add: keeps_def grows_fields)
  qed (use assms(2) inv in \<open>simp_all add: CreateTransaction_keeps CreateTransfer_keeps outboxIteration_keeps\<close>)
qed

lemma mem_steps_keeps:
  assumes "(mem_step env)\<^sup>*\<^sup>* s s'" and "fresh_ids env" and "run_inv env s"
  shows "run_inv env s' \<and> keeps s s'"
  using assms(1)
proof (induction rule: rtranclp_induct)
  case (step y z)
  then show ?case
    using mem_step_run_inv [OF _ assms(2)] mem_step_keeps [OF _ assms(2)] keeps_trans by blast
qed (simp add: assms(3))

end
