(* ===== verification/Memory_Example.thy ===== *)
theory Memory_Example
  imports Memory_Runs
begin

text \<open>
  A concrete run of the in-memory store, on which the hypotheses of its properties hold: two ledgers \<open>A\<close>
  and \<open>B\<close>, a posting under an idempotency key, a transfer and the iteration of the worker that completes it.
\<close>

fun unary :: "int \<Rightarrow> string" where
  "unary d = (if d < 0 then ''-'' else '''') @ replicate (nat \<bar>d\<bar>) CHR ''1''"

definition demoEnv :: "int go_env" where
  "demoEnv = \<lparr>ToLower = (\<lambda>x. x), StringFixed = (\<lambda>_. unary),
     jsonMarshal = (\<lambda>r. c_LedgerID r @ concat (map (\<lambda>e. ''/'' @ c_AccountID e @ '':'' @ c_Credit e @ '':'' @ c_Debit e)
        (c_Entries r))),
     Sum256 = (\<lambda>x. x), uuidNew = (\<lambda>n. replicate (Suc n) CHR ''u''), timeNow = (\<lambda>n. int n * 1000000000)\<rparr>"

definition demoEntries :: "int EntryRequest list" where
  "demoEntries = [debitLine ''u'' 100, creditLine ''uu'' 100]"

definition demoTransfer :: "int TransferRequest" where
  "demoTransfer = \<lparr>SourceLedgerID = ''A'', SourceAccountID = ''u'', DestinationLedgerID = ''B'',
     DestinationAccountID = ''uuu'', Amount = 30, IdempotencyKey = ''t1''\<rparr>"

definition demoAccounts :: "int MemoryStore" where
  "demoAccounts =
     fst (CreateAccountInLedger demoEnv ''B'' ''cash'' AssetType
       (fst (CreateAccountInLedger demoEnv ''A'' ''capital'' EquityType
         (fst (CreateAccountInLedger demoEnv ''A'' ''cash'' AssetType NewMemoryStore)))))"

definition demoPosted :: "int MemoryStore" where
  "demoPosted = fst (CreateTransaction demoEnv ''k1'' demoEntries demoAccounts)"

definition demoOpen :: "int MemoryStore" where
  "demoOpen = fst (CreateTransfer demoEnv demoTransfer demoPosted)"

definition demoDone :: "int MemoryStore" where
  "demoDone = fst (outboxIteration demoEnv demoOpen)"

lemma demo_fresh: "fresh_ids demoEnv"
  by (auto simp: fresh_ids_def demoEnv_def intro!: injI)

lemma demo_advancing: "advancing demoEnv"
  unfolding advancing_def
proof
  fix T :: int
  show "\<exists>n. \<forall>m \<ge> n. T \<le> timeNow demoEnv m"
    by (rule exI [of _ "nat T"]) (auto simp: demoEnv_def)
qed

lemma reachable_step: "reachable env s \<Longrightarrow> mem_step env s s' \<Longrightarrow> reachable env s'"
  unfolding reachable_def by (rule rtranclp.rtrancl_into_rtrancl)

lemma reachable_new: "reachable env NewMemoryStore"
  by (simp add: reachable_def)

lemma demo_reachable:
  "reachable demoEnv demoAccounts" "reachable demoEnv demoPosted" "reachable demoEnv demoOpen"
  "reachable demoEnv demoDone"
proof -
  show 1: "reachable demoEnv demoAccounts"
    unfolding demoAccounts_def by (intro reachable_step [OF _ step_account] reachable_new)
  show 2: "reachable demoEnv demoPosted"
    unfolding demoPosted_def by (intro reachable_step [OF 1 step_transaction])
  show 3: "reachable demoEnv demoOpen"
    unfolding demoOpen_def by (intro reachable_step [OF 2 step_transfer])
  show "reachable demoEnv demoDone"
    unfolding demoDone_def by (intro reachable_step [OF 3 step_worker])
qed

lemma reachable_inv:
  assumes "fresh_ids env" and "reachable env s"
  shows "run_inv env s" and "saga_inv env s" and "store_inv env s"
  using reachable_run_inv [OF assms] by (auto simp: run_inv_def saga_inv_store)

lemmas demo_inv = reachable_inv [OF demo_fresh]

text \<open>The states of the run, evaluated.\<close>

abbreviation acct :: "string \<Rightarrow> string \<Rightarrow> string \<Rightarrow> AccountType \<Rightarrow> int \<Rightarrow> int Account" where
  "acct aid l name ty b \<equiv> \<lparr>a_ID = aid, a_LedgerID = l, a_Name = name, a_Type = ty, a_Balance = b\<rparr>"

abbreviation line :: "string \<Rightarrow> string \<Rightarrow> string \<Rightarrow> int \<Rightarrow> int \<Rightarrow> int Entry" where
  "line eid aid tid c d \<equiv> \<lparr>e_ID = eid, e_AccountID = aid, e_TransactionID = tid, e_Credit = c, e_Debit = d\<rparr>"

lemma demo_uuid: "uuidNew demoEnv n = CHR ''u'' # replicate n CHR ''u''"
  and demo_time: "timeNow demoEnv n = int n * 1000000000"
  by (simp_all add: demoEnv_def)

lemma replicate_num: "replicate (numeral k) x = x # replicate (pred_numeral k) x"
  by (simp add: numeral_eq_Suc)

lemmas demo_eval = newUUID_def now_def demo_uuid demo_time replicate_num map_get_def Let_def go_consts

lemma demoAccounts_eq: "demoAccounts = NewMemoryStore
  \<lparr>accounts := [''u'' \<mapsto> acct ''u'' ''A'' ''cash'' AssetType 0,
     ''uu'' \<mapsto> acct ''uu'' ''A'' ''capital'' EquityType 0, ''uuu'' \<mapsto> acct ''uuu'' ''B'' ''cash'' AssetType 0],
   uuids := 3\<rparr>"
  by (simp add: demoAccounts_def CreateAccountInLedger_def ValidateAccount_def NewMemoryStore_def demo_eval)

lemma demoPosted_eq: "demoPosted = NewMemoryStore
  \<lparr>accounts := [''u'' \<mapsto> acct ''u'' ''A'' ''cash'' AssetType 100,
     ''uu'' \<mapsto> acct ''uu'' ''A'' ''capital'' EquityType (-100), ''uuu'' \<mapsto> acct ''uuu'' ''B'' ''cash'' AssetType 0],
   transactions := [\<lparr>t_ID = ''uuuu'', t_LedgerID = ''A'',
      t_Entries = [line ''uuuuu'' ''u'' ''uuuu'' 0 100, line ''uuuuuu'' ''uu'' ''uuuu'' 100 0], t_Timestamp = 0\<rparr>],
   idempotencyKeys := [''k1'' \<mapsto> \<lparr>k_transactionID = ''uuuu'',
      k_checksum = TransactionRequestChecksum demoEnv '''' demoEntries\<rparr>],
   uuids := 6, clock := 1\<rparr>"
  by (simp add: demoPosted_def demoAccounts_eq CreateTransaction_def createTransaction_def demoEntries_def
      ValidateTransaction_def debitLine_def creditLine_def NewMemoryStore_def updateAccountBalance_def demo_eval
      fun_eq_iff)

lemma demoOpen_result:
  "transferable demoPosted demoTransfer (acct ''u'' ''A'' ''cash'' AssetType 100)"
  by (simp add: transferable_def demoPosted_eq demoTransfer_def validateTransfer_def account_in_def
      displayedBalanceAfter_def NewMemoryStore_def)

definition demoSaga :: "int memorySaga" where
  "demoSaga = \<lparr>s_response = \<lparr>r_ID = ''uuuuuuuuuuu'', r_SourceLedgerID = ''A'', r_SourceAccountID = ''u'',
     r_DestinationLedgerID = ''B'', r_DestinationAccountID = ''uuu'', r_Amount = 30, r_Status = TransferPending,
     r_CreatedAt = 2000000000, r_UpdatedAt = 2000000000\<rparr>,
     sourceTransactionID = ''uuuuuuuu'', destinationTransactionID = '''', compensationTransactionID = ''''\<rparr>"

lemma demoOpen_eq: "demoOpen = demoPosted
  \<lparr>accounts := (accounts demoPosted)(''u'' \<mapsto> acct ''u'' ''A'' ''cash'' AssetType 70,
     ''uuuuuuu'' \<mapsto> acct ''uuuuuuu'' ''A'' ''__transfer_clearing__'' AssetType 30),
   transactions := transactions demoPosted @ [\<lparr>t_ID = ''uuuuuuuu'', t_LedgerID = ''A'',
      t_Entries = [line ''uuuuuuuuu'' ''u'' ''uuuuuuuu'' 30 0, line ''uuuuuuuuuu'' ''uuuuuuu'' ''uuuuuuuu'' 0 30],
      t_Timestamp = 1000000000\<rparr>],
   sagas := [''uuuuuuuuuuu'' \<mapsto> demoSaga], transferKeys := [''t1'' \<mapsto> ''uuuuuuuuuuu''],
   outbox := [\<lparr>ev_id = ''uuuuuuuuuuuu'', ev_sagaID = ''uuuuuuuuuuu'', ev_step = ''destination_credit'',
      ev_attempts = 0, ev_nextAttempt = 2000000000, ev_processed = False\<rparr>],
   clearingAccounts := [''A'' \<mapsto> ''uuuuuuu''], uuids := 12, clock := 3\<rparr>"
  by (simp add: demoOpen_def demoPosted_eq CreateTransfer_def demoTransfer_def validateTransfer_def
      displayedBalanceAfter_def clearingAccountLocked_def createTransaction_def demoSaga_def
      ValidateTransaction_def debitLine_def creditLine_def NewMemoryStore_def updateAccountBalance_def demo_eval
      fun_eq_iff)

lemma demoDone_eq: "demoDone = demoOpen
  \<lparr>accounts := (accounts demoOpen)(''uuu'' \<mapsto> acct ''uuu'' ''B'' ''cash'' AssetType 30,
     ''uuuuuuuuuuuuu'' \<mapsto> acct ''uuuuuuuuuuuuu'' ''B'' ''__transfer_clearing__'' AssetType (-30)),
   transactions := transactions demoOpen @ [\<lparr>t_ID = ''uuuuuuuuuuuuuu'', t_LedgerID = ''B'',
      t_Entries = [line ''uuuuuuuuuuuuuuu'' ''uuu'' ''uuuuuuuuuuuuuu'' 0 30,
        line ''uuuuuuuuuuuuuuuu'' ''uuuuuuuuuuuuu'' ''uuuuuuuuuuuuuu'' 30 0], t_Timestamp = 4000000000\<rparr>],
   sagas := [''uuuuuuuuuuu'' \<mapsto> demoSaga\<lparr>s_response := (s_response demoSaga)\<lparr>r_Status := TransferCompleted,
       r_UpdatedAt := 5000000000\<rparr>, destinationTransactionID := ''uuuuuuuuuuuuuu''\<rparr>],
   outbox := [\<lparr>ev_id = ''uuuuuuuuuuuu'', ev_sagaID = ''uuuuuuuuuuu'', ev_step = ''destination_credit'',
      ev_attempts = 0, ev_nextAttempt = 2000000000, ev_processed = True\<rparr>],
   clearingAccounts := (clearingAccounts demoOpen)(''B'' \<mapsto> ''uuuuuuuuuuuuu''), uuids := 16, clock := 6\<rparr>"
  by (simp add: demoDone_def demoOpen_eq demoPosted_eq outboxIteration_def readyEvent_def processEventLocked_def callHook_def
      postLegMem_def sagaRequest_def putSaga_def updateEvent_def setStatus_def setUpdatedAt_def
      clearingAccountLocked_def createTransaction_def demoSaga_def
      ValidateTransaction_def debitLine_def creditLine_def NewMemoryStore_def updateAccountBalance_def demo_eval
      fun_eq_iff)

end
