(* ===== verification/Memory_Properties.thy ===== *)
theory Memory_Properties
  imports Memory_Example
begin

text \<open>
  The properties of the in-memory store, each with an instance on the run
  of \<open>Memory_Example\<close>.
\<close>

subsection \<open>Recorded requests\<close>

text \<open>After a success under a key, the key leads to the returned transaction and the request's checksum.\<close>

lemma CreateTransaction_recorded:
  assumes "fresh_ids env" and "store_inv env s" and "key \<noteq> ''''"
    and "CreateTransaction env key es s = (s1, Inr (t, rep))"
  shows "t \<in> set (transactions s1)"
    and "idempotencyKeys s1 key =
      Some \<lparr>k_transactionID = t_ID t, k_checksum = TransactionRequestChecksum env '''' es\<rparr>"
proof -
  have "t \<in> set (transactions s1) \<and> idempotencyKeys s1 key =
      Some \<lparr>k_transactionID = t_ID t, k_checksum = TransactionRequestChecksum env '''' es\<rparr>"
    using assms(2)
  proof (cases rule: CreateTransaction_cases [where key = key and es = es])
    case (known m)
    then have m: "s1 = s" "k_checksum m = TransactionRequestChecksum env '''' es"
      "t = the (find (\<lambda>t. t_ID t = k_transactionID m) (transactions s))"
      using assms(4) by (auto split: if_splits)
    have "k_transactionID m \<in> t_ID ` set (transactions s)"
      using assms(2) known(2) by (simp add: store_inv_def ids_ok_def)
    then obtain t' where t': "t' \<in> set (transactions s)" "k_transactionID m = t_ID t'" by blast
    with store_inv_find [OF assms(2) t'(1)] m(3) have "t = t'"
      by (auto simp: getTransactionByID_def split: option.splits)
    with t' m known(2) show ?thesis by simp
  next
    case (posted l)
    then show ?thesis using assms(3,4) by (auto simp: recordKey_def)
  next
    case (rejected e u c)
    then show ?thesis using assms(4) by simp
  qed
  then show "t \<in> set (transactions s1)"
    and "idempotencyKeys s1 key =
      Some \<lparr>k_transactionID = t_ID t, k_checksum = TransactionRequestChecksum env '''' es\<rparr>" by auto
qed

lemma keeps_recorded:
  assumes "keeps s1 s2" and "store_inv env s2" and "t \<in> set (transactions s1)"
    and "idempotencyKeys s1 key = Some m" and "k_transactionID m = t_ID t"
  shows "idempotencyKeys s2 key = Some m"
    and "find (\<lambda>u. t_ID u = k_transactionID m) (transactions s2) = Some t"
proof -
  show "idempotencyKeys s2 key = Some m"
    using assms(1,4) map_le_Some by (auto simp: keeps_def)
  have "t \<in> set (transactions s2)" using assms(1,3) by (auto simp: keeps_def grows_def)
  from store_inv_find [OF assms(2) this] show "find (\<lambda>u. t_ID u = k_transactionID m) (transactions s2) = Some t"
    using assms(5) by (auto simp: getTransactionByID_def split: option.splits)
qed

lemma reachable_later:
  assumes "fresh_ids env" and "reachable env s" and "mem_step env s s1" and "(mem_step env)\<^sup>*\<^sup>* s1 s2"
  shows "reachable env s1" and "keeps s1 s2" and "store_inv env s2"
proof -
  show r: "reachable env s1" by (rule reachable_step [OF assms(2,3)])
  show "keeps s1 s2" and "store_inv env s2"
    using mem_steps_keeps [OF assms(4,1) reachable_inv(1) [OF assms(1) r]]
    by (auto simp: run_inv_def saga_inv_store)
qed

subsection \<open>Books\<close>

text \<open>
  C1: in every state the in-memory store can reach, by any interleaving of its methods with the outbox
  worker, every journal transaction has at least two one-sided positive entries on accounts of one ledger
  with equal debit and credit totals, every account's stored balance is the net of its journal entries,
  and the balances of each ledger sum to zero.
\<close>

theorem reachable_books:
  assumes "fresh_ids env" and "reachable env s"
  shows "books_ok (accounts s) (transactions s) \<and> ledgerTotal (accounts s) l = 0"
  using store_inv_books [OF reachable_inv(3) [OF assms]] ledgerTotal_zero by blast

theorem reachable_books_witness:
  "books_ok (accounts demoDone) (transactions demoDone) \<and> ledgerTotal (accounts demoDone) ''A'' = 0 \<and>
   length (transactions demoDone) = 3"
  using reachable_books [OF demo_fresh demo_reachable(4), of "''A''"]
  by (simp add: demoDone_eq demoOpen_eq demoPosted_eq)

text \<open>
  C13: what a transfer's status means, in every reachable state. The source debit is in the journal. A
  completed transfer has its destination credit in the journal and no compensation; a compensated one has
  its compensation in the journal and no destination credit; a pending or failed one has neither, and
  exactly one unprocessed event in the outbox that will decide it. All these postings are of the
  transfer's amount between the account named and the clearing account of its ledger.
\<close>

theorem saga_status_explains_postings:
  assumes "fresh_ids env" and "reachable env s" and "sagas s sid = Some g"
  shows "saga_data_ok s sid g \<and> saga_phase g (events_of sid (outbox s))"
  using reachable_inv(2) [OF assms(1,2)] assms(3) by (simp add: saga_inv_def)

theorem saga_status_explains_postings_witness:
  "\<exists>g. sagas demoDone ''uuuuuuuuuuu'' = Some g \<and> r_Status (s_response g) = TransferCompleted \<and>
     saga_data_ok demoDone ''uuuuuuuuuuu'' g \<and> saga_phase g (events_of ''uuuuuuuuuuu'' (outbox demoDone))"
proof -
  obtain g where g: "sagas demoDone ''uuuuuuuuuuu'' = Some g" "r_Status (s_response g) = TransferCompleted"
    by (simp add: demoDone_eq)
  with saga_status_explains_postings [OF demo_fresh demo_reachable(4) g(1)] show ?thesis by blast
qed



text \<open>
  A transfer that is completed or compensated stays so, whatever happens next; in general its status
  only moves along pending to completed, pending to failed and failed to compensated.
\<close>

theorem transfer_status_monotone:
  assumes "fresh_ids env" and "reachable env s" and "(mem_step env)\<^sup>*\<^sup>* s s'" and "statusOf s sid = Some a"
  shows "\<exists>b. statusOf s' sid = Some b \<and> saga_step\<^sup>*\<^sup>* a b \<and> (settled a \<longrightarrow> b = a)"
  using mem_steps_status_le [OF assms(3,1) reachable_inv(1) [OF assms(1,2)]] assms(4) settled_final
  unfolding status_le_def by metis

theorem transfer_status_monotone_witness:
  "\<exists>b. statusOf demoDone ''uuuuuuuuuuu'' = Some b \<and> saga_step\<^sup>*\<^sup>* TransferPending b"
proof -
  have "(mem_step demoEnv)\<^sup>*\<^sup>* demoOpen demoDone" unfolding demoDone_def by (rule r_into_rtranclp) (rule step_worker)
  moreover have "statusOf demoOpen ''uuuuuuuuuuu'' = Some TransferPending"
    by (simp add: statusOf_def demoOpen_eq demoSaga_def)
  ultimately show ?thesis
    using transfer_status_monotone [OF demo_fresh demo_reachable(3)] by blast
qed

text \<open>
  C26: the worker settles every transfer. From any reachable state, if the clock advances without bound,
  some number of calls of \<open>ProcessOutbox\<close> (with any limit) leaves every transfer completed or compensated.
\<close>

theorem outbox_settles_transfers:
  assumes "fresh_ids env" and "reachable env s" and "advancing env"
  shows "\<exists>n. \<forall>sid st. statusOf (workerRounds env limit n s) sid = Some st \<longrightarrow> settled st"
proof -
  note inv = reachable_inv(2) [OF assms(1,2)]
  obtain n where "work (workerRounds env limit n s) = 0"
    using workerRounds_drain [OF assms(1) inv assms(3)] by blast
  then show ?thesis
    using work_zero_settled workerRounds_inv [OF assms(1) inv] by blast
qed

theorem outbox_settles_transfers_witness:
  "\<exists>n. \<forall>sid st. statusOf (workerRounds demoEnv 10 n demoOpen) sid = Some st \<longrightarrow> settled st"
  by (rule outbox_settles_transfers [OF demo_fresh demo_reachable(3) demo_advancing])

text \<open>
  C31: \<open>ProcessOutbox\<close> never returns an error in a reachable state, handles at most its limit (100 when the
  limit is not positive), and each event it handles uses up work, so the number of calls that do something
  is bounded; when it handled fewer events than its limit, no event was ready at its last clock reading.
\<close>

theorem ProcessOutbox_total:
  assumes "fresh_ids env" and "reachable env s"
  shows "\<exists>s' n. ProcessOutbox env limit s = (s', n, None) \<and> n \<le> outboxLimit limit \<and> work s' + n \<le> work s \<and>
    (n < outboxLimit limit \<longrightarrow> (\<forall>e \<in> set (outbox s'). \<not> readyEvent (timeNow env (clock s' - 1)) e))"
proof (rule ProcessOutbox_ok [OF assms(1) reachable_inv(2) [OF assms]])
  fix s' n
  assume "ProcessOutbox env limit s = (s', n, None)" "loop_ok env (outboxLimit limit) s s' n"
  then show ?thesis
    by (intro exI [of _ s'] exI [of _ n]) (simp add: loop_ok_def findIndex_None)
qed

theorem ProcessOutbox_total_witness:
  "\<exists>s' n. ProcessOutbox demoEnv 0 demoOpen = (s', n, None) \<and> n \<le> 100 \<and> work s' + n \<le> 6"
proof -
  have "work demoOpen = 6" by (simp add: work_def weight_def demoOpen_eq)
  then show ?thesis
    using ProcessOutbox_total [OF demo_fresh demo_reachable(3), of 0] by (auto simp: outboxLimit_def)
qed

text \<open>
  C32: one iteration of the worker refines the abstract status machine: it either leaves every status or
  moves one transfer by one step of the machine, and it posts at most one journal transaction.
\<close>

theorem outboxIteration_refines_status_machine:
  assumes "fresh_ids env" and "reachable env s" and "outboxIteration env s = (s', r)"
  shows "status_step (statusOf s) (statusOf s') \<and>
    (\<exists>ts. length ts \<le> 1 \<and> transactions s' = transactions s @ ts) \<and> (\<forall>e. r \<noteq> Stop e)"
  using outboxIteration_ok [OF assms(1) reachable_inv(2) [OF assms(1,2)]] assms(3)
  by (auto simp: iteration_ok_def split: iteration.splits)

theorem outboxIteration_refines_status_machine_witness:
  "status_step (statusOf demoOpen) (statusOf demoDone) \<and> statusOf demoOpen \<noteq> statusOf demoDone"
proof -
  have "statusOf demoOpen ''uuuuuuuuuuu'' = Some TransferPending"
    "statusOf demoDone ''uuuuuuuuuuu'' = Some TransferCompleted"
    by (simp_all add: statusOf_def demoOpen_eq demoDone_eq demoSaga_def)
  then have "statusOf demoOpen \<noteq> statusOf demoDone" by auto
  moreover have "outboxIteration demoEnv demoOpen = (demoDone, snd (outboxIteration demoEnv demoOpen))"
    by (simp add: demoDone_def)
  ultimately show ?thesis
    using outboxIteration_refines_status_machine [OF demo_fresh demo_reachable(3)] by blast
qed

subsection \<open>Transactions\<close>

lemma CreateTransaction_again:
  assumes "fresh_ids env" and "reachable env s" and "key \<noteq> ''''"
    and "CreateTransaction env key es s = (s1, Inr (t, rep))"
    and "(mem_step env)\<^sup>*\<^sup>* s1 s2" and "mset es' = mset es"
  shows "CreateTransaction env key es' s2 = (s2, Inr (t, True))"
proof -
  have "mem_step env s s1" using step_transaction [of env s key es] assms(4) by simp
  note later = reachable_later [OF assms(1,2) this assms(5)]
  note rec = CreateTransaction_recorded [OF assms(1) reachable_inv(3) [OF assms(1,2)] assms(3,4)]
  have "TransactionRequestChecksum env '''' es' = TransactionRequestChecksum env '''' es"
    using assms(6) by (intro checksum_canonical) (simp add: canonicalRequest_eq_iff)
  then show ?thesis
    using keeps_recorded [OF later(2,3) rec] CreateTransaction_known [OF later(3) assms(3), of _ es'] by simp
qed

text \<open>
  C33: idempotency of \<open>CreateTransaction\<close>. Once a request has succeeded under a key, the same request in any
  order of its entries returns the same transaction, marked as a replay, and changes nothing, in every
  later state.
\<close>

theorem CreateTransaction_replay:
  assumes "fresh_ids env" and "reachable env s" and "key \<noteq> ''''"
    and "CreateTransaction env key es s = (s1, Inr (t, rep))"
    and "(mem_step env)\<^sup>*\<^sup>* s1 s2" and "mset es' = mset es"
  shows "CreateTransaction env key es' s2 = (s2, Inr (t, True))"
  by (rule CreateTransaction_again [OF assms])

theorem CreateTransaction_replay_witness:
  "\<exists>t. CreateTransaction demoEnv ''k1'' (rev demoEntries) demoDone = (demoDone, Inr (t, True)) \<and> t_ID t = ''uuuu''"
proof -
  have post: "postable (accounts demoAccounts) ''A'' demoEntries"
    by (simp add: postable_def valid_request_def balanced_def entry_ok_def demoEntries_def demoAccounts_eq
        debitLine_def creditLine_def)
  have new: "''k1'' = '''' \<or> idempotencyKeys demoAccounts ''k1'' = None"
    by (simp add: demoAccounts_eq NewMemoryStore_def)
  obtain t where t: "CreateTransaction demoEnv ''k1'' demoEntries demoAccounts = (demoPosted, Inr (t, False))"
      and "t_ID t = ''uuuu''"
    using CreateTransaction_new [OF new, of demoEnv demoEntries]
      createTransaction_postable [OF store_inv_keyed [OF demo_inv(3) [OF demo_reachable(1)]] post, of demoEnv]
    by (simp add: demoPosted_def postedTx_def demoAccounts_eq demo_eval)
  moreover have "(mem_step demoEnv)\<^sup>*\<^sup>* demoPosted demoDone"
    unfolding demoDone_def demoOpen_def
    by (meson rtranclp.rtrancl_into_rtrancl rtranclp.rtrancl_refl step_transfer step_worker)
  ultimately show ?thesis
    using CreateTransaction_replay [OF demo_fresh demo_reachable(1) _ t, of demoDone "rev demoEntries"] by auto
qed

text \<open>
  C34: a key used before with a request of another canonical form (and no digest collision) is a conflict: the
  call returns the conflict error and changes nothing.
\<close>

theorem CreateTransaction_conflict:
  assumes "fresh_ids env" and "reachable env s" and "key \<noteq> ''''"
    and "CreateTransaction env key es s = (s1, Inr (t, rep))" and "(mem_step env)\<^sup>*\<^sup>* s1 s2"
    and "canonicalRequest env '''' es' \<noteq> canonicalRequest env '''' es"
    and "no_collision env (canonicalRequest env '''' es) (canonicalRequest env '''' es')"
  shows "CreateTransaction env key es' s2 = (s2, Inl IdempotencyKeyConflict)"
proof -
  have "mem_step env s s1" using step_transaction [of env s key es] assms(4) by simp
  note later = reachable_later [OF assms(1,2) this assms(5)]
  note rec = CreateTransaction_recorded [OF assms(1) reachable_inv(3) [OF assms(1,2)] assms(3,4)]
  have "TransactionRequestChecksum env '''' es \<noteq> TransactionRequestChecksum env '''' es'"
    using checksum_eq_iff [OF assms(7)] assms(6) by simp
  then show ?thesis
    using keeps_recorded [OF later(2,3) rec] CreateTransaction_known [OF later(3) assms(3), of _ es'] by simp
qed

theorem CreateTransaction_conflict_witness:
  "CreateTransaction demoEnv ''k1'' [debitLine ''u'' 99, creditLine ''uu'' 99] demoPosted
     = (demoPosted, Inl IdempotencyKeyConflict)"
proof -
  let ?es = "[debitLine ''u'' 99, creditLine ''uu'' 99] :: int EntryRequest list"
  obtain s1 r where "CreateTransaction demoEnv ''k1'' demoEntries demoPosted = (s1, r)"
    by (cases "CreateTransaction demoEnv ''k1'' demoEntries demoPosted")
  then obtain t where t: "CreateTransaction demoEnv ''k1'' demoEntries demoPosted = (demoPosted, Inr (t, True))"
    using CreateTransaction_known [OF demo_inv(3) [OF demo_reachable(2)], of "''k1''" _ demoEntries]
    by (simp add: demoPosted_eq)
  have ne: "image_mset (canonicalEntry demoEnv) (mset ?es) \<noteq> image_mset (canonicalEntry demoEnv) (mset demoEntries)"
    by (simp add: demoEntries_def debitLine_def creditLine_def canonicalEntry_def demoEnv_def replicate_num
        add_eq_conv_ex)
  have "canonicalRequest demoEnv '''' ?es \<noteq> canonicalRequest demoEnv '''' demoEntries"
    using ne by (simp add: canonicalRequest_eq_iff)
  moreover have "no_collision demoEnv (canonicalRequest demoEnv '''' demoEntries) (canonicalRequest demoEnv '''' ?es)"
    by (simp add: no_collision_def canonicalRequest_def canonicalSort_def demoEntries_def debitLine_def creditLine_def
        canonicalEntry_def demoEnv_def replicate_num canonicalKey_def)
  ultimately show ?thesis
    by (intro CreateTransaction_conflict [OF demo_fresh demo_reachable(2) _ t]) simp_all
qed

text \<open>
  \<open>CreateTransaction\<close> without a recorded key succeeds exactly when the request is valid and all its
  accounts are in one ledger. It then appends one transaction with the lines of the request, changes the
  balance of every account by the request's net on it, and nothing else of any account; otherwise it
  leaves accounts, journal, keys, sagas and outbox as they were.
\<close>

theorem CreateTransaction_effect:
  assumes "fresh_ids env" and "reachable env s" and "key = '''' \<or> idempotencyKeys s key = None"
    and "CreateTransaction env key es s = (s', r)"
  shows "case r of
      Inl e \<Rightarrow> (\<nexists>l. postable (accounts s) l es) \<and> accounts s' = accounts s \<and> transactions s' = transactions s \<and>
        idempotencyKeys s' = idempotencyKeys s \<and> sagas s' = sagas s \<and> outbox s' = outbox s
    | Inr (t, replayed) \<Rightarrow> \<not> replayed \<and> postable (accounts s) (t_LedgerID t) es \<and>
        tx_lines t = request_lines es \<and> transactions s' = transactions s @ [t] \<and>
        accounts s' = applyNet (t_Entries t) (accounts s)"
  using reachable_inv(3) [OF assms(1,2)]
proof (cases rule: CreateTransaction_cases [where key = key and es = es])
  case (known m)
  then show ?thesis using assms(3) by simp
next
  case (posted l)
  then have "r = Inr (postedTx env l es s, False)"
    and s': "s' = recordKey env key es (postedTx env l es s) (addPosting (postedTx env l es s) s)"
    using assms(4) by simp_all
  moreover have "accounts s' = applyNet (t_Entries (postedTx env l es s)) (accounts s)"
    "transactions s' = transactions s @ [postedTx env l es s]" "t_LedgerID (postedTx env l es s) = l"
    by (simp_all add: s' recordKey_def postedTx_def)
  ultimately show ?thesis using posted(2) by simp
next
  case (rejected e u c)
  then show ?thesis using assms(4) by auto
qed

theorem CreateTransaction_effect_witness:
  "\<exists>s' t. CreateTransaction demoEnv '''' demoEntries demoDone = (s', Inr (t, False)) \<and>
     accounts s' = applyNet (t_Entries t) (accounts demoDone)"
proof -
  obtain s' r where c: "CreateTransaction demoEnv '''' demoEntries demoDone = (s', r)"
    by (cases "CreateTransaction demoEnv '''' demoEntries demoDone")
  have "postable (accounts demoDone) ''A'' demoEntries"
    by (simp add: postable_def valid_request_def balanced_def entry_ok_def demoEntries_def demoDone_eq demoOpen_eq
        demoPosted_eq debitLine_def creditLine_def)
  then show ?thesis
    using CreateTransaction_effect [OF demo_fresh demo_reachable(4) _ c] c by (auto split: sum.splits)
qed

subsection \<open>Accounts and balances\<close>

text \<open>
  \<open>CreateAccountInLedger\<close> adds, for a non-empty name and one of the five account types, exactly one
  account, with a new identifier, balance zero and the attributes given; on any other input it returns an
  error and changes nothing.
\<close>

theorem CreateAccountInLedger_effect:
  assumes "fresh_ids env" and "reachable env s" and "CreateAccountInLedger env l name ty s = (s', r)"
  shows "case r of
      Inl e \<Rightarrow> s' = s \<and> ValidateAccount name ty = Some e
    | Inr a \<Rightarrow> ValidateAccount name ty = (None :: 'd err option) \<and> accounts s (a_ID a) = None \<and>
        a_LedgerID a = l \<and> a_Name a = name \<and> a_Type a = ty \<and> a_Balance a = (0 :: 'd :: linordered_ab_group_add) \<and>
        accounts s' = (accounts s)(a_ID a \<mapsto> a) \<and> transactions s' = transactions s"
  using store_inv_next_account [OF assms(1) reachable_inv(3) [OF assms(1,2)]] assms(3)
  by (auto simp: CreateAccountInLedger_def newUUID_def Let_def split: option.splits)

theorem CreateAccountInLedger_effect_witness:
  "\<exists>s' a. CreateAccountInLedger demoEnv ''A'' ''rent'' ExpenseType demoDone = (s', Inr a) \<and>
     accounts demoDone (a_ID a) = None \<and> accounts s' = (accounts demoDone)(a_ID a \<mapsto> a)"
proof -
  obtain s' r where c: "CreateAccountInLedger demoEnv ''A'' ''rent'' ExpenseType demoDone = (s', r)"
    by (cases "CreateAccountInLedger demoEnv ''A'' ''rent'' ExpenseType demoDone")
  then show ?thesis
    using CreateAccountInLedger_effect [OF demo_fresh demo_reachable(4) c]
    by (auto simp: ValidateAccount_def split: sum.splits)
qed

text \<open>
  C35: the journal and the balances agree when read. The running balance over the whole history of an
  account is its stored balance, and \<open>GetBalance\<close> shows it with the sign of the account's type: as stored
  for assets and expenses, negated for liabilities, equity and revenue.
\<close>

theorem GetAccountEntries_GetBalance_agree:
  assumes "fresh_ids env" and "reachable env s" and "accounts s k = Some a"
    and "ValidateAccount (a_Name a) (a_Type a) = (None :: 'd err option)"
  shows "\<exists>resp. GetAccountEntries k \<lparr>From = 0, To = 0\<rparr> s = Inr resp \<and>
     RunningBalance resp = (a_Balance a :: 'd :: linordered_ab_group_add) \<and>
     GetBalance k s = Inr (displayedBalanceAfter (a_Type a) (RunningBalance resp) 0 0)"
proof -
  have "filter (inWindow \<lparr>From = 0, To = 0\<rparr>) ts = ts" for ts :: "'d Transaction list"
    by (rule filter_True) (simp add: inWindow_def)
  moreover have "a_Balance a = net k (concat (map t_Entries (transactions s)))"
    using store_inv_books [OF reachable_inv(3) [OF assms(1,2)]] assms(3) by (simp add: books_ok_def)
  ultimately show ?thesis
    using assms(3,4)
    by (auto simp: GetAccountEntries_eq GetBalance_def displayedBalanceAfter_def ValidateAccount_None_iff go_consts)
qed

theorem GetAccountEntries_GetBalance_agree_witness:
  "\<exists>resp. GetAccountEntries ''uu'' \<lparr>From = 0, To = 0\<rparr> demoDone = Inr resp \<and> RunningBalance resp = -100 \<and>
     GetBalance ''uu'' demoDone = Inr 100"
proof -
  have "accounts demoDone ''uu'' = Some (acct ''uu'' ''A'' ''capital'' EquityType (-100))"
    by (simp add: demoDone_eq demoOpen_eq demoPosted_eq)
  from GetAccountEntries_GetBalance_agree [OF demo_fresh demo_reachable(4) this] show ?thesis
    by (auto simp: ValidateAccount_def displayedBalanceAfter_def go_consts)
qed

text \<open>
  The entries returned for a window are exactly the account's journal entries of the transactions
  whose timestamp lies in it, in the order of their timestamps, and the running balance is their net.
\<close>

theorem GetAccountEntries_window:
  "\<exists>ts. mset ts = mset (filter (\<lambda>t. (From p = 0 \<or> From p \<le> t_Timestamp t) \<and> (To p = 0 \<or> t_Timestamp t \<le> To p))
          (transactions s)) \<and>
     sorted (map t_Timestamp ts) \<and>
     GetAccountEntries k p s = Inr \<lparr>Entries = filter (\<lambda>e. e_AccountID e = k) (concat (map t_Entries ts)),
       RunningBalance = net k (concat (map t_Entries ts))\<rparr>"
proof (rule exI [of _ "filter (inWindow p) (sort_key t_Timestamp (transactions s))"], intro conjI)
  have "inWindow p t \<longleftrightarrow> (From p = 0 \<or> From p \<le> t_Timestamp t) \<and> (To p = 0 \<or> t_Timestamp t \<le> To p)" for t :: "'a Transaction"
    by (auto simp: inWindow_def)
  then show "mset (filter (inWindow p) (sort_key t_Timestamp (transactions s))) =
    mset (filter (\<lambda>t. (From p = 0 \<or> From p \<le> t_Timestamp t) \<and> (To p = 0 \<or> t_Timestamp t \<le> To p)) (transactions s))"
    by (simp add: mset_filter)
  show "sorted (map t_Timestamp (filter (inWindow p) (sort_key t_Timestamp (transactions s))))"
    by (rule sorted_filter) simp
qed (simp add: GetAccountEntries_eq net_window_sort)

subsection \<open>Transfers\<close>

lemma net_tx_lines: "net k (t_Entries t) = (\<Sum>(aid, d, c)\<leftarrow>tx_lines t. if aid = k then d - c else 0)"
  unfolding net_def tx_lines_def by (simp add: comp_def case_prod_beta cong: map_cong if_cong)

text \<open>
  A new transfer debits the source at once and never overdraws it. After a successful call the source
  account's displayed balance is the old one changed by a credit of the amount, and it is not negative
  (the source not being the clearing account of its ledger).
\<close>

theorem CreateTransfer_never_overdraws:
  assumes "fresh_ids env" and "reachable env s" and "CreateTransfer env req s = (s', Inr (r, False))"
    and "accounts s (SourceAccountID req) = Some a"
    and "clearingAccounts s' (SourceLedgerID req) \<noteq> Some (SourceAccountID req)"
  shows "\<exists>a'. accounts s' (SourceAccountID req) = Some a' \<and> a_Type a' = a_Type a \<and>
    displayedBalanceAfter (a_Type a') (a_Balance a') 0 0 = displayedBalanceAfter (a_Type a) (a_Balance a) 0 (Amount req) \<and>
    0 \<le> displayedBalanceAfter (a_Type a') (a_Balance a') 0 0"
proof -
  note inv = reachable_inv(2,3) [OF assms(1,2)]
  have new: "transferKeys s (IdempotencyKey req) = None" "\<exists>source. transferable s req source"
    using assms(3) by (auto simp: CreateTransfer_def transferable_def account_in_def not_less
        split: option.splits if_splits prod.splits sum.splits)
  then have T: "transferable s req a" using assms(4) by (auto simp: transferable_def)
  show ?thesis
  proof (rule CreateTransfer_transferable [OF assms(1) inv(1) T])
    fix s2 t c
    assume ct: "CreateTransfer env req s = (openSaga env req (t_ID t) s2, Inr (newResponse env req s2, False))"
      and s2: "store_inv env s2" "grows s s2" "clearingAccounts s2 (SourceLedgerID req) = Some c"
        "tx_lines t = request_lines [creditLine (SourceAccountID req) (Amount req), debitLine c (Amount req)]"
        "transactions s2 = transactions s @ [t]"
    obtain a' where a': "accounts s2 (SourceAccountID req) = Some a'" "a_Type a' = a_Type a"
      using s2(2) assms(4) unfolding grows_def by blast
    have "c \<noteq> SourceAccountID req" using assms(3,5) ct s2(3) by (auto simp: openSaga_def)
    then have "net (SourceAccountID req) (t_Entries t) = - Amount req"
      by (simp add: net_tx_lines s2(4) request_lines_def creditLine_def debitLine_def)
    then have "a_Balance a' = a_Balance a - Amount req"
      using store_inv_books [OF inv(2)] store_inv_books [OF s2(1)] assms(4) a'(1)
      by (simp add: books_ok_def s2(5))
    moreover have "0 \<le> displayedBalanceAfter (a_Type a) (a_Balance a) 0 (Amount req)"
      using T by (simp add: transferable_def)
    moreover have "displayedBalanceAfter ty (b - x) 0 0 = displayedBalanceAfter ty b 0 x" for ty and b x :: 'a
      by (simp add: displayedBalanceAfter_def)
    moreover have "s' = openSaga env req (t_ID t) s2" using assms(3) ct by simp
    then have "accounts s' = accounts s2" by (simp add: openSaga_def)
    ultimately show ?thesis using a' by simp
  qed
qed

theorem CreateTransfer_never_overdraws_witness:
  "\<exists>a'. accounts demoOpen ''u'' = Some a' \<and> a_Type a' = AssetType \<and>
     displayedBalanceAfter AssetType (a_Balance a') 0 0 = 70"
proof -
  obtain r where r: "CreateTransfer demoEnv demoTransfer demoPosted = (demoOpen, Inr (r, False))"
    using CreateTransfer_opens [OF demo_fresh demo_inv(2) [OF demo_reachable(2)] demoOpen_result]
    by (auto simp: demoOpen_def)
  have "accounts demoPosted (SourceAccountID demoTransfer) = Some (acct ''u'' ''A'' ''cash'' AssetType 100)"
    "clearingAccounts demoOpen (SourceLedgerID demoTransfer) \<noteq> Some (SourceAccountID demoTransfer)"
    by (simp_all add: demoPosted_eq demoOpen_eq demoTransfer_def)
  from CreateTransfer_never_overdraws [OF demo_fresh demo_reachable(2) r this] show ?thesis
    by (auto simp: demoTransfer_def displayedBalanceAfter_def)
qed

text \<open>
  A call of \<open>CreateTransfer\<close> that returns an error changes nothing at all; it succeeds exactly when the key
  is known with the same request, or new and the request is well formed, names accounts of two different
  ledgers and is covered by the source.
\<close>

theorem CreateTransfer_error_leaves_store:
  assumes "fresh_ids env" and "reachable env s" and "CreateTransfer env req s = (s', r)"
  shows "(case r of Inl e \<Rightarrow> s' = s | Inr (resp, replayed) \<Rightarrow> s' = s \<longleftrightarrow> replayed) \<and>
    ((\<exists>resp. r = Inr (resp, False)) \<longleftrightarrow> (\<exists>source. transferable s req source))"
proof (cases "\<exists>source. transferable s req source")
  case True
  then obtain source where T: "transferable s req source" by blast
  obtain s2 t where ct: "CreateTransfer env req s = (openSaga env req (t_ID t) s2, Inr (newResponse env req s2, False))"
    and s2: "saga_frame s s2" "transactions s2 = transactions s @ [t]"
    using CreateTransfer_opens [OF assms(1) reachable_inv(2) [OF assms(1,2)] T] by blast
  have "transactions s' \<noteq> transactions s" using ct s2(2) assms(3) by (auto simp: openSaga_def)
  then have "s' \<noteq> s" by auto
  then show ?thesis using ct assms(3) T by auto
next
  case False
  have "s' = s" using CreateTransfer_not_transferable [OF reachable_inv(2) [OF assms(1,2)] False] assms(3) by simp
  moreover have "r \<noteq> Inr (resp, False)" for resp
    using assms(3) False by (auto simp: CreateTransfer_def transferable_def account_in_def not_less
        split: option.splits if_splits prod.splits sum.splits)
  ultimately show ?thesis using False by (cases r) auto
qed

theorem CreateTransfer_error_leaves_store_witness:
  "fst (CreateTransfer demoEnv (demoTransfer\<lparr>Amount := 1000, IdempotencyKey := ''t2''\<rparr>) demoPosted) = demoPosted"
proof -
  let ?req = "demoTransfer\<lparr>Amount := 1000, IdempotencyKey := ''t2''\<rparr>"
  obtain s' r where c: "CreateTransfer demoEnv ?req demoPosted = (s', r)"
    by (cases "CreateTransfer demoEnv ?req demoPosted")
  have "\<nexists>source. transferable demoPosted ?req source"
    by (auto simp: transferable_def demoPosted_eq demoTransfer_def displayedBalanceAfter_def)
  then show ?thesis
    using CreateTransfer_error_leaves_store [OF demo_fresh demo_reachable(2) c] c
    by (auto split: sum.splits prod.splits)
qed

lemma CreateTransfer_recorded:
  assumes "fresh_ids env" and "saga_inv env s" and "CreateTransfer env req s = (s1, Inr (r, rep))"
  shows "\<exists>g. transferKeys s1 (IdempotencyKey req) = Some (r_ID r) \<and> sagas s1 (r_ID r) = Some g \<and> s_response g = r \<and>
    sameTransfer r req"
proof (cases "\<exists>source. transferable s req source")
  case True
  then obtain source where "transferable s req source" by blast
  from CreateTransfer_opens [OF assms(1,2) this]
  obtain s2 t where "CreateTransfer env req s = (openSaga env req (t_ID t) s2, Inr (newResponse env req s2, False))"
      and "transactions s2 = transactions s @ [t]"
    by blast
  then show ?thesis using assms(3) by (auto simp: openSaga_def newSaga_def newResponse_def sameTransfer_def)
next
  case False
  then have "s1 = s" using CreateTransfer_not_transferable [OF assms(2) False] assms(3) by simp
  have ids: "sagas s sid = Some g \<Longrightarrow> r_ID (s_response g) = sid" for sid g
    using saga_inv_data [OF assms(2)] by (simp add: saga_data_ok_def Let_def)
  from False assms(3) show ?thesis
    using ids \<open>s1 = s\<close>
    by (auto simp: CreateTransfer_def transferable_def account_in_def not_less
        split: option.splits if_splits prod.splits sum.splits)
qed

lemma CreateTransfer_known:
  assumes "validateTransfer req = None" and "transferKeys s (IdempotencyKey req) = Some sid" and "sagas s sid = Some g"
  shows "CreateTransfer env req s = (s, if sameTransfer (s_response g) req then Inr (s_response g, True)
    else Inl TransferIdempotencyConflict)"
  using assms by (simp add: CreateTransfer_def)

lemma CreateTransfer_later:
  assumes "fresh_ids env" and "reachable env s" and "CreateTransfer env req s = (s1, Inr (r, rep))"
    and "(mem_step env)\<^sup>*\<^sup>* s1 s2"
  obtains g where "transferKeys s2 (IdempotencyKey req) = Some (r_ID r)" "sagas s2 (r_ID r) = Some g"
    "response_core (s_response g) = response_core r" "sameTransfer (s_response g) req"
    "saga_step\<^sup>*\<^sup>* (r_Status r) (r_Status (s_response g))"
proof -
  have step: "mem_step env s s1" using step_transfer [of env s req] assms(3) by simp
  note later = reachable_later [OF assms(1,2) step assms(4)]
  obtain g where g: "transferKeys s1 (IdempotencyKey req) = Some (r_ID r)" "sagas s1 (r_ID r) = Some g"
    "s_response g = r" "sameTransfer r req"
    using CreateTransfer_recorded [OF assms(1) reachable_inv(2) [OF assms(1,2)] assms(3)] by blast
  obtain g' where g': "sagas s2 (r_ID r) = Some g'" "response_core (s_response g') = response_core r"
    using later(2) g(2,3) unfolding keeps_def by blast
  have "transferKeys s2 (IdempotencyKey req) = Some (r_ID r)"
    using later(2) g(1) map_le_Some by (auto simp: keeps_def)
  moreover have "sameTransfer (s_response g') req"
    using g'(2) g(4) by (cases r; cases "s_response g'") (simp add: response_core_def sameTransfer_def)
  moreover have "statusOf s1 (r_ID r) = Some (r_Status r)" using g(2,3) by (simp add: statusOf_def)
  then have "saga_step\<^sup>*\<^sup>* (r_Status r) (r_Status (s_response g'))"
    using mem_steps_status_le [OF assms(4,1) reachable_inv(1) [OF assms(1) later(1)]] g'(1)
    unfolding status_le_def by (metis (mono_tags, lifting) option.inject option.simps(9) statusOf_def)
  ultimately show ?thesis using that g' by blast
qed

text \<open>
  Idempotency of \<open>CreateTransfer\<close>. Repeating a successful request in any later state returns the same
  transfer with its current status, marked as a replay, and changes nothing; reusing its key with other
  endpoints or another amount is a conflict and changes nothing.
\<close>

theorem CreateTransfer_replay:
  assumes "fresh_ids env" and "reachable env s" and "CreateTransfer env req s = (s1, Inr (r, rep))"
    and "(mem_step env)\<^sup>*\<^sup>* s1 s2"
    and "IdempotencyKey req' = IdempotencyKey req" and "validateTransfer req' = None"
  shows "(req' = req \<longrightarrow> (\<exists>r'. CreateTransfer env req' s2 = (s2, Inr (r', True)) \<and>
            response_core r' = response_core r \<and> saga_step\<^sup>*\<^sup>* (r_Status r) (r_Status r') \<and>
            GetTransfer (r_ID r) s2 = Inr r')) \<and>
    (req' \<noteq> req \<longrightarrow> CreateTransfer env req' s2 = (s2, Inl TransferIdempotencyConflict))"
proof (rule CreateTransfer_later [OF assms(1-4)])
  fix g
  assume g: "transferKeys s2 (IdempotencyKey req) = Some (r_ID r)" "sagas s2 (r_ID r) = Some g"
    "response_core (s_response g) = response_core r" "sameTransfer (s_response g) req"
    "saga_step\<^sup>*\<^sup>* (r_Status r) (r_Status (s_response g))"
  have same: "sameTransfer (s_response g) req' \<longleftrightarrow> req' = req"
    using g(4) assms(5) by (cases req; cases req') (auto simp: sameTransfer_def)
  have "GetTransfer (r_ID r) s2 = Inr (s_response g)" using g(2) by (simp add: GetTransfer_def)
  moreover have "CreateTransfer env req' s2 = (s2, if req' = req then Inr (s_response g, True)
      else Inl TransferIdempotencyConflict)"
    using CreateTransfer_known [OF assms(6) _ g(2)] g(1) assms(5) same by simp
  ultimately show ?thesis using g(3,5) by auto
qed

theorem CreateTransfer_replay_witness:
  "(\<exists>r'. CreateTransfer demoEnv demoTransfer demoDone = (demoDone, Inr (r', True)) \<and> r_ID r' = ''uuuuuuuuuuu'') \<and>
   CreateTransfer demoEnv (demoTransfer\<lparr>Amount := 31\<rparr>) demoDone = (demoDone, Inl TransferIdempotencyConflict)"
proof -
  have core: "r_ID r' = r_ID r" if "response_core r' = response_core r" for r r' :: "int TransferResponse"
    using that by (cases r; cases r') (simp add: response_core_def)
  have v: "validateTransfer demoTransfer = None" "validateTransfer (demoTransfer\<lparr>Amount := 31\<rparr>) = None"
    by (simp_all add: validateTransfer_def demoTransfer_def)
  obtain r where r: "CreateTransfer demoEnv demoTransfer demoPosted = (demoOpen, Inr (r, False))"
    using CreateTransfer_opens [OF demo_fresh demo_inv(2) [OF demo_reachable(2)] demoOpen_result]
    by (auto simp: demoOpen_def)
  have "r_ID r = ''uuuuuuuuuuu''"
    using CreateTransfer_recorded [OF demo_fresh demo_inv(2) [OF demo_reachable(2)] r]
    by (simp add: demoOpen_eq demoTransfer_def)
  moreover have steps: "(mem_step demoEnv)\<^sup>*\<^sup>* demoOpen demoDone"
    unfolding demoDone_def by (rule r_into_rtranclp) (rule step_worker)
  moreover have "demoTransfer\<lparr>Amount := 31\<rparr> \<noteq> demoTransfer" by (simp add: demoTransfer_def)
  moreover have "IdempotencyKey (demoTransfer\<lparr>Amount := 31\<rparr>) = IdempotencyKey demoTransfer" by simp
  ultimately show ?thesis
    using CreateTransfer_replay [OF demo_fresh demo_reachable(2) r steps refl v(1)]
      CreateTransfer_replay [OF demo_fresh demo_reachable(2) r steps _ v(2)] core
    by metis
qed

end
