(* ===== verification/Request_Properties.thy ===== *)
theory Request_Properties
  imports Idempotency
begin

text \<open>The properties of the validators (\<open>validators.go\<close>) and of the request checksum (\<open>idempotency.go\<close>).\<close>

subsection \<open>Validators\<close>

text \<open>The error of an entry that is not acceptable.\<close>

definition entryError :: "'d :: linordered_ab_group_add EntryRequest \<Rightarrow> 'd err" where
  "entryError e =
     (if Debit e < 0 \<or> Credit e < 0 then NegativeAmount
      else if Debit e = 0 \<and> Credit e = 0 then ZeroEntry else DebitAndCredit)"

lemma ValidateEntries_spec:
  "ValidateEntries d c es =
     (case find (\<lambda>e. \<not> entry_ok e) es of
        Some e \<Rightarrow> Inl (entryError e)
      | None \<Rightarrow> Inr (d + (\<Sum>e\<leftarrow>es. Debit e), c + (\<Sum>e\<leftarrow>es. Credit e)))"
  by (induction d c es rule: ValidateEntries.induct) (auto simp: entry_ok_iff entryError_def add.assoc split: option.splits)

text \<open>
  \<open>ValidateTransaction\<close> accepts exactly the requests with at least two entries, each moving a positive
  amount on exactly one side, whose debit and credit totals are equal; and it reports, in this order, too
  few entries, the defect of the first defective entry, and unequal totals with both totals.
\<close>

theorem ValidateTransaction_spec:
  "ValidateTransaction es =
     (if length es < 2 then Some TooFewEntries
      else case find (\<lambda>e. \<not> entry_ok e) es of
        Some e \<Rightarrow> Some (entryError e)
      | None \<Rightarrow> if balanced es then None else Some (TotalsDiffer (\<Sum>e\<leftarrow>es. Debit e) (\<Sum>e\<leftarrow>es. Credit e)))"
  by (auto simp: ValidateTransaction_def ValidateEntries_spec balanced_def split: option.splits)

subsection \<open>The checksum\<close>

text \<open>
  C36: two requests have the same checksum exactly when they name the same ledger and have the same entries,
  up to the order of the entries, the case of account identifiers and the rounding of amounts to two
  decimals (provided the two digests do not collide).
\<close>

theorem checksum_identifies_requests:
  assumes "no_collision c (canonicalRequest c l es) (canonicalRequest c l' es')"
  shows "TransactionRequestChecksum c l es = TransactionRequestChecksum c l' es' \<longleftrightarrow>
    l = l' \<and> image_mset (canonicalEntry c) (mset es) = image_mset (canonicalEntry c) (mset es')"
  using checksum_eq_iff [OF assms] by (simp add: canonicalRequest_eq_iff)

text \<open>
  A codec for the instances: amounts are integers counting thousandths, and the text of an amount is its
  value rounded to hundredths, in unary.
\<close>

definition milliCodec :: "int codec" where
  "milliCodec = \<lparr>ToLower = (\<lambda>x. x), StringFixed = (\<lambda>_ d. replicate (nat ((d + 5) div 10)) CHR ''1''),
     jsonMarshal = (\<lambda>r. c_LedgerID r @ concat (map (\<lambda>e. ''/'' @ c_AccountID e @ '':'' @ c_Credit e @ '':'' @ c_Debit e)
        (c_Entries r))),
     Sum256 = (\<lambda>x. x)\<rparr>"

definition milliRequest :: "int \<Rightarrow> int EntryRequest list" where
  "milliRequest x = [\<lparr>AccountID = ''a'', Credit = 0, Debit = x\<rparr>, \<lparr>AccountID = ''b'', Credit = x, Debit = 0\<rparr>]"

lemma milliRequest_canonical: "canonicalRequest milliCodec '''' (milliRequest x) =
  \<lparr>c_LedgerID = '''', c_Entries =
    [\<lparr>c_AccountID = ''a'', c_Credit = '''', c_Debit = replicate (nat ((x + 5) div 10)) CHR ''1''\<rparr>,
     \<lparr>c_AccountID = ''b'', c_Credit = replicate (nat ((x + 5) div 10)) CHR ''1'', c_Debit = ''''\<rparr>]\<rparr>"
  by (simp add: canonicalRequest_def canonicalSort_def milliRequest_def canonicalEntry_def milliCodec_def canonicalKey_def)

theorem checksum_identifies_requests_witness:
  "TransactionRequestChecksum milliCodec '''' (milliRequest 20) = TransactionRequestChecksum milliCodec '''' (rev (milliRequest 20)) \<and>
   TransactionRequestChecksum milliCodec '''' (milliRequest 20) \<noteq> TransactionRequestChecksum milliCodec '''' (milliRequest 30)"
proof -
  have rev: "canonicalRequest milliCodec '''' (rev (milliRequest 20)) = canonicalRequest milliCodec '''' (milliRequest 20)"
    by (simp add: canonicalRequest_eq_iff)
  have a: "no_collision milliCodec (canonicalRequest milliCodec '''' (milliRequest 20))
      (canonicalRequest milliCodec '''' (rev (milliRequest 20)))"
    by (simp add: no_collision_def rev)
  have b: "no_collision milliCodec (canonicalRequest milliCodec '''' (milliRequest 20))
      (canonicalRequest milliCodec '''' (milliRequest 30))"
    by (simp add: no_collision_def milliRequest_canonical) (simp add: milliCodec_def numeral_eq_Suc)
  have ne: "canonicalRequest milliCodec '''' (milliRequest 20) \<noteq> canonicalRequest milliCodec '''' (milliRequest 30)"
    by (simp add: milliRequest_canonical numeral_eq_Suc)
  then show ?thesis
    using checksum_identifies_requests [OF a] checksum_identifies_requests [OF b]
    by (simp add: canonicalRequest_eq_iff)
qed

text \<open>
  The checksum does not see more than two decimals: requests whose amounts differ only beyond them have
  the same checksum, although the amounts posted would differ.
\<close>

theorem checksum_ignores_further_decimals:
  assumes "list_all2 (\<lambda>e e'. AccountID e = AccountID e' \<and>
    StringFixed c transactionAmountScale (Debit e) = StringFixed c transactionAmountScale (Debit e') \<and>
    StringFixed c transactionAmountScale (Credit e) = StringFixed c transactionAmountScale (Credit e')) es es'"
  shows "TransactionRequestChecksum c l es = TransactionRequestChecksum c l es'"
proof -
  have "map (canonicalEntry c) es = map (canonicalEntry c) es'"
    using assms by (induction es es' rule: list_all2_induct) (auto simp: canonicalEntry_def)
  then show ?thesis by (simp add: TransactionRequestChecksum_def canonicalRequest_def)
qed

theorem checksum_ignores_further_decimals_witness:
  "milliRequest 1001 \<noteq> milliRequest 1004 \<and>
   TransactionRequestChecksum milliCodec '''' (milliRequest 1001) = TransactionRequestChecksum milliCodec '''' (milliRequest 1004)"
proof -
  have "list_all2 (\<lambda>e e'. AccountID e = AccountID e' \<and>
    StringFixed milliCodec transactionAmountScale (Debit e) = StringFixed milliCodec transactionAmountScale (Debit e') \<and>
    StringFixed milliCodec transactionAmountScale (Credit e) = StringFixed milliCodec transactionAmountScale (Credit e'))
    (milliRequest 1001) (milliRequest 1004)"
    by (simp add: milliRequest_def milliCodec_def)
  from checksum_ignores_further_decimals [OF this] show ?thesis by (simp add: milliRequest_def)
qed

end
