(* ===== verification/Completion_Wait.thy ===== *)
theory Completion_Wait
  imports Ledger_Prelude "HOL-Library.Word" "HOL-Library.AList"
begin

text \<open>
  \<open>internal/ledger/completion_wait.go\<close>: the in-process notifications that end a long poll, and the interleavings of a
  waiter with the worker that completes what it waits for.

  A channel is a number, the index of its flag in \<open>closed\<close>; the subscribers of a key are an association list
  from the numbers that \<open>nextID\<close> (a \<open>uint64\<close>) handed out to channels.
\<close>

record completionWaiters =
  nextID :: "64 word"
  waiters :: "string \<rightharpoonup> (64 word \<times> nat) list"
  closed :: "bool list"

definition newCompletionWaiters :: completionWaiters where
  "newCompletionWaiters = \<lparr>nextID = 0, waiters = Map.empty, closed = []\<rparr>"

definition subscribersOf :: "completionWaiters \<Rightarrow> string \<Rightarrow> (64 word \<times> nat) list" where
  "subscribersOf w key = (case waiters w key of None \<Rightarrow> [] | Some subs \<Rightarrow> subs)"

definition subscribe :: "string \<Rightarrow> completionWaiters \<Rightarrow> completionWaiters \<times> 64 word \<times> nat" where
  "subscribe key w =
     (let wid = nextID w + 1; channel = length (closed w)
      in (w\<lparr>nextID := wid, waiters := (waiters w)(key \<mapsto> AList.update wid channel (subscribersOf w key)),
            closed := closed w @ [False]\<rparr>, wid, channel))"

definition unsubscribe :: "string \<Rightarrow> 64 word \<Rightarrow> completionWaiters \<Rightarrow> completionWaiters" where
  "unsubscribe key wid w =
     (case waiters w key of
        None \<Rightarrow> w
      | Some subs \<Rightarrow>
          let subs = AList.delete wid subs
          in w\<lparr>waiters := (waiters w)(key := if subs = [] then None else Some subs)\<rparr>)"

text \<open>Closing a channel; closing it twice is a panic, the value \<open>None\<close>.\<close>

fun closeAll :: "nat list \<Rightarrow> bool list \<Rightarrow> bool list option" where
  "closeAll [] flags = Some flags"
| "closeAll (c # cs) flags = (if flags ! c then None else closeAll cs (flags[c := True]))"

definition notify :: "string \<Rightarrow> completionWaiters \<Rightarrow> completionWaiters option" where
  "notify key w =
     map_option (\<lambda>flags. w\<lparr>waiters := (waiters w)(key := None), closed := flags\<rparr>)
       (closeAll (map snd (subscribersOf w key)) (closed w))"

text \<open>
  \<open>waitForCompletion\<close> on a state that holds the waiters (\<open>sub\<close>, \<open>unsub\<close> are the two methods lifted to it). What other
  goroutines do between the subscription and the second read is \<open>others1\<close>, and what they do until the
  channel is closed or the time is up is \<open>others2\<close>.
\<close>

definition waitForCompletion ::
  "('s \<Rightarrow> 's) \<Rightarrow> ('s \<Rightarrow> 's) \<Rightarrow> (string \<Rightarrow> 's \<Rightarrow> 's \<times> 64 word) \<Rightarrow> (string \<Rightarrow> 64 word \<Rightarrow> 's \<Rightarrow> 's) \<Rightarrow> int
     \<Rightarrow> ('s \<Rightarrow> 's \<times> ('e + 'a \<times> bool)) \<Rightarrow> string \<Rightarrow> 's \<Rightarrow> 's \<times> ('e + 'a)" where
  "waitForCompletion others1 others2 sub unsub timeout readStatus key s =
     (case readStatus s of
        (s, Inl e) \<Rightarrow> (s, Inl e)
      | (s, Inr (v, complete)) \<Rightarrow>
          if complete \<or> timeout \<le> 0 then (s, Inr v)
          else let (s, wid) = sub key s
            in case readStatus (others1 s) of
              (s, Inl e) \<Rightarrow> (unsub key wid s, Inl e)
            | (s, Inr (v, complete)) \<Rightarrow>
                if complete then (unsub key wid s, Inr v)
                else case readStatus (others2 s) of
                    (s, Inl e) \<Rightarrow> (unsub key wid s, Inl e)
                  | (s, Inr (v, _)) \<Rightarrow> (unsub key wid s, Inr v))"

subsection \<open>Registered channels are open\<close>

definition registered :: "completionWaiters \<Rightarrow> string \<Rightarrow> 64 word \<Rightarrow> nat \<Rightarrow> bool" where
  "registered w key wid c \<longleftrightarrow> (wid, c) \<in> set (subscribersOf w key)"

text \<open>Every registered channel exists, is open, and is registered once; no number is larger than \<open>nextID\<close>.\<close>

definition waiters_ok :: "completionWaiters \<Rightarrow> bool" where
  "waiters_ok w \<longleftrightarrow>
     (\<forall>key. distinct (map fst (subscribersOf w key)) \<and> distinct (map snd (subscribersOf w key))) \<and>
     (\<forall>key wid c. registered w key wid c \<longrightarrow> c < length (closed w) \<and> \<not> closed w ! c \<and> wid \<le> nextID w) \<and>
     (\<forall>k k' i i' c. registered w k i c \<longrightarrow> registered w k' i' c \<longrightarrow> k = k')"

lemma waiters_okD:
  assumes "waiters_ok w"
  shows "distinct (map fst (subscribersOf w key))" "distinct (map snd (subscribersOf w key))"
    and "registered w key wid c \<Longrightarrow> c < length (closed w)" "registered w key wid c \<Longrightarrow> \<not> closed w ! c"
    and "registered w key wid c \<Longrightarrow> wid \<le> nextID w"
    and "registered w k i c \<Longrightarrow> registered w k' i' c \<Longrightarrow> k = k'"
  using assms unfolding waiters_ok_def by blast+

lemma waiters_ok_new: "waiters_ok newCompletionWaiters"
  by (simp add: waiters_ok_def newCompletionWaiters_def registered_def subscribersOf_def)

lemma nth_set_True: "i < length fs \<Longrightarrow> fs[c := True] ! i \<longleftrightarrow> i = c \<or> fs ! i"
  by (cases "c < length fs") (auto simp: nth_list_update)

lemma closeAll_Some:
  assumes "distinct cs" and "\<forall>c \<in> set cs. c < length flags \<and> \<not> flags ! c"
  shows "closeAll cs flags = Some (fold (\<lambda>c fs. fs[c := True]) cs flags)"
  using assms
proof (induction cs arbitrary: flags)
  case (Cons c cs)
  then have "\<forall>x \<in> set cs. x < length (flags[c := True]) \<and> \<not> flags[c := True] ! x" by (auto simp: nth_set_True)
  with Cons show ?case by simp
qed simp

lemma nth_closeAll:
  "length (fold (\<lambda>c fs. fs[c := True]) cs flags) = length flags"
  "i < length flags \<Longrightarrow> fold (\<lambda>c fs. fs[c := True]) cs flags ! i \<longleftrightarrow> i \<in> set cs \<or> flags ! i"
  by (induction cs arbitrary: flags) (auto simp: nth_set_True)

text \<open>A notification never closes a channel twice.\<close>

lemma notify_Some:
  assumes "waiters_ok w"
  obtains w' where "notify key w = Some w'" and "waiters_ok w'" and "length (closed w') = length (closed w)"
    and "\<forall>i < length (closed w). closed w' ! i \<longleftrightarrow> closed w ! i \<or> (\<exists>wid. registered w key wid i)"
    and "\<forall>k wid c. registered w' k wid c \<longleftrightarrow> k \<noteq> key \<and> registered w k wid c" and "nextID w' = nextID w"
proof -
  let ?cs = "map snd (subscribersOf w key)"
  let ?flags = "fold (\<lambda>c fs. fs[c := True]) ?cs (closed w)"
  let ?w = "w\<lparr>waiters := (waiters w)(key := None), closed := ?flags\<rparr>"
  have mem: "c \<in> set ?cs \<longleftrightarrow> (\<exists>wid. registered w key wid c)" for c by (force simp: registered_def)
  have cs: "distinct ?cs" "\<forall>c \<in> set ?cs. c < length (closed w) \<and> \<not> closed w ! c"
    using waiters_okD(2-4) [OF assms] mem by blast+
  have n: "notify key w = Some ?w" using closeAll_Some [OF cs] by (simp add: notify_def)
  have subs: "subscribersOf ?w k = (if k = key then [] else subscribersOf w k)" for k by (simp add: subscribersOf_def)
  then have reg: "registered ?w k wid c \<longleftrightarrow> k \<noteq> key \<and> registered w k wid c" for k wid c by (simp add: registered_def)
  have cl: "closed ?w ! i \<longleftrightarrow> closed w ! i \<or> (\<exists>wid. registered w key wid i)" if "i < length (closed w)" for i
    using nth_closeAll(2) [OF that, of ?cs] mem by auto
  have len: "length (closed ?w) = length (closed w)" by (simp add: nth_closeAll(1))
  have "waiters_ok ?w"
    unfolding waiters_ok_def reg subs
  proof (intro conjI allI impI; (elim conjE)?)
    fix k i c assume r: "k \<noteq> key" "registered w k i c"
    show "c < length (closed ?w)" using waiters_okD(3) [OF assms r(2)] len by simp
    show "\<not> closed ?w ! c"
      using cl [OF waiters_okD(3) [OF assms r(2)]] waiters_okD(4,6) [OF assms r(2)] r(1) by blast
    show "i \<le> nextID ?w" using waiters_okD(5) [OF assms r(2)] by simp
  qed (use waiters_okD [OF assms] in auto)
  with n len cl reg show ?thesis by (intro that [of ?w]) auto
qed

lemma subscribe_ok:
  assumes "waiters_ok w" and "nextID w \<noteq> - 1" and "subscribe key w = (w', wid, c)"
  shows "waiters_ok w'" and "registered w' key wid c" and "wid = nextID w + 1" and "c = length (closed w)"
    and "closed w' = closed w @ [False]"
    and "\<forall>k i c'. registered w' k i c' \<longleftrightarrow> registered w k i c' \<or> (k = key \<and> i = wid \<and> c' = c)"
proof -
  have w': "wid = nextID w + 1" "c = length (closed w)" "closed w' = closed w @ [False]" "nextID w' = wid"
    "w' = w\<lparr>nextID := wid, waiters := (waiters w)(key \<mapsto> AList.update wid c (subscribersOf w key)), closed := closed w @ [False]\<rparr>"
    using assms(3) by (auto simp: subscribe_def Let_def)
  have up: "nextID w < wid" using assms(2) w'(1) by (metis inc_less_eq_triv_imp linorder_not_le)
  then have new: "wid \<notin> fst ` set (subscribersOf w k)" for k
    using waiters_okD(5) [OF assms(1)] unfolding registered_def by force
  have upd: "AList.update wid c xs = xs @ [(wid, c)]" if "wid \<notin> fst ` set xs" for xs
    using that by (induction xs) auto
  have subs: "subscribersOf w' k = (if k = key then subscribersOf w key @ [(wid, c)] else subscribersOf w k)" for k
    using upd [OF new] by (simp add: w'(5) subscribersOf_def)
  show reg: "\<forall>k i c'. registered w' k i c' \<longleftrightarrow> registered w k i c' \<or> (k = key \<and> i = wid \<and> c' = c)"
    by (auto simp: registered_def subs)
  have c: "c \<notin> snd ` set (subscribersOf w k)" for k
    using waiters_okD(3) [OF assms(1)] w'(2) unfolding registered_def by force
  show "waiters_ok w'"
    unfolding waiters_ok_def
  proof (intro conjI allI impI)
    fix k show "distinct (map fst (subscribersOf w' k))" "distinct (map snd (subscribersOf w' k))"
      using waiters_okD(1,2) [OF assms(1)] new c by (auto simp: subs)
  next
    fix k i c' assume "registered w' k i c'"
    then consider "registered w k i c'" | "i = wid" "c' = c" using reg by blast
    then have "c' < length (closed w') \<and> \<not> closed w' ! c' \<and> i \<le> nextID w'"
    proof cases
      case 1
      from waiters_okD(3-5) [OF assms(1) this] show ?thesis using up by (simp add: w'(3,4) nth_append)
    qed (simp add: w'(2-4))
    then show "c' < length (closed w')" "\<not> closed w' ! c'" "i \<le> nextID w'" by blast+
  next
    fix k k' i i' c' assume r: "registered w' k i c'" "registered w' k' i' c'"
    have "\<not> registered w x y c" for x y using c [of x] by (force simp: registered_def)
    then show "k = k'"
      using r [unfolded reg [rule_format]] waiters_okD(6) [OF assms(1), of k i c' k' i'] by auto
  qed
  show "registered w' key wid c" using reg by blast
qed (use assms(3) in \<open>auto simp: subscribe_def Let_def\<close>)

lemma unsubscribe_ok:
  assumes "waiters_ok w"
  shows "waiters_ok (unsubscribe key wid w)" and "closed (unsubscribe key wid w) = closed w"
    and "\<forall>k i c. registered (unsubscribe key wid w) k i c \<longleftrightarrow> registered w k i c \<and> \<not> (k = key \<and> i = wid)"
    and "nextID (unsubscribe key wid w) = nextID w"
proof -
  have subs: "subscribersOf (unsubscribe key wid w) k = (if k = key then AList.delete wid (subscribersOf w key) else subscribersOf w k)" for k
    by (auto simp: unsubscribe_def subscribersOf_def Let_def split: option.splits)
  show reg: "\<forall>k i c. registered (unsubscribe key wid w) k i c \<longleftrightarrow> registered w k i c \<and> \<not> (k = key \<and> i = wid)"
    by (auto simp: registered_def subs AList.delete_eq)
  show same: "closed (unsubscribe key wid w) = closed w" "nextID (unsubscribe key wid w) = nextID w"
    by (auto simp: unsubscribe_def Let_def split: option.splits)
  show "waiters_ok (unsubscribe key wid w)"
    using waiters_okD [OF assms] unfolding waiters_ok_def same using reg
    by (auto simp: subs AList.delete_eq distinct_map_filter)
qed

subsection \<open>A waiter beside the worker\<close>

text \<open>
  The waiter of \<open>waitForCompletion\<close> on a key, step by step, beside a worker that commits the completion and then notifies
  the key, and beside any other subscribers and notifications. \<open>nextID\<close> does not wrap around.
\<close>

datatype waitPc = Start | Checked | Subscribed "64 word" nat | Blocked "64 word" nat | Answered bool

record waitState =
  ws_waiters :: completionWaiters
  ws_committed :: bool
  ws_notified :: bool
  ws_pc :: waitPc

inductive wait_step :: "string \<Rightarrow> waitState \<Rightarrow> waitState \<Rightarrow> bool" for key where
  read1_done: "ws_pc s = Start \<Longrightarrow> ws_committed s \<Longrightarrow> wait_step key s (s\<lparr>ws_pc := Answered True\<rparr>)"
| read1: "ws_pc s = Start \<Longrightarrow> \<not> ws_committed s \<Longrightarrow> wait_step key s (s\<lparr>ws_pc := Checked\<rparr>)"
| sub: "ws_pc s = Checked \<Longrightarrow> nextID (ws_waiters s) \<noteq> - 1 \<Longrightarrow> subscribe key (ws_waiters s) = (w, wid, c)
    \<Longrightarrow> wait_step key s (s\<lparr>ws_waiters := w, ws_pc := Subscribed wid c\<rparr>)"
| read2_done: "ws_pc s = Subscribed wid c \<Longrightarrow> ws_committed s
    \<Longrightarrow> wait_step key s (s\<lparr>ws_waiters := unsubscribe key wid (ws_waiters s), ws_pc := Answered True\<rparr>)"
| read2: "ws_pc s = Subscribed wid c \<Longrightarrow> \<not> ws_committed s \<Longrightarrow> wait_step key s (s\<lparr>ws_pc := Blocked wid c\<rparr>)"
| wake: "ws_pc s = Blocked wid c \<Longrightarrow> closed (ws_waiters s) ! c
    \<Longrightarrow> wait_step key s (s\<lparr>ws_waiters := unsubscribe key wid (ws_waiters s), ws_pc := Answered (ws_committed s)\<rparr>)"
| timeout: "ws_pc s = Blocked wid c
    \<Longrightarrow> wait_step key s (s\<lparr>ws_waiters := unsubscribe key wid (ws_waiters s), ws_pc := Answered (ws_committed s)\<rparr>)"
| commit: "wait_step key s (s\<lparr>ws_committed := True\<rparr>)"
| worker_notify: "ws_committed s \<Longrightarrow> notify key (ws_waiters s) = Some w
    \<Longrightarrow> wait_step key s (s\<lparr>ws_waiters := w, ws_notified := True\<rparr>)"
| other_notify: "notify key' (ws_waiters s) = Some w \<Longrightarrow> wait_step key s (s\<lparr>ws_waiters := w\<rparr>)"
| other_subscribe: "nextID (ws_waiters s) \<noteq> - 1 \<Longrightarrow> subscribe key' (ws_waiters s) = (w, wid, c)
    \<Longrightarrow> wait_step key s (s\<lparr>ws_waiters := w\<rparr>)"
| other_unsubscribe: "(\<forall>c. ws_pc s \<noteq> Subscribed wid c \<and> ws_pc s \<noteq> Blocked wid c)
    \<Longrightarrow> wait_step key s (s\<lparr>ws_waiters := unsubscribe key' wid (ws_waiters s)\<rparr>)"

inductive wait_reach :: "string \<Rightarrow> waitState \<Rightarrow> bool" for key where
  init: "wait_reach key \<lparr>ws_waiters = newCompletionWaiters, ws_committed = False, ws_notified = False, ws_pc = Start\<rparr>"
| step: "wait_reach key s \<Longrightarrow> wait_step key s s' \<Longrightarrow> wait_reach key s'"

inductive_cases wait_stepE: "wait_step key s s'"

text \<open>A waiter holds its registration until its channel is closed; nobody is notified before the commit.\<close>

fun holds :: "string \<Rightarrow> completionWaiters \<Rightarrow> waitPc \<Rightarrow> bool" where
  "holds key w (Subscribed wid c) \<longleftrightarrow> c < length (closed w) \<and> (closed w ! c \<or> registered w key wid c)"
| "holds key w (Blocked wid c) \<longleftrightarrow> c < length (closed w) \<and> (closed w ! c \<or> registered w key wid c)"
| "holds key w _ \<longleftrightarrow> True"

definition wait_inv :: "string \<Rightarrow> waitState \<Rightarrow> bool" where
  "wait_inv key s \<longleftrightarrow> waiters_ok (ws_waiters s) \<and> holds key (ws_waiters s) (ws_pc s) \<and>
     (ws_notified s \<longrightarrow> ws_committed s) \<and>
     (\<forall>wid c. ws_pc s = Blocked wid c \<longrightarrow> ws_notified s \<longrightarrow> closed (ws_waiters s) ! c)"

lemma holds_notify:
  assumes "waiters_ok w" and "notify k w = Some w'" and "holds key w pc"
  shows "waiters_ok w'" and "holds key w' pc" and "pc = Blocked wid c \<Longrightarrow> k = key \<or> closed w ! c \<Longrightarrow> closed w' ! c"
proof -
  obtain w1 where w1: "notify k w = Some w1" "waiters_ok w1" "length (closed w1) = length (closed w)"
    "\<forall>i < length (closed w). closed w1 ! i \<longleftrightarrow> closed w ! i \<or> (\<exists>wid. registered w k wid i)"
    "\<forall>k' wid c. registered w1 k' wid c \<longleftrightarrow> k' \<noteq> k \<and> registered w k' wid c"
    by (rule notify_Some [OF assms(1)]) blast
  have eq: "w' = w1" using assms(2) w1(1) by simp
  show "waiters_ok w'" using w1(2) by (simp add: eq)
  show "holds key w' pc" using assms(3) w1(3-5) by (cases "(key, w, pc)" rule: holds.cases) (auto simp: eq)
  show "closed w' ! c" if "pc = Blocked wid c" "k = key \<or> closed w ! c" using assms(3) w1(3-5) that by (auto simp: eq)
qed

lemma holds_subscribe:
  assumes "waiters_ok w" and "nextID w \<noteq> - 1" and "subscribe k w = (w', wid', c')" and "holds key w pc"
  shows "holds key w' pc" and "pc = Blocked wid c \<Longrightarrow> closed w ! c \<Longrightarrow> closed w' ! c"
proof -
  note S = subscribe_ok [OF assms(1-3)]
  show "holds key w' pc"
    using assms(4) S(5,6) by (cases "(key, w, pc)" rule: holds.cases) (auto simp: nth_append)
  show "closed w' ! c" if "pc = Blocked wid c" "closed w ! c"
    using assms(4) that by (auto simp: S(5) nth_append)
qed

lemma wait_step_inv:
  assumes "wait_step key s s'" and "wait_inv key s"
  shows "wait_inv key s'"
proof -
  have ok: "waiters_ok (ws_waiters s)" and h: "holds key (ws_waiters s) (ws_pc s)"
    and nc: "ws_notified s \<longrightarrow> ws_committed s"
    and bl: "\<forall>wid c. ws_pc s = Blocked wid c \<longrightarrow> ws_notified s \<longrightarrow> closed (ws_waiters s) ! c"
    using assms(2) by (auto simp: wait_inv_def)
  note U = unsubscribe_ok [OF ok]
  from assms(1) show ?thesis
  proof cases
    case (sub w wid c)
    then show ?thesis using subscribe_ok [OF ok sub(3,4)] nc by (simp add: wait_inv_def)
  next
    case (worker_notify w)
    then show ?thesis using holds_notify [OF ok worker_notify(3) h] by (auto simp: wait_inv_def)
  next
    case (other_notify key' w)
    then show ?thesis using holds_notify [OF ok other_notify(2) h] nc bl by (auto simp: wait_inv_def)
  next
    case (other_subscribe key' w wid c)
    then show ?thesis
      using subscribe_ok(1) [OF ok other_subscribe(2,3)] holds_subscribe [OF ok other_subscribe(2,3) h] nc bl
      by (auto simp: wait_inv_def)
  next
    case (other_unsubscribe wid key')
    have "holds key (unsubscribe key' wid (ws_waiters s)) (ws_pc s)"
      using h other_unsubscribe(2) U(2,3) by (cases "ws_pc s") auto
    then show ?thesis using U nc bl other_unsubscribe(1) by (simp add: wait_inv_def)
  qed (use ok h nc bl U in \<open>auto simp: wait_inv_def\<close>)
qed

lemma wait_reach_inv: "wait_reach key s \<Longrightarrow> wait_inv key s"
proof (induction rule: wait_reach.induct)
  case init
  show ?case by (simp add: wait_inv_def waiters_ok_new)
qed (rule wait_step_inv)

subsection \<open>Properties\<close>

text \<open>
  C25: a waiter does not miss its completion, and no notification panics. In every state that a waiter, the worker that
  commits and then notifies its key, and any other subscribers can reach together, closing the channels
  of a key closes no channel twice, and a waiter that is blocked after the notification has a closed
  channel, so it can go on.
\<close>

theorem waiter_not_lost:
  assumes "wait_reach key s"
  shows "(\<forall>k. notify k (ws_waiters s) \<noteq> None) \<and>
    (\<forall>wid c. ws_pc s = Blocked wid c \<longrightarrow> ws_notified s \<longrightarrow> closed (ws_waiters s) ! c)"
proof -
  note I = wait_reach_inv [OF assms, unfolded wait_inv_def]
  have "notify k (ws_waiters s) \<noteq> None" for k
    by (rule notify_Some [of "ws_waiters s" k]) (use I in auto)
  then show ?thesis using I by blast
qed

text \<open>A waiter on \<open>k\<close> that blocked before the commit and the notification.\<close>

definition waitDemo :: waitState where
  "waitDemo = \<lparr>ws_waiters = \<lparr>nextID = 1, waiters = Map.empty, closed = [True]\<rparr>,
     ws_committed = True, ws_notified = True, ws_pc = Blocked 1 0\<rparr>"

lemma waitDemo_reach: "wait_reach ''k'' waitDemo"
proof -
  let ?n = newCompletionWaiters
  let ?w = "\<lparr>nextID = 1, waiters = [''k'' \<mapsto> [(1, 0)]], closed = [False]\<rparr>"
  let ?s = "\<lambda>w com n pc. \<lparr>ws_waiters = w, ws_committed = com, ws_notified = n, ws_pc = pc\<rparr>"
  have s: "subscribe ''k'' ?n = (?w, 1, 0)" by (simp add: subscribe_def newCompletionWaiters_def subscribersOf_def)
  have n: "notify ''k'' ?w = Some \<lparr>nextID = 1, waiters = Map.empty, closed = [True]\<rparr>"
    by (simp add: notify_def subscribersOf_def)
  have "wait_reach ''k'' (?s ?n False False Checked)"
    using wait_reach.step [OF wait_reach.init wait_step.read1] by simp
  from wait_reach.step [OF this wait_step.sub, of ?w 1 0] have "wait_reach ''k'' (?s ?w False False (Subscribed 1 0))"
    using s by (simp add: newCompletionWaiters_def)
  from wait_reach.step [OF this wait_step.read2, of 1 0] have "wait_reach ''k'' (?s ?w False False (Blocked 1 0))" by simp
  from wait_reach.step [OF this wait_step.commit] have "wait_reach ''k'' (?s ?w True False (Blocked 1 0))" by simp
  from wait_reach.step [OF this wait_step.worker_notify] show ?thesis using n by (simp add: waitDemo_def)
qed

theorem waiter_not_lost_witness: "ws_pc waitDemo = Blocked 1 0 \<and> closed (ws_waiters waitDemo) ! 0"
  using waiter_not_lost [OF waitDemo_reach] by (simp add: waitDemo_def)

end
