(* ===== verification/Pg_Schema.thy ===== *)
theory Pg_Schema
  imports Idempotency Completion_Wait
begin

text \<open>
  The database of the PostgreSQL store: the tables of \<open>migrations/\<close> with the constraints the code meets, and
  the actions through which the Go code uses it.

  A database transaction is atomic in the model: every row a posting depends on is locked (\<open>SELECT ... FOR
  UPDATE\<close> on accounts, the upsert on an idempotency key, \<open>SKIP LOCKED\<close> on outbox events) before it is read
  and until the commit, so concurrent transactions that touch the same rows run one after the other (for postings
  this is proved from their locks in \<open>Pg_Race\<close>).
  Whether a call of the database fails for an outside reason is decided by the environment (\<open>fault\<close>),
  call by call; an action that fails after \<open>BeginTx\<close> leaves the tables as they were (\<open>atomically\<close>).

  A \<open>uuid.UUID\<close> is a 128-bit word: \<open>uuid.Nil\<close> is \<open>0\<close>, and \<open>bytes.Compare\<close> of two of them is their order as
  words. \<open>uuid.Parse\<close>, \<open>UUID.String\<close>, the identifiers drawn, the readings of the clock and the assignment of
  an amount to a column \<open>NUMERIC(20,2)\<close> (\<open>None\<close> when it overflows) belong to code outside the repository
  and are fields of the environment. So is whether the aggregates of accounts reference the table of
  accounts: they do in the schema of \<open>migrations/\<close> and do not in that of \<open>projection-migrations/\<close>.
\<close>

type_synonym uuid = "128 word"

definition uuidNil :: uuid where "uuidNil = 0"

record 'd pg_env = "'d codec" +
  uuidParse :: "string \<Rightarrow> uuid option"
  uuidString :: "uuid \<Rightarrow> string"
  drawUUID :: "nat \<Rightarrow> uuid"
  readClock :: "nat \<Rightarrow> time"
  numeric :: "'d \<Rightarrow> 'd option"
  cents :: "'d \<Rightarrow> bool"
  fault :: "nat \<Rightarrow> dbfault option"
  mapOrder :: "uuid list \<Rightarrow> uuid list"
  accountsReferenced :: bool

subsection \<open>Tables\<close>

record 'd AccountRow =
  ar_ledger :: uuid
  ar_name :: string
  ar_type :: AccountType
  ar_balance :: 'd

record TransactionRow =
  tr_ledger :: uuid
  tr_created :: time

record 'd EntryRow =
  er_id :: uuid
  er_account :: uuid
  er_transaction :: uuid
  er_credit :: 'd
  er_debit :: 'd
  er_created :: time

record KeyRow =
  kr_transaction :: "uuid option"
  kr_checksum :: string
  kr_status :: string

record OutboxRow =
  or_id :: uuid
  or_saga :: "uuid option"
  or_transaction :: "uuid option"
  or_type :: string
  or_status :: string
  or_attempts :: nat
  or_available :: time
  or_created :: time
  or_leaseOwner :: "uuid option"
  or_leaseExpires :: "time option"

record 'd SagaRow =
  sr_key :: string
  sr_sourceLedger :: uuid
  sr_sourceAccount :: uuid
  sr_destinationLedger :: uuid
  sr_destinationAccount :: uuid
  sr_amount :: 'd
  sr_status :: TransferStatus
  sr_created :: time
  sr_updated :: time

record StepRow =
  st_saga :: uuid
  st_step :: string
  st_status :: string
  st_attempts :: nat

text \<open>A row of \<open>daily_account_aggregates\<close> or \<open>daily_ledger_aggregates\<close>; its key is an identifier and a day.\<close>

record 'd DayRow =
  dr_debit :: 'd
  dr_credit :: 'd
  dr_updated :: time
  dr_lastEvent :: uuid

record 'd Database =
  accountsT :: "(uuid \<times> 'd AccountRow) list"
  transactionsT :: "uuid \<rightharpoonup> TransactionRow"
  entriesT :: "'d EntryRow list"
  keysT :: "string \<rightharpoonup> KeyRow"
  outboxT :: "OutboxRow list"
  sagasT :: "(uuid \<times> 'd SagaRow) list"
  stepsT :: "StepRow list"
  inboxT :: "(string \<times> uuid) list"
  accountDaysT :: "((uuid \<times> int) \<times> 'd DayRow) list"
  ledgerDaysT :: "((uuid \<times> int) \<times> 'd DayRow) list"

definition emptyDatabase :: "'d Database" where
  "emptyDatabase = \<lparr>accountsT = [], transactionsT = Map.empty, entriesT = [], keysT = Map.empty,
     outboxT = [], sagasT = [], stepsT = [], inboxT = [], accountDaysT = [], ledgerDaysT = []\<rparr>"

text \<open>
  The process that uses the database: its tables, and the counters of the environment and the fields of the store
  (\<open>PostgresStore\<close>) that its methods change.
\<close>

record 'd Pg =
  db :: "'d Database"
  draws :: nat
  ticks :: nat
  calls :: nat
  retryAttempts :: "64 word"
  retryExhausted :: "64 word"
  projectionWaiters :: completionWaiters
  transferWaiters :: completionWaiters

subsection \<open>Actions\<close>

text \<open>A fallible computation over the process: the Go functions that return an error.\<close>

type_synonym ('d, 'a) act = "'d Pg \<Rightarrow> 'd Pg \<times> ('d err, 'a) res"

definition returnE :: "'a \<Rightarrow> ('d, 'a) act" where
  "returnE x s = (s, Inr x)"

definition failE :: "'d err \<Rightarrow> ('d, 'a) act" where
  "failE e s = (s, Inl e)"

definition bindE :: "('d, 'a) act \<Rightarrow> ('a \<Rightarrow> ('d, 'b) act) \<Rightarrow> ('d, 'b) act" where
  "bindE m f s = (case m s of (s', Inl e) \<Rightarrow> (s', Inl e) | (s', Inr x) \<Rightarrow> f x s')"

definition liftE :: "('d err, 'a) res \<Rightarrow> ('d, 'a) act" where
  "liftE r s = (s, r)"

definition whenE :: "bool \<Rightarrow> 'd err \<Rightarrow> ('d, unit) act" where
  "whenE b e s = (s, if b then Inl e else Inr ())"

definition getDb :: "('d, 'd Database) act" where
  "getDb s = (s, Inr (db s))"

definition modifyDb :: "('d Database \<Rightarrow> 'd Database) \<Rightarrow> ('d, unit) act" where
  "modifyDb f s = (s\<lparr>db := f (db s)\<rparr>, Inr ())"

definition dbCall :: "('d, 'm) pg_env_scheme \<Rightarrow> string \<Rightarrow> ('d, unit) act" where
  "dbCall env what s =
     (s\<lparr>calls := Suc (calls s)\<rparr>,
      case fault env (calls s) of None \<Rightarrow> Inr () | Some f \<Rightarrow> Inl (DbFault what f))"

definition newID :: "('d, 'm) pg_env_scheme \<Rightarrow> ('d, uuid) act" where
  "newID env s = (s\<lparr>draws := Suc (draws s)\<rparr>, Inr (drawUUID env (draws s)))"

definition timeP :: "('d, 'm) pg_env_scheme \<Rightarrow> ('d, time) act" where
  "timeP env s = (s\<lparr>ticks := Suc (ticks s)\<rparr>, Inr (readClock env (ticks s)))"

text \<open>
  Notifying the waiters of a key. \<open>notify\<close> has a value in every reachable state (lemma \<open>notify_Some\<close>), so the other
  case stands for nothing that happens.
\<close>

definition notified :: "string \<Rightarrow> completionWaiters \<Rightarrow> completionWaiters" where
  "notified key w = (case notify key w of None \<Rightarrow> w | Some w' \<Rightarrow> w')"

definition notifyTransfer :: "string \<Rightarrow> ('d, unit) act" where
  "notifyTransfer key s = (s\<lparr>transferWaiters := notified key (transferWaiters s)\<rparr>, Inr ())"

definition notifyProjection :: "string \<Rightarrow> ('d, unit) act" where
  "notifyProjection key s = (s\<lparr>projectionWaiters := notified key (projectionWaiters s)\<rparr>, Inr ())"

fun mapE :: "('a \<Rightarrow> ('d, 'b) act) \<Rightarrow> 'a list \<Rightarrow> ('d, 'b list) act" where
  "mapE f [] = returnE []"
| "mapE f (x # xs) = bindE (f x) (\<lambda>y. bindE (mapE f xs) (\<lambda>ys. returnE (y # ys)))"

text \<open>A database transaction: \<open>defer tx.Rollback()\<close> undoes the writes unless the action got to its end.\<close>

definition atomically :: "('d, 'a) act \<Rightarrow> ('d, 'a) act" where
  "atomically m s =
     (case m s of (s', Inl e) \<Rightarrow> (s'\<lparr>db := db s\<rparr>, Inl e) | (s', Inr x) \<Rightarrow> (s', Inr x))"

subsection \<open>Rules for actions\<close>

named_theorems act_defs \<open>the actions that neither branch nor iterate\<close>

lemmas act_prims [act_defs] =
  returnE_def failE_def liftE_def whenE_def getDb_def modifyDb_def dbCall_def newID_def timeP_def

lemma bindE_Inr: "bindE m f s = (s'', Inr y) \<longleftrightarrow> (\<exists>s' x. m s = (s', Inr x) \<and> f x s' = (s'', Inr y))"
  by (auto simp: bindE_def split: prod.splits sum.splits)

lemma bindE_Inl:
  "bindE m f s = (s'', Inl e) \<longleftrightarrow>
     m s = (s'', Inl e) \<or> (\<exists>s' x. m s = (s', Inr x) \<and> f x s' = (s'', Inl e))"
  by (auto simp: bindE_def split: prod.splits sum.splits)

lemma atomically_Inr [simp]: "atomically m s = (s', Inr x) \<longleftrightarrow> m s = (s', Inr x)"
  by (auto simp: atomically_def split: prod.splits sum.splits)

lemma atomically_Inl: "atomically m s = (s', Inl e) \<Longrightarrow> db s' = db s"
  by (auto simp: atomically_def split: prod.splits sum.splits)

lemma bindE_simps [simp]:
  "bindE (returnE x) f1 s = f1 x s"
  "bindE (failE e) f2 s = (s, Inl e)"
  "bindE getDb f3 s = f3 (db s) s"
  "bindE (modifyDb g) f4 s = f4 () (s\<lparr>db := g (db s)\<rparr>)"
  "bindE (newID env) f5 s = f5 (drawUUID env (draws s)) (s\<lparr>draws := Suc (draws s)\<rparr>)"
  "bindE (timeP env) f6 s = f6 (readClock env (ticks s)) (s\<lparr>ticks := Suc (ticks s)\<rparr>)"
  by (simp_all add: bindE_def act_defs)

lemma bindE_assoc: "bindE (bindE m f) g s = bindE m (\<lambda>x. bindE (f x) g) s"
  by (simp add: bindE_def split: prod.splits sum.splits)

lemma bindE_liftE: "bindE (liftE r) f s = (case r of Inl e \<Rightarrow> (s, Inl e) | Inr x \<Rightarrow> f x s)"
  by (simp add: bindE_def liftE_def split: sum.splits)

text \<open>Actions that do not touch the tables.\<close>

definition quiet :: "('d, 'a) act \<Rightarrow> bool" where
  "quiet m \<longleftrightarrow> (\<forall>s. db (fst (m s)) = db s)"

named_theorems quiet_intros \<open>actions that leave the tables alone\<close>

lemma quiet_prims [quiet_intros]:
  "quiet (returnE x)" "quiet (failE e)" "quiet (liftE r)" "quiet (whenE b e)" "quiet getDb"
  "quiet (dbCall env w)" "quiet (newID env)" "quiet (timeP env)" "quiet (notifyTransfer key)" "quiet (notifyProjection key)"
  by (simp_all add: quiet_def act_defs notifyTransfer_def notifyProjection_def)

lemma quiet_bindE [quiet_intros]: "quiet m \<Longrightarrow> (\<And>x. quiet (f x)) \<Longrightarrow> quiet (bindE m f)"
  by (auto simp: quiet_def bindE_def split: prod.splits sum.splits) (metis fst_conv)+

lemma quiet_mapE [quiet_intros]: "(\<And>x. quiet (f x)) \<Longrightarrow> quiet (mapE f xs)"
  by (induction xs) (auto intro!: quiet_intros)

lemma quietD: "quiet m \<Longrightarrow> m s = (s', r) \<Longrightarrow> db s' = db s"
  unfolding quiet_def by (metis fst_conv)

subsection \<open>What is assumed of the environment\<close>

text \<open>
  Parsing inverts printing. \<open>cents\<close> holds of the amounts with at most two decimals:
  they are closed under the operations, and storing one in a \<open>NUMERIC(20,2)\<close> column keeps it or overflows;
  what is stored always has two decimals. \<open>mapOrder\<close> is the order in which Go ranges over the keys of a
  map: some permutation of them.
\<close>

definition parse_inverts :: "('d, 'm) pg_env_scheme \<Rightarrow> bool" where
  "parse_inverts env \<longleftrightarrow> (\<forall>u. uuidParse env (uuidString env u) = Some u)"

definition numeric_ok :: "('d :: linordered_ab_group_add, 'm) pg_env_scheme \<Rightarrow> bool" where
  "numeric_ok env \<longleftrightarrow>
     cents env 0 \<and> (\<forall>x y. cents env x \<and> cents env y \<longrightarrow> cents env (x + y) \<and> cents env (x - y)) \<and>
     (\<forall>x y. numeric env x = Some y \<longrightarrow> cents env y \<and> (cents env x \<longrightarrow> y = x))"

definition range_order :: "('d, 'm) pg_env_scheme \<Rightarrow> bool" where
  "range_order env \<longleftrightarrow> (\<forall>ks. mset (mapOrder env ks) = mset ks)"

lemma numeric_okD:
  assumes "numeric_ok env"
  shows "cents env 0" and "cents env x \<Longrightarrow> cents env y \<Longrightarrow> cents env (x + y)"
    and "cents env x \<Longrightarrow> cents env y \<Longrightarrow> cents env (x - y)"
    and "numeric env x = Some y \<Longrightarrow> cents env y" and "numeric env x = Some y \<Longrightarrow> cents env x \<Longrightarrow> y = x"
  using assms by (auto simp: numeric_ok_def)

lemma cents_sum_list:
  assumes "numeric_ok env" and "\<forall>x \<in> set xs. cents env (f x)"
  shows "cents env (\<Sum>x\<leftarrow>xs. f x)"
  using assms(2) by (induction xs) (auto intro: numeric_okD [OF assms(1)])

end
