(* ===== verification/Pg_Store.thy ===== *)
theory Pg_Store
  imports Pg_Schema
begin

text \<open>
  \<open>internal/ledger/postgres_store.go\<close>: accounts, balances, postings with idempotency keys and the retry loop of the
  PostgreSQL store.
\<close>

subsection \<open>Statements on the tables\<close>

text \<open>A statement maps the tables to new tables or to the constraint it violates.\<close>

type_synonym 'd statement = "'d Database \<Rightarrow> ('d err, 'd Database) res"

definition bindR :: "('e, 'a) res \<Rightarrow> ('a \<Rightarrow> ('e, 'b) res) \<Rightarrow> ('e, 'b) res" where
  "bindR r f = (case r of Inl e \<Rightarrow> Inl e | Inr x \<Rightarrow> f x)"

lemma bindR_simps [simp]: "bindR (Inl e) f = Inl e" "bindR (Inr x) f = f x"
  by (simp_all add: bindR_def)

lemma bindR_Inr: "bindR r f = Inr y \<longleftrightarrow> (\<exists>x. r = Inr x \<and> f x = Inr y)"
  by (cases r) auto

abbreviation accountRow :: "'d Database \<Rightarrow> uuid \<rightharpoonup> 'd AccountRow" where
  "accountRow d \<equiv> map_of (accountsT d)"

definition accountByName :: "'d Database \<Rightarrow> uuid \<Rightarrow> string \<Rightarrow> uuid option" where
  "accountByName d ledger name =
     map_option fst (find (\<lambda>(k, a). ar_ledger a = ledger \<and> ar_name a = name) (accountsT d))"

definition insertAccount :: "uuid \<Rightarrow> uuid \<Rightarrow> string \<Rightarrow> AccountType \<Rightarrow> 'd :: zero statement" where
  "insertAccount aid ledger name ty d =
     (if accountRow d aid \<noteq> None then Inl (DbConstraint ''accounts_pkey'')
      else if accountByName d ledger name \<noteq> None then Inl (DbConstraint ''accounts_ledger_name_unique'')
      else Inr (d\<lparr>accountsT := accountsT d @ [(aid, \<lparr>ar_ledger = ledger, ar_name = name, ar_type = ty, ar_balance = 0\<rparr>)]\<rparr>))"

fun insertTransactions :: "time \<Rightarrow> (uuid \<times> uuid) list \<Rightarrow> 'd statement" where
  "insertTransactions t [] d = Inr d"
| "insertTransactions t ((tid, ledger) # rest) d =
     (if transactionsT d tid \<noteq> None then Inl (DbConstraint ''transactions_pkey'')
      else insertTransactions t rest (d\<lparr>transactionsT := (transactionsT d)(tid \<mapsto> \<lparr>tr_ledger = ledger, tr_created = t\<rparr>)\<rparr>))"

text \<open>The values of a new entry: identifier, account, transaction, credit and debit, before the cast.\<close>

type_synonym 'd entryValue = "uuid \<times> uuid \<times> uuid \<times> 'd \<times> 'd"

fun entryRows :: "('d, 'm) pg_env_scheme \<Rightarrow> time \<Rightarrow> 'd entryValue list \<Rightarrow> ('d err, 'd EntryRow list) res" where
  "entryRows env t [] = Inr []"
| "entryRows env t ((eid, aid, tid, credit, debit) # rest) =
     (case (numeric env credit, numeric env debit) of
        (Some c, Some d) \<Rightarrow>
          bindR (entryRows env t rest) (\<lambda>rows. Inr (\<lparr>er_id = eid, er_account = aid, er_transaction = tid,
            er_credit = c, er_debit = d, er_created = t\<rparr> # rows))
      | _ \<Rightarrow> Inl (DbConstraint ''numeric field overflow''))"

definition entryCheck :: "'d :: linordered_ab_group_add EntryRow \<Rightarrow> bool" where
  "entryCheck r \<longleftrightarrow> 0 \<le> er_credit r \<and> 0 \<le> er_debit r \<and> (er_credit r = 0 \<or> er_debit r = 0)"

definition insertEntries :: "'d :: linordered_ab_group_add EntryRow list \<Rightarrow> 'd statement" where
  "insertEntries rows d =
     (if \<not> list_all entryCheck rows then Inl (DbConstraint ''entries_check'')
      else if \<not> distinct (map er_id (entriesT d @ rows)) then Inl (DbConstraint ''entries_pkey'')
      else if list_ex (\<lambda>r. accountRow d (er_account r) = None) rows
      then Inl (DbConstraint ''entries_account_id_fkey'')
      else if list_ex (\<lambda>r. transactionsT d (er_transaction r) = None) rows
      then Inl (DbConstraint ''entries_transaction_id_fkey'')
      else Inr (d\<lparr>entriesT := entriesT d @ rows\<rparr>))"

text \<open>\<open>UPDATE accounts SET balance = ...\<close> for the accounts that \<open>upd\<close> names.\<close>

fun updateRows ::
  "('d, 'm) pg_env_scheme \<Rightarrow> (uuid \<Rightarrow> ('d \<Rightarrow> 'd) option) \<Rightarrow> (uuid \<times> 'd AccountRow) list
     \<Rightarrow> ('d err, (uuid \<times> 'd AccountRow) list) res" where
  "updateRows env upd [] = Inr []"
| "updateRows env upd ((k, a) # rows) =
     (case upd k of
        None \<Rightarrow> bindR (updateRows env upd rows) (\<lambda>rows. Inr ((k, a) # rows))
      | Some f \<Rightarrow>
          (case numeric env (f (ar_balance a)) of
             None \<Rightarrow> Inl (DbConstraint ''numeric field overflow'')
           | Some b \<Rightarrow> bindR (updateRows env upd rows) (\<lambda>rows. Inr ((k, a\<lparr>ar_balance := b\<rparr>) # rows))))"

definition updateBalances ::
  "('d, 'm) pg_env_scheme \<Rightarrow> (uuid \<Rightarrow> ('d \<Rightarrow> 'd) option) \<Rightarrow> 'd statement" where
  "updateBalances env upd d = bindR (updateRows env upd (accountsT d)) (\<lambda>rows. Inr (d\<lparr>accountsT := rows\<rparr>))"

definition insertOutbox :: "OutboxRow \<Rightarrow> 'd statement" where
  "insertOutbox row d =
     (if list_ex (\<lambda>r. or_id r = or_id row) (outboxT d) then Inl (DbConstraint ''outbox_events_pkey'')
      else if or_saga row \<noteq> None \<and> list_ex (\<lambda>r. or_saga r = or_saga row \<and> or_type r = or_type row) (outboxT d)
      then Inl (DbConstraint ''outbox_events_saga_id_event_type_key'')
      else if or_transaction row \<noteq> None
        \<and> list_ex (\<lambda>r. or_transaction r = or_transaction row \<and> or_type r = or_type row) (outboxT d)
      then Inl (DbConstraint ''outbox_transaction_event_unique'')
      else Inr (d\<lparr>outboxT := outboxT d @ [row]\<rparr>))"

fun insertOutboxes :: "OutboxRow list \<Rightarrow> 'd statement" where
  "insertOutboxes [] d = Inr d"
| "insertOutboxes (row # rows) d = bindR (insertOutbox row d) (insertOutboxes rows)"

definition postedEvent :: "uuid \<Rightarrow> time \<Rightarrow> uuid \<Rightarrow> OutboxRow" where
  "postedEvent oid t tid = \<lparr>or_id = oid, or_saga = None, or_transaction = Some tid,
     or_type = ''transaction_posted'', or_status = ''pending'', or_attempts = 0, or_available = t, or_created = t,
     or_leaseOwner = None, or_leaseExpires = None\<rparr>"

text \<open>
  The common part of the posting commands: insert the transactions, insert the entries, change the balances, and
  leave one \<open>transaction_posted\<close> event per transaction.
\<close>

definition postStatement ::
  "('d :: linordered_ab_group_add, 'm) pg_env_scheme \<Rightarrow> time \<Rightarrow> (uuid \<times> uuid) list \<Rightarrow> 'd entryValue list
     \<Rightarrow> (uuid \<Rightarrow> ('d \<Rightarrow> 'd) option) \<Rightarrow> uuid list \<Rightarrow> 'd statement" where
  "postStatement env t txs values upd oids d =
     bindR (insertTransactions t txs d) (\<lambda>d.
     bindR (entryRows env t values) (\<lambda>rows.
     bindR (insertEntries rows d) (\<lambda>d.
     bindR (updateBalances env upd d) (\<lambda>d.
     insertOutboxes (map (\<lambda>(oid, tid, _). postedEvent oid t tid) (zip oids txs)) d))))"

definition completeKey :: "string \<Rightarrow> uuid \<Rightarrow> 'd Database \<Rightarrow> 'd Database" where
  "completeKey key tid d =
     (if key = '''' then d
      else case keysT d key of
        None \<Rightarrow> d
      | Some k \<Rightarrow> d\<lparr>keysT := (keysT d)(key \<mapsto> k\<lparr>kr_transaction := Some tid, kr_status := ''completed''\<rparr>)\<rparr>)"

definition execDb :: "('d, 'm) pg_env_scheme \<Rightarrow> string \<Rightarrow> 'd statement \<Rightarrow> ('d, unit) act" where
  "execDb env what f =
     bindE (dbCall env what) (\<lambda>_. bindE getDb (\<lambda>d. bindE (liftE (f d)) (\<lambda>d'. modifyDb (\<lambda>_. d'))))"

subsection \<open>Accounts\<close>

definition PgCreateAccount ::
  "('d :: linordered_ab_group_add, 'm) pg_env_scheme \<Rightarrow> string \<Rightarrow> AccountType \<Rightarrow> ('d, 'd Account) act" where
  "PgCreateAccount env name accType =
     bindE (case ValidateAccount name accType of Some e \<Rightarrow> failE e | None \<Rightarrow> returnE ()) (\<lambda>_.
     bindE (newID env) (\<lambda>aid.
     bindE (execDb env ''create account'' (insertAccount aid uuidNil name accType)) (\<lambda>_.
     returnE \<lparr>a_ID = uuidString env aid, a_LedgerID = DefaultLedgerID, a_Name = name,
       a_Type = accType, a_Balance = 0\<rparr>)))"

definition PgGetBalance ::
  "('d :: linordered_ab_group_add, 'm) pg_env_scheme \<Rightarrow> string \<Rightarrow> ('d, 'd) act" where
  "PgGetBalance env accountID =
     (case uuidParse env accountID of
        None \<Rightarrow> failE (InvalidID ''account'' accountID)
      | Some aid \<Rightarrow>
          bindE (dbCall env ''get balance'') (\<lambda>_.
          bindE getDb (\<lambda>d.
          case accountRow d aid of
            None \<Rightarrow> failE (AccountNotFound accountID)
          | Some a \<Rightarrow> returnE (if ar_type a = AssetType \<or> ar_type a = ExpenseType then ar_balance a else - ar_balance a))))"

subsection \<open>Preparing a posting\<close>

record 'd postgresEntry =
  pe_accountID :: uuid
  pe_entry :: "'d EntryRequest"

record 'd postingAccountChange =
  ch_accountID :: uuid
  ch_debit :: 'd
  ch_credit :: 'd

fun preparePostgresEntries ::
  "('d, 'm) pg_env_scheme \<Rightarrow> 'd EntryRequest list \<Rightarrow> ('d err, 'd postgresEntry list) res" where
  "preparePostgresEntries env [] = Inr []"
| "preparePostgresEntries env (entry # entries) =
     (case uuidParse env (AccountID entry) of
        None \<Rightarrow> Inl (InvalidID ''account'' (AccountID entry))
      | Some aid \<Rightarrow>
          bindR (preparePostgresEntries env entries) (\<lambda>prepared. Inr (\<lparr>pe_accountID = aid, pe_entry = entry\<rparr> # prepared)))"

definition zeroChange :: "'d :: zero postingAccountChange" where
  "zeroChange = \<lparr>ch_accountID = uuidNil, ch_debit = 0, ch_credit = 0\<rparr>"

definition addChange ::
  "'d :: linordered_ab_group_add postgresEntry \<Rightarrow> (uuid \<rightharpoonup> 'd postingAccountChange) \<Rightarrow> (uuid \<rightharpoonup> 'd postingAccountChange)" where
  "addChange e m =
     (let change = map_get zeroChange m (pe_accountID e)
      in m(pe_accountID e \<mapsto> change\<lparr>ch_accountID := pe_accountID e, ch_debit := ch_debit change + Debit (pe_entry e),
             ch_credit := ch_credit change + Credit (pe_entry e)\<rparr>))"

definition changesByID ::
  "'d :: linordered_ab_group_add postgresEntry list \<Rightarrow> (uuid \<rightharpoonup> 'd postingAccountChange)" where
  "changesByID entries = fold addChange entries Map.empty"

text \<open>The keys of a map of changes, sorted by \<open>bytes.Compare\<close>: each account once.\<close>

definition changeIDs :: "'d postgresEntry list \<Rightarrow> uuid list" where
  "changeIDs entries = sort (remdups (map pe_accountID entries))"

definition sortedChanges :: "'d :: linordered_ab_group_add postgresEntry list \<Rightarrow> 'd postingAccountChange list" where
  "sortedChanges entries = map (map_get zeroChange (changesByID entries)) (changeIDs entries)"

text \<open>\<open>SELECT ... FROM accounts WHERE id IN (...) ORDER BY id FOR UPDATE\<close>.\<close>

definition selectAccounts :: "'d Database \<Rightarrow> uuid list \<Rightarrow> (uuid \<times> 'd AccountRow) list" where
  "selectAccounts d ids = List.map_filter (\<lambda>k. map_option (Pair k) (accountRow d k)) ids"

fun scanPostingRows ::
  "('d :: linordered_ab_group_add, 'm) pg_env_scheme \<Rightarrow> (uuid \<rightharpoonup> 'd postingAccountChange) \<Rightarrow> (uuid \<times> 'd AccountRow) list
     \<Rightarrow> uuid \<Rightarrow> nat \<Rightarrow> ('d err, uuid \<times> nat) res" where
  "scanPostingRows env changes [] ledgerID found = Inr (ledgerID, found)"
| "scanPostingRows env changes ((accountID, a) # rows) ledgerID found =
     (case changes accountID of
        None \<Rightarrow> Inl (UnexpectedPostingAccount (uuidString env accountID))
      | Some change \<Rightarrow>
          if displayedBalanceAfter (ar_type a) (ar_balance a) (ch_debit change) (ch_credit change) < 0
          then Inl (InsufficientFundsFor (uuidString env accountID))
          else if found = 0 then scanPostingRows env changes rows (ar_ledger a) (Suc found)
          else if ar_ledger a \<noteq> ledgerID then Inl SpansLedgers
          else scanPostingRows env changes rows ledgerID (Suc found))"

fun verifyPostingAccounts ::
  "('d, 'm) pg_env_scheme \<Rightarrow> 'd Database \<Rightarrow> 'd postingAccountChange list \<Rightarrow> ('d, unit) act" where
  "verifyPostingAccounts env d [] = failE PostingAccountsNotFound"
| "verifyPostingAccounts env d (change # changes) =
     bindE (dbCall env ''verify posting account'') (\<lambda>_.
     if accountRow d (ch_accountID change) = None
     then failE (PostingAccountNotFound (uuidString env (ch_accountID change)))
     else verifyPostingAccounts env d changes)"

definition lockPostingAccounts ::
  "('d :: linordered_ab_group_add, 'm) pg_env_scheme \<Rightarrow> 'd postgresEntry list
     \<Rightarrow> ('d, uuid \<times> 'd postingAccountChange list) act" where
  "lockPostingAccounts env entries =
     (let changes = sortedChanges entries
      in bindE (dbCall env ''lock posting accounts'') (\<lambda>_.
         bindE getDb (\<lambda>d.
         bindE (liftE (scanPostingRows env (changesByID entries)
                  (selectAccounts d (map ch_accountID changes)) uuidNil 0)) (\<lambda>(ledgerID, found).
         if found \<noteq> length changes
         then bindE (verifyPostingAccounts env d changes) (\<lambda>_. failE PostingAccountsNotFound)
         else returnE (ledgerID, changes)))))"

text \<open>The balance change of a list of changes, as the \<open>UPDATE\<close> joins it to the accounts.\<close>

definition changeUpdate ::
  "'d :: linordered_ab_group_add postingAccountChange list \<Rightarrow> uuid \<Rightarrow> ('d \<Rightarrow> 'd) option" where
  "changeUpdate changes k =
     map_option (\<lambda>ch b. b + ch_debit ch - ch_credit ch) (find (\<lambda>ch. ch_accountID ch = k) changes)"

definition writePosting ::
  "('d :: linordered_ab_group_add, 'm) pg_env_scheme \<Rightarrow> uuid \<Rightarrow> uuid \<Rightarrow> string \<Rightarrow> 'd postgresEntry list
     \<Rightarrow> 'd postingAccountChange list \<Rightarrow> ('d, 'd Entry list) act" where
  "writePosting env transactionID ledgerID idempotencyKey entries changes =
     bindE (mapE (\<lambda>_. newID env) entries) (\<lambda>entryIDs.
     bindE (timeP env) (\<lambda>t.
     bindE (newID env) (\<lambda>oid.
     bindE (execDb env ''write posting'' (\<lambda>d.
       bindR (postStatement env t [(transactionID, ledgerID)]
         (map (\<lambda>(eid, e). (eid, pe_accountID e, transactionID, Credit (pe_entry e), Debit (pe_entry e))) (zip entryIDs entries))
         (changeUpdate changes) [oid] d) (\<lambda>d. Inr (completeKey idempotencyKey transactionID d)))) (\<lambda>_.
     returnE (map (\<lambda>(eid, e). \<lparr>e_ID = uuidString env eid, e_AccountID = uuidString env (pe_accountID e),
       e_TransactionID = uuidString env transactionID, e_Credit = Credit (pe_entry e), e_Debit = Debit (pe_entry e)\<rparr>)
       (zip entryIDs entries))))))"

subsection \<open>Idempotency keys\<close>

definition entryOfRow :: "('d, 'm) pg_env_scheme \<Rightarrow> 'd EntryRow \<Rightarrow> 'd Entry" where
  "entryOfRow env r = \<lparr>e_ID = uuidString env (er_id r), e_AccountID = uuidString env (er_account r),
     e_TransactionID = uuidString env (er_transaction r), e_Credit = er_credit r, e_Debit = er_debit r\<rparr>"

definition buildTransaction :: "('d, 'm) pg_env_scheme \<Rightarrow> uuid \<Rightarrow> ('d, 'd Transaction) act" where
  "buildTransaction env txID =
     bindE (dbCall env ''fetch entries'') (\<lambda>_.
     bindE getDb (\<lambda>d.
     bindE (timeP env) (\<lambda>t.
     returnE \<lparr>t_ID = uuidString env txID, t_LedgerID = '''',
       t_Entries = map (entryOfRow env) (filter (\<lambda>r. er_transaction r = txID) (entriesT d)), t_Timestamp = t\<rparr>)))"

text \<open>\<open>completedIdempotentTransaction\<close>; the entries are ordered by their identifiers.\<close>

definition completedIdempotentTransaction ::
  "('d, 'm) pg_env_scheme \<Rightarrow> string \<Rightarrow> string \<Rightarrow> ('d, 'd Transaction option) act" where
  "completedIdempotentTransaction env key checksum =
     bindE (dbCall env ''read idempotency key'') (\<lambda>_.
     bindE getDb (\<lambda>d.
     case keysT d key of
       None \<Rightarrow> returnE None
     | Some k \<Rightarrow>
         if kr_checksum k \<noteq> checksum then failE IdempotencyKeyConflict
         else (case kr_transaction k of
             None \<Rightarrow> returnE None
           | Some tid \<Rightarrow>
               if kr_status k \<noteq> ''completed'' then returnE None
               else returnE (Some \<lparr>t_ID = uuidString env tid, t_LedgerID = '''',
                 t_Entries = map (entryOfRow env) (sort_key er_id (filter (\<lambda>r. er_transaction r = tid) (entriesT d))),
                 t_Timestamp = (case transactionsT d tid of None \<Rightarrow> 0 | Some r \<Rightarrow> tr_created r)\<rparr>))))"

text \<open>\<open>ClaimIdempotencyKey\<close>: insert the key, or read the row that has it.\<close>

definition claimRow :: "string \<Rightarrow> string \<Rightarrow> 'd Database \<Rightarrow> KeyRow" where
  "claimRow key checksum d =
     (case keysT d key of
        Some k \<Rightarrow> k
      | None \<Rightarrow> \<lparr>kr_transaction = None, kr_checksum = checksum, kr_status = ''processing''\<rparr>)"

definition ClaimIdempotencyKey :: "('d, 'm) pg_env_scheme \<Rightarrow> string \<Rightarrow> string \<Rightarrow> ('d, KeyRow) act" where
  "ClaimIdempotencyKey env key checksum =
     bindE (dbCall env ''claim idempotency key'') (\<lambda>_.
     bindE getDb (\<lambda>d.
     bindE (modifyDb (\<lambda>d. d\<lparr>keysT := (keysT d)(key \<mapsto> claimRow key checksum d)\<rparr>)) (\<lambda>_.
     returnE (claimRow key checksum d))))"

subsection \<open>Posting\<close>

text \<open>The part of an attempt that runs when the key (if any) has not been used.\<close>

definition postNew ::
  "('d :: linordered_ab_group_add, 'm) pg_env_scheme \<Rightarrow> string \<Rightarrow> 'd EntryRequest list \<Rightarrow> ('d, 'd Transaction \<times> bool) act" where
  "postNew env idempotencyKey entries =
     bindE (liftE (preparePostgresEntries env entries)) (\<lambda>preparedEntries.
     bindE (lockPostingAccounts env preparedEntries) (\<lambda>(ledgerID, accountChanges).
     bindE (newID env) (\<lambda>txID.
     bindE (writePosting env txID ledgerID idempotencyKey preparedEntries accountChanges) (\<lambda>ledgerEntries.
     bindE (dbCall env ''commit'') (\<lambda>_.
     bindE (timeP env) (\<lambda>t.
     returnE (\<lparr>t_ID = uuidString env txID, t_LedgerID = '''', t_Entries = ledgerEntries, t_Timestamp = t\<rparr>, False)))))))"

definition createTransactionAttempt ::
  "('d :: linordered_ab_group_add, 'm) pg_env_scheme \<Rightarrow> string \<Rightarrow> string \<Rightarrow> 'd EntryRequest list
     \<Rightarrow> ('d, 'd Transaction \<times> bool) act" where
  "createTransactionAttempt env idempotencyKey checksum entries =
     atomically (
     bindE (dbCall env ''begin transaction'') (\<lambda>_.
     if idempotencyKey = '''' then postNew env idempotencyKey entries
     else
       bindE (ClaimIdempotencyKey env idempotencyKey checksum) (\<lambda>claim.
       if kr_checksum claim \<noteq> checksum then failE IdempotencyKeyConflict
       else (case kr_transaction claim of
           Some tid \<Rightarrow> bindE (buildTransaction env tid) (\<lambda>existing. returnE (existing, True))
         | None \<Rightarrow> postNew env idempotencyKey entries))))"

fun isSerializationFailure :: "'d err \<Rightarrow> bool" where
  "isSerializationFailure (DbFault _ f) \<longleftrightarrow> f = SerializationFailure"
| "isSerializationFailure _ \<longleftrightarrow> False"

definition maxSerializationRetries :: nat where
  "maxSerializationRetries = 3"

definition retryBaseDelay :: int where
  "retryBaseDelay = 10 * 1000000"

text \<open>\<open>draw\<close> is what \<open>rand.Int64N(backoff/2 + 1)\<close> returned.\<close>

definition serializationRetryDelay :: "int \<Rightarrow> nat \<Rightarrow> int" where
  "serializationRetryDelay draw retry = (let backoff = retryBaseDelay * 2 ^ retry in backoff div 2 + draw)"

text \<open>
  The retry loop; \<open>remaining\<close> is \<open>maxSerializationRetries - retry\<close>. Sleeping changes nothing in the model.
\<close>

fun retryLoop ::
  "('d, 'a) act \<Rightarrow> nat \<Rightarrow> ('d, 'a) act" where
  "retryLoop attempt remaining s =
     (case attempt s of
        (s, Inr x) \<Rightarrow> (s, Inr x)
      | (s, Inl e) \<Rightarrow>
          if \<not> isSerializationFailure e then (s, Inl e)
          else (case remaining of
              0 \<Rightarrow> (s\<lparr>retryExhausted := retryExhausted s + 1\<rparr>, Inl TransactionRetryExhausted)
            | Suc n \<Rightarrow> retryLoop attempt n (s\<lparr>retryAttempts := retryAttempts s + 1\<rparr>)))"

definition PgCreateTransaction ::
  "('d :: linordered_ab_group_add, 'm) pg_env_scheme \<Rightarrow> string \<Rightarrow> 'd EntryRequest list \<Rightarrow> ('d, 'd Transaction \<times> bool) act" where
  "PgCreateTransaction env idempotencyKey entries =
     bindE (case ValidateTransaction entries of Some e \<Rightarrow> failE e | None \<Rightarrow> returnE ()) (\<lambda>_.
     let checksum = TransactionRequestChecksum env '''' entries
     in bindE (if idempotencyKey \<noteq> '''' then completedIdempotentTransaction env idempotencyKey checksum else returnE None)
          (\<lambda>existing.
          case existing of
            Some t \<Rightarrow> returnE (t, True)
          | None \<Rightarrow> retryLoop (createTransactionAttempt env idempotencyKey checksum entries) maxSerializationRetries))"

subsection \<open>Reading entries\<close>

text \<open>\<open>GetAccountEntries\<close>: the query, then the loop over its rows.\<close>

definition selectEntries :: "uuid \<Rightarrow> time \<Rightarrow> time \<Rightarrow> 'd Database \<Rightarrow> 'd EntryRow list" where
  "selectEntries aid from to d =
     sort_key (\<lambda>r. (er_created r, er_id r))
       (filter (\<lambda>r. er_account r = aid \<and> from \<le> er_created r \<and> er_created r \<le> to) (entriesT d))"

fun sumRows :: "('d :: linordered_ab_group_add, 'm) pg_env_scheme \<Rightarrow> 'd EntryRow list \<Rightarrow> 'd \<Rightarrow> 'd Entry list \<times> 'd" where
  "sumRows env [] runningBalance = ([], runningBalance)"
| "sumRows env (r # rows) runningBalance =
     (let (entries, total) = sumRows env rows (runningBalance + er_debit r - er_credit r)
      in (entryOfRow env r # entries, total))"

definition PgGetAccountEntries ::
  "('d :: linordered_ab_group_add, 'm) pg_env_scheme \<Rightarrow> string \<Rightarrow> GetAccountEntriesParams
     \<Rightarrow> ('d, 'd GetAccountEntriesResponse) act" where
  "PgGetAccountEntries env accountID params =
     (case uuidParse env accountID of
        None \<Rightarrow> failE (InvalidID ''account'' accountID)
      | Some aid \<Rightarrow>
          bindE (dbCall env ''get account entries'') (\<lambda>_.
          bindE getDb (\<lambda>d.
          let (entries, runningBalance) = sumRows env (selectEntries aid (From params) (To params) d) 0
          in returnE \<lparr>Entries = entries, RunningBalance = runningBalance\<rparr>)))"

end
