(* ===== verification/Pg_Books.thy ===== *)
theory Pg_Books
  imports Pg_Store
begin

text \<open>
  The books of the PostgreSQL store: an invariant of the tables like that of the in-memory store, and that every
  command that posts keeps it, provided the amounts have at most two decimals.
\<close>

subsection \<open>The invariant\<close>

definition rowNet :: "uuid \<Rightarrow> 'd :: linordered_ab_group_add EntryRow list \<Rightarrow> 'd" where
  "rowNet k rows = (\<Sum>r\<leftarrow>rows. if er_account r = k then er_debit r - er_credit r else 0)"

definition rowImbalance :: "uuid \<Rightarrow> 'd :: linordered_ab_group_add EntryRow list \<Rightarrow> 'd" where
  "rowImbalance tid rows = (\<Sum>r\<leftarrow>rows. if er_transaction r = tid then er_debit r - er_credit r else 0)"

definition row_placed :: "'d Database \<Rightarrow> 'd EntryRow \<Rightarrow> bool" where
  "row_placed d r \<longleftrightarrow> (\<exists>a t. accountRow d (er_account r) = Some a \<and>
     transactionsT d (er_transaction r) = Some t \<and> ar_ledger a = tr_ledger t)"

definition pg_books :: "('d :: linordered_ab_group_add, 'm) pg_env_scheme \<Rightarrow> 'd Database \<Rightarrow> bool" where
  "pg_books env d \<longleftrightarrow>
     distinct (map fst (accountsT d)) \<and>
     (\<forall>r \<in> set (entriesT d). entryCheck r \<and> row_placed d r) \<and>
     (\<forall>tid. rowImbalance tid (entriesT d) = 0) \<and>
     (\<forall>k a. accountRow d k = Some a \<longrightarrow> ar_balance a = rowNet k (entriesT d) \<and> cents env (ar_balance a))"

lemma pg_booksD:
  assumes "pg_books env d" and "accountRow d k = Some a"
  shows "ar_balance a = rowNet k (entriesT d)" and "cents env (ar_balance a)"
  using assms unfolding pg_books_def by blast+

lemma rowNet_simps [simp]:
  "rowNet k [] = 0" "rowNet k (r # rows) = (if er_account r = k then er_debit r - er_credit r else 0) + rowNet k rows"
  "rowNet k (rows @ rows') = rowNet k rows + rowNet k rows'"
  by (simp_all add: rowNet_def)

lemma rowImbalance_simps [simp]:
  "rowImbalance k [] = 0"
  "rowImbalance k (r # rows) = (if er_transaction r = k then er_debit r - er_credit r else 0) + rowImbalance k rows"
  "rowImbalance k (rows @ rows') = rowImbalance k rows + rowImbalance k rows'"
  by (simp_all add: rowImbalance_def)

lemma rowNet_notin: "k \<notin> er_account ` set rows \<Longrightarrow> rowNet k rows = 0"
  by (induction rows) auto

subsection \<open>Statements that succeed\<close>

lemma insertTransactions_Inr:
  assumes "insertTransactions t txs d = Inr d'"
  shows "\<exists>m. d' = d\<lparr>transactionsT := m\<rparr> \<and> distinct (map fst txs) \<and>
    (\<forall>tid r. transactionsT d tid = Some r \<longrightarrow> m tid = Some r) \<and> dom m = dom (transactionsT d) \<union> fst ` set txs \<and>
    (\<forall>(tid, l) \<in> set txs. transactionsT d tid = None \<and> m tid = Some \<lparr>tr_ledger = l, tr_created = t\<rparr>)"
  using assms
proof (induction txs arbitrary: d)
  case Nil
  then show ?case by (auto intro!: exI [of _ "transactionsT d"])
next
  case (Cons tx txs)
  obtain tid l where tx: "tx = (tid, l)" by (cases tx)
  let ?d = "d\<lparr>transactionsT := (transactionsT d)(tid \<mapsto> \<lparr>tr_ledger = l, tr_created = t\<rparr>)\<rparr>"
  have new: "transactionsT d tid = None" and rec: "insertTransactions t txs ?d = Inr d'"
    using Cons.prems by (auto simp: tx split: if_splits)
  obtain m where m: "d' = ?d\<lparr>transactionsT := m\<rparr>" "distinct (map fst txs)"
    "\<forall>x r. transactionsT ?d x = Some r \<longrightarrow> m x = Some r" "dom m = dom (transactionsT ?d) \<union> fst ` set txs"
    "\<forall>(x, l') \<in> set txs. transactionsT ?d x = None \<and> m x = Some \<lparr>tr_ledger = l', tr_created = t\<rparr>"
    using Cons.IH [OF rec] by blast
  have old: "x \<noteq> tid \<and> transactionsT d x = None" if "(x, l') \<in> set txs" for x l'
    using m(5) that by (auto split: if_splits)
  have keep: "m x = Some r" if "transactionsT d x = Some r" for x r
    using m(3) that new by (metis Database.select_convs(2) Database.surjective Database.update_convs(2) fun_upd_other option.distinct(1))
  show ?case
    using m old keep new by (intro exI [of _ m]) (auto simp: tx)
qed

fun mkRow :: "time \<Rightarrow> 'd entryValue \<Rightarrow> 'd EntryRow" where
  "mkRow t (eid, aid, tid, credit, debit) = \<lparr>er_id = eid, er_account = aid, er_transaction = tid,
     er_credit = credit, er_debit = debit, er_created = t\<rparr>"

fun valueCents :: "('d, 'm) pg_env_scheme \<Rightarrow> 'd entryValue \<Rightarrow> bool" where
  "valueCents env (eid, aid, tid, credit, debit) \<longleftrightarrow> cents env credit \<and> cents env debit"

lemma entryRows_Inr:
  assumes "numeric_ok env" and "entryRows env t vs = Inr rows" and "\<forall>v \<in> set vs. valueCents env v"
  shows "rows = map (mkRow t) vs"
  using assms(2,3)
proof (induction vs arbitrary: rows)
  case (Cons v vs)
  then show ?case
    using numeric_okD(5) [OF assms(1)]
    by (cases v) (auto simp: bindR_Inr split: option.splits)
qed simp

lemma updateRows_Inr:
  assumes "updateRows env upd rows = Inr rows'"
  shows "map fst rows' = map fst rows"
    and "map_of rows' k = (case map_of rows k of None \<Rightarrow> None | Some a \<Rightarrow>
      (case upd k of None \<Rightarrow> Some a | Some f \<Rightarrow> map_option (\<lambda>b. a\<lparr>ar_balance := b\<rparr>) (numeric env (f (ar_balance a)))))"
    and "map_of rows k = Some a \<Longrightarrow> upd k = Some f \<Longrightarrow> numeric env (f (ar_balance a)) \<noteq> None"
  using assms
  by (induction env upd rows arbitrary: rows' rule: updateRows.induct)
    (auto simp: bindR_Inr split: option.splits if_splits)

lemma insertOutboxes_Inr: "insertOutboxes rows d = Inr d' \<Longrightarrow> d' = d\<lparr>outboxT := outboxT d @ rows\<rparr>"
proof (induction rows arbitrary: d)
  case (Cons row rows)
  then have "insertOutboxes rows (d\<lparr>outboxT := outboxT d @ [row]\<rparr>) = Inr d'"
    by (auto simp: bindR_Inr insertOutbox_def split: if_splits)
  from Cons.IH [OF this] show ?case by simp
qed simp

text \<open>What a successful posting command did.\<close>

lemma postStatement_Inr:
  assumes "numeric_ok env" and "postStatement env t txs vals upd oids d = Inr d'"
    and "\<forall>v \<in> set vals. valueCents env v"
  obtains m accs where
    "d' = d\<lparr>transactionsT := m, entriesT := entriesT d @ map (mkRow t) vals, accountsT := accs,
      outboxT := outboxT d @ map (\<lambda>(oid, tid, _). postedEvent oid t tid) (zip oids txs)\<rparr>"
    and "updateRows env upd (accountsT d) = Inr accs"
    and "distinct (map fst txs)" and "dom m = dom (transactionsT d) \<union> fst ` set txs"
    and "\<forall>tid r. transactionsT d tid = Some r \<longrightarrow> m tid = Some r"
    and "\<forall>tid l. (tid, l) \<in> set txs \<longrightarrow> transactionsT d tid = None \<and> m tid = Some \<lparr>tr_ledger = l, tr_created = t\<rparr>"
    and "\<forall>v \<in> set vals. entryCheck (mkRow t v)"
    and "distinct (map er_id (entriesT d @ map (mkRow t) vals))"
proof -
  from assms(2) obtain d1 rows d2 d3 where d1: "insertTransactions t txs d = Inr d1"
    and rows: "entryRows env t vals = Inr rows" and d2: "insertEntries rows d1 = Inr d2"
    and d3: "updateBalances env upd d2 = Inr d3"
    and d': "insertOutboxes (map (\<lambda>(oid, tid, _). postedEvent oid t tid) (zip oids txs)) d3 = Inr d'"
    by (auto simp: postStatement_def bindR_Inr)
  have rows': "rows = map (mkRow t) vals" by (rule entryRows_Inr [OF assms(1) rows assms(3)])
  obtain m where m: "d1 = d\<lparr>transactionsT := m\<rparr>" "distinct (map fst txs)"
    "\<forall>tid r. transactionsT d tid = Some r \<longrightarrow> m tid = Some r" "dom m = dom (transactionsT d) \<union> fst ` set txs"
    "\<forall>(tid, l) \<in> set txs. transactionsT d tid = None \<and> m tid = Some \<lparr>tr_ledger = l, tr_created = t\<rparr>"
    using insertTransactions_Inr [OF d1] by blast
  have e2: "d2 = d1\<lparr>entriesT := entriesT d1 @ rows\<rparr>" "list_all entryCheck rows"
    "distinct (map er_id (entriesT d1 @ rows))"
    using d2 by (auto simp: insertEntries_def split: if_splits)
  obtain accs where a: "updateRows env upd (accountsT d) = Inr accs" "d3 = d2\<lparr>accountsT := accs\<rparr>"
    using d3 e2 m(1) by (auto simp: updateBalances_def bindR_Inr)
  show ?thesis
  proof (rule that [where m = m and accs = accs])
    show "d' = d\<lparr>transactionsT := m, entriesT := entriesT d @ map (mkRow t) vals, accountsT := accs,
      outboxT := outboxT d @ map (\<lambda>(oid, tid, _). postedEvent oid t tid) (zip oids txs)\<rparr>"
      using insertOutboxes_Inr [OF d'] a e2 m rows' by simp
  qed (use a m e2 rows' in \<open>auto simp: list_all_iff\<close>)
qed

subsection \<open>A balanced posting keeps the books\<close>

fun valueNet :: "uuid \<Rightarrow> 'd :: linordered_ab_group_add entryValue list \<Rightarrow> 'd" where
  "valueNet k [] = 0"
| "valueNet k ((eid, aid, tid, credit, debit) # vs) = (if aid = k then debit - credit else 0) + valueNet k vs"

fun valueImbalance :: "uuid \<Rightarrow> 'd :: linordered_ab_group_add entryValue list \<Rightarrow> 'd" where
  "valueImbalance k [] = 0"
| "valueImbalance k ((eid, aid, tid, credit, debit) # vs) = (if tid = k then debit - credit else 0) + valueImbalance k vs"

definition value_placed :: "'d Database \<Rightarrow> (uuid \<times> uuid) list \<Rightarrow> 'd entryValue \<Rightarrow> bool" where
  "value_placed d txs v \<longleftrightarrow> (case v of (eid, aid, tid, credit, debit) \<Rightarrow>
     (\<exists>a. accountRow d aid = Some a \<and> (tid, ar_ledger a) \<in> set txs))"

definition updates_by :: "(uuid \<Rightarrow> ('d \<Rightarrow> 'd) option) \<Rightarrow> (uuid \<Rightarrow> 'd :: linordered_ab_group_add) \<Rightarrow> bool" where
  "updates_by upd delta \<longleftrightarrow> (\<forall>k. case upd k of None \<Rightarrow> delta k = 0 | Some f \<Rightarrow> \<forall>b. f b = b + delta k)"

lemma rowNet_mkRow: "rowNet k (map (mkRow t) vs) = valueNet k vs"
  and rowImbalance_mkRow: "rowImbalance k (map (mkRow t) vs) = valueImbalance k vs"
  by (induction k vs rule: valueNet.induct; simp)+

lemma cents_valueNet:
  assumes "numeric_ok env" and "\<forall>v \<in> set vs. valueCents env v"
  shows "cents env (valueNet k vs)"
  using assms(2) by (induction k vs rule: valueNet.induct) (auto intro!: numeric_okD(1-3) [OF assms(1)])

lemma updateRows_by:
  assumes "numeric_ok env" and "updateRows env upd rows = Inr rows'" and "updates_by upd delta"
    and "map_of rows k = Some a" and "cents env (ar_balance a)" and "cents env (delta k)"
  shows "map_of rows' k = Some (a\<lparr>ar_balance := ar_balance a + delta k\<rparr>)"
proof (cases "upd k")
  case None
  then have "delta k = 0" using assms(3) by (simp add: updates_by_def split: option.splits) (metis option.distinct(1))
  then show ?thesis using updateRows_Inr(2) [OF assms(2), of k] assms(4) None by simp
next
  case (Some f)
  have f: "f (ar_balance a) = ar_balance a + delta k"
    using assms(3) Some by (simp add: updates_by_def split: option.splits)
  obtain b where b: "numeric env (f (ar_balance a)) = Some b"
    using updateRows_Inr(3) [OF assms(2,4) Some] by blast
  then have "b = ar_balance a + delta k"
    using numeric_okD(2) [OF assms(1,5,6)] numeric_okD(5) [OF assms(1)] f by metis
  then show ?thesis using updateRows_Inr(2) [OF assms(2), of k] assms(4) Some b by simp
qed

lemma postStatement_books:
  assumes num: "numeric_ok env" and books: "pg_books env d"
    and post: "postStatement env t txs vals upd oids d = Inr d'"
    and cents: "\<forall>v \<in> set vals. valueCents env v" and placed: "\<forall>v \<in> set vals. value_placed d txs v"
    and bal: "\<forall>tid. valueImbalance tid vals = 0" and upd: "updates_by upd (\<lambda>k. valueNet k vals)"
  shows "pg_books env d'"
    and "\<And>k a. accountRow d k = Some a \<Longrightarrow>
      accountRow d' k = Some (a\<lparr>ar_balance := ar_balance a + valueNet k vals\<rparr>)"
    and "map fst (accountsT d') = map fst (accountsT d)"
proof -
  obtain m accs where d': "d' = d\<lparr>transactionsT := m, entriesT := entriesT d @ map (mkRow t) vals, accountsT := accs,
      outboxT := outboxT d @ map (\<lambda>(oid, tid, _). postedEvent oid t tid) (zip oids txs)\<rparr>"
    and accs: "updateRows env upd (accountsT d) = Inr accs"
    and "distinct (map fst txs)" and "dom m = dom (transactionsT d) \<union> fst ` set txs"
    and old: "\<forall>tid r. transactionsT d tid = Some r \<longrightarrow> m tid = Some r"
    and new: "\<forall>tid l. (tid, l) \<in> set txs \<longrightarrow> transactionsT d tid = None \<and> m tid = Some \<lparr>tr_ledger = l, tr_created = t\<rparr>"
    and checks: "\<forall>v \<in> set vals. entryCheck (mkRow t v)"
    by (rule postStatement_Inr [OF num post cents]) blast
  show rows: "accountRow d' k = Some (a\<lparr>ar_balance := ar_balance a + valueNet k vals\<rparr>)" if "accountRow d k = Some a" for k a
    using updateRows_by [OF num accs upd that pg_booksD(2) [OF books that] cents_valueNet [OF num cents]]
    by (simp add: d')
  show fst: "map fst (accountsT d') = map fst (accountsT d)"
    using updateRows_Inr(1) [OF accs] by (simp add: d')
  have none: "accountRow d' k = None \<longleftrightarrow> accountRow d k = None" for k
    using fst by (metis list.set_map map_of_eq_None_iff)
  have ext: "\<exists>a'. accountRow d' k = Some a' \<and> ar_ledger a' = ar_ledger a" if "accountRow d k = Some a" for k a
    using rows [OF that] by simp
  show "pg_books env d'"
    unfolding pg_books_def
  proof (intro conjI ballI allI impI)
    show "distinct (map fst (accountsT d'))" using books fst by (simp add: pg_books_def)
    show "rowImbalance tid (entriesT d') = 0" for tid
      using books bal by (simp add: d' pg_books_def rowImbalance_mkRow)
  next
    fix k a' assume a': "accountRow d' k = Some a'"
    then obtain a where a: "accountRow d k = Some a" using none [of k] by (cases "accountRow d k") auto
    note b = pg_booksD [OF books a]
    show "ar_balance a' = rowNet k (entriesT d')"
      using rows [OF a] a' b(1) by (auto simp: d' rowNet_mkRow)
    show "cents env (ar_balance a')"
      using rows [OF a] a' numeric_okD(2) [OF num b(2) cents_valueNet [OF num cents]] by auto
  next
    fix r assume "r \<in> set (entriesT d')"
    then consider "r \<in> set (entriesT d)" | v where "v \<in> set vals" "r = mkRow t v" by (auto simp: d')
    then have "entryCheck r \<and> row_placed d' r"
    proof cases
      case 1
      then obtain a x where "entryCheck r" "accountRow d (er_account r) = Some a"
        "transactionsT d (er_transaction r) = Some x" "ar_ledger a = tr_ledger x"
        using books by (auto simp: pg_books_def row_placed_def)
      moreover obtain a' where "accountRow d' (er_account r) = Some a'" "ar_ledger a' = ar_ledger a"
        using ext calculation(2) by blast
      moreover have "transactionsT d' (er_transaction r) = Some x"
        using old calculation(3) by (simp add: d')
      ultimately show ?thesis unfolding row_placed_def by metis
    next
      case 2
      obtain eid aid tid c b where v: "v = (eid, aid, tid, c, b)" by (cases v)
      obtain a where a: "accountRow d aid = Some a" "(tid, ar_ledger a) \<in> set txs"
        using placed 2(1) v by (auto simp: value_placed_def)
      obtain a' where "accountRow d' aid = Some a'" "ar_ledger a' = ar_ledger a" using ext [OF a(1)] by blast
      then show ?thesis
        using checks 2 new a(2) unfolding row_placed_def by (auto simp: v d')
    qed
    then show "entryCheck r" and "row_placed d' r" by auto
  qed
qed

subsection \<open>Aggregated changes\<close>

definition entriesDebit :: "uuid \<Rightarrow> 'd :: linordered_ab_group_add postgresEntry list \<Rightarrow> 'd" where
  "entriesDebit k es = (\<Sum>e\<leftarrow>es. if pe_accountID e = k then Debit (pe_entry e) else 0)"

definition entriesCredit :: "uuid \<Rightarrow> 'd :: linordered_ab_group_add postgresEntry list \<Rightarrow> 'd" where
  "entriesCredit k es = (\<Sum>e\<leftarrow>es. if pe_accountID e = k then Credit (pe_entry e) else 0)"

lemma entriesSums [simp]:
  "entriesDebit k [] = 0" "entriesCredit k [] = 0"
  "entriesDebit k (e # es) = (if pe_accountID e = k then Debit (pe_entry e) else 0) + entriesDebit k es"
  "entriesCredit k (e # es) = (if pe_accountID e = k then Credit (pe_entry e) else 0) + entriesCredit k es"
  by (simp_all add: entriesDebit_def entriesCredit_def)

lemma entriesSums_notin:
  "k \<notin> pe_accountID ` set es \<Longrightarrow> entriesDebit k es = 0" "k \<notin> pe_accountID ` set es \<Longrightarrow> entriesCredit k es = 0"
  by (induction es) auto

lemma fold_addChange:
  "fold addChange es m k =
     (if k \<in> pe_accountID ` set es
      then Some \<lparr>ch_accountID = k, ch_debit = ch_debit (map_get zeroChange m k) + entriesDebit k es,
                 ch_credit = ch_credit (map_get zeroChange m k) + entriesCredit k es\<rparr>
      else m k)"
proof (induction es arbitrary: m)
  case (Cons e es)
  show ?case
    using Cons [of "addChange e m"]
    by (cases "k = pe_accountID e"; cases "k \<in> pe_accountID ` set es")
      (simp_all add: addChange_def Let_def entriesSums_notin add.assoc)
qed simp

lemma changesByID_eq:
  "changesByID es k = (if k \<in> pe_accountID ` set es
     then Some \<lparr>ch_accountID = k, ch_debit = entriesDebit k es, ch_credit = entriesCredit k es\<rparr> else None)"
  by (simp add: changesByID_def fold_addChange map_get_def zeroChange_def)

lemma set_changeIDs [simp]: "set (changeIDs es) = pe_accountID ` set es"
  and distinct_changeIDs [simp]: "distinct (changeIDs es)" and sorted_changeIDs [simp]: "sorted (changeIDs es)"
  by (simp_all add: changeIDs_def)

lemma sortedChanges_eq:
  "sortedChanges es = map (\<lambda>k. \<lparr>ch_accountID = k, ch_debit = entriesDebit k es, ch_credit = entriesCredit k es\<rparr>) (changeIDs es)"
  by (simp add: sortedChanges_def changesByID_eq map_get_def)

lemma find_map_key: "find (\<lambda>y. g y = k) (map f ks) = (if k \<in> set ks then Some (f k) else None)"
  if "\<And>x. g (f x) = x"
  using that by (induction ks) auto

lemma changeUpdate_sorted:
  "changeUpdate (sortedChanges es) k =
     (if k \<in> pe_accountID ` set es then Some (\<lambda>b. b + entriesDebit k es - entriesCredit k es) else None)"
  unfolding changeUpdate_def sortedChanges_eq by (subst find_map_key) auto

lemma map_ch_accountID [simp]: "map ch_accountID (sortedChanges es) = changeIDs es"
  by (simp add: sortedChanges_eq comp_def)

lemma length_sortedChanges [simp]: "length (sortedChanges es) = length (changeIDs es)"
  by (simp add: sortedChanges_eq)

subsection \<open>Locking the accounts\<close>

text \<open>What the scan of the locked rows accepts: one ledger, and no account overdrawn.\<close>

lemma scanPostingRows_Inr:
  assumes "scanPostingRows env changes rows ledger found = Inr (ledger', found')"
  shows "found' = found + length rows"
    and "\<forall>(k, a) \<in> set rows. \<exists>ch. changes k = Some ch \<and>
      0 \<le> displayedBalanceAfter (ar_type a) (ar_balance a) (ch_debit ch) (ch_credit ch) \<and> ar_ledger a = ledger'"
    and "0 < found \<or> rows = [] \<Longrightarrow> ledger' = ledger"
  using assms
  by (induction env changes rows ledger found rule: scanPostingRows.induct)
    (auto simp: not_less split: option.splits if_splits)

lemma selectAccounts_set: "set (selectAccounts d ks) = {(k, a). k \<in> set ks \<and> accountRow d k = Some a}"
  by (induction ks) (auto simp: selectAccounts_def List.map_filter_simps split: option.splits)

lemma length_selectAccounts:
  "length (selectAccounts d ks) \<le> length ks"
  "length (selectAccounts d ks) = length ks \<longleftrightarrow> (\<forall>k \<in> set ks. accountRow d k \<noteq> None)"
proof (induction ks)
  case (Cons k ks)
  {
    case 1
    then show ?case using Cons(1) by (simp add: selectAccounts_def List.map_filter_simps split: option.splits)
  next
    case 2
    then show ?case using Cons by (auto simp: selectAccounts_def List.map_filter_simps split: option.splits)
  }
qed (simp_all add: selectAccounts_def List.map_filter_simps)

text \<open>Every account of the entries exists, is in the ledger, and is not overdrawn by the posting.\<close>

definition coverable :: "'d :: linordered_ab_group_add Database \<Rightarrow> uuid \<Rightarrow> 'd postgresEntry list \<Rightarrow> bool" where
  "coverable d ledger es \<longleftrightarrow> (\<forall>k \<in> pe_accountID ` set es. \<exists>a. accountRow d k = Some a \<and> ar_ledger a = ledger \<and>
     0 \<le> displayedBalanceAfter (ar_type a) (ar_balance a) (entriesDebit k es) (entriesCredit k es))"

lemma lockPostingAccounts_Inr:
  assumes "lockPostingAccounts env es s = (s', Inr (ledger, changes))"
  shows "db s' = db s" and "changes = sortedChanges es" and "coverable (db s) ledger es"
    and "draws s' = draws s" and "ticks s' = ticks s"
proof -
  have notverify: "verifyPostingAccounts env d chs s0 \<noteq> (s1, Inr ())" for d chs s0 s1
    by (induction chs arbitrary: s0) (auto simp: bindE_Inr act_defs split: if_splits)
  obtain s1 found where s1: "dbCall env ''lock posting accounts'' s = (s1, Inr ())"
    and scan: "scanPostingRows env (changesByID es) (selectAccounts (db s1) (changeIDs es)) uuidNil 0 = Inr (ledger, found)"
    and found: "found = length (changeIDs es)" and res: "s' = s1" "changes = sortedChanges es"
    using assms notverify
    by (auto simp: lockPostingAccounts_def bindE_Inr liftE_def Let_def returnE_def split: if_splits)
  have same: "db s1 = db s" "draws s1 = draws s" "ticks s1 = ticks s"
    using s1 by (auto simp: dbCall_def split: option.splits)
  show "db s' = db s" "changes = sortedChanges es" "draws s' = draws s" "ticks s' = ticks s"
    using res same by simp_all
  note ok = scanPostingRows_Inr [OF scan]
  have "\<forall>k \<in> set (changeIDs es). accountRow (db s) k \<noteq> None"
    using ok(1) found length_selectAccounts(2) [of "db s1" "changeIDs es"] same by simp
  then show "coverable (db s) ledger es"
    using ok(2) same by (fastforce simp: coverable_def selectAccounts_set changesByID_eq split: if_splits)
qed

lemma preparePostgresEntries_Inr:
  "preparePostgresEntries env es = Inr ps \<Longrightarrow>
     map pe_entry ps = es \<and> list_all2 (\<lambda>e p. uuidParse env (AccountID e) = Some (pe_accountID p)) es ps"
  by (induction es arbitrary: ps) (auto simp: bindR_Inr split: option.splits)

end
