(* ===== verification/Pg_Posting.thy ===== *)
theory Pg_Posting
  imports Pg_Books
begin

text \<open>
  What the posting path of the PostgreSQL store does, step by step: the values it writes, an attempt, and the
  retry loop.
\<close>

subsection \<open>The values of a posting\<close>

definition postingVals :: "uuid list \<Rightarrow> uuid \<Rightarrow> 'd postgresEntry list \<Rightarrow> 'd entryValue list" where
  "postingVals ids tid ps =
     map (\<lambda>(eid, e). (eid, pe_accountID e, tid, Credit (pe_entry e), Debit (pe_entry e))) (zip ids ps)"

lemma postingVals_net:
  "length ids = length ps \<Longrightarrow> valueNet k (postingVals ids tid ps) = entriesDebit k ps - entriesCredit k ps"
  by (induction ids ps rule: list_induct2) (auto simp: postingVals_def algebra_simps)

lemma postingVals_imbalance:
  "length ids = length ps \<Longrightarrow> valueImbalance x (postingVals ids tid ps) =
     (if x = tid then (\<Sum>p\<leftarrow>ps. Debit (pe_entry p)) - (\<Sum>p\<leftarrow>ps. Credit (pe_entry p)) else 0)"
  by (induction ids ps rule: list_induct2) (auto simp: postingVals_def algebra_simps)

definition request_cents :: "('d, 'm) pg_env_scheme \<Rightarrow> 'd EntryRequest list \<Rightarrow> bool" where
  "request_cents env es \<longleftrightarrow> (\<forall>e \<in> set es. cents env (Debit e) \<and> cents env (Credit e))"

lemma postingVals_cents:
  assumes "request_cents env (map pe_entry ps)"
  shows "\<forall>v \<in> set (postingVals ids tid ps). valueCents env v"
proof
  fix v assume "v \<in> set (postingVals ids tid ps)"
  then obtain eid p where "p \<in> set ps" "v = (eid, pe_accountID p, tid, Credit (pe_entry p), Debit (pe_entry p))"
    by (auto simp: postingVals_def dest: set_zip_rightD)
  then show "valueCents env v" using assms by (auto simp: request_cents_def)
qed

lemma postingVals_placed:
  assumes "coverable d ledger ps" and "(tid, ledger) \<in> set txs"
  shows "\<forall>v \<in> set (postingVals ids tid ps). value_placed d txs v"
  using assms by (fastforce simp: postingVals_def value_placed_def coverable_def dest: set_zip_rightD)

lemma changeUpdate_by:
  assumes "length ids = length ps"
  shows "updates_by (changeUpdate (sortedChanges ps)) (\<lambda>k. valueNet k (postingVals ids tid ps))"
  unfolding updates_by_def
proof
  fix k
  show "case changeUpdate (sortedChanges ps) k of None \<Rightarrow> valueNet k (postingVals ids tid ps) = 0
    | Some f \<Rightarrow> \<forall>b. f b = b + valueNet k (postingVals ids tid ps)"
    using postingVals_net [OF assms, of k tid] entriesSums_notin [of k ps]
    by (auto simp: changeUpdate_sorted algebra_simps)
qed

subsection \<open>Writing\<close>

lemma mapE_length: "mapE f xs s = (s', Inr ys) \<Longrightarrow> length ys = length xs"
  by (induction xs arbitrary: s ys) (auto simp: bindE_Inr returnE_def)

lemma mapE_each: "mapE f xs s = (s', Inr ys) \<Longrightarrow> list_all2 (\<lambda>x y. \<exists>s1 s2. f x s1 = (s2, Inr y)) xs ys"
proof (induction xs arbitrary: s ys)
  case (Cons x xs)
  then show ?case by (fastforce simp: bindE_Inr returnE_def)
qed (simp add: returnE_def)

lemma execDb_Inr:
  "execDb env w f s = (s', Inr x) \<longleftrightarrow>
     fault env (calls s) = None \<and> (\<exists>d. f (db s) = Inr d \<and> s' = s\<lparr>calls := Suc (calls s), db := d\<rparr>)"
  by (auto simp: execDb_def bindE_Inr act_defs split: option.splits)

lemma writePosting_Inr:
  assumes "writePosting env tid ledger key ps changes s = (s', Inr les)"
  obtains ids t oid d where "length ids = length ps"
    and "postStatement env t [(tid, ledger)] (postingVals ids tid ps) (changeUpdate changes) [oid] (db s) = Inr d"
    and "db s' = completeKey key tid d"
    and "les = map (\<lambda>(eid, e). \<lparr>e_ID = uuidString env eid, e_AccountID = uuidString env (pe_accountID e),
       e_TransactionID = uuidString env tid, e_Credit = Credit (pe_entry e), e_Debit = Debit (pe_entry e)\<rparr>) (zip ids ps)"
proof -
  have q: "quiet (mapE (\<lambda>_. newID env) ps)" by (intro quiet_intros)
  from assms obtain s1 ids where ids: "mapE (\<lambda>_. newID env) ps s = (s1, Inr ids)"
    and rest: "bindE (timeP env) (\<lambda>t.
     bindE (newID env) (\<lambda>oid.
     bindE (execDb env ''write posting'' (\<lambda>d.
       bindR (postStatement env t [(tid, ledger)]
         (map (\<lambda>(eid, e). (eid, pe_accountID e, tid, Credit (pe_entry e), Debit (pe_entry e))) (zip ids ps))
         (changeUpdate changes) [oid] d) (\<lambda>d. Inr (completeKey key tid d)))) (\<lambda>_.
     returnE (map (\<lambda>(eid, e). \<lparr>e_ID = uuidString env eid, e_AccountID = uuidString env (pe_accountID e),
       e_TransactionID = uuidString env tid, e_Credit = Credit (pe_entry e), e_Debit = Debit (pe_entry e)\<rparr>)
       (zip ids ps))))) s1 = (s', Inr les)"
    unfolding writePosting_def bindE_Inr by blast
  have "db s1 = db s" "length ids = length ps"
    using quietD [OF q ids] mapE_length [OF ids] by auto
  then show ?thesis
    using rest that by (auto simp: bindE_Inr execDb_Inr bindR_Inr returnE_def postingVals_def)
qed

subsection \<open>An attempt\<close>

text \<open>The tables after a new posting: the command was executed on accounts of one ledger that cover it.\<close>

definition posted ::
  "('d :: linordered_ab_group_add, 'm) pg_env_scheme \<Rightarrow> string \<Rightarrow> 'd EntryRequest list \<Rightarrow> uuid \<Rightarrow> 'd Database \<Rightarrow> 'd Database \<Rightarrow> bool" where
  "posted env key es tid d d' \<longleftrightarrow>
     (\<exists>ps ledger ids t oid d1. preparePostgresEntries env es = Inr ps \<and> coverable d ledger ps \<and> length ids = length ps \<and>
        postStatement env t [(tid, ledger)] (postingVals ids tid ps) (changeUpdate (sortedChanges ps)) [oid] d = Inr d1 \<and>
        d' = completeKey key tid d1)"

lemma postNew_Inr:
  assumes "postNew env key es s = (s', Inr (t, existed))"
  shows "\<not> existed \<and> (\<exists>tid. t_ID t = uuidString env tid \<and> posted env key es tid (db s) (db s'))"
proof -
  from assms obtain ps s1 ledger changes s2 where
    prep: "preparePostgresEntries env es = Inr ps" and lock: "lockPostingAccounts env ps s = (s1, Inr (ledger, changes))"
    and wr: "bindE (newID env) (\<lambda>txID. bindE (writePosting env txID ledger key ps changes) (\<lambda>ledgerEntries.
       bindE (dbCall env ''commit'') (\<lambda>_. bindE (timeP env) (\<lambda>t.
       returnE (\<lparr>t_ID = uuidString env txID, t_LedgerID = '''', t_Entries = ledgerEntries, t_Timestamp = t\<rparr>, False))))) s1
       = (s', Inr (t, existed))"
    unfolding postNew_def by (auto simp: bindE_Inr liftE_def)
  note L = lockPostingAccounts_Inr [OF lock]
  let ?tid = "drawUUID env (draws s1)" and ?s1 = "s1\<lparr>draws := Suc (draws s1)\<rparr>"
  from wr obtain s3 les s4 where w: "writePosting env ?tid ledger key ps changes ?s1 = (s3, Inr les)"
    and c: "dbCall env ''commit'' s3 = (s4, Inr ())"
    and s': "s' = s4\<lparr>ticks := Suc (ticks s4)\<rparr>" "\<not> existed" "t_ID t = uuidString env ?tid"
    by (auto simp: bindE_Inr returnE_def)
  have "db s' = db s3" using c s'(1) by (auto simp: dbCall_def split: option.splits)
  moreover have "\<exists>ids t oid d. length ids = length ps \<and>
      postStatement env t [(?tid, ledger)] (postingVals ids ?tid ps) (changeUpdate changes) [oid] (db s) = Inr d \<and>
      db s3 = completeKey key ?tid d"
    by (rule writePosting_Inr [OF w]) (use L(1) in auto)
  ultimately have "posted env key es ?tid (db s) (db s')"
    using prep L(2,3) unfolding posted_def by metis
  then show ?thesis using s'(2,3) by blast
qed

lemma claimRow_known [simp]: "keysT d key = Some k \<Longrightarrow> claimRow key checksum d = k"
  by (simp add: claimRow_def)

text \<open>The tables after claiming the key of a request.\<close>

definition claimed :: "string \<Rightarrow> string \<Rightarrow> 'd Database \<Rightarrow> 'd Database" where
  "claimed key checksum d = (if key = '''' then d else d\<lparr>keysT := (keysT d)(key \<mapsto> claimRow key checksum d)\<rparr>)"

lemma ClaimIdempotencyKey_Inr:
  "ClaimIdempotencyKey env key checksum s = (s', Inr k) \<Longrightarrow> key \<noteq> '''' \<Longrightarrow>
     k = claimRow key checksum (db s) \<and> db s' = claimed key checksum (db s)"
  by (auto simp: ClaimIdempotencyKey_def bindE_Inr act_defs claimed_def split: option.splits)

lemma createTransactionAttempt_Inr:
  assumes "createTransactionAttempt env key checksum es s = (s', Inr (t, existed))"
  shows "if existed
    then key \<noteq> '''' \<and> db s' = db s \<and> (\<exists>k tid. keysT (db s) key = Some k \<and> kr_checksum k = checksum \<and>
      kr_transaction k = Some tid \<and> t_ID t = uuidString env tid)
    else (key \<noteq> '''' \<longrightarrow> kr_transaction (claimRow key checksum (db s)) = None \<and>
        kr_checksum (claimRow key checksum (db s)) = checksum) \<and>
      (\<exists>tid. t_ID t = uuidString env tid \<and> posted env key es tid (claimed key checksum (db s)) (db s'))"
proof -
  from assms obtain s1 where s1: "dbCall env ''begin transaction'' s = (s1, Inr ())"
    and rest: "(if key = '''' then postNew env key es
     else bindE (ClaimIdempotencyKey env key checksum) (\<lambda>claim.
       if kr_checksum claim \<noteq> checksum then failE IdempotencyKeyConflict
       else (case kr_transaction claim of
           Some tid \<Rightarrow> bindE (buildTransaction env tid) (\<lambda>existing. returnE (existing, True))
         | None \<Rightarrow> postNew env key es))) s1 = (s', Inr (t, existed))"
    unfolding createTransactionAttempt_def by (auto simp: bindE_Inr)
  have d1: "db s1 = db s" using s1 by (auto simp: dbCall_def split: option.splits)
  show ?thesis
  proof (cases "key = ''''")
    case True
    then show ?thesis using rest postNew_Inr [of env key es s1 s' t existed] d1 by (simp add: claimed_def)
  next
    case False
    from rest False obtain s2 claim where c: "ClaimIdempotencyKey env key checksum s1 = (s2, Inr claim)"
      and rest1: "(if kr_checksum claim \<noteq> checksum then failE IdempotencyKeyConflict
       else (case kr_transaction claim of
           Some tid \<Rightarrow> bindE (buildTransaction env tid) (\<lambda>existing. returnE (existing, True))
         | None \<Rightarrow> postNew env key es)) s2 = (s', Inr (t, existed))"
      by (simp only: if_False bindE_Inr) blast
    note d2 = ClaimIdempotencyKey_Inr [OF c False, THEN conjunct2, unfolded d1]
    note rest2 = rest1 [unfolded ClaimIdempotencyKey_Inr [OF c False, THEN conjunct1] d1]
    show ?thesis
    proof (cases "kr_transaction (claimRow key checksum (db s))")
      case None
      then show ?thesis
        using rest2 False postNew_Inr [of env key es s2 s' t existed] d2
        by (auto simp: failE_def split: if_splits)
    next
      case (Some tid)
      then obtain k where k: "keysT (db s) key = Some k" "kr_transaction k = Some tid"
        by (auto simp: claimRow_def split: option.splits)
      then have same: "claimed key checksum (db s) = db s" using False by (simp add: claimed_def map_upd_triv)
      have "kr_checksum k = checksum \<and> db s' = db s2 \<and> t_ID t = uuidString env tid \<and> existed"
        using rest2 Some k
        by (auto simp: failE_def bindE_Inr returnE_def buildTransaction_def dbCall_def split: if_splits option.splits)
      then show ?thesis using False k d2 same by simp
    qed
  qed
qed

subsection \<open>The retry loop\<close>

definition rolls_back :: "('d, 'a) act \<Rightarrow> bool" where
  "rolls_back m \<longleftrightarrow> (\<forall>s s' e. m s = (s', Inl e) \<longrightarrow> db s' = db s)"

lemma rolls_backD: "rolls_back m \<Longrightarrow> m s = (s', Inl e) \<Longrightarrow> db s' = db s"
  by (simp add: rolls_back_def)

lemma rolls_back_atomically: "rolls_back (atomically m)"
  unfolding rolls_back_def using atomically_Inl by blast

lemma rolls_back_attempt: "rolls_back (createTransactionAttempt env key c es)"
  unfolding createTransactionAttempt_def by (rule rolls_back_atomically)

lemma retryLoop_unfold:
  "retryLoop attempt 0 s = (case attempt s of (s, Inr x) \<Rightarrow> (s, Inr x) | (s, Inl e) \<Rightarrow>
     if \<not> isSerializationFailure e then (s, Inl e)
     else (s\<lparr>retryExhausted := retryExhausted s + 1\<rparr>, Inl TransactionRetryExhausted))"
  "retryLoop attempt (Suc n) s = (case attempt s of (s, Inr x) \<Rightarrow> (s, Inr x) | (s, Inl e) \<Rightarrow>
     if \<not> isSerializationFailure e then (s, Inl e)
     else retryLoop attempt n (s\<lparr>retryAttempts := retryAttempts s + 1\<rparr>))"
  by (simp_all split: prod.splits sum.splits)

declare retryLoop.simps [simp del]

lemma retryLoop_Inr:
  assumes "rolls_back attempt" and "retryLoop attempt n s = (s', Inr x)"
  shows "\<exists>s1. db s1 = db s \<and> attempt s1 = (s', Inr x)"
  using assms(2)
proof (induction n arbitrary: s)
  case 0
  then show ?case by (auto simp: retryLoop_unfold split: prod.splits sum.splits if_splits)
next
  case (Suc n)
  show ?case
  proof (cases "attempt s")
    case (Pair s1 r)
    show ?thesis
    proof (cases r)
      case (Inl e)
      have "retryLoop attempt n (s1\<lparr>retryAttempts := retryAttempts s1 + 1\<rparr>) = (s', Inr x)"
        using Suc.prems Pair Inl by (simp add: retryLoop_unfold split: if_splits)
      from Suc.IH [OF this] show ?thesis using rolls_backD [OF assms(1), of s s1 e] Pair Inl by simp
    next
      case (Inr y)
      then show ?thesis using Suc.prems Pair by (auto simp: retryLoop_unfold)
    qed
  qed
qed

lemma retryLoop_Inl:
  assumes "rolls_back attempt" and "retryLoop attempt n s = (s', Inl e)"
  shows "db s' = db s"
  using assms(2)
proof (induction n arbitrary: s)
  case 0
  then show ?case using rolls_backD [OF assms(1)] by (auto simp: retryLoop_unfold split: prod.splits sum.splits if_splits)
next
  case (Suc n)
  obtain s1 r where a: "attempt s = (s1, r)" by (cases "attempt s")
  then obtain e1 where r: "r = Inl e1" using Suc.prems by (cases r) (auto simp: retryLoop_unfold)
  have d: "db s1 = db s" using rolls_backD [OF assms(1)] a r by blast
  show ?case
  proof (cases "isSerializationFailure e1")
    case True
    then have "retryLoop attempt n (s1\<lparr>retryAttempts := retryAttempts s1 + 1\<rparr>) = (s', Inl e)"
      using Suc.prems a r by (simp add: retryLoop_unfold)
    from Suc.IH [OF this] d show ?thesis by simp
  next
    case False
    then show ?thesis using Suc.prems a r d by (simp add: retryLoop_unfold)
  qed
qed

end
