(* ===== verification/Pg_Batch.thy ===== *)
theory Pg_Batch
  imports Pg_Posting
begin

text \<open>
  \<open>internal/ledger/posting_batch.go\<close>: many postings in one database transaction, and the store that collects
  single postings into such batches.
\<close>

definition maxPostingBatchSize :: nat where
  "maxPostingBatchSize = 64"

record 'd BatchPostingResult =
  br_Transaction :: "'d Transaction option"
  br_Err :: "'d err option"

record 'd preparedBatchPosting =
  bp_index :: nat
  bp_ledgerID :: uuid
  bp_entries :: "'d postgresEntry list"

record 'd batchAccountState =
  bs_ledgerID :: uuid
  bs_typ :: AccountType
  bs_balance :: 'd

subsection \<open>Preparing\<close>

text \<open>The first loop: a result per operation, and the operations that are left.\<close>

fun prepareBatch ::
  "('d :: linordered_ab_group_add, 'm) pg_env_scheme \<Rightarrow> nat \<Rightarrow> 'd EntryRequest list list
     \<Rightarrow> 'd BatchPostingResult list \<times> 'd preparedBatchPosting list" where
  "prepareBatch env index [] = ([], [])"
| "prepareBatch env index (entries # entrySets) =
     (let (results, prepared) = prepareBatch env (Suc index) entrySets
      in case ValidateTransaction entries of
           Some e \<Rightarrow> (\<lparr>br_Transaction = None, br_Err = Some e\<rparr> # results, prepared)
         | None \<Rightarrow>
             (case preparePostgresEntries env entries of
                Inl e \<Rightarrow> (\<lparr>br_Transaction = None, br_Err = Some e\<rparr> # results, prepared)
              | Inr postgresEntries \<Rightarrow>
                  (\<lparr>br_Transaction = None, br_Err = None\<rparr> # results,
                   \<lparr>bp_index = index, bp_ledgerID = uuidNil, bp_entries = postgresEntries\<rparr> # prepared)))"

definition batchAccountIDs :: "'d preparedBatchPosting list \<Rightarrow> uuid list" where
  "batchAccountIDs prepared = sort (remdups (concat (map (\<lambda>p. map pe_accountID (bp_entries p)) prepared)))"

text \<open>The states of the locked accounts.\<close>

definition stateOfRow :: "'d AccountRow \<Rightarrow> 'd batchAccountState" where
  "stateOfRow a = \<lparr>bs_ledgerID = ar_ledger a, bs_typ = ar_type a, bs_balance = ar_balance a\<rparr>"

definition batchStates :: "(uuid \<times> 'd AccountRow) list \<Rightarrow> (uuid \<rightharpoonup> 'd batchAccountState)" where
  "batchStates rows = fold (\<lambda>(k, a) m. m(k \<mapsto> stateOfRow a)) rows Map.empty"

subsection \<open>Deciding one posting\<close>

text \<open>The loop over the entries of a posting: accounts, ledger boundary, aggregated changes.\<close>

fun scanBatchEntries ::
  "('d :: linordered_ab_group_add, 'm) pg_env_scheme \<Rightarrow> (uuid \<rightharpoonup> 'd batchAccountState) \<Rightarrow> 'd postgresEntry list
     \<Rightarrow> uuid \<Rightarrow> (uuid \<rightharpoonup> 'd postingAccountChange) \<Rightarrow> ('d err, uuid \<times> (uuid \<rightharpoonup> 'd postingAccountChange)) res" where
  "scanBatchEntries env states [] ledgerID changes = Inr (ledgerID, changes)"
| "scanBatchEntries env states (entry # entries) ledgerID changes =
     (case states (pe_accountID entry) of
        None \<Rightarrow> Inl (PostingAccountNotFound (uuidString env (pe_accountID entry)))
      | Some state \<Rightarrow>
          if ledgerID = uuidNil
          then scanBatchEntries env states entries (bs_ledgerID state) (addChange entry changes)
          else if bs_ledgerID state \<noteq> ledgerID then Inl SpansLedgers
          else scanBatchEntries env states entries ledgerID (addChange entry changes))"

text \<open>The balance check, over the changes in the order Go visits them.\<close>

fun checkBatchBalances ::
  "('d :: linordered_ab_group_add, 'm) pg_env_scheme \<Rightarrow> (uuid \<rightharpoonup> 'd batchAccountState)
     \<Rightarrow> (uuid \<rightharpoonup> 'd postingAccountChange) \<Rightarrow> uuid list \<Rightarrow> 'd err option" where
  "checkBatchBalances env states changes [] = None"
| "checkBatchBalances env states changes (k # ks) =
     (case (states k, changes k) of
        (Some state, Some change) \<Rightarrow>
          let newBalance = bs_balance state + ch_debit change - ch_credit change;
              displayBalance = (if bs_typ state \<noteq> AssetType \<and> bs_typ state \<noteq> ExpenseType then - newBalance else newBalance)
          in if displayBalance < 0 then Some (InsufficientFundsFor (uuidString env k))
             else checkBatchBalances env states changes ks
      | _ \<Rightarrow> checkBatchBalances env states changes ks)"

definition addToState ::
  "'d :: linordered_ab_group_add postingAccountChange \<Rightarrow> 'd batchAccountState \<Rightarrow> 'd batchAccountState" where
  "addToState change state = state\<lparr>bs_balance := bs_balance state + ch_debit change - ch_credit change\<rparr>"

definition addToTotal ::
  "uuid \<Rightarrow> 'd :: linordered_ab_group_add postingAccountChange \<Rightarrow> 'd postingAccountChange \<Rightarrow> 'd postingAccountChange" where
  "addToTotal k change old =
     old\<lparr>ch_accountID := k, ch_debit := ch_debit old + ch_debit change, ch_credit := ch_credit old + ch_credit change\<rparr>"

fun applyBatchChanges ::
  "(uuid \<rightharpoonup> 'd :: linordered_ab_group_add postingAccountChange) \<Rightarrow> uuid list
     \<Rightarrow> (uuid \<rightharpoonup> 'd batchAccountState) \<times> (uuid \<rightharpoonup> 'd postingAccountChange)
     \<Rightarrow> (uuid \<rightharpoonup> 'd batchAccountState) \<times> (uuid \<rightharpoonup> 'd postingAccountChange)" where
  "applyBatchChanges changes [] st = st"
| "applyBatchChanges changes (k # ks) (states, totals) =
     (case (states k, changes k) of
        (Some state, Some change) \<Rightarrow>
          applyBatchChanges changes ks
            (states(k \<mapsto> addToState change state), totals(k \<mapsto> addToTotal k change (map_get zeroChange totals k)))
      | _ \<Rightarrow> applyBatchChanges changes ks (states, totals))"

definition decidePosting ::
  "('d :: linordered_ab_group_add, 'm) pg_env_scheme \<Rightarrow> 'd postgresEntry list
     \<Rightarrow> (uuid \<rightharpoonup> 'd batchAccountState) \<times> (uuid \<rightharpoonup> 'd postingAccountChange)
     \<Rightarrow> ('d err, uuid \<times> (uuid \<rightharpoonup> 'd batchAccountState) \<times> (uuid \<rightharpoonup> 'd postingAccountChange)) res" where
  "decidePosting env entries st =
     bindR (scanBatchEntries env (fst st) entries uuidNil Map.empty) (\<lambda>(ledgerID, changes).
     let keys = mapOrder env (remdups (map pe_accountID entries))
     in case checkBatchBalances env (fst st) changes keys of
          Some e \<Rightarrow> Inl e
        | None \<Rightarrow> Inr (ledgerID, applyBatchChanges changes keys st))"

text \<open>The loop over the prepared postings.\<close>

fun acceptPostings ::
  "('d :: linordered_ab_group_add, 'm) pg_env_scheme \<Rightarrow> 'd preparedBatchPosting list
     \<Rightarrow> (uuid \<rightharpoonup> 'd batchAccountState) \<times> (uuid \<rightharpoonup> 'd postingAccountChange) \<Rightarrow> 'd BatchPostingResult list
     \<Rightarrow> 'd preparedBatchPosting list \<times> (uuid \<rightharpoonup> 'd postingAccountChange) \<times> 'd BatchPostingResult list" where
  "acceptPostings env [] st results = ([], snd st, results)"
| "acceptPostings env (posting # postings) st results =
     (case decidePosting env (bp_entries posting) st of
        Inl e \<Rightarrow> acceptPostings env postings st (results[bp_index posting := (results ! bp_index posting)\<lparr>br_Err := Some e\<rparr>])
      | Inr (ledgerID, st') \<Rightarrow>
          let (accepted, totals, results') = acceptPostings env postings st' results
          in (posting\<lparr>bp_ledgerID := ledgerID\<rparr> # accepted, totals, results'))"

subsection \<open>Writing the batch\<close>

definition batchChangeList ::
  "'d :: linordered_ab_group_add preparedBatchPosting list \<Rightarrow> (uuid \<rightharpoonup> 'd postingAccountChange) \<Rightarrow> 'd postingAccountChange list" where
  "batchChangeList accepted totals = map (map_get zeroChange totals) (batchAccountIDs accepted)"

definition batchEntry :: "('d, 'm) pg_env_scheme \<Rightarrow> uuid \<Rightarrow> uuid \<times> 'd postgresEntry \<Rightarrow> 'd Entry" where
  "batchEntry env tid p = (case p of (eid, e) \<Rightarrow>
     \<lparr>e_ID = uuidString env eid, e_AccountID = uuidString env (pe_accountID e),
      e_TransactionID = uuidString env tid, e_Credit = Credit (pe_entry e), e_Debit = Debit (pe_entry e)\<rparr>)"

fun setTransactions ::
  "('d, 'm) pg_env_scheme \<Rightarrow> (uuid \<times> 'd preparedBatchPosting \<times> uuid list) list \<Rightarrow> 'd BatchPostingResult list
     \<Rightarrow> 'd BatchPostingResult list" where
  "setTransactions env [] results = results"
| "setTransactions env ((tid, posting, ids) # writes) results =
     setTransactions env writes (results[bp_index posting := (results ! bp_index posting)\<lparr>br_Transaction :=
       Some \<lparr>t_ID = uuidString env tid, t_LedgerID = uuidString env (bp_ledgerID posting),
         t_Entries = map (batchEntry env tid) (zip ids (bp_entries posting)), t_Timestamp = 0\<rparr>\<rparr>])"

definition writeVals :: "(uuid \<times> 'd preparedBatchPosting \<times> uuid list) list \<Rightarrow> 'd entryValue list" where
  "writeVals writes = concat (map (\<lambda>(tid, posting, ids). postingVals ids tid (bp_entries posting)) writes)"

definition writePostingBatch ::
  "('d :: linordered_ab_group_add, 'm) pg_env_scheme \<Rightarrow> 'd preparedBatchPosting list \<Rightarrow> (uuid \<rightharpoonup> 'd postingAccountChange)
     \<Rightarrow> 'd BatchPostingResult list \<Rightarrow> ('d, 'd BatchPostingResult list) act" where
  "writePostingBatch env postings changes results =
     bindE (mapE (\<lambda>_. newID env) postings) (\<lambda>tids.
     bindE (mapE (\<lambda>p. mapE (\<lambda>_. newID env) (bp_entries p)) postings) (\<lambda>entryIDs.
     bindE (timeP env) (\<lambda>t.
     bindE (mapE (\<lambda>_. newID env) postings) (\<lambda>oids.
     let writes = zip tids (zip postings entryIDs)
     in bindE (execDb env ''write posting batch''
          (postStatement env t (map (\<lambda>(tid, posting, _). (tid, bp_ledgerID posting)) writes) (writeVals writes)
             (changeUpdate (batchChangeList postings changes)) oids)) (\<lambda>_.
        returnE (setTransactions env writes results))))))"

subsection \<open>The batch\<close>

definition stampResult :: "time \<Rightarrow> 'd BatchPostingResult \<Rightarrow> 'd BatchPostingResult" where
  "stampResult t r = r\<lparr>br_Transaction := map_option (\<lambda>x. x\<lparr>t_Timestamp := t\<rparr>) (br_Transaction r)\<rparr>"

definition CreateTransactionsBatch ::
  "('d :: linordered_ab_group_add, 'm) pg_env_scheme \<Rightarrow> 'd EntryRequest list list \<Rightarrow> ('d, 'd BatchPostingResult list) act" where
  "CreateTransactionsBatch env entrySets =
     (if entrySets = [] \<or> maxPostingBatchSize < length entrySets then failE (InvalidBatchSize maxPostingBatchSize)
      else let (results, prepared) = prepareBatch env 0 entrySets
      in if prepared = [] then returnE results
      else
        atomically (
        bindE (dbCall env ''begin posting batch'') (\<lambda>_.
        bindE (dbCall env ''lock posting batch accounts'') (\<lambda>_.
        bindE getDb (\<lambda>d.
        let states = batchStates (selectAccounts d (batchAccountIDs prepared));
            (accepted, totals, results) = acceptPostings env prepared (states, Map.empty) results
        in bindE (if accepted \<noteq> [] then writePostingBatch env accepted totals results else returnE results) (\<lambda>results.
        bindE (dbCall env ''commit posting batch'') (\<lambda>_.
        bindE (timeP env) (\<lambda>committedAt.
        returnE (map (stampResult committedAt) results))))))))) "

subsection \<open>The batching store\<close>

text \<open>
  \<open>BatchingPostgresStore\<close>: a request without a key waits in a channel; a worker takes up to \<open>maxBatch\<close> requests
  (how many there are before the timer fires is up to the schedule) and answers each with its result. A
  step of a worker is the function of the requests it took.
\<close>

definition validBatchConfiguration :: "int \<Rightarrow> int \<Rightarrow> int \<Rightarrow> bool" where
  "validBatchConfiguration maxBatch maxWait workers \<longleftrightarrow>
     \<not> (maxBatch \<le> 0 \<or> maxBatch > int maxPostingBatchSize \<or> maxWait < 0 \<or> workers \<le> 0)"

definition runBatch ::
  "('d :: linordered_ab_group_add, 'm) pg_env_scheme \<Rightarrow> 'd EntryRequest list list
     \<Rightarrow> 'd Pg \<Rightarrow> 'd Pg \<times> ('d Transaction option \<times> 'd err option) list" where
  "runBatch env batch s =
     (case CreateTransactionsBatch env batch s of
        (s', Inl e) \<Rightarrow> (s', map (\<lambda>_. (None, Some e)) batch)
      | (s', Inr results) \<Rightarrow> (s', map (\<lambda>i. (br_Transaction (results ! i), br_Err (results ! i))) [0..<length batch]))"

end
