(* ===== verification/Pg_Properties.thy ===== *)
theory Pg_Properties
  imports Pg_Posting
begin

text \<open>The properties of the posting path of the PostgreSQL store, with instances on a concrete database.\<close>

subsection \<open>Effect of a new posting\<close>

definition requestNet :: "('d :: linordered_ab_group_add, 'm) pg_env_scheme \<Rightarrow> uuid \<Rightarrow> 'd EntryRequest list \<Rightarrow> 'd" where
  "requestNet env k es = (\<Sum>e\<leftarrow>es. if uuidParse env (AccountID e) = Some k then Debit e - Credit e else 0)"

definition displayed :: "'d :: linordered_ab_group_add AccountRow \<Rightarrow> 'd" where
  "displayed a = displayedBalanceAfter (ar_type a) (ar_balance a) 0 0"

lemma displayed_after:
  "displayed (a\<lparr>ar_balance := ar_balance a + (d - c)\<rparr>) = displayedBalanceAfter (ar_type a) (ar_balance a) d c"
  by (simp add: displayed_def displayedBalanceAfter_def)

lemma prepared_net:
  assumes "preparePostgresEntries env es = Inr ps"
  shows "entriesDebit k ps - entriesCredit k ps = requestNet env k es"
  using assms
proof (induction es arbitrary: ps)
  case (Cons e es)
  then obtain aid ps' where "uuidParse env (AccountID e) = Some aid" "preparePostgresEntries env es = Inr ps'"
    "ps = \<lparr>pe_accountID = aid, pe_entry = e\<rparr> # ps'"
    by (auto simp: bindR_Inr split: option.splits)
  then show ?case using Cons.IH by (auto simp: requestNet_def algebra_simps)
qed (simp add: requestNet_def)

lemma prepared_account:
  "preparePostgresEntries env es = Inr ps \<Longrightarrow> e \<in> set es \<Longrightarrow>
     \<exists>p \<in> set ps. uuidParse env (AccountID e) = Some (pe_accountID p)"
  by (induction es arbitrary: ps) (auto simp: bindR_Inr split: option.splits)

lemma frame_keys [simp]:
  "pg_books env (d\<lparr>keysT := x\<rparr>) = pg_books env d"
  "coverable (d\<lparr>keysT := x\<rparr>) l ps = coverable d l ps"
  by (simp_all add: pg_books_def row_placed_def coverable_def)

lemma completeKey_frame [simp]:
  "accountsT (completeKey key tid d) = accountsT d" "entriesT (completeKey key tid d) = entriesT d"
  "transactionsT (completeKey key tid d) = transactionsT d" "outboxT (completeKey key tid d) = outboxT d"
  "pg_books env (completeKey key tid d) = pg_books env d"
  by (auto simp: completeKey_def split: option.splits)

lemma claimed_frame [simp]:
  "accountsT (claimed key c d) = accountsT d" "entriesT (claimed key c d) = entriesT d"
  "transactionsT (claimed key c d) = transactionsT d" "pg_books env (claimed key c d) = pg_books env d"
  by (auto simp: claimed_def)

lemma valid_request_prepared:
  assumes "valid_request es" and "map pe_entry ps = es"
  shows "(\<Sum>p\<leftarrow>ps. Debit (pe_entry p)) = (\<Sum>p\<leftarrow>ps. Credit (pe_entry p))"
  using assms by (auto simp: valid_request_def balanced_def comp_def)

lemma posted_books:
  assumes "numeric_ok env" and "pg_books env d" and "valid_request es" and "request_cents env es"
    and "posted env key es tid d d'"
  shows "pg_books env d'"
    and "accountRow d k = Some a \<Longrightarrow> accountRow d' k = Some (a\<lparr>ar_balance := ar_balance a + requestNet env k es\<rparr>)"
    and "map fst (accountsT d') = map fst (accountsT d)"
    and "\<exists>ledger. \<forall>e \<in> set es. \<exists>k a. uuidParse env (AccountID e) = Some k \<and> accountRow d k = Some a \<and>
      ar_ledger a = ledger \<and> 0 \<le> displayed (a\<lparr>ar_balance := ar_balance a + requestNet env k es\<rparr>)"
    and "transactionsT d tid = None" and "transactionsT d' tid \<noteq> None"
proof -
  obtain ps ledger ids t oid d1 where prep: "preparePostgresEntries env es = Inr ps" and cov: "coverable d ledger ps"
    and len: "length ids = length ps"
    and post: "postStatement env t [(tid, ledger)] (postingVals ids tid ps) (changeUpdate (sortedChanges ps)) [oid] d = Inr d1"
    and d': "d' = completeKey key tid d1"
    using assms(5) unfolding posted_def by blast
  have entries: "map pe_entry ps = es" using preparePostgresEntries_Inr [OF prep] by blast
  have cents: "\<forall>v \<in> set (postingVals ids tid ps). valueCents env v"
    using postingVals_cents [of env ps] assms(4) entries by simp
  note B = postStatement_books [OF assms(1,2) post cents postingVals_placed [OF cov] _ changeUpdate_by [OF len]]
  have bal: "\<forall>x. valueImbalance x (postingVals ids tid ps) = 0"
    using postingVals_imbalance [OF len] valid_request_prepared [OF assms(3) entries] by simp
  have net: "valueNet k (postingVals ids tid ps) = requestNet env k es" for k
    using postingVals_net [OF len] prepared_net [OF prep] by simp
  show "pg_books env d'" and "map fst (accountsT d') = map fst (accountsT d)"
    using B(1,3) bal by (simp_all add: d')
  show "accountRow d' k = Some (a\<lparr>ar_balance := ar_balance a + requestNet env k es\<rparr>)" if "accountRow d k = Some a"
    using B(2) [OF _ bal that] by (simp add: d' net)
  have "\<exists>k a. uuidParse env (AccountID e) = Some k \<and> accountRow d k = Some a \<and> ar_ledger a = ledger \<and>
      0 \<le> displayed (a\<lparr>ar_balance := ar_balance a + requestNet env k es\<rparr>)" if e: "e \<in> set es" for e
  proof -
    obtain p where p: "p \<in> set ps" "uuidParse env (AccountID e) = Some (pe_accountID p)"
      using prepared_account [OF prep e] by blast
    then obtain a where "accountRow d (pe_accountID p) = Some a" "ar_ledger a = ledger"
      "0 \<le> displayedBalanceAfter (ar_type a) (ar_balance a) (entriesDebit (pe_accountID p) ps) (entriesCredit (pe_accountID p) ps)"
      using cov by (auto simp: coverable_def)
    then show ?thesis
      using p(2) displayed_after [of a "entriesDebit (pe_accountID p) ps" "entriesCredit (pe_accountID p) ps"]
      by (auto simp: prepared_net [OF prep])
  qed
  then show "\<exists>ledger. \<forall>e \<in> set es. \<exists>k a. uuidParse env (AccountID e) = Some k \<and> accountRow d k = Some a \<and>
      ar_ledger a = ledger \<and> 0 \<le> displayed (a\<lparr>ar_balance := ar_balance a + requestNet env k es\<rparr>)"
    by blast
  show "transactionsT d tid = None" "transactionsT d' tid \<noteq> None"
    by (rule postStatement_Inr [OF assms(1) post cents]; auto simp: d')+
qed

lemma postStatement_keys:
  assumes "postStatement env t txs vals upd oids d = Inr d'"
  shows "keysT d' = keysT d"
proof -
  from assms obtain d1 rows d2 d3 where d1: "insertTransactions t txs d = Inr d1"
    and d2: "insertEntries rows d1 = Inr d2" and d3: "updateBalances env upd d2 = Inr d3"
    and d': "insertOutboxes (map (\<lambda>(oid, tid, _). postedEvent oid t tid) (zip oids txs)) d3 = Inr d'"
    by (auto simp: postStatement_def bindR_Inr)
  have "keysT d1 = keysT d" using insertTransactions_Inr [OF d1] by auto
  moreover have "keysT d2 = keysT d1" using d2 by (auto simp: insertEntries_def split: if_splits)
  moreover have "keysT d3 = keysT d2" using d3 by (auto simp: updateBalances_def bindR_Inr)
  ultimately show ?thesis using insertOutboxes_Inr [OF d'] by simp
qed

lemma PgCreateTransaction_Inr:
  assumes "PgCreateTransaction env key es s = (s', Inr (t, existed))"
  defines "c \<equiv> TransactionRequestChecksum env '''' es"
  shows "valid_request es"
    and "if existed then key \<noteq> '''' \<and> db s' = db s \<and> (\<exists>k tid. keysT (db s) key = Some k \<and> kr_checksum k = c \<and>
        kr_transaction k = Some tid \<and> t_ID t = uuidString env tid)
      else (key \<noteq> '''' \<longrightarrow> kr_checksum (claimRow key c (db s)) = c) \<and>
        (\<exists>tid. t_ID t = uuidString env tid \<and> posted env key es tid (claimed key c (db s)) (db s'))"
proof -
  show valid: "valid_request es"
    using assms(1) by (auto simp: PgCreateTransaction_def bindE_Inr failE_def returnE_def ValidateTransaction_None_iff
      split: option.splits)
  let ?read = "if key \<noteq> '''' then completedIdempotentTransaction env key c else returnE None"
  have "quiet ?read"
    by (auto simp: completedIdempotentTransaction_def intro!: quiet_intros split: option.splits)
  from assms(1) valid obtain s1 ex where read: "?read s = (s1, Inr ex)"
    and rest: "(case ex of Some t \<Rightarrow> returnE (t, True)
      | None \<Rightarrow> retryLoop (createTransactionAttempt env key c es) maxSerializationRetries) s1 = (s', Inr (t, existed))"
    unfolding PgCreateTransaction_def c_def Let_def
    by (auto simp: bindE_Inr returnE_def failE_def ValidateTransaction_None_iff [symmetric] split: option.splits)
  have d1: "db s1 = db s" using quietD [OF \<open>quiet ?read\<close> read] .
  show "if existed then key \<noteq> '''' \<and> db s' = db s \<and> (\<exists>k tid. keysT (db s) key = Some k \<and> kr_checksum k = c \<and>
        kr_transaction k = Some tid \<and> t_ID t = uuidString env tid)
      else (key \<noteq> '''' \<longrightarrow> kr_checksum (claimRow key c (db s)) = c) \<and>
        (\<exists>tid. t_ID t = uuidString env tid \<and> posted env key es tid (claimed key c (db s)) (db s'))"
  proof (cases ex)
    case (Some t')
    then show ?thesis
      using read rest d1
      by (auto simp: completedIdempotentTransaction_def bindE_Inr act_defs split: if_splits option.splits)
  next
    case None
    then have "retryLoop (createTransactionAttempt env key c es) maxSerializationRetries s1 = (s', Inr (t, existed))"
      using rest by simp
    from retryLoop_Inr [OF rolls_back_attempt this]
    obtain s2 where s2: "db s2 = db s1" "createTransactionAttempt env key c es s2 = (s', Inr (t, existed))"
      by blast
    show ?thesis using createTransactionAttempt_Inr [OF s2(2)] s2(1) d1 by (auto split: if_splits)
  qed
qed

lemma PgCreateTransaction_Inl:
  assumes "PgCreateTransaction env key es s = (s', Inl e)"
  shows "db s' = db s"
proof -
  let ?c = "TransactionRequestChecksum env '''' es"
  let ?read = "if key \<noteq> '''' then completedIdempotentTransaction env key ?c else returnE None"
  have q: "quiet ?read"
    by (auto simp: completedIdempotentTransaction_def intro!: quiet_intros split: option.splits)
  note loop = retryLoop_Inl [OF rolls_back_attempt]
  show ?thesis
  proof (cases "ValidateTransaction es")
    case (Some x)
    then show ?thesis using assms by (simp add: PgCreateTransaction_def)
  next
    case None
    then have "bindE ?read (\<lambda>existing. case existing of Some t \<Rightarrow> returnE (t, True)
        | None \<Rightarrow> retryLoop (createTransactionAttempt env key ?c es) maxSerializationRetries) s = (s', Inl e)"
      using assms by (simp add: PgCreateTransaction_def Let_def)
    then consider "?read s = (s', Inl e)"
      | s1 where "?read s = (s1, Inr None)"
          "retryLoop (createTransactionAttempt env key ?c es) maxSerializationRetries s1 = (s', Inl e)"
      unfolding bindE_Inl by (auto simp: returnE_def split: option.splits)
    then show ?thesis
    proof cases
      case 1
      then show ?thesis by (rule quietD [OF q])
    next
      case 2
      then show ?thesis using quietD [OF q 2(1)] loop [OF 2(2)] by simp
    qed
  qed
qed

subsection \<open>A concrete database\<close>

definition pgEnv :: "int pg_env" where
  "pgEnv = \<lparr>ToLower = (\<lambda>x. x), StringFixed = (\<lambda>_ d. if d < 0 then CHR ''-'' # replicate (nat (- d)) CHR ''1'' else replicate (nat d) CHR ''1''),
     jsonMarshal = (\<lambda>r. c_LedgerID r @ concat (map (\<lambda>e. ''/'' @ c_AccountID e @ '':'' @ c_Credit e @ '':'' @ c_Debit e) (c_Entries r))),
     Sum256 = (\<lambda>x. x),
     uuidParse = (\<lambda>x. if x = replicate (length x) CHR ''x'' then Some (of_nat (length x)) else None),
     uuidString = (\<lambda>u. replicate (unat u) CHR ''x''), drawUUID = (\<lambda>n. of_nat n), readClock = int,
     numeric = Some, cents = (\<lambda>_. True), fault = (\<lambda>_. None), mapOrder = (\<lambda>ks. ks), accountsReferenced = True\<rparr>"

lemma pgEnv_ok: "numeric_ok pgEnv" "parse_inverts pgEnv" "range_order pgEnv"
  by (simp_all add: pgEnv_def numeric_ok_def parse_inverts_def range_order_def)

definition pgStart :: "int Pg" where
  "pgStart = \<lparr>db = emptyDatabase\<lparr>accountsT := [(1, \<lparr>ar_ledger = 7, ar_name = ''cash'', ar_type = AssetType, ar_balance = 0\<rparr>),
       (2, \<lparr>ar_ledger = 7, ar_name = ''capital'', ar_type = EquityType, ar_balance = 0\<rparr>)]\<rparr>,
     draws = 10, ticks = 0, calls = 0, retryAttempts = 0, retryExhausted = 0,
     projectionWaiters = newCompletionWaiters, transferWaiters = newCompletionWaiters\<rparr>"

definition pgRequest :: "int EntryRequest list" where
  "pgRequest = [\<lparr>AccountID = ''x'', Credit = 0, Debit = 100\<rparr>, \<lparr>AccountID = ''xx'', Credit = 100, Debit = 0\<rparr>]"

definition pgPosted :: "int Pg" where
  "pgPosted = fst (PgCreateTransaction pgEnv ''k'' pgRequest pgStart)"

lemma pgStart_books: "pg_books pgEnv (db pgStart)"
  by (simp add: pg_books_def pgStart_def emptyDatabase_def pgEnv_def)

lemma pgEnv_simps [simp]:
  "fault pgEnv n = None" "numeric pgEnv x = Some x" "drawUUID pgEnv n = of_nat n" "readClock pgEnv n = int n"
  "cents pgEnv x" "mapOrder pgEnv ks = ks"
  "uuidParse pgEnv ''x'' = Some 1" "uuidParse pgEnv ''xx'' = Some 2"
  by (simp_all add: pgEnv_def)

lemma dbCall_pgEnv [simp]: "bindE (dbCall pgEnv w) f s = f () (s\<lparr>calls := Suc (calls s)\<rparr>)"
  by (simp add: bindE_def dbCall_def)

lemma pgRequest_prepared: "preparePostgresEntries pgEnv pgRequest =
  Inr [\<lparr>pe_accountID = 1, pe_entry = pgRequest ! 0\<rparr>, \<lparr>pe_accountID = 2, pe_entry = pgRequest ! 1\<rparr>]"
  by (simp add: pgRequest_def)

lemma pgRequest_valid: "ValidateTransaction pgRequest = None"
  by (simp add: ValidateTransaction_def pgRequest_def)

lemmas pg_eval = PgCreateTransaction_def Let_def completedIdempotentTransaction_def emptyDatabase_def
  createTransactionAttempt_def maxSerializationRetries_def numeral_3_eq_3 retryLoop_unfold bindE_assoc bindE_liftE
  ClaimIdempotencyKey_def claimRow_def postNew_def atomically_def lockPostingAccounts_def sortedChanges_def
  changesByID_def changeIDs_def addChange_def map_get_def selectAccounts_def List.map_filter_simps zeroChange_def
  displayedBalanceAfter_def go_consts writePosting_def execDb_def postStatement_def updateBalances_def
  insertEntries_def entryCheck_def insertOutbox_def postedEvent_def changeUpdate_def completeKey_def returnE_def

lemma pgPosted_eq:
  "\<exists>t. PgCreateTransaction pgEnv ''k'' pgRequest pgStart = (pgPosted, Inr (t, False)) \<and> t_ID t = uuidString pgEnv 10"
  "map (\<lambda>(k, a). (k, ar_balance a)) (accountsT (db pgPosted)) = [(1, 100), (2, -100)]"
  "keysT (db pgPosted) ''k'' = Some \<lparr>kr_transaction = Some 10,
     kr_checksum = TransactionRequestChecksum pgEnv '''' pgRequest, kr_status = ''completed''\<rparr>"
  using pgRequest_valid pgRequest_prepared
  by (simp_all add: pgPosted_def pgStart_def pgRequest_def pg_eval)

subsection \<open>Properties\<close>

lemma PgCreateTransaction_books:
  assumes "numeric_ok env" and "pg_books env (db s)" and "request_cents env es"
    and "PgCreateTransaction env key es s = (s', r)"
  shows "pg_books env (db s') \<and> (\<forall>e. r = Inl e \<longrightarrow> db s' = db s)"
proof (cases r)
  case (Inl e)
  then show ?thesis using PgCreateTransaction_Inl [of env key es s s' e] assms(2,4) by simp
next
  case (Inr p)
  obtain t b where p: "p = (t, b)" by (cases p)
  note R = PgCreateTransaction_Inr [OF assms(4) [unfolded Inr p]]
  show ?thesis
  proof (cases b)
    case True
    then show ?thesis using R(2) assms(2) Inr by simp
  next
    case False
    then obtain tid where p: "posted env key es tid (claimed key (TransactionRequestChecksum env '''' es) (db s)) (db s')"
      using R(2) by auto
    have "pg_books env (claimed key (TransactionRequestChecksum env '''' es) (db s))" using assms(2) by simp
    from posted_books(1) [OF assms(1) this R(1) assms(3) p] show ?thesis using Inr by simp
  qed
qed





text \<open>A request whose key is recorded as completed, with the checksum of the request, is answered with the recorded transaction.\<close>

lemma PgCreateTransaction_recorded:
  assumes "PgCreateTransaction env key es s = (s', r)" and "key \<noteq> ''''" and "ValidateTransaction es = None"
    and "keysT (db s) key = Some k" and "kr_checksum k = TransactionRequestChecksum env '''' es" and "kr_transaction k = Some tid"
    and "kr_status k = ''completed''"
  shows "db s' = db s \<and>
    (case r of Inl e \<Rightarrow> \<exists>w f. e = DbFault w f | Inr (t, existed) \<Rightarrow> existed \<and> t_ID t = uuidString env tid)"
  using assms
  by (auto simp: PgCreateTransaction_def completedIdempotentTransaction_def bindE_def act_defs Let_def
      split: option.splits prod.splits sum.splits)

lemma PgCreateTransaction_key_row:
  assumes "PgCreateTransaction env key es s = (s1, Inr (t, False))" and "key \<noteq> ''''"
  shows "\<exists>k tid. keysT (db s1) key = Some k \<and> kr_checksum k = TransactionRequestChecksum env '''' es \<and> kr_transaction k = Some tid \<and>
      kr_status k = ''completed'' \<and> t_ID t = uuidString env tid"
proof -
  let ?c = "TransactionRequestChecksum env '''' es"
  obtain tid where t: "t_ID t = uuidString env tid" and sum: "kr_checksum (claimRow key ?c (db s)) = ?c"
    and p: "posted env key es tid (claimed key ?c (db s)) (db s1)"
    using PgCreateTransaction_Inr(2) [OF assms(1)] assms(2) by auto
  then obtain ps ledger ids u oid d1 where
    post: "postStatement env u [(tid, ledger)] (postingVals ids tid ps) (changeUpdate (sortedChanges ps)) [oid]
      (claimed key ?c (db s)) = Inr d1" and d1: "db s1 = completeKey key tid d1"
    unfolding posted_def by blast
  have "keysT d1 = keysT (claimed key ?c (db s))" by (rule postStatement_keys [OF post])
  then show ?thesis
    using d1 t sum assms(2) by (auto simp: completeKey_def claimed_def)
qed

lemma PgCreateTransaction_again:
  assumes "PgCreateTransaction env key es s = (s1, Inr (t, False))" and "key \<noteq> ''''"
    and "keysT (db s2) key = keysT (db s1) key" and "mset es' = mset es"
    and "PgCreateTransaction env key es' s2 = (s3, r)"
  shows "db s3 = db s2 \<and>
    (case r of Inl e \<Rightarrow> \<exists>w f. e = DbFault w f | Inr (t', existed') \<Rightarrow> existed' \<and> t_ID t' = t_ID t)"
proof -
  let ?c = "TransactionRequestChecksum env '''' es"
  have c': "TransactionRequestChecksum env '''' es' = ?c"
    using assms(4) by (intro checksum_canonical) (simp add: canonicalRequest_eq_iff)
  obtain k tid where "keysT (db s1) key = Some k" "kr_checksum k = ?c" "kr_transaction k = Some tid"
    "kr_status k = ''completed''" "t_ID t = uuidString env tid"
    using PgCreateTransaction_key_row [OF assms(1,2)] by blast
  then obtain k tid where k: "keysT (db s2) key = Some k" "kr_checksum k = ?c" "kr_transaction k = Some tid"
    "kr_status k = ''completed''" "t_ID t = uuidString env tid"
    using assms(3) by auto
  have "ValidateTransaction es' = None"
    using PgCreateTransaction_Inr(1) [OF assms(1)] valid_request_mset [OF assms(4)] by (simp add: ValidateTransaction_None_iff)
  from PgCreateTransaction_recorded [OF assms(5,2) this k(1) _ k(3,4)] show ?thesis
    using k(2,5) c' by (cases r) auto
qed

text \<open>
  Idempotency of the PostgreSQL store. After a new posting under a key, the same request in any order of its
  entries, made against any later state that has the same row for the key, either meets a fault of the
  database or returns the same transaction, marked as a replay; it changes no table.
\<close>

theorem PgCreateTransaction_replay:
  assumes "PgCreateTransaction env key es s = (s1, Inr (t, False))" and "key \<noteq> ''''"
    and "keysT (db s2) key = keysT (db s1) key" and "mset es' = mset es"
    and "PgCreateTransaction env key es' s2 = (s3, r)"
  shows "db s3 = db s2 \<and>
    (case r of Inl e \<Rightarrow> \<exists>w f. e = DbFault w f | Inr (t', existed') \<Rightarrow> existed' \<and> t_ID t' = t_ID t)"
  by (rule PgCreateTransaction_again [OF assms])

theorem PgCreateTransaction_replay_witness:
  "\<exists>s3 r. PgCreateTransaction pgEnv ''k'' (rev pgRequest) pgPosted = (s3, r) \<and> db s3 = db pgPosted \<and>
     (case r of Inl e \<Rightarrow> \<exists>w f. e = DbFault w f | Inr (t', existed') \<Rightarrow> existed' \<and> t_ID t' = uuidString pgEnv 10)"
proof -
  obtain t where t: "PgCreateTransaction pgEnv ''k'' pgRequest pgStart = (pgPosted, Inr (t, False))"
    "t_ID t = uuidString pgEnv 10" using pgPosted_eq(1) by blast
  obtain s3 r where r: "PgCreateTransaction pgEnv ''k'' (rev pgRequest) pgPosted = (s3, r)"
    by (cases "PgCreateTransaction pgEnv ''k'' (rev pgRequest) pgPosted")
  from PgCreateTransaction_replay [OF t(1) _ refl _ r] show ?thesis
    using t(2) r by (auto split: sum.splits)
qed



text \<open>An environment whose amounts count thousandths, with columns that round to hundredths.\<close>

definition milliEnv :: "int pg_env" where
  "milliEnv = pgEnv\<lparr>numeric := (\<lambda>x. Some ((x + 5) div 10 * 10)), cents := (\<lambda>x. x mod 10 = 0)\<rparr>"

definition milliPosting :: "int EntryRequest list" where
  "milliPosting = [\<lparr>AccountID = ''x'', Credit = 0, Debit = 5\<rparr>, \<lparr>AccountID = ''x'', Credit = 0, Debit = 5\<rparr>,
     \<lparr>AccountID = ''xx'', Credit = 10, Debit = 0\<rparr>]"

lemma milliEnv_simps [simp]:
  "fault milliEnv n = None" "numeric milliEnv x = Some ((x + 5) div 10 * 10)" "drawUUID milliEnv n = of_nat n"
  "readClock milliEnv n = int n" "uuidParse milliEnv ''x'' = Some 1" "uuidParse milliEnv ''xx'' = Some 2"
  by (simp_all add: milliEnv_def)

lemma dbCall_milliEnv [simp]: "bindE (dbCall milliEnv w) f s = f () (s\<lparr>calls := Suc (calls s)\<rparr>)"
  by (simp add: bindE_def dbCall_def)

text \<open>
  The restriction to two decimals in the properties above is needed, and nothing in the code enforces it. With
  amounts counted in thousandths and columns that round to hundredths, the balanced request of debits
  0.005 and 0.005 against a credit of 0.01 is accepted, and leaves a transaction whose stored entries
  do not balance and a balance that is not the net of its entries.
\<close>

theorem PgCreateTransaction_unrounded_unbalances:
  "numeric_ok milliEnv \<and> pg_books milliEnv (db pgStart) \<and> ValidateTransaction milliPosting = None \<and>
   (\<exists>s' t tid. PgCreateTransaction milliEnv '''' milliPosting pgStart = (s', Inr (t, False)) \<and>
      rowImbalance tid (entriesT (db s')) = 10 \<and>
      (\<exists>a. accountRow (db s') 1 = Some a \<and> ar_balance a = 10 \<and> rowNet 1 (entriesT (db s')) = 20))"
proof (intro conjI)
  show "numeric_ok milliEnv"
    by (auto simp: numeric_ok_def milliEnv_def mod_simps)
  show "pg_books milliEnv (db pgStart)"
    by (simp add: pg_books_def pgStart_def emptyDatabase_def milliEnv_def)
  show v: "ValidateTransaction milliPosting = None"
    by (simp add: ValidateTransaction_def milliPosting_def)
  show "\<exists>s' t tid. PgCreateTransaction milliEnv '''' milliPosting pgStart = (s', Inr (t, False)) \<and>
      rowImbalance tid (entriesT (db s')) = 10 \<and>
      (\<exists>a. accountRow (db s') 1 = Some a \<and> ar_balance a = 10 \<and> rowNet 1 (entriesT (db s')) = 20)"
    using v by (simp add: milliPosting_def pgStart_def pg_eval)
qed

end
