(* ===== verification/Pg_Batch_Books.thy ===== *)
theory Pg_Batch_Books
  imports Pg_Batch Pg_Properties
begin

text \<open>
  The batch against single postings: which postings it accepts, that it keeps the books, and where it differs
  from the single path.
\<close>

subsection \<open>The reference: postings one at a time\<close>

definition covers ::
  "(uuid \<rightharpoonup> 'd :: linordered_ab_group_add batchAccountState) \<Rightarrow> uuid \<Rightarrow> 'd postgresEntry list \<Rightarrow> bool" where
  "covers st ledger es \<longleftrightarrow> (\<forall>k \<in> pe_accountID ` set es. \<exists>a. st k = Some a \<and> bs_ledgerID a = ledger \<and>
     0 \<le> displayedBalanceAfter (bs_typ a) (bs_balance a) (entriesDebit k es) (entriesCredit k es))"

definition dbStates :: "'d Database \<Rightarrow> (uuid \<rightharpoonup> 'd batchAccountState)" where
  "dbStates d = (\<lambda>k. map_option stateOfRow (accountRow d k))"

text \<open>On the tables this is the condition of the single path.\<close>

lemma covers_dbStates: "covers (dbStates d) ledger es = coverable d ledger es"
  by (auto simp: covers_def coverable_def dbStates_def stateOfRow_def)

definition postStates ::
  "'d postgresEntry list \<Rightarrow> (uuid \<rightharpoonup> 'd :: linordered_ab_group_add batchAccountState) \<Rightarrow> (uuid \<rightharpoonup> 'd batchAccountState)" where
  "postStates es st = (\<lambda>k. map_option (\<lambda>a. a\<lparr>bs_balance := bs_balance a + (entriesDebit k es - entriesCredit k es)\<rparr>) (st k))"

fun acceptAlone ::
  "(uuid \<rightharpoonup> 'd :: linordered_ab_group_add batchAccountState) \<Rightarrow> 'd postgresEntry list \<Rightarrow> uuid option" where
  "acceptAlone st [] = None"
| "acceptAlone st (e # es) =
     (case st (pe_accountID e) of
        None \<Rightarrow> None
      | Some a \<Rightarrow> if covers st (bs_ledgerID a) (e # es) then Some (bs_ledgerID a) else None)"

fun acceptInTurn ::
  "(uuid \<rightharpoonup> 'd :: linordered_ab_group_add batchAccountState) \<Rightarrow> 'd preparedBatchPosting list \<Rightarrow> 'd preparedBatchPosting list" where
  "acceptInTurn st [] = []"
| "acceptInTurn st (p # ps) =
     (case acceptAlone st (bp_entries p) of
        None \<Rightarrow> acceptInTurn st ps
      | Some ledger \<Rightarrow> p\<lparr>bp_ledgerID := ledger\<rparr> # acceptInTurn (postStates (bp_entries p) st) ps)"

lemma acceptAlone_iff: "acceptAlone st es = Some ledger \<longleftrightarrow> es \<noteq> [] \<and> covers st ledger es"
  by (cases es) (auto simp: covers_def split: option.splits)

subsection \<open>Deciding one posting\<close>

text \<open>
  The boundary check of the batch takes the ledger \<open>uuid.Nil\<close>, which is the default ledger, for \<open>not set yet\<close>. It
  is exact where the accounts of the default ledger do not meet those of another one.
\<close>

definition unmixed :: "(uuid \<rightharpoonup> 'd batchAccountState) \<Rightarrow> bool" where
  "unmixed st \<longleftrightarrow> (\<forall>k a. st k = Some a \<longrightarrow> bs_ledgerID a \<noteq> uuidNil) \<or> (\<forall>k a. st k = Some a \<longrightarrow> bs_ledgerID a = uuidNil)"

lemma scanBatchEntries_set:
  assumes "l \<noteq> uuidNil"
  shows "scanBatchEntries env st es l ch = Inr r \<longleftrightarrow>
    (\<forall>e \<in> set es. \<exists>a. st (pe_accountID e) = Some a \<and> bs_ledgerID a = l) \<and> r = (l, fold addChange es ch)"
  using assms
  by (induction env st es l ch rule: scanBatchEntries.induct) (auto split: option.splits)

lemma scanBatchEntries_default:
  assumes "\<forall>k a. st k = Some a \<longrightarrow> bs_ledgerID a = uuidNil"
  shows "scanBatchEntries env st es uuidNil ch = Inr r \<longleftrightarrow>
    (\<forall>e \<in> set es. st (pe_accountID e) \<noteq> None) \<and> r = (uuidNil, fold addChange es ch)"
  using assms
  by (induction env st es uuidNil ch rule: scanBatchEntries.induct) (auto split: option.splits)

lemma scanBatchEntries_unset:
  assumes "unmixed st" and "es \<noteq> []"
  shows "scanBatchEntries env st es uuidNil ch = Inr r \<longleftrightarrow>
    (\<exists>l. (\<forall>e \<in> set es. \<exists>a. st (pe_accountID e) = Some a \<and> bs_ledgerID a = l) \<and> r = (l, fold addChange es ch))"
proof (cases "\<forall>k a. st k = Some a \<longrightarrow> bs_ledgerID a = uuidNil")
  case True
  obtain e where e: "e \<in> set es" using assms(2) by (cases es) auto
  show ?thesis
    unfolding scanBatchEntries_default [OF True] using True e by fastforce
next
  case False
  obtain e es' where es: "es = e # es'" using assms(2) by (cases es) auto
  show ?thesis
  proof (cases "st (pe_accountID e)")
    case (Some a)
    then have "bs_ledgerID a \<noteq> uuidNil" using assms(1) False by (auto simp: unmixed_def)
    from scanBatchEntries_set [OF this, of env st es' "addChange e ch" r] show ?thesis
      using es Some by auto
  qed (auto simp: es)
qed

lemma displayed_negated:
  "(if ty \<noteq> AssetType \<and> ty \<noteq> ExpenseType then - (b + d - c) else b + d - c) = displayedBalanceAfter ty b d c"
  by (auto simp: displayedBalanceAfter_def algebra_simps)

lemma checkBatchBalances_None:
  assumes "\<forall>k \<in> set ks. st k \<noteq> None \<and> ch k \<noteq> None"
  shows "checkBatchBalances env st ch ks = None \<longleftrightarrow>
    (\<forall>k \<in> set ks. 0 \<le> displayedBalanceAfter (bs_typ (the (st k))) (bs_balance (the (st k)))
       (ch_debit (the (ch k))) (ch_credit (the (ch k))))"
  using assms
  by (induction ks) (auto simp: Let_def not_less displayed_negated split: option.splits)

lemma applyBatchChanges_states:
  assumes "distinct ks" and "\<forall>k \<in> set ks. st k \<noteq> None \<and> ch k \<noteq> None"
  shows "fst (applyBatchChanges ch ks (st, tot)) k =
      (if k \<in> set ks then Some (addToState (the (ch k)) (the (st k))) else st k)"
    and "snd (applyBatchChanges ch ks (st, tot)) k =
      (if k \<in> set ks then Some (addToTotal k (the (ch k)) (map_get zeroChange tot k)) else tot k)"
  using assms by (induction ch ks "(st, tot)" arbitrary: st tot rule: applyBatchChanges.induct) (auto split: option.splits)

definition addTotals ::
  "'d postgresEntry list \<Rightarrow> (uuid \<rightharpoonup> 'd :: linordered_ab_group_add postingAccountChange) \<Rightarrow> (uuid \<rightharpoonup> 'd postingAccountChange)" where
  "addTotals es tot = (\<lambda>k. if k \<in> pe_accountID ` set es
     then Some \<lparr>ch_accountID = k, ch_debit = ch_debit (map_get zeroChange tot k) + entriesDebit k es,
       ch_credit = ch_credit (map_get zeroChange tot k) + entriesCredit k es\<rparr> else tot k)"

lemma decidePosting_covers:
  assumes "unmixed st" and "range_order env" and "es \<noteq> []"
  shows "decidePosting env es (st, tot) = Inr (l, st') \<longleftrightarrow>
    covers st l es \<and> st' = (postStates es st, addTotals es tot)"
proof -
  let ?keys = "mapOrder env (remdups (map pe_accountID es))" and ?ch = "fold addChange es Map.empty"
  have m: "mset ?keys = mset (remdups (map pe_accountID es))" using assms(2) by (simp add: range_order_def)
  then have keys: "set ?keys = pe_accountID ` set es" "distinct ?keys"
    by (metis list.set_map set_mset_mset set_remdups, metis distinct_remdups mset_eq_imp_distinct_iff)
  have ch: "?ch k = Some \<lparr>ch_accountID = k, ch_debit = entriesDebit k es, ch_credit = entriesCredit k es\<rparr>"
    if "k \<in> pe_accountID ` set es" for k
    using that changesByID_eq [of es k] by (simp add: changesByID_def)
  have app: "applyBatchChanges ?ch ?keys (st, tot) = (postStates es st, addTotals es tot)"
    if st: "\<forall>k \<in> pe_accountID ` set es. st k \<noteq> None"
  proof -
    have ok: "\<forall>k \<in> set ?keys. st k \<noteq> None \<and> ?ch k \<noteq> None" using st ch keys(1) by auto
    note A = applyBatchChanges_states [OF keys(2) ok, of tot]
    have "fst (applyBatchChanges ?ch ?keys (st, tot)) k = postStates es st k" for k
      using A(1) [of k] ch [of k] st entriesSums_notin [of k es]
      by (cases "k \<in> pe_accountID ` set es"; cases "st k")
        (auto simp: keys(1) postStates_def addToState_def algebra_simps)
    moreover have "snd (applyBatchChanges ?ch ?keys (st, tot)) k = addTotals es tot k" for k
      using A(2) [of k] ch [of k] by (auto simp: keys(1) addTotals_def addToTotal_def)
    ultimately show ?thesis by (intro prod_eqI ext) auto
  qed
  have check: "checkBatchBalances env st ?ch ?keys = None \<longleftrightarrow> covers st l es"
    if st: "\<forall>e \<in> set es. \<exists>a. st (pe_accountID e) = Some a \<and> bs_ledgerID a = l"
  proof -
    have ok: "\<forall>k \<in> set ?keys. st k \<noteq> None \<and> ?ch k \<noteq> None" using st ch keys(1) by auto
    show ?thesis
      unfolding checkBatchBalances_None [OF ok] keys(1) covers_def using st ch by fastforce
  qed
  show ?thesis
  proof (cases "\<forall>e \<in> set es. \<exists>a. st (pe_accountID e) = Some a \<and> bs_ledgerID a = l")
    case True
    then have "scanBatchEntries env st es uuidNil Map.empty = Inr (l, ?ch)"
      using scanBatchEntries_unset [OF assms(1,3), of env Map.empty "(l, ?ch)"] by blast
    moreover have "applyBatchChanges ?ch ?keys (st, tot) = (postStates es st, addTotals es tot)"
      by (rule app) (use True in auto)
    ultimately show ?thesis
      using check [OF True] by (auto simp: decidePosting_def Let_def split: option.splits)
  next
    case False
    have "\<not> covers st l es" using False unfolding covers_def by blast
    moreover have "decidePosting env es (st, tot) \<noteq> Inr (l, st')"
      using False scanBatchEntries_unset [OF assms(1,3), of env Map.empty]
      by (auto simp: decidePosting_def bindR_Inr Let_def split: option.splits)
    ultimately show ?thesis by blast
  qed
qed

subsection \<open>The loop over the postings\<close>

lemma unmixed_postStates: "unmixed st \<Longrightarrow> unmixed (postStates es st)"
  unfolding unmixed_def postStates_def by fastforce

lemma addTotals_get:
  "map_get zeroChange (addTotals es tot) k =
     (if k \<in> pe_accountID ` set es then \<lparr>ch_accountID = k, ch_debit = ch_debit (map_get zeroChange tot k) + entriesDebit k es,
        ch_credit = ch_credit (map_get zeroChange tot k) + entriesCredit k es\<rparr> else map_get zeroChange tot k)"
  by (simp add: addTotals_def map_get_def)

definition postingsNet :: "uuid \<Rightarrow> 'd :: linordered_ab_group_add preparedBatchPosting list \<Rightarrow> 'd" where
  "postingsNet k ps = (\<Sum>p\<leftarrow>ps. entriesDebit k (bp_entries p) - entriesCredit k (bp_entries p))"

text \<open>What the totals hold after the loop.\<close>

definition totals_ok ::
  "(uuid \<rightharpoonup> 'd :: linordered_ab_group_add postingAccountChange) \<Rightarrow> (uuid \<rightharpoonup> 'd postingAccountChange)
     \<Rightarrow> 'd preparedBatchPosting list \<Rightarrow> bool" where
  "totals_ok tot tot' accepted \<longleftrightarrow>
     (\<forall>k. ch_debit (map_get zeroChange tot' k) - ch_credit (map_get zeroChange tot' k) =
        ch_debit (map_get zeroChange tot k) - ch_credit (map_get zeroChange tot k) + postingsNet k accepted) \<and>
     (\<forall>k. (\<exists>p \<in> set accepted. k \<in> pe_accountID ` set (bp_entries p)) \<longrightarrow> ch_accountID (map_get zeroChange tot' k) = k) \<and>
     (\<forall>k. ch_accountID (map_get zeroChange tot k) = k \<longrightarrow> ch_accountID (map_get zeroChange tot' k) = k)"

lemma addTotals_net:
  "ch_debit (map_get zeroChange (addTotals es tot) k) - ch_credit (map_get zeroChange (addTotals es tot) k) =
     ch_debit (map_get zeroChange tot k) - ch_credit (map_get zeroChange tot k) + (entriesDebit k es - entriesCredit k es)"
  using entriesSums_notin [of k es] by (cases "k \<in> pe_accountID ` set es") (simp_all add: addTotals_get)

lemma totals_ok_Cons:
  assumes "totals_ok (addTotals es tot) tot' acc" and "bp_entries p = es"
  shows "totals_ok tot tot' (p # acc)"
proof -
  have id: "ch_accountID (map_get zeroChange (addTotals es tot) k) = k"
    if "k \<in> pe_accountID ` set es \<or> ch_accountID (map_get zeroChange tot k) = k" for k
    using that by (auto simp: addTotals_get)
  show ?thesis
    using assms id unfolding totals_ok_def addTotals_net postingsNet_def by (auto simp: add.assoc)
qed

lemma acceptPostings_in_turn:
  assumes "range_order env" and "unmixed st" and "\<forall>p \<in> set postings. bp_entries p \<noteq> []"
    and "acceptPostings env postings (st, tot) results = (accepted, tot', results')"
  shows "accepted = acceptInTurn st postings \<and> totals_ok tot tot' accepted \<and> length results' = length results"
  using assms(2-4)
proof (induction postings arbitrary: st tot results accepted tot' results')
  case Nil
  then show ?case by (auto simp: totals_ok_def postingsNet_def)
next
  case (Cons p postings)
  have ne: "bp_entries p \<noteq> []" using Cons.prems by simp
  note D = decidePosting_covers [OF Cons.prems(1) assms(1) ne, of tot]
  show ?case
  proof (cases "decidePosting env (bp_entries p) (st, tot)")
    case (Inl e)
    have "acceptAlone st (bp_entries p) = None"
      using D Inl acceptAlone_iff [of st "bp_entries p"] ne by (cases "acceptAlone st (bp_entries p)") auto
    moreover have "acceptPostings env postings (st, tot)
        (results[bp_index p := (results ! bp_index p)\<lparr>br_Err := Some e\<rparr>]) = (accepted, tot', results')"
      using Cons.prems(3) Inl by simp
    moreover have "\<forall>p \<in> set postings. bp_entries p \<noteq> []" using Cons.prems(2) by simp
    ultimately show ?thesis using Cons.IH [OF Cons.prems(1)] by fastforce
  next
    case (Inr q)
    obtain l st' where q: "q = (l, st')" by (cases q)
    have c: "covers st l (bp_entries p)" and st': "st' = (postStates (bp_entries p) st, addTotals (bp_entries p) tot)"
      using D [of l st'] Inr q by auto
    obtain acc where rec: "acceptPostings env postings st' results = (acc, tot', results')"
      and accepted: "accepted = p\<lparr>bp_ledgerID := l\<rparr> # acc"
      using Cons.prems(3) Inr q by (auto simp: Let_def split: prod.splits)
    have IH: "acc = acceptInTurn (postStates (bp_entries p) st) postings" "totals_ok (addTotals (bp_entries p) tot) tot' acc"
      "length results' = length results"
      using Cons.IH [OF unmixed_postStates [OF Cons.prems(1)] _ rec [unfolded st']] Cons.prems(2) by auto
    have "acceptAlone st (bp_entries p) = Some l" using c ne acceptAlone_iff by blast
    moreover have "totals_ok tot tot' accepted"
      unfolding accepted by (rule totals_ok_Cons [OF IH(2)]) simp
    ultimately show ?thesis using IH accepted by simp
  qed
qed

subsection \<open>Accepted postings\<close>

lemma acceptInTurn_placed:
  assumes "p \<in> set (acceptInTurn st ps)"
  shows "\<exists>q \<in> set ps. bp_entries p = bp_entries q" and "\<forall>k \<in> pe_accountID ` set (bp_entries p). \<exists>a. st k = Some a \<and> bs_ledgerID a = bp_ledgerID p"
  using assms
proof (induction ps arbitrary: st)
  case (Cons q ps)
  {
    case 1
    then show ?case using Cons.IH(1) by (auto split: option.splits)
  next
    case 2
    show ?case
    proof (cases "acceptAlone st (bp_entries q)")
      case None
      then show ?thesis using Cons.IH(2) 2 by simp
    next
      case (Some l)
      then have c: "covers st l (bp_entries q)" by (simp add: acceptAlone_iff)
      consider "p = q\<lparr>bp_ledgerID := l\<rparr>" | "p \<in> set (acceptInTurn (postStates (bp_entries q) st) ps)"
        using 2 Some by auto
      then show ?thesis
      proof cases
        case 1
        then show ?thesis using c by (auto simp: covers_def)
      next
        case 2
        show ?thesis using Cons.IH(2) [OF 2] by (fastforce simp: postStates_def)
      qed
    qed
  }
qed simp_all

lemma postingsNet_Cons: "postingsNet k (p # ps) = entriesDebit k (bp_entries p) - entriesCredit k (bp_entries p) + postingsNet k ps"
  by (simp add: postingsNet_def)

lemma postingsNet_notin: "(\<And>p. p \<in> set ps \<Longrightarrow> k \<notin> pe_accountID ` set (bp_entries p)) \<Longrightarrow> postingsNet k ps = 0"
  by (induction ps) (simp_all add: postingsNet_def entriesSums_notin)

text \<open>No account that an accepted posting touches ends up overdrawn.\<close>

lemma acceptInTurn_covered:
  assumes "p \<in> set (acceptInTurn st ps)" and "k \<in> pe_accountID ` set (bp_entries p)" and "st k = Some a"
  shows "0 \<le> displayedBalanceAfter (bs_typ a) (bs_balance a + postingsNet k (acceptInTurn st ps)) 0 0"
  using assms
proof (induction ps arbitrary: st a p)
  case (Cons q ps)
  show ?case
  proof (cases "acceptAlone st (bp_entries q)")
    case None
    then show ?thesis using Cons by simp
  next
    case (Some l)
    let ?st = "postStates (bp_entries q) st" and ?n = "entriesDebit k (bp_entries q) - entriesCredit k (bp_entries q)"
    have c: "covers st l (bp_entries q)" using Some by (simp add: acceptAlone_iff)
    have a: "?st k = Some (a\<lparr>bs_balance := bs_balance a + ?n\<rparr>)" using Cons.prems(3) by (simp add: postStates_def)
    show ?thesis
    proof (cases "\<exists>p' \<in> set (acceptInTurn ?st ps). k \<in> pe_accountID ` set (bp_entries p')")
      case True
      then obtain p' where "p' \<in> set (acceptInTurn ?st ps)" "k \<in> pe_accountID ` set (bp_entries p')" by blast
      from Cons.IH [OF this a] show ?thesis using Some by (simp add: postingsNet_Cons algebra_simps)
    next
      case False
      then have "k \<in> pe_accountID ` set (bp_entries q)" using Cons.prems(1,2) Some by auto
      then have "0 \<le> displayedBalanceAfter (bs_typ a) (bs_balance a) (entriesDebit k (bp_entries q)) (entriesCredit k (bp_entries q))"
        using c Cons.prems(3) by (auto simp: covers_def)
      moreover have "postingsNet k (acceptInTurn ?st ps) = 0" using False by (intro postingsNet_notin) blast
      ultimately show ?thesis
        using Some by (auto simp: postingsNet_Cons displayedBalanceAfter_def algebra_simps)
    qed
  qed
qed simp

text \<open>The decisions depend only on the states of the accounts named.\<close>

lemma covers_cong:
  "(\<And>k. k \<in> pe_accountID ` set es \<Longrightarrow> st k = st' k) \<Longrightarrow> covers st l es = covers st' l es"
  by (simp add: covers_def)

lemma acceptInTurn_cong:
  assumes "\<And>p k. p \<in> set ps \<Longrightarrow> k \<in> pe_accountID ` set (bp_entries p) \<Longrightarrow> st k = st' k"
  shows "acceptInTurn st ps = acceptInTurn st' ps"
  using assms
proof (induction ps arbitrary: st st')
  case (Cons p ps)
  have "covers st l (bp_entries p) = covers st' l (bp_entries p)" for l
    using Cons.prems [of p] by (intro covers_cong) simp
  then have "acceptAlone st (bp_entries p) = acceptAlone st' (bp_entries p)"
    using acceptAlone_iff [of st "bp_entries p"] acceptAlone_iff [of st' "bp_entries p"]
    by (metis not_Some_eq)
  moreover have "acceptInTurn (postStates es st) ps = acceptInTurn (postStates es st') ps" for es
  proof (rule Cons.IH)
    fix q k assume "q \<in> set ps" "k \<in> pe_accountID ` set (bp_entries q)"
    then have "st k = st' k" using Cons.prems [of q k] by simp
    then show "postStates es st k = postStates es st' k" by (simp add: postStates_def)
  qed
  moreover have "acceptInTurn st ps = acceptInTurn st' ps"
  proof (rule Cons.IH)
    fix q k assume "q \<in> set ps" "k \<in> pe_accountID ` set (bp_entries q)"
    then show "st k = st' k" using Cons.prems [of q k] by simp
  qed
  ultimately show ?case by (simp split: option.split)
qed simp

lemma fold_states:
  "fold (\<lambda>(k, a) m. m(k \<mapsto> stateOfRow a)) (selectAccounts d ks) m k =
     (if k \<in> set ks \<and> accountRow d k \<noteq> None then dbStates d k else m k)"
  by (induction ks arbitrary: m) (auto simp: selectAccounts_def List.map_filter_simps dbStates_def split: option.splits)

lemma batchStates_select: "k \<in> set ks \<Longrightarrow> batchStates (selectAccounts d ks) k = dbStates d k"
  by (simp add: batchStates_def fold_states) (simp add: dbStates_def)

lemma set_batchAccountIDs: "set (batchAccountIDs ps) = (\<Union>p \<in> set ps. pe_accountID ` set (bp_entries p))"
  and distinct_batchAccountIDs: "distinct (batchAccountIDs ps)"
  by (auto simp: batchAccountIDs_def)

definition db_unmixed :: "'d Database \<Rightarrow> bool" where
  "db_unmixed d \<longleftrightarrow> (\<forall>k a. accountRow d k = Some a \<longrightarrow> ar_ledger a \<noteq> uuidNil) \<or>
     (\<forall>k a. accountRow d k = Some a \<longrightarrow> ar_ledger a = uuidNil)"

lemma unmixed_batchStates: "db_unmixed d \<Longrightarrow> unmixed (batchStates (selectAccounts d ks))"
  unfolding unmixed_def db_unmixed_def batchStates_def fold_states
  by (fastforce simp: dbStates_def stateOfRow_def split: if_splits)

lemma acceptPostings_single:
  assumes "range_order env" and "db_unmixed d" and "\<forall>p \<in> set prepared. bp_entries p \<noteq> []"
    and "acceptPostings env prepared (batchStates (selectAccounts d (batchAccountIDs prepared)), Map.empty) results =
      (accepted, tot', results')"
  shows "accepted = acceptInTurn (dbStates d) prepared" and "totals_ok Map.empty tot' accepted"
    and "length results' = length results"
proof -
  note A = acceptPostings_in_turn [OF assms(1) unmixed_batchStates [OF assms(2)] assms(3,4)]
  have "acceptInTurn (batchStates (selectAccounts d (batchAccountIDs prepared))) prepared = acceptInTurn (dbStates d) prepared"
    by (rule acceptInTurn_cong, rule batchStates_select) (auto simp: set_batchAccountIDs)
  with A show "accepted = acceptInTurn (dbStates d) prepared" "totals_ok Map.empty tot' accepted"
    "length results' = length results" by auto
qed

subsection \<open>Writing\<close>

lemma valueNet_append [simp]: "valueNet k (vs @ ws) = valueNet k vs + valueNet k ws"
  and valueImbalance_append [simp]: "valueImbalance k (vs @ ws) = valueImbalance k vs + valueImbalance k ws"
  by (induction k vs rule: valueNet.induct; simp add: add.assoc)+

definition writes_ok :: "(uuid \<times> 'd preparedBatchPosting \<times> uuid list) list \<Rightarrow> 'd preparedBatchPosting list \<Rightarrow> bool" where
  "writes_ok writes ps \<longleftrightarrow> map (fst \<circ> snd) writes = ps \<and> (\<forall>(tid, p, ids) \<in> set writes. length ids = length (bp_entries p))"

lemma writes_ok_Cons:
  "writes_ok (w # writes) ps \<longleftrightarrow> (\<exists>tid p ids qs. w = (tid, p, ids) \<and> ps = p # qs \<and> length ids = length (bp_entries p) \<and> writes_ok writes qs)"
  by (cases w) (auto simp: writes_ok_def)

lemma writeVals_Cons: "writeVals ((tid, p, ids) # writes) = postingVals ids tid (bp_entries p) @ writeVals writes"
  by (simp add: writeVals_def)

lemma writeVals_net: "writes_ok writes ps \<Longrightarrow> valueNet k (writeVals writes) = postingsNet k ps"
proof (induction writes arbitrary: ps)
  case (Cons w writes)
  then show ?case by (auto simp: writes_ok_Cons writeVals_Cons postingVals_net postingsNet_Cons)
qed (simp add: writes_ok_def writeVals_def postingsNet_def)

definition posting_balanced :: "'d :: linordered_ab_group_add preparedBatchPosting \<Rightarrow> bool" where
  "posting_balanced p \<longleftrightarrow> (\<Sum>e\<leftarrow>bp_entries p. Debit (pe_entry e)) = (\<Sum>e\<leftarrow>bp_entries p. Credit (pe_entry e))"

lemma writeVals_imbalance:
  "writes_ok writes ps \<Longrightarrow> \<forall>p \<in> set ps. posting_balanced p \<Longrightarrow> valueImbalance x (writeVals writes) = 0"
proof (induction writes arbitrary: ps)
  case (Cons w writes)
  then show ?case by (auto simp: writes_ok_Cons writeVals_Cons postingVals_imbalance posting_balanced_def)
qed (simp add: writeVals_def)

lemma writeVals_cents:
  "writes_ok writes ps \<Longrightarrow> \<forall>p \<in> set ps. request_cents env (map pe_entry (bp_entries p)) \<Longrightarrow>
     \<forall>v \<in> set (writeVals writes). valueCents env v"
proof (induction writes arbitrary: ps)
  case (Cons w writes)
  then show ?case using postingVals_cents by (fastforce simp: writes_ok_Cons writeVals_Cons)
qed (simp add: writeVals_def)

lemma postingVals_placed_ledger:
  assumes "\<forall>k \<in> pe_accountID ` set es. \<exists>a. accountRow d k = Some a \<and> ar_ledger a = ledger" and "(tid, ledger) \<in> set txs"
  shows "\<forall>v \<in> set (postingVals ids tid es). value_placed d txs v"
  using assms by (fastforce simp: postingVals_def value_placed_def dest: set_zip_rightD)

lemma writeVals_placed:
  assumes "writes_ok writes ps"
    and "\<forall>p \<in> set ps. \<forall>k \<in> pe_accountID ` set (bp_entries p). \<exists>a. accountRow d k = Some a \<and> ar_ledger a = bp_ledgerID p"
    and "set (map (\<lambda>(tid, p, _). (tid, bp_ledgerID p)) writes) \<subseteq> set txs"
  shows "\<forall>v \<in> set (writeVals writes). value_placed d txs v"
  using assms
proof (induction writes arbitrary: ps)
  case (Cons w writes)
  obtain tid p ids qs where w: "w = (tid, p, ids)" "ps = p # qs" "writes_ok writes qs"
    using Cons.prems(1) by (auto simp: writes_ok_Cons)
  have "\<forall>v \<in> set (postingVals ids tid (bp_entries p)). value_placed d txs v"
    by (rule postingVals_placed_ledger [where ledger = "bp_ledgerID p"]) (use Cons.prems w in auto)
  moreover have "\<forall>v \<in> set (writeVals writes). value_placed d txs v"
    by (rule Cons.IH [OF w(3)]) (use Cons.prems w in auto)
  ultimately show ?case by (auto simp: w(1) writeVals_Cons)
qed (simp add: writeVals_def)

lemma find_map_key_in:
  "(\<And>x. x \<in> set ks \<Longrightarrow> g (f x) = x) \<Longrightarrow> find (\<lambda>y. g y = k) (map f ks) = (if k \<in> set ks then Some (f k) else None)"
  by (induction ks) auto

lemma batchChangeList_by:
  assumes "totals_ok Map.empty tot ps" and "writes_ok writes ps"
  shows "updates_by (changeUpdate (batchChangeList ps tot)) (\<lambda>k. valueNet k (writeVals writes))"
proof -
  have key: "ch_accountID (map_get zeroChange tot k) = k" if "k \<in> set (batchAccountIDs ps)" for k
    using assms(1) that by (auto simp: totals_ok_def set_batchAccountIDs)
  have net: "ch_debit (map_get zeroChange tot k) - ch_credit (map_get zeroChange tot k) = postingsNet k ps" for k
    using assms(1) by (simp add: totals_ok_def map_get_def zeroChange_def)
  have "changeUpdate (batchChangeList ps tot) k = (if k \<in> set (batchAccountIDs ps)
      then Some (\<lambda>b. b + ch_debit (map_get zeroChange tot k) - ch_credit (map_get zeroChange tot k)) else None)" for k
    unfolding changeUpdate_def batchChangeList_def by (subst find_map_key_in) (auto simp: key)
  moreover have "postingsNet k ps = 0" if "k \<notin> set (batchAccountIDs ps)" for k
    using that by (intro postingsNet_notin) (auto simp: set_batchAccountIDs)
  ultimately show ?thesis
    using net by (auto simp: updates_by_def writeVals_net [OF assms(2)] algebra_simps)
qed

lemma writePostingBatch_Inr:
  assumes "writePostingBatch env ps tot results s = (s', Inr results')"
  obtains writes t oids where "writes_ok writes ps"
    and "postStatement env t (map (\<lambda>(tid, posting, _). (tid, bp_ledgerID posting)) writes) (writeVals writes)
      (changeUpdate (batchChangeList ps tot)) oids (db s) = Inr (db s')"
    and "results' = setTransactions env writes results"
proof -
  have q: "quiet (mapE (\<lambda>_. newID env) xs)" "quiet (mapE (\<lambda>p. mapE (\<lambda>_. newID env) (bp_entries p)) ps)" for xs :: "'a preparedBatchPosting list"
    by (intro quiet_intros)+
  from assms obtain s1 tids where 1: "mapE (\<lambda>_. newID env) ps s = (s1, Inr tids)" and rest1:
    "bindE (mapE (\<lambda>p. mapE (\<lambda>_. newID env) (bp_entries p)) ps) (\<lambda>entryIDs.
     bindE (timeP env) (\<lambda>t. bindE (mapE (\<lambda>_. newID env) ps) (\<lambda>oids.
     let writes = zip tids (zip ps entryIDs)
     in bindE (execDb env ''write posting batch''
          (postStatement env t (map (\<lambda>(tid, posting, _). (tid, bp_ledgerID posting)) writes) (writeVals writes)
             (changeUpdate (batchChangeList ps tot)) oids)) (\<lambda>_. returnE (setTransactions env writes results))))) s1 = (s', Inr results')"
    unfolding writePostingBatch_def bindE_Inr by blast
  from rest1 obtain s2 ids where 2: "mapE (\<lambda>p. mapE (\<lambda>_. newID env) (bp_entries p)) ps s1 = (s2, Inr ids)" and rest2:
    "bindE (timeP env) (\<lambda>t. bindE (mapE (\<lambda>_. newID env) ps) (\<lambda>oids.
     let writes = zip tids (zip ps ids)
     in bindE (execDb env ''write posting batch''
          (postStatement env t (map (\<lambda>(tid, posting, _). (tid, bp_ledgerID posting)) writes) (writeVals writes)
             (changeUpdate (batchChangeList ps tot)) oids)) (\<lambda>_. returnE (setTransactions env writes results)))) s2 = (s', Inr results')"
    unfolding bindE_Inr by blast
  let ?s2 = "s2\<lparr>ticks := Suc (ticks s2)\<rparr>" and ?w = "zip tids (zip ps ids)"
  from rest2 obtain s3 oids where 3: "mapE (\<lambda>_. newID env) ps ?s2 = (s3, Inr oids)" and
    4: "postStatement env (readClock env (ticks s2)) (map (\<lambda>(tid, posting, _). (tid, bp_ledgerID posting)) ?w) (writeVals ?w)
             (changeUpdate (batchChangeList ps tot)) oids (db s3) = Inr (db s')" "results' = setTransactions env ?w results"
    by (auto simp: bindE_Inr execDb_Inr returnE_def Let_def)
  have "db s3 = db s" using quietD [OF q(1) 1] quietD [OF q(2) 2] quietD [OF q(1) 3] by simp
  moreover have "list_all2 (\<lambda>p y. length y = length (bp_entries p)) ps ids"
    using mapE_each [OF 2] by (rule list_all2_mono) (auto dest: mapE_length)
  then have "writes_ok ?w ps"
    using mapE_length [OF 1] mapE_length [OF 2]
    by (auto simp: writes_ok_def list_all2_conv_all_nth set_zip comp_def map_snd_zip map_fst_zip
        simp flip: map_map [of fst snd] intro: nth_equalityI)
  ultimately show ?thesis using that 4 by simp
qed

subsection \<open>Preparing\<close>

text \<open>A prepared posting is a valid request whose accounts parse.\<close>

lemma prepareBatch_valid:
  assumes "p \<in> set (snd (prepareBatch env i ess))"
  shows "\<exists>es \<in> set ess. valid_request es \<and> preparePostgresEntries env es = Inr (bp_entries p)"
  using assms
  by (induction env i ess rule: prepareBatch.induct)
    (auto simp: Let_def ValidateTransaction_None_iff split: prod.splits option.splits sum.splits)

lemma valid_request_nonempty: "valid_request es \<Longrightarrow> es \<noteq> []"
  by (auto simp: valid_request_def)

lemma prepareBatch_postings:
  assumes "p \<in> set (snd (prepareBatch env i ess))"
  shows "bp_entries p \<noteq> []" and "posting_balanced p"
    and "\<forall>es \<in> set ess. request_cents env es \<Longrightarrow> request_cents env (map pe_entry (bp_entries p))"
proof -
  obtain es where es: "es \<in> set ess" "valid_request es" "preparePostgresEntries env es = Inr (bp_entries p)"
    using prepareBatch_valid [OF assms] by blast
  then have m: "map pe_entry (bp_entries p) = es" using preparePostgresEntries_Inr by blast
  then show "bp_entries p \<noteq> []" using valid_request_nonempty [OF es(2)] by auto
  show "posting_balanced p" using valid_request_prepared [OF es(2) m] by (simp add: posting_balanced_def)
  show "request_cents env (map pe_entry (bp_entries p))" if "\<forall>es \<in> set ess. request_cents env es"
    using that es(1) m by simp
qed

subsection \<open>The books\<close>

lemma writePostingBatch_books:
  assumes num: "numeric_ok env" and books: "pg_books env (db s)" and tot: "totals_ok Map.empty tot ps"
    and bal: "\<forall>p \<in> set ps. posting_balanced p" and cents: "\<forall>p \<in> set ps. request_cents env (map pe_entry (bp_entries p))"
    and placed: "\<forall>p \<in> set ps. \<forall>k \<in> pe_accountID ` set (bp_entries p). \<exists>a. accountRow (db s) k = Some a \<and> ar_ledger a = bp_ledgerID p"
    and run: "writePostingBatch env ps tot results s = (s', Inr results')"
  shows "pg_books env (db s')"
    and "accountRow (db s) k = Some a \<Longrightarrow> accountRow (db s') k = Some (a\<lparr>ar_balance := ar_balance a + postingsNet k ps\<rparr>)"
proof -
  obtain writes t oids where w: "writes_ok writes ps"
    and post: "postStatement env t (map (\<lambda>(tid, posting, _). (tid, bp_ledgerID posting)) writes) (writeVals writes)
      (changeUpdate (batchChangeList ps tot)) oids (db s) = Inr (db s')"
    by (rule writePostingBatch_Inr [OF run])
  have imb: "\<forall>x. valueImbalance x (writeVals writes) = 0" using writeVals_imbalance [OF w bal] by blast
  note B = postStatement_books [OF num books post writeVals_cents [OF w cents] writeVals_placed [OF w placed] imb
    batchChangeList_by [OF tot w]]
  show "pg_books env (db s')" by (rule B(1)) simp
  show "accountRow (db s') k = Some (a\<lparr>ar_balance := ar_balance a + postingsNet k ps\<rparr>)" if "accountRow (db s) k = Some a"
    using B(2) [OF _ that] by (simp add: writeVals_net [OF w])
qed

text \<open>The postings that the batch accepts.\<close>

definition batchAccepted ::
  "('d :: linordered_ab_group_add, 'm) pg_env_scheme \<Rightarrow> 'd EntryRequest list list \<Rightarrow> 'd Database \<Rightarrow> 'd preparedBatchPosting list" where
  "batchAccepted env ess d = acceptInTurn (dbStates d) (snd (prepareBatch env 0 ess))"

lemma batchAccepted_from:
  assumes "p \<in> set (batchAccepted env ess d)"
  shows "\<exists>q \<in> set (snd (prepareBatch env 0 ess)). bp_entries p = bp_entries q"
    and "\<forall>k \<in> pe_accountID ` set (bp_entries p). \<exists>a. accountRow d k = Some a \<and> ar_ledger a = bp_ledgerID p"
  using acceptInTurn_placed [of p "dbStates d"] assms
  unfolding batchAccepted_def by (blast, fastforce simp: dbStates_def stateOfRow_def)

lemma batchAccepted_postings:
  assumes "p \<in> set (batchAccepted env ess d)"
  shows "posting_balanced p"
    and "\<forall>es \<in> set ess. request_cents env es \<Longrightarrow> request_cents env (map pe_entry (bp_entries p))"
proof -
  obtain q where q: "q \<in> set (snd (prepareBatch env 0 ess))" "bp_entries p = bp_entries q"
    using batchAccepted_from(1) [OF assms] by blast
  show "posting_balanced p" "\<forall>es \<in> set ess. request_cents env es \<Longrightarrow> request_cents env (map pe_entry (bp_entries p))"
    using prepareBatch_postings(2,3) [OF q(1)] by (simp_all add: q(2) posting_balanced_def)
qed

text \<open>What a batch that returns results did.\<close>

lemma CreateTransactionsBatch_Inr:
  assumes ord: "range_order env" and set: "db_unmixed (db s)"
    and run: "CreateTransactionsBatch env ess s = (s', Inr results)"
  defines "prepared \<equiv> snd (prepareBatch env 0 ess)"
  obtains (none) "prepared = []" "db s' = db s" "results = fst (prepareBatch env 0 ess)"
  | (some) s1 s2 tot res1 res2 u where "prepared \<noteq> []" "db s1 = db s" "db s2 = db s'"
      "acceptPostings env prepared (batchStates (selectAccounts (db s) (batchAccountIDs prepared)), Map.empty)
        (fst (prepareBatch env 0 ess)) = (batchAccepted env ess (db s), tot, res1)"
      "totals_ok Map.empty tot (batchAccepted env ess (db s))"
      "(if batchAccepted env ess (db s) \<noteq> [] then writePostingBatch env (batchAccepted env ess (db s)) tot res1 s1 = (s2, Inr res2)
        else db s' = db s \<and> res2 = res1)"
      "results = map (stampResult u) res2"
proof (cases "prepared = []")
  case True
  then show ?thesis
    using run by (intro none) (auto simp: prepared_def CreateTransactionsBatch_def failE_def returnE_def Let_def split: if_splits prod.splits)
next
  case False
  let ?states = "batchStates (selectAccounts (db s) (batchAccountIDs prepared))"
  obtain acc tot res1 where ap: "acceptPostings env prepared (?states, Map.empty) (fst (prepareBatch env 0 ess)) = (acc, tot, res1)"
    by (metis prod_cases3)
  have ne: "\<forall>p \<in> set prepared. bp_entries p \<noteq> []" using prepareBatch_postings(1) unfolding prepared_def by blast
  have acc: "acc = batchAccepted env ess (db s)" and tot: "totals_ok Map.empty tot acc"
    using acceptPostings_single [OF ord set ne ap] by (simp_all add: batchAccepted_def prepared_def)
  let ?s1 = "s\<lparr>calls := Suc (Suc (calls s))\<rparr>"
  from run False obtain s2 res2 s3 where
    w: "(if acc \<noteq> [] then writePostingBatch env acc tot res1 else returnE res1) ?s1 = (s2, Inr res2)"
    and c: "dbCall env ''commit posting batch'' s2 = (s3, Inr ())"
    and r: "s' = s3\<lparr>ticks := Suc (ticks s3)\<rparr>" "results = map (stampResult (readClock env (ticks s3))) res2"
    using ap unfolding CreateTransactionsBatch_def
    by (auto simp: prepared_def failE_def returnE_def Let_def bindE_Inr getDb_def dbCall_def timeP_def
        split: if_splits prod.splits option.splits)
  have d: "db s2 = db s'" using c r(1) by (auto simp: dbCall_def split: option.splits)
  show ?thesis
    by (rule some [where ?s1.0 = ?s1 and ?s2.0 = s2]) (use False ap acc tot w d r(2) in \<open>auto simp: returnE_def split: if_splits\<close>)
qed

lemma CreateTransactionsBatch_Inl: "CreateTransactionsBatch env ess s = (s', Inl e) \<Longrightarrow> db s' = db s"
  unfolding CreateTransactionsBatch_def
  by (auto simp: failE_def returnE_def Let_def dest: atomically_Inl split: if_splits prod.splits)

lemma CreateTransactionsBatch_balances:
  assumes num: "numeric_ok env" and ord: "range_order env" and books: "pg_books env (db s)" and set: "db_unmixed (db s)"
    and cents: "\<forall>es \<in> set ess. request_cents env es" and run: "CreateTransactionsBatch env ess s = (s', Inr results)"
  shows "pg_books env (db s')"
    and "accountRow (db s) k = Some a \<Longrightarrow>
      accountRow (db s') k = Some (a\<lparr>ar_balance := ar_balance a + postingsNet k (batchAccepted env ess (db s))\<rparr>)"
proof -
  let ?acc = "batchAccepted env ess (db s)"
  have "pg_books env (db s') \<and> (\<forall>k a. accountRow (db s) k = Some a \<longrightarrow>
      accountRow (db s') k = Some (a\<lparr>ar_balance := ar_balance a + postingsNet k ?acc\<rparr>))"
    using ord set run
  proof (cases rule: CreateTransactionsBatch_Inr)
    case none
    then show ?thesis using books by (simp add: batchAccepted_def postingsNet_def)
  next
    case (some s1 s2 tot res1 res2 u)
    show ?thesis
    proof (cases "?acc = []")
      case True
      then show ?thesis using some books by (simp add: postingsNet_def)
    next
      case False
      then have w: "writePostingBatch env ?acc tot res1 s1 = (s2, Inr res2)" using some by simp
      have "pg_books env (db s1)" using books some by simp
      have bal: "\<forall>p \<in> set ?acc. posting_balanced p" using batchAccepted_postings(1) by blast
      have cts: "\<forall>p \<in> set ?acc. request_cents env (map pe_entry (bp_entries p))"
        using batchAccepted_postings(2) cents by blast
      have placed: "\<forall>p \<in> set ?acc. \<forall>k \<in> pe_accountID ` set (bp_entries p).
          \<exists>a. accountRow (db s1) k = Some a \<and> ar_ledger a = bp_ledgerID p"
        using batchAccepted_from(2) unfolding some(2) by blast
      show ?thesis
        using writePostingBatch_books [OF num \<open>pg_books env (db s1)\<close> some(5) bal cts placed w] unfolding some(2,3) by blast
    qed
  qed
  then show "pg_books env (db s')" "accountRow (db s) k = Some a \<Longrightarrow>
      accountRow (db s') k = Some (a\<lparr>ar_balance := ar_balance a + postingsNet k ?acc\<rparr>)" by blast+
qed

end
