(* ===== verification/Pg_Batch_Properties.thy ===== *)
theory Pg_Batch_Properties
  imports Pg_Batch_Books
begin

text \<open>
  The answers of a batch, the properties of \<open>CreateTransactionsBatch\<close>, and the posting that only the batch accepts.
\<close>

subsection \<open>The answers\<close>

lemma prepareBatch_results:
  "length (fst (prepareBatch env i ess)) = length ess \<and>
   (\<forall>p \<in> set (snd (prepareBatch env i ess)). i \<le> bp_index p \<and> bp_index p < i + length ess) \<and>
   distinct (map bp_index (snd (prepareBatch env i ess))) \<and>
   (\<forall>j < length ess. br_Transaction (fst (prepareBatch env i ess) ! j) = None \<and>
     (br_Err (fst (prepareBatch env i ess) ! j) = None \<longleftrightarrow> i + j \<in> bp_index ` set (snd (prepareBatch env i ess))))"
  (is "?P env i ess")
proof (induction env i ess rule: prepareBatch.induct)
  case (2 env i es ess)
  let ?r = "prepareBatch env (Suc i) ess"
  have IH: "?P env (Suc i) ess" using 2 by (cases ?r) simp
  have new: "i \<notin> bp_index ` set (snd ?r)" using IH by fastforce
  show ?case
  proof (intro conjI allI impI)
    show "length (fst (prepareBatch env i (es # ess))) = length (es # ess)"
      using IH by (auto simp: Let_def split: prod.splits option.splits sum.splits)
    show "\<forall>p \<in> set (snd (prepareBatch env i (es # ess))). i \<le> bp_index p \<and> bp_index p < i + length (es # ess)"
      using IH by (fastforce simp: Let_def split: prod.splits option.splits sum.splits)
    show "distinct (map bp_index (snd (prepareBatch env i (es # ess))))"
      using IH new by (auto simp: Let_def split: prod.splits option.splits sum.splits)
  next
    fix j assume "j < length (es # ess)"
    then show "br_Transaction (fst (prepareBatch env i (es # ess)) ! j) = None"
      "br_Err (fst (prepareBatch env i (es # ess)) ! j) = None \<longleftrightarrow> i + j \<in> bp_index ` set (snd (prepareBatch env i (es # ess)))"
      using IH new by (cases j; auto simp: Let_def split: prod.splits option.splits sum.splits)+
  qed
qed simp

lemma acceptPostings_results:
  assumes "acceptPostings env ps st results = (accepted, tot, results')" and "distinct (map bp_index ps)"
    and "\<forall>p \<in> set ps. bp_index p < length results \<and> br_Err (results ! bp_index p) = None"
  shows "length results' = length results \<and> bp_index ` set accepted \<subseteq> bp_index ` set ps \<and> distinct (map bp_index accepted) \<and>
    (\<forall>j < length results. br_Transaction (results' ! j) = br_Transaction (results ! j) \<and>
      (br_Err (results' ! j) = None \<longleftrightarrow> br_Err (results ! j) = None \<and> (j \<in> bp_index ` set ps \<longrightarrow> j \<in> bp_index ` set accepted)))"
  using assms
proof (induction ps arbitrary: st results accepted tot results')
  case (Cons p ps)
  show ?case
  proof (cases "decidePosting env (bp_entries p) st")
    case (Inl e)
    let ?r = "results[bp_index p := (results ! bp_index p)\<lparr>br_Err := Some e\<rparr>]"
    have rec: "acceptPostings env ps st ?r = (accepted, tot, results')" using Cons.prems(1) Inl by simp
    have ok: "distinct (map bp_index ps)" "\<forall>q \<in> set ps. bp_index q < length ?r \<and> br_Err (?r ! bp_index q) = None"
      using Cons.prems(2,3) by (auto simp: nth_list_update image_iff)
    show ?thesis
      using Cons.IH [OF rec ok] Cons.prems(2,3) by (auto simp: nth_list_update split: if_splits)
  next
    case (Inr x)
    obtain l st' where x: "x = (l, st')" by (cases x)
    obtain acc' where rec: "acceptPostings env ps st' results = (acc', tot, results')"
      and acc: "accepted = p\<lparr>bp_ledgerID := l\<rparr> # acc'"
      using Cons.prems(1) Inr x by (auto split: prod.splits)
    have ok: "distinct (map bp_index ps)" "\<forall>q \<in> set ps. bp_index q < length results \<and> br_Err (results ! bp_index q) = None"
      using Cons.prems(2,3) by auto
    show ?thesis
      using Cons.IH [OF rec ok] Cons.prems(2,3) acc by auto
  qed
qed auto

lemma setTransactions_results:
  assumes "\<forall>p \<in> set (map (fst \<circ> snd) writes). bp_index p < length results" and "j < length results"
  shows "length (setTransactions env writes results) = length results"
    and "br_Err (setTransactions env writes results ! j) = br_Err (results ! j)"
    and "br_Transaction (setTransactions env writes results ! j) \<noteq> None \<longleftrightarrow>
      br_Transaction (results ! j) \<noteq> None \<or> j \<in> bp_index ` set (map (fst \<circ> snd) writes)"
  using assms
  by (induction env writes results rule: setTransactions.induct) (auto simp: nth_list_update split: if_splits)

lemma CreateTransactionsBatch_answers:
  assumes ord: "range_order env" and set: "db_unmixed (db s)"
    and run: "CreateTransactionsBatch env ess s = (s', Inr results)"
  shows "length results = length ess \<and> (\<forall>j < length ess.
    (br_Transaction (results ! j) \<noteq> None \<longleftrightarrow> j \<in> bp_index ` set (batchAccepted env ess (db s))) \<and>
    (br_Err (results ! j) = None \<longleftrightarrow> j \<in> bp_index ` set (batchAccepted env ess (db s))))"
proof -
  let ?acc = "batchAccepted env ess (db s)"
  note P = prepareBatch_results [of env 0 ess]
  show ?thesis
    using ord set run
  proof (cases rule: CreateTransactionsBatch_Inr)
    case none
    then show ?thesis using P by (simp add: batchAccepted_def)
  next
    case (some s1 s2 tot res1 res2 u)
    have ok: "\<forall>p \<in> set (snd (prepareBatch env 0 ess)). bp_index p < length (fst (prepareBatch env 0 ess)) \<and>
        br_Err (fst (prepareBatch env 0 ess) ! bp_index p) = None"
      using P by auto
    note A = acceptPostings_results [OF some(4) _ ok]
    have A1: "length res1 = length ess" "bp_index ` set ?acc \<subseteq> {..< length ess}"
      "\<forall>j < length ess. br_Transaction (res1 ! j) = None \<and> (br_Err (res1 ! j) = None \<longleftrightarrow> j \<in> bp_index ` set ?acc)"
      using A P by auto
    have "length res2 = length ess \<and> (\<forall>j < length ess. (br_Transaction (res2 ! j) \<noteq> None \<longleftrightarrow> j \<in> bp_index ` set ?acc) \<and>
        br_Err (res2 ! j) = br_Err (res1 ! j))"
    proof (cases "?acc = []")
      case True
      then show ?thesis using some(6) A1 by simp
    next
      case False
      then have w: "writePostingBatch env ?acc tot res1 s1 = (s2, Inr res2)" using some(6) by simp
      obtain writes where wo: "writes_ok writes ?acc" "res2 = setTransactions env writes res1"
        by (rule writePostingBatch_Inr [OF w]) blast
      then have m: "map (fst \<circ> snd) writes = ?acc" by (simp add: writes_ok_def)
      have bound: "\<forall>p \<in> set (map (fst \<circ> snd) writes). bp_index p < length res1" using A1(1,2) unfolding m by auto
      have "ess \<noteq> []" using some(1) by auto
      then show ?thesis
        using setTransactions_results [OF bound] A1 unfolding m wo(2) by (metis length_greater_0_conv)
    qed
    then show ?thesis using A1(3) some(7) by (simp add: stampResult_def)
  qed
qed

lemma batchAccepted_covered:
  assumes "p \<in> set (batchAccepted env ess d)" and "k \<in> pe_accountID ` set (bp_entries p)" and "accountRow d k = Some a"
  shows "0 \<le> displayed (a\<lparr>ar_balance := ar_balance a + postingsNet k (batchAccepted env ess d)\<rparr>)"
proof -
  have "dbStates d k = Some (stateOfRow a)" using assms(3) by (simp add: dbStates_def)
  from acceptInTurn_covered [OF assms(1) [unfolded batchAccepted_def] assms(2) this] show ?thesis
    by (simp add: batchAccepted_def displayed_def stateOfRow_def)
qed

subsection \<open>A concrete batch\<close>

text \<open>A posting, a request that is no posting, and one that would overdraw the first account.\<close>

definition pgBatch :: "int EntryRequest list list" where
  "pgBatch = [pgRequest, [],
     [\<lparr>AccountID = ''x'', Credit = 150, Debit = 0\<rparr>, \<lparr>AccountID = ''xx'', Credit = 0, Debit = 150\<rparr>]]"

lemma pgBatch_prepared:
  "snd (prepareBatch pgEnv 0 pgBatch) =
    [\<lparr>bp_index = 0, bp_ledgerID = uuidNil,
       bp_entries = [\<lparr>pe_accountID = 1, pe_entry = pgRequest ! 0\<rparr>, \<lparr>pe_accountID = 2, pe_entry = pgRequest ! 1\<rparr>]\<rparr>,
     \<lparr>bp_index = 2, bp_ledgerID = uuidNil,
       bp_entries = [\<lparr>pe_accountID = 1, pe_entry = pgBatch ! 2 ! 0\<rparr>, \<lparr>pe_accountID = 2, pe_entry = pgBatch ! 2 ! 1\<rparr>]\<rparr>]"
  by (simp add: pgBatch_def pgRequest_def ValidateTransaction_def)

lemma pgBatch_accepted: "map bp_index (batchAccepted pgEnv pgBatch (db pgStart)) = [0]"
  "postingsNet 1 (batchAccepted pgEnv pgBatch (db pgStart)) = 100"
  unfolding batchAccepted_def pgBatch_prepared
  by (simp_all add: pgStart_def dbStates_def stateOfRow_def covers_def
      postStates_def pgRequest_def pgBatch_def displayedBalanceAfter_def go_consts postingsNet_def)

lemmas batch_eval = CreateTransactionsBatch_def maxPostingBatchSize_def batchAccountIDs_def batchStates_def stateOfRow_def
  decidePosting_def addToState_def addToTotal_def writePostingBatch_def batchChangeList_def writeVals_def postingVals_def batchEntry_def
  stampResult_def ValidateTransaction_def pg_eval

lemma pgStart_unmixed: "db_unmixed (db pgStart)"
  by (auto simp: db_unmixed_def pgStart_def uuidNil_def split: if_splits)

lemma pgBatch_runs: "\<exists>s' results. CreateTransactionsBatch pgEnv pgBatch pgStart = (s', Inr results)"
  by (simp add: pgBatch_def pgStart_def pgRequest_def batch_eval uuidNil_def)

text \<open>Two accounts of different ledgers, the first in the default ledger, and a posting across them.\<close>

definition mixedStart :: "int Pg" where
  "mixedStart = pgStart\<lparr>db := emptyDatabase\<lparr>accountsT := [(1, \<lparr>ar_ledger = uuidNil, ar_name = ''cash'', ar_type = AssetType, ar_balance = 0\<rparr>),
       (2, \<lparr>ar_ledger = 7, ar_name = ''capital'', ar_type = EquityType, ar_balance = 0\<rparr>)]\<rparr>\<rparr>"

subsection \<open>Properties\<close>

text \<open>
  A batch keeps the books. Whatever a batch of requests contains and whatever the database does, the entries
  of every transaction balance and stay in one ledger and every balance is the net of the account's entries
  afterwards; a batch that returns an error leaves the tables as they were. The amounts have at most two
  decimals, and the accounts of the default ledger are not mixed with those of other ledgers.
\<close>

theorem CreateTransactionsBatch_keeps_books:
  assumes "numeric_ok env" and "range_order env" and "pg_books env (db s)" and "db_unmixed (db s)"
    and "\<forall>es \<in> set ess. request_cents env es" and "CreateTransactionsBatch env ess s = (s', r)"
  shows "pg_books env (db s') \<and> (\<forall>e. r = Inl e \<longrightarrow> db s' = db s)"
proof (cases r)
  case (Inl e)
  then have "db s' = db s" using CreateTransactionsBatch_Inl assms(6) by blast
  then show ?thesis using assms(3) by simp
next
  case (Inr results)
  then show ?thesis using CreateTransactionsBatch_balances(1) [OF assms(1-5)] assms(6) by auto
qed

theorem CreateTransactionsBatch_keeps_books_witness:
  "\<exists>s' r. CreateTransactionsBatch pgEnv pgBatch pgStart = (s', Inr r) \<and> pg_books pgEnv (db s')"
proof -
  obtain s' r where run: "CreateTransactionsBatch pgEnv pgBatch pgStart = (s', Inr r)" using pgBatch_runs by blast
  have "\<forall>es \<in> set pgBatch. request_cents pgEnv es" by (simp add: request_cents_def)
  from CreateTransactionsBatch_keeps_books [OF pgEnv_ok(1,3) pgStart_books pgStart_unmixed this run]
  show ?thesis using run by blast
qed



text \<open>
  The batch lets postings cross the boundary of the default ledger. The default ledger is \<open>uuid.Nil\<close>, which
  the batch also uses for a ledger that is not set yet: a posting between an account of the default ledger
  and one of another ledger is rejected when it is posted alone, and accepted in a batch, after which
  the books do not hold any more.
\<close>

theorem CreateTransactionsBatch_crosses_default_ledger:
  "pg_books pgEnv (db mixedStart) \<and>
   snd (PgCreateTransaction pgEnv '''' pgRequest mixedStart) = Inl SpansLedgers \<and>
   (\<exists>s' t. CreateTransactionsBatch pgEnv [pgRequest] mixedStart = (s', Inr [\<lparr>br_Transaction = Some t, br_Err = None\<rparr>]) \<and>
      \<not> pg_books pgEnv (db s'))"
proof (intro conjI)
  show "pg_books pgEnv (db mixedStart)"
    by (simp add: pg_books_def mixedStart_def pgStart_def emptyDatabase_def)
  show "snd (PgCreateTransaction pgEnv '''' pgRequest mixedStart) = Inl SpansLedgers"
    by (simp add: mixedStart_def pgStart_def pgRequest_def ValidateTransaction_def pg_eval uuidNil_def failE_def)
  show "\<exists>s' t. CreateTransactionsBatch pgEnv [pgRequest] mixedStart = (s', Inr [\<lparr>br_Transaction = Some t, br_Err = None\<rparr>]) \<and>
      \<not> pg_books pgEnv (db s')"
    by (simp add: mixedStart_def pgStart_def pgRequest_def batch_eval uuidNil_def pg_books_def row_placed_def)
qed

end
