(* ===== verification/Pg_Transfer.thy ===== *)
theory Pg_Transfer
  imports Pg_Posting Memory_Transfer
begin

text \<open>
  \<open>internal/ledger/postgres_transfer.go\<close> and \<open>internal/ledger/transfer_batch.go\<close>: accounts in a ledger, transfers
  between ledgers, and the two workers of the transfer outbox of the PostgreSQL store.
\<close>

subsection \<open>Accounts and sagas\<close>

definition parseE :: "('d, 'm) pg_env_scheme \<Rightarrow> string \<Rightarrow> string \<Rightarrow> ('d, uuid) act" where
  "parseE env what x = (case uuidParse env x of None \<Rightarrow> failE (InvalidID what x) | Some u \<Rightarrow> returnE u)"

definition PgCreateAccountInLedger ::
  "('d :: linordered_ab_group_add, 'm) pg_env_scheme \<Rightarrow> string \<Rightarrow> string \<Rightarrow> AccountType \<Rightarrow> ('d, 'd Account) act" where
  "PgCreateAccountInLedger env ledgerID name typ =
     bindE (case ValidateAccount name typ of Some e \<Rightarrow> failE e | None \<Rightarrow> returnE ()) (\<lambda>_.
     bindE (parseE env ''ledger'' ledgerID) (\<lambda>ledger.
     bindE (newID env) (\<lambda>accountID.
     bindE (execDb env ''create account'' (insertAccount accountID ledger name typ)) (\<lambda>_.
     returnE \<lparr>a_ID = uuidString env accountID, a_LedgerID = ledgerID, a_Name = name, a_Type = typ, a_Balance = 0\<rparr>))))"

definition sagaResponse :: "('d, 'm) pg_env_scheme \<Rightarrow> uuid \<times> 'd SagaRow \<Rightarrow> 'd TransferResponse" where
  "sagaResponse env p = (case p of (sid, r) \<Rightarrow>
     \<lparr>r_ID = uuidString env sid, r_SourceLedgerID = uuidString env (sr_sourceLedger r),
      r_SourceAccountID = uuidString env (sr_sourceAccount r),
      r_DestinationLedgerID = uuidString env (sr_destinationLedger r),
      r_DestinationAccountID = uuidString env (sr_destinationAccount r), r_Amount = sr_amount r,
      r_Status = sr_status r, r_CreatedAt = sr_created r, r_UpdatedAt = sr_updated r\<rparr>)"

text \<open>A key that is the text of a UUID is looked up as the identifier of a saga.\<close>

definition findSaga :: "('d, 'm) pg_env_scheme \<Rightarrow> string \<Rightarrow> 'd Database \<Rightarrow> (uuid \<times> 'd SagaRow) option" where
  "findSaga env key d =
     (case uuidParse env key of
        Some sid \<Rightarrow> find (\<lambda>(k, r). k = sid) (sagasT d)
      | None \<Rightarrow> find (\<lambda>(k, r). sr_key r = key) (sagasT d))"

definition scanSaga :: "('d, 'm) pg_env_scheme \<Rightarrow> string \<Rightarrow> ('d, 'd TransferResponse) act" where
  "scanSaga env key =
     bindE (dbCall env ''scan saga'') (\<lambda>_.
     bindE getDb (\<lambda>d.
     case findSaga env key d of None \<Rightarrow> failE NoRows | Some p \<Rightarrow> returnE (sagaResponse env p)))"

definition PgGetTransfer :: "('d, 'm) pg_env_scheme \<Rightarrow> string \<Rightarrow> ('d, 'd TransferResponse) act" where
  "PgGetTransfer env sid = bindE (parseE env ''transfer'' sid) (\<lambda>parsed. scanSaga env (uuidString env parsed))"

text \<open>\<open>errors.Is(err, sql.ErrNoRows)\<close>: no row is no error.\<close>

definition optionE :: "('d, 'a) act \<Rightarrow> ('d, 'a option) act" where
  "optionE m s =
     (case m s of (s', Inr x) \<Rightarrow> (s', Inr (Some x)) | (s', Inl e) \<Rightarrow> (s', if e = NoRows then Inr None else Inl e))"

subsection \<open>Legs\<close>

definition clearingName :: string where
  "clearingName = ''__transfer_clearing__''"

definition ensureClearing :: "('d :: linordered_ab_group_add, 'm) pg_env_scheme \<Rightarrow> uuid \<Rightarrow> ('d, uuid) act" where
  "ensureClearing env ledger =
     bindE (dbCall env ''select clearing'') (\<lambda>_.
     bindE getDb (\<lambda>d.
     case accountByName d ledger clearingName of
       Some aid \<Rightarrow> returnE aid
     | None \<Rightarrow>
         bindE (newID env) (\<lambda>aid.
         bindE (execDb env ''insert clearing'' (insertAccount aid ledger clearingName AssetType)) (\<lambda>_. returnE aid))))"

text \<open>\<open>UPDATE accounts SET balance=balance+CASE WHEN id=account THEN delta ELSE -delta END WHERE id IN (account,clearing)\<close>.\<close>

definition legUpdate :: "uuid \<Rightarrow> uuid \<Rightarrow> 'd :: linordered_ab_group_add \<Rightarrow> uuid \<Rightarrow> ('d \<Rightarrow> 'd) option" where
  "legUpdate account clearing delta k =
     (if k = account then Some (\<lambda>b. b + delta) else if k = clearing then Some (\<lambda>b. b - delta) else None)"

definition insertSaga :: "('d :: linordered_ab_group_add, 'm) pg_env_scheme \<Rightarrow> uuid \<Rightarrow> 'd SagaRow \<Rightarrow> 'd statement" where
  "insertSaga env sid row d =
     (case numeric env (sr_amount row) of
        None \<Rightarrow> Inl (DbConstraint ''numeric field overflow'')
      | Some amount \<Rightarrow>
          if list_ex (\<lambda>(k, r). k = sid) (sagasT d) then Inl (DbConstraint ''sagas_pkey'')
          else if list_ex (\<lambda>(k, r). sr_key r = sr_key row) (sagasT d) then Inl (DbConstraint ''sagas_idempotency_key_key'')
          else if accountRow d (sr_sourceAccount row) = None then Inl (DbConstraint ''sagas_source_account_id_fkey'')
          else if accountRow d (sr_destinationAccount row) = None then Inl (DbConstraint ''sagas_destination_account_id_fkey'')
          else if \<not> 0 < amount then Inl (DbConstraint ''sagas_amount_check'')
          else Inr (d\<lparr>sagasT := sagasT d @ [(sid, row\<lparr>sr_amount := amount\<rparr>)]\<rparr>))"

text \<open>The steps of a new saga; no step of it exists before, since steps reference their saga.\<close>

definition insertSteps :: "StepRow list \<Rightarrow> 'd Database \<Rightarrow> 'd Database" where
  "insertSteps rows d = d\<lparr>stepsT := stepsT d @ rows\<rparr>"

definition sagaEvent :: "uuid \<Rightarrow> time \<Rightarrow> uuid \<Rightarrow> string \<Rightarrow> OutboxRow" where
  "sagaEvent oid t sid typ = \<lparr>or_id = oid, or_saga = Some sid, or_transaction = None, or_type = typ,
     or_status = ''pending'', or_attempts = 0, or_available = t, or_created = t, or_leaseOwner = None, or_leaseExpires = None\<rparr>"

definition writeSourceTransfer ::
  "('d :: linordered_ab_group_add, 'm) pg_env_scheme \<Rightarrow> uuid \<Rightarrow> string \<Rightarrow> uuid \<Rightarrow> uuid \<Rightarrow> uuid \<Rightarrow> uuid \<Rightarrow> uuid \<Rightarrow> 'd \<Rightarrow> time
     \<Rightarrow> ('d, unit) act" where
  "writeSourceTransfer env sagaID idempotencyKey sourceLedger source clearing destinationLedger destination amount created =
     bindE (newID env) (\<lambda>transactionID.
     bindE (newID env) (\<lambda>sourceEntryID.
     bindE (newID env) (\<lambda>clearingEntryID.
     bindE (timeP env) (\<lambda>t.
     bindE (newID env) (\<lambda>oid1.
     bindE (newID env) (\<lambda>oid2.
     execDb env ''write source transfer'' (\<lambda>d.
       bindR (postStatement env t [(transactionID, sourceLedger)]
         [(sourceEntryID, source, transactionID, amount, 0), (clearingEntryID, clearing, transactionID, 0, amount)]
         (legUpdate source clearing (- amount)) [oid1] d) (\<lambda>d.
       bindR (insertSaga env sagaID \<lparr>sr_key = idempotencyKey, sr_sourceLedger = sourceLedger, sr_sourceAccount = source,
         sr_destinationLedger = destinationLedger, sr_destinationAccount = destination, sr_amount = amount,
         sr_status = TransferPending, sr_created = created, sr_updated = created\<rparr> d) (\<lambda>d.
       insertOutbox (sagaEvent oid2 t sagaID ''destination_credit'')
         (insertSteps [\<lparr>st_saga = sagaID, st_step = ''source_debit'', st_status = ''completed'', st_attempts = 1\<rparr>,
            \<lparr>st_saga = sagaID, st_step = ''destination_credit'', st_status = ''pending'', st_attempts = 0\<rparr>] d)))))))))) "

subsection \<open>Creating a transfer\<close>

text \<open>The part of the database transaction after the key was found to be new.\<close>

definition newTransfer ::
  "('d :: linordered_ab_group_add, 'm) pg_env_scheme \<Rightarrow> 'd TransferRequest \<Rightarrow> uuid \<Rightarrow> uuid \<Rightarrow> uuid \<Rightarrow> uuid
     \<Rightarrow> ('d, 'd TransferResponse \<times> bool) act" where
  "newTransfer env req sourceLedger source destinationLedger destination =
     bindE (dbCall env ''lock source'') (\<lambda>_.
     bindE getDb (\<lambda>d.
     case (accountRow d source, accountRow d destination) of
       (Some a, Some b) \<Rightarrow>
         if ar_ledger a \<noteq> sourceLedger then failE SourceOutsideLedger
         else if ar_ledger b \<noteq> destinationLedger then failE DestinationOutsideLedger
         else if displayedBalanceAfter (ar_type a) (ar_balance a) 0 (Amount req) < 0
         then failE (InsufficientFundsFor (uuidString env source))
         else
           bindE (ensureClearing env sourceLedger) (\<lambda>clearing.
           bindE (timeP env) (\<lambda>t.
           bindE (newID env) (\<lambda>sid.
           bindE (writeSourceTransfer env sid (IdempotencyKey req) sourceLedger source clearing destinationLedger
             destination (Amount req) t) (\<lambda>_.
           bindE (dbCall env ''commit'') (\<lambda>_.
           returnE (\<lparr>r_ID = uuidString env sid, r_SourceLedgerID = SourceLedgerID req,
             r_SourceAccountID = SourceAccountID req, r_DestinationLedgerID = DestinationLedgerID req,
             r_DestinationAccountID = DestinationAccountID req, r_Amount = Amount req, r_Status = TransferPending,
             r_CreatedAt = t, r_UpdatedAt = t\<rparr>, False))))))
     | _ \<Rightarrow> failE SourceOrDestinationNotFound))"

definition transferTransaction ::
  "('d :: linordered_ab_group_add, 'm) pg_env_scheme \<Rightarrow> 'd TransferRequest \<Rightarrow> uuid \<Rightarrow> uuid \<Rightarrow> uuid \<Rightarrow> uuid
     \<Rightarrow> ('d, 'd TransferResponse \<times> bool) act" where
  "transferTransaction env req sourceLedger source destinationLedger destination =
     atomically (
     bindE (dbCall env ''begin'') (\<lambda>_.
     bindE (optionE (scanSaga env (IdempotencyKey req))) (\<lambda>existing.
     case existing of
       Some r \<Rightarrow> if \<not> sameTransfer r req then failE TransferIdempotencyConflict else returnE (r, True)
     | None \<Rightarrow> newTransfer env req sourceLedger source destinationLedger destination)))"

definition PgCreateTransfer ::
  "('d :: linordered_ab_group_add, 'm) pg_env_scheme \<Rightarrow> 'd TransferRequest \<Rightarrow> ('d, 'd TransferResponse \<times> bool) act" where
  "PgCreateTransfer env req =
     bindE (case validateTransfer req of Some e \<Rightarrow> failE e | None \<Rightarrow> returnE ()) (\<lambda>_.
     bindE (parseE env ''source ledger'' (SourceLedgerID req)) (\<lambda>sourceLedger.
     bindE (parseE env ''destination ledger'' (DestinationLedgerID req)) (\<lambda>destinationLedger.
     bindE (parseE env ''source account'' (SourceAccountID req)) (\<lambda>source.
     bindE (parseE env ''destination account'' (DestinationAccountID req)) (\<lambda>destination.
     if sourceLedger = destinationLedger then failE SameLedger
     else transferTransaction env req sourceLedger source destinationLedger destination)))))"

subsection \<open>The destination credits, in batches\<close>

record 'd destinationCreditBatchEvent =
  de_eventID :: uuid
  de_sagaID :: uuid
  de_destinationLedger :: uuid
  de_destinationAccount :: uuid
  de_amount :: 'd
  de_clearingAccount :: uuid
  de_transactionID :: uuid
  de_destinationEntryID :: uuid
  de_clearingEntryID :: uuid

text \<open>The query of \<open>processDestinationCreditBatch\<close>: ready events of pending sagas, oldest first.\<close>

definition readyCredit :: "time \<Rightarrow> 'd Database \<Rightarrow> OutboxRow \<Rightarrow> (OutboxRow \<times> uuid \<times> 'd SagaRow) option" where
  "readyCredit t d ev =
     (if or_status ev = ''pending'' \<and> or_type ev = ''destination_credit'' \<and> or_available ev \<le> t
      then case or_saga ev of
          None \<Rightarrow> None
        | Some sid \<Rightarrow>
            (case map_of (sagasT d) sid of
               None \<Rightarrow> None
             | Some r \<Rightarrow> if sr_status r = TransferPending then Some (ev, sid, r) else None)
      else None)"

definition readyCredits :: "time \<Rightarrow> nat \<Rightarrow> 'd Database \<Rightarrow> (OutboxRow \<times> uuid \<times> 'd SagaRow) list" where
  "readyCredits t limit d =
     take limit (sort_key (\<lambda>(ev, _). (or_created ev, or_id ev)) (List.map_filter (readyCredit t d) (outboxT d)))"

text \<open>The loop over its rows draws the identifiers of each event.\<close>

definition creditEvent ::
  "('d, 'm) pg_env_scheme \<Rightarrow> OutboxRow \<times> uuid \<times> 'd SagaRow \<Rightarrow> ('d, 'd destinationCreditBatchEvent) act" where
  "creditEvent env p = (case p of (ev, sid, r) \<Rightarrow>
     bindE (newID env) (\<lambda>tid.
     bindE (newID env) (\<lambda>destinationEntry.
     bindE (newID env) (\<lambda>clearingEntry.
     returnE \<lparr>de_eventID = or_id ev, de_sagaID = sid, de_destinationLedger = sr_destinationLedger r,
       de_destinationAccount = sr_destinationAccount r, de_amount = sr_amount r, de_clearingAccount = uuidNil,
       de_transactionID = tid, de_destinationEntryID = destinationEntry, de_clearingEntryID = clearingEntry\<rparr>))))"

definition sortedUUIDKeys :: "uuid list \<Rightarrow> uuid list" where
  "sortedUUIDKeys vals = sort (remdups vals)"

text \<open>\<open>INSERT INTO accounts ... ON CONFLICT (ledger_id,name) DO NOTHING\<close>.\<close>

fun insertClearings :: "(uuid \<times> uuid) list \<Rightarrow> 'd :: linordered_ab_group_add statement" where
  "insertClearings [] d = Inr d"
| "insertClearings ((aid, ledger) # rest) d =
     (if accountByName d ledger clearingName \<noteq> None then insertClearings rest d
      else bindR (insertAccount aid ledger clearingName AssetType d) (insertClearings rest))"

fun setClearing ::
  "('d, 'm) pg_env_scheme \<Rightarrow> (uuid \<Rightarrow> uuid option) \<Rightarrow> 'd destinationCreditBatchEvent list
     \<Rightarrow> ('d err, 'd destinationCreditBatchEvent list) res" where
  "setClearing env clearingByLedger [] = Inr []"
| "setClearing env clearingByLedger (e # es) =
     (case clearingByLedger (de_destinationLedger e) of
        None \<Rightarrow> Inl (ClearingAccountMissing (uuidString env (de_destinationLedger e)))
      | Some c \<Rightarrow> bindR (setClearing env clearingByLedger es) (\<lambda>es. Inr (e\<lparr>de_clearingAccount := c\<rparr> # es)))"

definition creditVals :: "'d :: zero destinationCreditBatchEvent list \<Rightarrow> 'd entryValue list" where
  "creditVals events = concat (map (\<lambda>e.
     [(de_destinationEntryID e, de_destinationAccount e, de_transactionID e, 0, de_amount e),
      (de_clearingEntryID e, de_clearingAccount e, de_transactionID e, de_amount e, 0)]) events)"

definition addDelta :: "uuid \<Rightarrow> 'd :: linordered_ab_group_add \<Rightarrow> (uuid \<rightharpoonup> 'd) \<Rightarrow> (uuid \<rightharpoonup> 'd)" where
  "addDelta k x m = m(k \<mapsto> map_get 0 m k + x)"

definition creditDeltas :: "'d :: linordered_ab_group_add destinationCreditBatchEvent list \<Rightarrow> (uuid \<rightharpoonup> 'd)" where
  "creditDeltas events =
     fold (\<lambda>e m. addDelta (de_clearingAccount e) (- de_amount e) (addDelta (de_destinationAccount e) (de_amount e) m)) events Map.empty"

definition deltaUpdate :: "(uuid \<rightharpoonup> 'd :: linordered_ab_group_add) \<Rightarrow> uuid \<Rightarrow> ('d \<Rightarrow> 'd) option" where
  "deltaUpdate deltas k = map_option (\<lambda>x b. b + x) (deltas k)"

definition setSagas :: "uuid list \<Rightarrow> TransferStatus \<Rightarrow> time \<Rightarrow> 'd Database \<Rightarrow> 'd Database" where
  "setSagas sids st t d =
     d\<lparr>sagasT := map (\<lambda>(k, r). (k, if k \<in> set sids then r\<lparr>sr_status := st, sr_updated := t\<rparr> else r)) (sagasT d)\<rparr>"

definition setCreditSteps :: "uuid list \<Rightarrow> string \<Rightarrow> 'd Database \<Rightarrow> 'd Database" where
  "setCreditSteps sids st d =
     d\<lparr>stepsT := map (\<lambda>r. if st_saga r \<in> set sids \<and> st_step r = ''destination_credit''
        then r\<lparr>st_status := st, st_attempts := Suc (st_attempts r)\<rparr> else r) (stepsT d)\<rparr>"

definition processedEvents :: "uuid list \<Rightarrow> 'd Database \<Rightarrow> 'd Database" where
  "processedEvents eids d =
     d\<lparr>outboxT := map (\<lambda>r. if or_id r \<in> set eids then r\<lparr>or_status := ''processed'', or_attempts := Suc (or_attempts r)\<rparr> else r) (outboxT d)\<rparr>"

text \<open>\<open>t\<close> is the time of the database transaction, what \<open>NOW()\<close> reads.\<close>

definition writeDestinationCreditBatch ::
  "('d :: linordered_ab_group_add, 'm) pg_env_scheme \<Rightarrow> time \<Rightarrow> 'd destinationCreditBatchEvent list \<Rightarrow> ('d, unit) act" where
  "writeDestinationCreditBatch env t events =
     bindE (mapE (\<lambda>_. newID env) events) (\<lambda>oids.
     execDb env ''write destination credit batch'' (\<lambda>d.
       bindR (postStatement env t (map (\<lambda>e. (de_transactionID e, de_destinationLedger e)) events) (creditVals events)
         (deltaUpdate (creditDeltas events)) oids d) (\<lambda>d'.
       Inr (processedEvents (map de_eventID events)
         (setCreditSteps (map de_sagaID events) ''completed''
           (setSagas (map de_sagaID events) TransferCompleted t d'))))))"

text \<open>The part of the transaction after the ready events were read.\<close>

definition completeCredits ::
  "('d :: linordered_ab_group_add, 'm) pg_env_scheme \<Rightarrow> time \<Rightarrow> 'd destinationCreditBatchEvent list
     \<Rightarrow> ('d, 'd destinationCreditBatchEvent list) act" where
  "completeCredits env t events =
     (let ledgerIDs = sortedUUIDKeys (map de_destinationLedger events)
      in bindE (mapE (\<lambda>_. newID env) ledgerIDs) (\<lambda>aids.
         bindE (execDb env ''ensure destination clearing accounts'' (insertClearings (zip aids ledgerIDs))) (\<lambda>_.
         bindE (dbCall env ''select clearing accounts'') (\<lambda>_.
         bindE getDb (\<lambda>d.
         bindE (liftE (setClearing env (\<lambda>l. if l \<in> set ledgerIDs then accountByName d l clearingName else None) events)) (\<lambda>events.
         let accountIDs = sortedUUIDKeys (concat (map (\<lambda>e. [de_destinationAccount e, de_clearingAccount e]) events))
         in bindE (dbCall env ''lock accounts'') (\<lambda>_.
            let locked = length (selectAccounts d accountIDs)
            in if locked \<noteq> length accountIDs then failE (LockedAccountsMismatch locked (length accountIDs))
               else bindE (writeDestinationCreditBatch env t events) (\<lambda>_.
                 bindE (dbCall env ''commit'') (\<lambda>_. returnE events)))))))))"

definition creditBatchTransaction ::
  "('d :: linordered_ab_group_add, 'm) pg_env_scheme \<Rightarrow> nat \<Rightarrow> ('d, 'd destinationCreditBatchEvent list) act" where
  "creditBatchTransaction env limit =
     atomically (
     bindE (dbCall env ''begin'') (\<lambda>_.
     bindE (timeP env) (\<lambda>t.
     bindE (dbCall env ''select destination credits'') (\<lambda>_.
     bindE getDb (\<lambda>d.
     bindE (mapE (creditEvent env) (readyCredits t limit d)) (\<lambda>events.
     if events = [] then returnE [] else completeCredits env t events))))))"

definition processDestinationCreditBatch :: "('d :: linordered_ab_group_add, 'm) pg_env_scheme \<Rightarrow> nat \<Rightarrow> ('d, nat) act" where
  "processDestinationCreditBatch env limit =
     bindE (creditBatchTransaction env limit) (\<lambda>events.
     bindE (mapE (\<lambda>e. notifyTransfer (uuidString env (de_sagaID e))) events) (\<lambda>_.
     returnE (length events)))"

definition PgProcessOutbox :: "('d :: linordered_ab_group_add, 'm) pg_env_scheme \<Rightarrow> int \<Rightarrow> ('d, nat) act" where
  "PgProcessOutbox env limit = processDestinationCreditBatch env (if limit \<le> 0 then 100 else nat limit)"

subsection \<open>The compensations, one by one\<close>

definition postLeg ::
  "('d :: linordered_ab_group_add, 'm) pg_env_scheme \<Rightarrow> time \<Rightarrow> uuid \<Rightarrow> uuid \<Rightarrow> uuid \<Rightarrow> 'd \<Rightarrow> bool \<Rightarrow> ('d, uuid) act" where
  "postLeg env t ledger account clearing amount source =
     bindE (newID env) (\<lambda>tid.
     bindE (execDb env ''insert transaction'' (insertTransactions t [(tid, ledger)])) (\<lambda>_.
     bindE (newID env) (\<lambda>e1.
     bindE (newID env) (\<lambda>e2.
     bindE (execDb env ''insert entries'' (\<lambda>d. bindR (entryRows env t
         (if source then [(e1, account, tid, amount, 0), (e2, clearing, tid, 0, amount)]
          else [(e1, account, tid, 0, amount), (e2, clearing, tid, amount, 0)])) (\<lambda>rows. insertEntries rows d))) (\<lambda>_.
     bindE (execDb env ''update balances'' (updateBalances env (legUpdate account clearing (if source then - amount else amount)))) (\<lambda>_.
     bindE (newID env) (\<lambda>oid.
     bindE (execDb env ''insert outbox event'' (insertOutbox (postedEvent oid t tid))) (\<lambda>_.
     returnE tid))))))))"

fun isTransientOutboxError :: "'d err \<Rightarrow> bool" where
  "isTransientOutboxError (DbFault _ f) \<longleftrightarrow> f = SerializationFailure \<or> f = ContextExpired"
| "isTransientOutboxError (HookError b _) \<longleftrightarrow> b"
| "isTransientOutboxError _ \<longleftrightarrow> False"

text \<open>An error of the database ends the transaction: until a rollback every further statement fails.\<close>

fun abortsTransaction :: "'d err \<Rightarrow> bool" where
  "abortsTransaction (DbFault _ _) \<longleftrightarrow> True"
| "abortsTransaction (DbConstraint _) \<longleftrightarrow> True"
| "abortsTransaction _ \<longleftrightarrow> False"

text \<open>The oldest event that is due; \<open>FOR UPDATE SKIP LOCKED LIMIT 1\<close>.\<close>

definition readyCompensation :: "time \<Rightarrow> 'd Database \<Rightarrow> OutboxRow option" where
  "readyCompensation t d =
     (case sort_key or_created (filter (\<lambda>ev. or_status ev = ''pending'' \<and> or_type ev = ''compensate_source'' \<and> or_available ev \<le> t) (outboxT d)) of
        [] \<Rightarrow> None | ev # _ \<Rightarrow> Some ev)"

definition parseOrNil :: "('d, 'm) pg_env_scheme \<Rightarrow> string \<Rightarrow> uuid" where
  "parseOrNil env x = (case uuidParse env x of None \<Rightarrow> uuidNil | Some u \<Rightarrow> u)"

text \<open>
  The two cases of the switch. The destination posting runs behind a savepoint: when it fails its writes are undone and
  the transaction goes on.
\<close>

definition destinationCase ::
  "('d :: linordered_ab_group_add, 'm) pg_env_scheme \<Rightarrow> time \<Rightarrow> uuid \<Rightarrow> 'd TransferResponse \<Rightarrow> ('d, 'd err option) act" where
  "destinationCase env t sagaID response =
     (let destinationLedger = parseOrNil env (r_DestinationLedgerID response);
          destination = parseOrNil env (r_DestinationAccountID response)
      in bindE (dbCall env ''savepoint'') (\<lambda>_. \<lambda>s.
         case atomically (bindE (ensureClearing env destinationLedger) (\<lambda>clearing.
                postLeg env t destinationLedger destination clearing (r_Amount response) False)) s of
           (s, Inl e) \<Rightarrow> bindE (dbCall env ''rollback to savepoint'') (\<lambda>_. returnE (Some e)) s
         | (s, Inr _) \<Rightarrow>
             bindE (dbCall env ''release savepoint'') (\<lambda>_.
             bindE (dbCall env ''complete saga'') (\<lambda>_.
             bindE (modifyDb (setSagas [sagaID] TransferCompleted t)) (\<lambda>_.
             bindE (dbCall env ''complete step'') (\<lambda>_.
             bindE (modifyDb (setCreditSteps [sagaID] ''completed'')) (\<lambda>_.
             returnE None))))) s))"

definition compensateCase ::
  "('d :: linordered_ab_group_add, 'm) pg_env_scheme \<Rightarrow> time \<Rightarrow> uuid \<Rightarrow> 'd TransferResponse \<Rightarrow> ('d, 'd err option) act" where
  "compensateCase env t sagaID response =
     (let sourceLedger = parseOrNil env (r_SourceLedgerID response);
          source = parseOrNil env (r_SourceAccountID response)
      in bindE (ensureClearing env sourceLedger) (\<lambda>clearing.
         bindE (postLeg env t sourceLedger source clearing (r_Amount response) False) (\<lambda>_.
         bindE (dbCall env ''compensate saga'') (\<lambda>_.
         bindE (modifyDb (setSagas [sagaID] TransferCompensated t)) (\<lambda>_.
         returnE None)))))"

text \<open>
  What is left in \<open>err\<close> after the switch: \<open>None\<close> for none. After an error that ended the transaction the statement
  that follows in the code fails in turn, and this second error is what the iteration returns.
\<close>

definition processSagaEvent ::
  "('d :: linordered_ab_group_add, 'm) pg_env_scheme \<Rightarrow> time \<Rightarrow> OutboxRow \<Rightarrow> ('d, 'd err option) act" where
  "processSagaEvent env t ev s =
     (let sagaID = (case or_saga ev of None \<Rightarrow> uuidNil | Some x \<Rightarrow> x)
      in case bindE (scanSaga env (uuidString env sagaID)) (\<lambda>response.
            if or_type ev = ''destination_credit'' then destinationCase env t sagaID response
            else if or_type ev = ''compensate_source'' then compensateCase env t sagaID response
            else returnE (Some (UnknownOutboxEvent (or_type ev)))) s of
        (s', Inr r) \<Rightarrow> (s', Inr r)
      | (s', Inl e) \<Rightarrow>
          (s', if abortsTransaction e then Inl (DbFault ''current transaction is aborted'' (OtherFault ''25P02''))
               else Inr (Some e)))"

definition delayedEvent :: "uuid \<Rightarrow> time \<Rightarrow> 'd Database \<Rightarrow> 'd Database" where
  "delayedEvent eid available d =
     d\<lparr>outboxT := map (\<lambda>r. if or_id r = eid then r\<lparr>or_attempts := Suc (or_attempts r), or_available := available\<rparr> else r) (outboxT d)\<rparr>"

definition outboxBackoff :: "nat \<Rightarrow> int" where
  "outboxBackoff attempts = 2 ^ attempts * 100 * 1000000"

text \<open>The permanent failure: the saga failed, and for a destination credit its compensation is scheduled.\<close>

definition failSaga ::
  "('d, 'm) pg_env_scheme \<Rightarrow> time \<Rightarrow> OutboxRow \<Rightarrow> ('d, unit) act" where
  "failSaga env t ev =
     (let sagaID = (case or_saga ev of None \<Rightarrow> uuidNil | Some x \<Rightarrow> x)
      in bindE (dbCall env ''fail saga'') (\<lambda>_.
         bindE (modifyDb (setSagas [sagaID] TransferFailed t)) (\<lambda>_.
         if or_type ev \<noteq> ''destination_credit'' then returnE ()
         else
           bindE (dbCall env ''fail step'') (\<lambda>_.
           bindE (modifyDb (setCreditSteps [sagaID] ''failed'')) (\<lambda>_.
           bindE (newID env) (\<lambda>oid.
           execDb env ''schedule compensation'' (\<lambda>d.
             if list_ex (\<lambda>r. or_saga r = Some sagaID \<and> or_type r = ''compensate_source'') (outboxT d) then Inr d
             else insertOutbox (sagaEvent oid t sagaID ''compensate_source'') d)))))))"

definition individualTransaction ::
  "('d :: linordered_ab_group_add, 'm) pg_env_scheme \<Rightarrow> ('d, (uuid \<times> bool) option) act" where
  "individualTransaction env =
     atomically (
     bindE (dbCall env ''begin'') (\<lambda>_.
     bindE (timeP env) (\<lambda>t.
     bindE (dbCall env ''select compensation'') (\<lambda>_.
     bindE getDb (\<lambda>d.
     case readyCompensation t d of
       None \<Rightarrow> returnE None
     | Some ev \<Rightarrow>
         let sagaID = (case or_saga ev of None \<Rightarrow> uuidNil | Some x \<Rightarrow> x)
         in bindE (processSagaEvent env t ev) (\<lambda>failure.
            case failure of
              None \<Rightarrow>
                bindE (dbCall env ''process event'') (\<lambda>_.
                bindE (modifyDb (processedEvents [or_id ev])) (\<lambda>_.
                bindE (dbCall env ''commit'') (\<lambda>_. returnE (Some (sagaID, True)))))
            | Some e \<Rightarrow>
                if isTransientOutboxError e \<and> or_attempts ev < 5
                then
                  bindE (dbCall env ''delay event'') (\<lambda>_.
                  bindE (modifyDb (delayedEvent (or_id ev) (t + outboxBackoff (or_attempts ev)))) (\<lambda>_.
                  bindE (dbCall env ''commit'') (\<lambda>_. returnE (Some (sagaID, False)))))
                else
                  bindE (failSaga env t ev) (\<lambda>_.
                  bindE (dbCall env ''process event'') (\<lambda>_.
                  bindE (modifyDb (processedEvents [or_id ev])) (\<lambda>_.
                  bindE (dbCall env ''commit'') (\<lambda>_. returnE (Some (sagaID, True)))))))))))) "

text \<open>The loop \<open>for completed < limit\<close>; \<open>remaining\<close> is \<open>limit - completed\<close>. The error comes with the count.\<close>

fun individualLoop ::
  "('d :: linordered_ab_group_add, 'm) pg_env_scheme \<Rightarrow> nat \<Rightarrow> nat \<Rightarrow> 'd Pg \<Rightarrow> 'd Pg \<times> nat \<times> 'd err option" where
  "individualLoop env 0 completed s = (s, completed, None)"
| "individualLoop env (Suc remaining) completed s =
     (case individualTransaction env s of
        (s, Inl e) \<Rightarrow> (s, completed, Some e)
      | (s, Inr None) \<Rightarrow> (s, completed, None)
      | (s, Inr (Some (sagaID, notifies))) \<Rightarrow>
          individualLoop env remaining (Suc completed)
            (if notifies then fst (notifyTransfer (uuidString env sagaID) s) else s))"

definition ProcessCompensationOutbox ::
  "('d :: linordered_ab_group_add, 'm) pg_env_scheme \<Rightarrow> int \<Rightarrow> 'd Pg \<Rightarrow> 'd Pg \<times> nat \<times> 'd err option" where
  "ProcessCompensationOutbox env limit = individualLoop env (if limit \<le> 0 then 100 else nat limit) 0"

subsection \<open>Waiting for a transfer\<close>

definition transferComplete :: "'d TransferResponse \<Rightarrow> bool" where
  "transferComplete r \<longleftrightarrow> r_Status r = TransferCompleted \<or> r_Status r = TransferFailed \<or> r_Status r = TransferCompensated"

definition WaitForTransfer ::
  "('d, 'm) pg_env_scheme \<Rightarrow> ('d Pg \<Rightarrow> 'd Pg) \<Rightarrow> ('d Pg \<Rightarrow> 'd Pg) \<Rightarrow> string \<Rightarrow> int \<Rightarrow> ('d, 'd TransferResponse) act" where
  "WaitForTransfer env others1 others2 sid timeout =
     waitForCompletion others1 others2
       (\<lambda>key s. case subscribe key (transferWaiters s) of (w, wid, _) \<Rightarrow> (s\<lparr>transferWaiters := w\<rparr>, wid))
       (\<lambda>key wid s. s\<lparr>transferWaiters := unsubscribe key wid (transferWaiters s)\<rparr>)
       timeout (bindE (PgGetTransfer env sid) (\<lambda>r. returnE (r, transferComplete r))) sid"

end
