(* ===== verification/Table_Relation.thy ===== *)
theory Table_Relation
  imports Pg_Transfer Pg_Batch
begin

text \<open>
  Operations that move the tables along a relation. The rules are proved once for every reflexive and transitive relation
  (locale \<open>table_relation\<close>), so that for a new relation only the statements of the operations are left. The developments
  of the journal, of the types of the tables and of the posting workers are interpretations.
\<close>

definition keeps :: "('d Database \<Rightarrow> 'd Database \<Rightarrow> bool) \<Rightarrow> ('d, 'a) act \<Rightarrow> bool" where
  "keeps R m \<longleftrightarrow> (\<forall>s. R (db s) (db (fst (m s))))"

lemma keepsD: "keeps R m \<Longrightarrow> m s = (s', r) \<Longrightarrow> R (db s) (db s')"
  unfolding keeps_def by (metis fst_conv)

locale table_relation =
  fixes R :: "'d :: linordered_ab_group_add Database \<Rightarrow> 'd Database \<Rightarrow> bool"
  assumes refl: "R d d" and trans: "R d d1 \<Longrightarrow> R d1 d2 \<Longrightarrow> R d d2"
begin

lemma keeps_quiet: "quiet m \<Longrightarrow> keeps R m"
  using refl by (simp add: quiet_def keeps_def)

lemma keeps_bindE: "keeps R m \<Longrightarrow> (\<And>x. keeps R (f x)) \<Longrightarrow> keeps R (bindE m f)"
  unfolding keeps_def bindE_def by (auto split: prod.splits sum.splits) (metis fst_conv trans)+

lemma keeps_mapE: "(\<And>x. keeps R (f x)) \<Longrightarrow> keeps R (mapE f xs)"
proof (induction xs)
  case (Cons x xs)
  have "keeps R (bindE (f x) (\<lambda>y. bindE (mapE f xs) (\<lambda>ys. returnE (y # ys))))"
    using Cons by (blast intro: keeps_bindE keeps_quiet quiet_prims)
  then show ?case by simp
qed (simp add: keeps_quiet quiet_prims)

lemma keeps_atomically: "keeps R m \<Longrightarrow> keeps R (atomically m)"
  using refl unfolding keeps_def atomically_def by (auto split: prod.splits sum.splits) (metis fst_conv)

lemma keeps_execDb: "(\<And>d d'. f d = Inr d' \<Longrightarrow> R d d') \<Longrightarrow> keeps R (execDb env w f)"
  using refl by (auto simp: keeps_def execDb_def bindE_def act_defs split: option.splits sum.splits)

lemma keeps_modifyDb: "(\<And>d. R d (f d)) \<Longrightarrow> keeps R (modifyDb f)"
  by (simp add: keeps_def modifyDb_def)

lemma keeps_optionE: "keeps R m \<Longrightarrow> keeps R (optionE m)"
  unfolding keeps_def optionE_def by (auto split: prod.splits sum.splits) (metis fst_conv)+

lemma keeps_retryLoop: "keeps R m \<Longrightarrow> keeps R (retryLoop m n)"
proof -
  assume m: "keeps R m"
  have "R (db s) (db (fst (retryLoop m n s)))" for s
  proof (induction n arbitrary: s)
    case 0
    then show ?case using m [unfolded keeps_def, rule_format, of s]
      by (subst retryLoop.simps) (auto split: prod.splits sum.splits)
  next
    case (Suc n)
    obtain s1 r where 1: "m s = (s1, r)" by (cases "m s")
    have "R (db s) (db s1)" using keepsD [OF m 1] .
    then show ?case using 1 Suc.IH [of "s1\<lparr>retryAttempts := retryAttempts s1 + 1\<rparr>"]
      by (subst retryLoop.simps) (auto split: sum.splits intro: trans)
  qed
  then show ?thesis by (simp add: keeps_def)
qed

lemmas keeps_prims = quiet_prims [THEN keeps_quiet]

lemmas keeps_rules = keeps_prims keeps_bindE keeps_mapE keeps_atomically keeps_execDb keeps_modifyDb keeps_optionE keeps_retryLoop

end

subsection \<open>Reads\<close>

lemma quiet_verify: "quiet (verifyPostingAccounts env accs changes)"
  by (induction env accs changes rule: verifyPostingAccounts.induct) (auto intro!: quiet_intros split: option.splits)

lemma quiet_lock: "quiet (lockPostingAccounts env es)"
  unfolding lockPostingAccounts_def
  by (auto simp: Let_def intro!: quiet_intros quiet_verify split: prod.splits option.splits)

end
