(* ===== verification/Streaming.thy ===== *)
theory Streaming
  imports Pg_Transfer "HOL-Library.Product_Lexorder"
begin

text \<open>
  \<open>internal/ledger/streaming.go\<close>: the publication of committed postings from the outbox, and the daily aggregates that a
  consumer of the stream keeps.

  The broker is outside the repository. Its state is the list of the messages it stores; what it answers to a
  publication is a field of \<open>stream_env\<close>, as are the encoding of events as JSON and the order in which
  \<open>sort.Slice\<close> leaves elements (the indices of the elements in that order: the sort is not stable). A
  rejected or lost acknowledgement says whether the message was stored all the same. Rows that are equal
  in an \<open>ORDER BY\<close> come in the order of the table.
\<close>

subsection \<open>The broker\<close>

datatype delivery = Acked | Lost string bool

record EventPublication =
  Subject :: string
  Data :: string
  EventID :: string

record broker =
  messages :: "EventPublication list"
  sent :: nat

record 'd stream_env = "'d pg_env" +
  marshalEvent :: "'d TransactionPostedEvent \<Rightarrow> string option"
  unmarshalEvent :: "string \<Rightarrow> 'd TransactionPostedEvent option"
  publishOutcome :: "nat \<Rightarrow> delivery"
  sendOutcome :: "nat \<Rightarrow> string option"
  sliceOrder :: "uuid list \<Rightarrow> nat list"

definition TransactionPostedSubject :: string where
  "TransactionPostedSubject = ''ledger.transaction_posted''"

definition AggregateConsumerName :: string where
  "AggregateConsumerName = ''daily-aggregates-v1''"

definition transactionPosted :: string where
  "transactionPosted = ''transaction_posted''"

text \<open>An \<open>EventPublisher\<close>, which may also be a \<open>BatchEventPublisher\<close>. Errors of the broker are texts.\<close>

record publisher =
  Publish :: "EventPublication \<Rightarrow> broker \<Rightarrow> broker \<times> string option"
  PublishBatch :: "(EventPublication list \<Rightarrow> broker \<Rightarrow> broker \<times> string option list) option"

text \<open>What the broker does with the next message, and the error the acknowledgement carries.\<close>

definition deliver :: "('d, 'm) stream_env_scheme \<Rightarrow> EventPublication \<Rightarrow> broker \<Rightarrow> broker \<times> string option" where
  "deliver env p b =
     (case publishOutcome env (sent b) of
        Acked \<Rightarrow> (b\<lparr>messages := messages b @ [p], sent := Suc (sent b)\<rparr>, None)
      | Lost e stored \<Rightarrow> (b\<lparr>messages := (if stored then messages b @ [p] else messages b), sent := Suc (sent b)\<rparr>, Some e))"

text \<open>
  The first loop of \<open>PublishBatch\<close>: \<open>PublishAsync\<close> fails at once, or gives a future, here the error (or none) that the
  second loop reads from it. A context that ends before the acknowledgement is one more such error.
\<close>

fun publishAsync :: "('d, 'm) stream_env_scheme \<Rightarrow> EventPublication list \<Rightarrow> broker \<Rightarrow> broker \<times> (string + string option) list" where
  "publishAsync env [] b = (b, [])"
| "publishAsync env (p # ps) b =
     (case sendOutcome env (sent b) of
        Some e \<Rightarrow> (case publishAsync env ps (b\<lparr>sent := Suc (sent b)\<rparr>) of (b, rs) \<Rightarrow> (b, Inl e # rs))
      | None \<Rightarrow> (case deliver env p b of (b, future) \<Rightarrow>
          case publishAsync env ps b of (b, rs) \<Rightarrow> (b, Inr future # rs)))"

definition JetStreamPublishBatch ::
  "('d, 'm) stream_env_scheme \<Rightarrow> EventPublication list \<Rightarrow> broker \<Rightarrow> broker \<times> string option list" where
  "JetStreamPublishBatch env publications b =
     (case publishAsync env publications b of (b, pending) \<Rightarrow>
        (b, map (\<lambda>r. case r of Inl e \<Rightarrow> Some e | Inr future \<Rightarrow> future) pending))"

definition JetStreamPublisher :: "('d, 'm) stream_env_scheme \<Rightarrow> publisher" where
  "JetStreamPublisher env = \<lparr>Publish = deliver env, PublishBatch = Some (JetStreamPublishBatch env)\<rparr>"

subsection \<open>Claiming events of the outbox\<close>

definition leaseDuration :: int where
  "leaseDuration = 10 * 1000000000"

definition expireLeases :: "time \<Rightarrow> 'd Database \<Rightarrow> 'd Database" where
  "expireLeases t d =
     d\<lparr>outboxT := map (\<lambda>r.
        if or_status r = ''processing'' \<and> or_type r = transactionPosted \<and> (case or_leaseExpires r of None \<Rightarrow> False | Some x \<Rightarrow> x \<le> t)
        then r\<lparr>or_status := ''pending'', or_leaseOwner := None, or_leaseExpires := None\<rparr> else r) (outboxT d)\<rparr>"

definition claimCandidates :: "time \<Rightarrow> nat \<Rightarrow> 'd Database \<Rightarrow> uuid list" where
  "claimCandidates t limit d =
     map or_id (take limit (sort_key or_created (filter (\<lambda>r.
       or_status r = ''pending'' \<and> or_type r = transactionPosted \<and> or_available r \<le> t) (outboxT d))))"

definition leaseEvents :: "uuid \<Rightarrow> time \<Rightarrow> uuid list \<Rightarrow> 'd Database \<Rightarrow> 'd Database" where
  "leaseEvents owner t ids d =
     d\<lparr>outboxT := map (\<lambda>r. if or_id r \<in> set ids
        then r\<lparr>or_status := ''processing'', or_leaseOwner := Some owner, or_leaseExpires := Some (t + leaseDuration)\<rparr> else r) (outboxT d)\<rparr>"

definition claimTransactionOutboxEvents :: "('d, 'm) pg_env_scheme \<Rightarrow> uuid \<Rightarrow> nat \<Rightarrow> ('d, nat) act" where
  "claimTransactionOutboxEvents env owner limit =
     bindE (dbCall env ''expire leases'') (\<lambda>_.
     bindE (timeP env) (\<lambda>t.
     bindE (modifyDb (expireLeases t)) (\<lambda>_.
     bindE (dbCall env ''claim events'') (\<lambda>_.
     bindE (timeP env) (\<lambda>t.
     bindE getDb (\<lambda>d.
     let candidates = claimCandidates t limit d
     in bindE (modifyDb (leaseEvents owner t candidates)) (\<lambda>_. returnE (length candidates))))))))"

text \<open>The rows of the join, and the loop that groups the consecutive rows of one event.\<close>

type_synonym 'd hydrateRow = "uuid \<times> uuid \<times> TransactionRow \<times> 'd EntryRow"

definition claimedRows :: "uuid \<Rightarrow> 'd Database \<Rightarrow> OutboxRow list" where
  "claimedRows owner d =
     sort_key (\<lambda>r. (or_created r, or_id r)) (filter (\<lambda>r. or_status r = ''processing'' \<and> or_leaseOwner r = Some owner) (outboxT d))"

definition rowsOfEvent :: "'d Database \<Rightarrow> OutboxRow \<Rightarrow> 'd hydrateRow list" where
  "rowsOfEvent d r =
     (case or_transaction r of
        None \<Rightarrow> []
      | Some tid \<Rightarrow>
          (case transactionsT d tid of
             None \<Rightarrow> []
           | Some tx \<Rightarrow> map (\<lambda>e. (or_id r, tid, tx, e)) (sort_key er_id (filter (\<lambda>e. er_transaction e = tid) (entriesT d)))))"

definition entryOf :: "('d, 'm) pg_env_scheme \<Rightarrow> uuid \<Rightarrow> 'd EntryRow \<Rightarrow> 'd Entry" where
  "entryOf env tid e = \<lparr>e_ID = uuidString env (er_id e), e_AccountID = uuidString env (er_account e),
     e_TransactionID = uuidString env tid, e_Credit = er_credit e, e_Debit = er_debit e\<rparr>"

definition newEvent :: "('d, 'm) pg_env_scheme \<Rightarrow> uuid \<Rightarrow> uuid \<Rightarrow> TransactionRow \<Rightarrow> 'd TransactionPostedEvent" where
  "newEvent env eventID tid tx = \<lparr>pe_EventID = uuidString env eventID, pe_Type = transactionPosted,
     pe_TransactionID = uuidString env tid, pe_LedgerID = uuidString env (tr_ledger tx), pe_Timestamp = tr_created tx, pe_Entries = []\<rparr>"

definition addEntry :: "'d Entry \<Rightarrow> 'd TransactionPostedEvent list \<Rightarrow> 'd TransactionPostedEvent list" where
  "addEntry x events =
     (let index = length events - 1 in events[index := (events ! index)\<lparr>pe_Entries := pe_Entries (events ! index) @ [x]\<rparr>])"

fun hydrateLoop ::
  "('d, 'm) pg_env_scheme \<Rightarrow> 'd hydrateRow list \<Rightarrow> uuid \<Rightarrow> 'd TransactionPostedEvent list \<Rightarrow> 'd TransactionPostedEvent list" where
  "hydrateLoop env [] currentID events = events"
| "hydrateLoop env ((eventID, tid, tx, e) # rows) currentID events =
     (if events = [] \<or> eventID \<noteq> currentID
      then hydrateLoop env rows eventID (addEntry (entryOf env tid e) (events @ [newEvent env eventID tid tx]))
      else hydrateLoop env rows currentID (addEntry (entryOf env tid e) events))"

definition hydrateClaimedTransactionEvents :: "('d, 'm) pg_env_scheme \<Rightarrow> uuid \<Rightarrow> ('d, 'd TransactionPostedEvent list) act" where
  "hydrateClaimedTransactionEvents env owner =
     bindE (dbCall env ''hydrate events'') (\<lambda>_.
     bindE getDb (\<lambda>d.
     returnE (hydrateLoop env (concat (map (rowsOfEvent d) (claimedRows owner d))) uuidNil [])))"

definition publishBackoff :: "nat \<Rightarrow> int" where
  "publishBackoff attempts = 2 ^ min attempts 8 * 100 * 1000000"

definition completeClaim :: "time \<Rightarrow> uuid \<Rightarrow> uuid list \<Rightarrow> uuid list \<Rightarrow> 'd Database \<Rightarrow> 'd Database" where
  "completeClaim t owner succeeded failed d =
     d\<lparr>outboxT := map (\<lambda>r.
        if or_leaseOwner r = Some owner \<and> or_id r \<in> set succeeded
        then r\<lparr>or_status := ''processed'', or_attempts := Suc (or_attempts r), or_leaseOwner := None, or_leaseExpires := None\<rparr>
        else if or_leaseOwner r = Some owner \<and> or_id r \<in> set failed
        then r\<lparr>or_status := ''pending'', or_attempts := Suc (or_attempts r),
               or_available := t + publishBackoff (or_attempts r), or_leaseOwner := None, or_leaseExpires := None\<rparr>
        else r) (outboxT d)\<rparr>"

definition completeTransactionOutboxClaim ::
  "('d, 'm) pg_env_scheme \<Rightarrow> uuid \<Rightarrow> uuid list \<Rightarrow> uuid list \<Rightarrow> ('d, unit) act" where
  "completeTransactionOutboxClaim env owner succeeded failed =
     bindE (dbCall env ''complete claim'') (\<lambda>_.
     bindE (timeP env) (\<lambda>t. modifyDb (completeClaim t owner succeeded failed)))"

definition releaseTransactionOutboxClaim :: "('d, 'm) pg_env_scheme \<Rightarrow> uuid \<Rightarrow> ('d, unit) act" where
  "releaseTransactionOutboxClaim env owner =
     bindE (dbCall env ''release claim'') (\<lambda>_.
     modifyDb (\<lambda>d. d\<lparr>outboxT := map (\<lambda>r. if or_leaseOwner r = Some owner
        then r\<lparr>or_status := ''pending'', or_leaseOwner := None, or_leaseExpires := None\<rparr> else r) (outboxT d)\<rparr>))"

text \<open>The two older helpers, which nothing calls any more.\<close>

definition nextTransactionOutboxEvent :: "('d, 'm) pg_env_scheme \<Rightarrow> ('d, 'd TransactionPostedEvent) act" where
  "nextTransactionOutboxEvent env =
     atomically (
     bindE (dbCall env ''begin'') (\<lambda>_.
     bindE (timeP env) (\<lambda>t.
     bindE (dbCall env ''select event'') (\<lambda>_.
     bindE getDb (\<lambda>d.
     case sort_key (\<lambda>(r, _). or_created r) (List.map_filter (\<lambda>r.
         if or_status r = ''pending'' \<and> or_type r = transactionPosted \<and> or_available r \<le> t
         then case or_transaction r of
             None \<Rightarrow> None
           | Some tid \<Rightarrow> map_option (\<lambda>tx. (r, tid, tx)) (transactionsT d tid)
         else None) (outboxT d)) of
       [] \<Rightarrow> failE NoRows
     | (r, tid, tx) # _ \<Rightarrow>
         bindE (dbCall env ''select entries'') (\<lambda>_.
         bindE (dbCall env ''commit'') (\<lambda>_.
         returnE ((newEvent env (or_id r) tid tx)\<lparr>pe_Entries :=
           map (entryOf env tid) (sort_key er_id (filter (\<lambda>e. er_transaction e = tid) (entriesT d)))\<rparr>)))))))) "

definition rescheduleOutboxEvent :: "('d, 'm) pg_env_scheme \<Rightarrow> string \<Rightarrow> ('d, unit) act" where
  "rescheduleOutboxEvent env eventID =
     bindE (dbCall env ''reschedule event'') (\<lambda>_.
     bindE (timeP env) (\<lambda>t.
     case uuidParse env eventID of
       None \<Rightarrow> failE (DbFault ''reschedule event'' (OtherFault ''22P02''))
     | Some eid \<Rightarrow> modifyDb (\<lambda>d. d\<lparr>outboxT := map (\<lambda>r. if or_id r = eid \<and> or_status r = ''pending''
         then r\<lparr>or_attempts := Suc (or_attempts r), or_available := t + publishBackoff (or_attempts r)\<rparr> else r) (outboxT d)\<rparr>)))"

subsection \<open>Publishing\<close>

text \<open>An event with what became of its encoding: the error of \<open>json.Marshal\<close>, or the publication.\<close>

definition preparePublication ::
  "('d, 'm) stream_env_scheme \<Rightarrow> 'd TransactionPostedEvent \<Rightarrow> string + EventPublication" where
  "preparePublication env ev =
     (case marshalEvent env ev of
        None \<Rightarrow> Inl ''json: error calling MarshalJSON''
      | Some payload \<Rightarrow> Inr \<lparr>Subject = TransactionPostedSubject, Data = payload, EventID = pe_EventID ev\<rparr>)"

fun validPublications :: "(string + EventPublication) list \<Rightarrow> EventPublication list" where
  "validPublications [] = []"
| "validPublications (Inl _ # rs) = validPublications rs"
| "validPublications (Inr p # rs) = p # validPublications rs"

text \<open>\<open>publishErrors[eventIndex] = batchResults[resultIndex]\<close> for the valid indexes; the others keep their error.\<close>

fun mergeResults :: "(string + EventPublication) list \<Rightarrow> string option list \<Rightarrow> string option list" where
  "mergeResults [] results = []"
| "mergeResults (Inl e # rs) results = Some e # mergeResults rs results"
| "mergeResults (Inr p # rs) results =
     (case results of [] \<Rightarrow> None # mergeResults rs [] | x # results \<Rightarrow> x # mergeResults rs results)"

fun publishEach ::
  "(EventPublication \<Rightarrow> broker \<Rightarrow> broker \<times> string option) \<Rightarrow> (string + EventPublication) list \<Rightarrow> broker
     \<Rightarrow> broker \<times> string option list" where
  "publishEach publish [] b = (b, [])"
| "publishEach publish (Inl e # rs) b = (case publishEach publish rs b of (b, es) \<Rightarrow> (b, Some e # es))"
| "publishEach publish (Inr p # rs) b =
     (case publish p b of (b, x) \<Rightarrow> case publishEach publish rs b of (b, es) \<Rightarrow> (b, x # es))"

definition invalidResultCount :: string where
  "invalidResultCount = ''batch publisher returned an invalid result count''"

definition publishAll ::
  "publisher \<Rightarrow> (string + EventPublication) list \<Rightarrow> broker \<Rightarrow> broker \<times> string option list" where
  "publishAll pub prepared b =
     (case PublishBatch pub of
        Some publishBatch \<Rightarrow>
          (let valid = validPublications prepared
           in case publishBatch valid b of (b, results) \<Rightarrow>
             (b, mergeResults prepared
               (if length results \<noteq> length valid then replicate (length valid) (Some invalidResultCount) else results)))
      | None \<Rightarrow> publishEach (Publish pub) prepared b)"

definition succeededIDs :: "('d, 'm) pg_env_scheme \<Rightarrow> 'd TransactionPostedEvent list \<Rightarrow> string option list \<Rightarrow> uuid list" where
  "succeededIDs env events errs =
     map (\<lambda>(ev, _). parseOrNil env (pe_EventID ev)) (filter (\<lambda>(_, e). e = None) (zip events errs))"

definition failedIDs :: "('d, 'm) pg_env_scheme \<Rightarrow> 'd TransactionPostedEvent list \<Rightarrow> string option list \<Rightarrow> uuid list" where
  "failedIDs env events errs =
     map (\<lambda>(ev, _). parseOrNil env (pe_EventID ev)) (filter (\<lambda>(_, e). e \<noteq> None) (zip events errs))"

definition firstError :: "string option list \<Rightarrow> string option" where
  "firstError errs = (case List.map_filter (\<lambda>e. e) errs of [] \<Rightarrow> None | e # _ \<Rightarrow> Some e)"

text \<open>
  The count comes with the error. \<open>uuid.MustParse\<close> reads identifiers that \<open>hydrateClaimedTransactionEvents\<close> printed; it
  does not panic.
\<close>

definition PublishCommittedEvents ::
  "('d, 'm) stream_env_scheme \<Rightarrow> publisher \<Rightarrow> int \<Rightarrow> broker \<times> 'd Pg \<Rightarrow> (broker \<times> 'd Pg) \<times> nat \<times> 'd err option" where
  "PublishCommittedEvents env pub limit bs =
     (case bs of (b, s) \<Rightarrow>
      case newID env s of
        (s, Inl e) \<Rightarrow> ((b, s), 0, Some e)
      | (s, Inr owner) \<Rightarrow>
        case claimTransactionOutboxEvents env owner (if limit \<le> 0 then 100 else nat limit) s of
          (s, Inl e) \<Rightarrow> ((b, s), 0, Some e)
        | (s, Inr n) \<Rightarrow>
          if n = 0 then ((b, s), 0, None)
          else case hydrateClaimedTransactionEvents env owner s of
              (s, Inl e) \<Rightarrow> ((b, fst (releaseTransactionOutboxClaim env owner s)), 0, Some e)
            | (s, Inr events) \<Rightarrow>
              case publishAll pub (map (preparePublication env) events) b of (b, errs) \<Rightarrow>
              case completeTransactionOutboxClaim env owner (succeededIDs env events errs) (failedIDs env events errs) s of
                (s, Inl e) \<Rightarrow> ((b, s), 0, Some e)
              | (s, Inr _) \<Rightarrow> ((b, s), length (succeededIDs env events errs), map_option PublishError (firstError errs)))"

subsection \<open>Projecting\<close>

record 'd preparedPostedEvent =
  pp_index :: nat
  pp_event :: "'d TransactionPostedEvent"
  pp_eventID :: uuid
  pp_ledgerID :: uuid

record 'd aggregateDelta =
  ad_debit :: 'd
  ad_credit :: 'd
  ad_lastEventID :: uuid

text \<open>The day of a time in UTC, as a number of days; its text \<open>2006-01-02\<close> is the key of the source.\<close>

definition dayOf :: "time \<Rightarrow> int" where
  "dayOf t = t div (86400 * 1000000000)"

definition preparePosted ::
  "('d, 'm) pg_env_scheme \<Rightarrow> nat \<times> 'd TransactionPostedEvent \<Rightarrow> ('d err, 'd preparedPostedEvent) res" where
  "preparePosted env p =
     (case p of (index, ev) \<Rightarrow>
        case uuidParse env (pe_EventID ev) of
          None \<Rightarrow> Inl (InvalidID ''event'' (pe_EventID ev))
        | Some eventID \<Rightarrow>
          case uuidParse env (pe_LedgerID ev) of
            None \<Rightarrow> Inl (InvalidID ''ledger'' (pe_LedgerID ev))
          | Some ledgerID \<Rightarrow>
            if pe_Type ev \<noteq> transactionPosted then Inl (UnexpectedEventType (pe_Type ev))
            else Inr \<lparr>pp_index = index, pp_event = ev, pp_eventID = eventID, pp_ledgerID = ledgerID\<rparr>)"

fun prepareAll ::
  "('d, 'm) pg_env_scheme \<Rightarrow> (nat \<times> 'd TransactionPostedEvent) list \<Rightarrow> ('d err, 'd preparedPostedEvent list) res" where
  "prepareAll env [] = Inr []"
| "prepareAll env (p # ps) = bindR (preparePosted env p) (\<lambda>x. bindR (prepareAll env ps) (\<lambda>xs. Inr (x # xs)))"

definition sortPrepared :: "('d, 'm) stream_env_scheme \<Rightarrow> 'd preparedPostedEvent list \<Rightarrow> 'd preparedPostedEvent list" where
  "sortPrepared env ps = map ((!) ps) (sliceOrder env (map pp_eventID ps))"

text \<open>\<open>INSERT INTO processed_events ... ON CONFLICT DO NOTHING RETURNING event_id\<close>: the new table and what is returned.\<close>

fun insertInbox :: "string \<Rightarrow> uuid list \<Rightarrow> (string \<times> uuid) list \<Rightarrow> (string \<times> uuid) list \<times> uuid list" where
  "insertInbox consumer [] inbox = (inbox, [])"
| "insertInbox consumer (eid # eids) inbox =
     (if (consumer, eid) \<in> set inbox then insertInbox consumer eids inbox
      else case insertInbox consumer eids (inbox @ [(consumer, eid)]) of (inbox, new) \<Rightarrow> (inbox, eid # new))"

type_synonym 'd deltas = "((uuid \<times> int) \<times> 'd aggregateDelta) list"

definition deltaOf :: "'d :: zero deltas \<Rightarrow> uuid \<times> int \<Rightarrow> 'd aggregateDelta" where
  "deltaOf ds k =
     (case map_of ds k of None \<Rightarrow> \<lparr>ad_debit = 0, ad_credit = 0, ad_lastEventID = uuidNil\<rparr> | Some x \<Rightarrow> x)"

fun addEntries ::
  "('d :: linordered_ab_group_add, 'm) pg_env_scheme \<Rightarrow> int \<Rightarrow> uuid \<Rightarrow> 'd Entry list \<Rightarrow> 'd deltas \<Rightarrow> 'd aggregateDelta
     \<Rightarrow> ('d err, 'd deltas \<times> 'd aggregateDelta) res" where
  "addEntries env day eventID [] accountDeltas ledgerDelta = Inr (accountDeltas, ledgerDelta)"
| "addEntries env day eventID (e # es) accountDeltas ledgerDelta =
     (case uuidParse env (e_AccountID e) of
        None \<Rightarrow> Inl (InvalidID ''account'' (e_AccountID e))
      | Some accountID \<Rightarrow>
          let old = deltaOf accountDeltas (accountID, day)
          in addEntries env day eventID es
               (AList.update (accountID, day) \<lparr>ad_debit = ad_debit old + e_Debit e, ad_credit = ad_credit old + e_Credit e,
                  ad_lastEventID = eventID\<rparr> accountDeltas)
               (ledgerDelta\<lparr>ad_debit := ad_debit ledgerDelta + e_Debit e, ad_credit := ad_credit ledgerDelta + e_Credit e\<rparr>))"

text \<open>The loop over the prepared events; the state is what the source declares before it.\<close>

record 'd projection =
  pj_applied :: "bool list"
  pj_accounts :: "'d deltas"
  pj_ledgers :: "'d deltas"
  pj_aggregated :: "uuid list"

fun aggregateLoop ::
  "('d :: linordered_ab_group_add, 'm) pg_env_scheme \<Rightarrow> uuid list \<Rightarrow> 'd preparedPostedEvent list \<Rightarrow> 'd projection
     \<Rightarrow> ('d err, 'd projection) res" where
  "aggregateLoop env newEvents [] st = Inr st"
| "aggregateLoop env newEvents (p # ps) st =
     (if pp_eventID p \<notin> set newEvents \<or> pp_eventID p \<in> set (pj_aggregated st) then aggregateLoop env newEvents ps st
      else
        let day = dayOf (pe_Timestamp (pp_event p));
            ledgerKey = (pp_ledgerID p, day);
            ledgerDelta = (deltaOf (pj_ledgers st) ledgerKey)\<lparr>ad_lastEventID := pp_eventID p\<rparr>
        in case addEntries env day (pp_eventID p) (pe_Entries (pp_event p)) (pj_accounts st) ledgerDelta of
            Inl e \<Rightarrow> Inl e
          | Inr (accountDeltas, ledgerDelta) \<Rightarrow>
              aggregateLoop env newEvents ps
                \<lparr>pj_applied = (pj_applied st)[pp_index p := True], pj_accounts = accountDeltas,
                 pj_ledgers = AList.update ledgerKey ledgerDelta (pj_ledgers st),
                 pj_aggregated = pp_eventID p # pj_aggregated st\<rparr>)"

text \<open>One row of the upsert; \<open>referenced\<close> says whether the identifier may be inserted.\<close>

definition upsertDay ::
  "('d :: linordered_ab_group_add, 'm) pg_env_scheme \<Rightarrow> time \<Rightarrow> (uuid \<Rightarrow> bool) \<Rightarrow> (uuid \<times> int) \<times> 'd aggregateDelta
     \<Rightarrow> ((uuid \<times> int) \<times> 'd DayRow) list \<Rightarrow> ('d err, ((uuid \<times> int) \<times> 'd DayRow) list) res" where
  "upsertDay env t referenced p rows =
     (case p of (k, delta) \<Rightarrow>
        case (numeric env (ad_debit delta), numeric env (ad_credit delta)) of
          (Some debit, Some credit) \<Rightarrow>
            (case map_of rows k of
               None \<Rightarrow>
                 if referenced (fst k)
                 then Inr (rows @ [(k, \<lparr>dr_debit = debit, dr_credit = credit, dr_updated = t, dr_lastEvent = ad_lastEventID delta\<rparr>)])
                 else Inl (DbConstraint ''daily_account_aggregates_account_id_fkey'')
             | Some row \<Rightarrow>
                 (case (numeric env (dr_debit row + debit), numeric env (dr_credit row + credit)) of
                    (Some debit, Some credit) \<Rightarrow>
                      Inr (AList.update k \<lparr>dr_debit = debit, dr_credit = credit, dr_updated = t, dr_lastEvent = ad_lastEventID delta\<rparr> rows)
                  | _ \<Rightarrow> Inl (DbConstraint ''numeric field overflow'')))
        | _ \<Rightarrow> Inl (DbConstraint ''numeric field overflow''))"

fun upsertDays ::
  "('d :: linordered_ab_group_add, 'm) pg_env_scheme \<Rightarrow> time \<Rightarrow> (uuid \<Rightarrow> bool) \<Rightarrow> 'd deltas
     \<Rightarrow> ((uuid \<times> int) \<times> 'd DayRow) list \<Rightarrow> ('d err, ((uuid \<times> int) \<times> 'd DayRow) list) res" where
  "upsertDays env t referenced [] rows = Inr rows"
| "upsertDays env t referenced (p # ps) rows = bindR (upsertDay env t referenced p rows) (upsertDays env t referenced ps)"

definition upsertAggregateDeltas ::
  "('d :: linordered_ab_group_add, 'm) pg_env_scheme \<Rightarrow> time \<Rightarrow> (uuid \<Rightarrow> bool) \<Rightarrow> 'd deltas
     \<Rightarrow> ((uuid \<times> int) \<times> 'd DayRow) list \<Rightarrow> ('d err, ((uuid \<times> int) \<times> 'd DayRow) list) res" where
  "upsertAggregateDeltas env t referenced deltas rows = upsertDays env t referenced (sort_key fst deltas) rows"

text \<open>The part of the transaction after the inbox took the events; an empty table of deltas needs no statement.\<close>

definition writeProjection ::
  "('d :: linordered_ab_group_add, 'm) pg_env_scheme \<Rightarrow> time \<Rightarrow> 'd projection \<Rightarrow> ('d, unit) act" where
  "writeProjection env t st =
     bindE (if pj_accounts st = [] then returnE ()
        else execDb env ''upsert account aggregates'' (\<lambda>d.
          bindR (upsertAggregateDeltas env t (\<lambda>a. accountsReferenced env \<longrightarrow> accountRow d a \<noteq> None) (pj_accounts st) (accountDaysT d))
            (\<lambda>rows. Inr (d\<lparr>accountDaysT := rows\<rparr>)))) (\<lambda>_.
     if pj_ledgers st = [] then returnE ()
     else execDb env ''upsert ledger aggregates'' (\<lambda>d.
       bindR (upsertAggregateDeltas env t (\<lambda>_. True) (pj_ledgers st) (ledgerDaysT d)) (\<lambda>rows. Inr (d\<lparr>ledgerDaysT := rows\<rparr>))))"

definition projectTransaction ::
  "('d :: linordered_ab_group_add, 'm) pg_env_scheme \<Rightarrow> string \<Rightarrow> nat \<Rightarrow> 'd preparedPostedEvent list \<Rightarrow> ('d, bool list) act" where
  "projectTransaction env consumer n prepared =
     atomically (
     bindE (dbCall env ''begin'') (\<lambda>_.
     bindE (timeP env) (\<lambda>t.
     bindE (dbCall env ''insert inbox'') (\<lambda>_.
     bindE getDb (\<lambda>d.
     case insertInbox consumer (map pp_eventID prepared) (inboxT d) of (inbox, newEvents) \<Rightarrow>
       bindE (modifyDb (\<lambda>d. d\<lparr>inboxT := inbox\<rparr>)) (\<lambda>_.
       bindE (liftE (aggregateLoop env newEvents prepared
         \<lparr>pj_applied = replicate n False, pj_accounts = [], pj_ledgers = [], pj_aggregated = []\<rparr>)) (\<lambda>st.
       bindE (writeProjection env t st) (\<lambda>_.
       bindE (dbCall env ''commit'') (\<lambda>_. returnE (pj_applied st))))))))))"

definition ApplyTransactionPostedBatch ::
  "('d :: linordered_ab_group_add, 'm) stream_env_scheme \<Rightarrow> string \<Rightarrow> 'd TransactionPostedEvent list \<Rightarrow> ('d, bool list) act" where
  "ApplyTransactionPostedBatch env consumer events =
     (if consumer = '''' then failE ConsumerRequired
      else if events = [] then returnE []
      else
        bindE (liftE (prepareAll env (enumerate 0 events))) (\<lambda>prepared.
        bindE (projectTransaction env consumer (length events) (sortPrepared env prepared)) (\<lambda>applied.
        bindE (mapE (\<lambda>ev. notifyProjection (pe_TransactionID ev)) events) (\<lambda>_.
        returnE applied))))"

definition ApplyTransactionPosted ::
  "('d :: linordered_ab_group_add, 'm) stream_env_scheme \<Rightarrow> string \<Rightarrow> 'd TransactionPostedEvent \<Rightarrow> ('d, bool) act" where
  "ApplyTransactionPosted env consumer ev =
     bindE (ApplyTransactionPostedBatch env consumer [ev]) (\<lambda>applied. returnE (applied ! 0))"

subsection \<open>Reading the projection\<close>

definition addAggregate ::
  "('d, 'm) pg_env_scheme \<Rightarrow> (uuid \<times> int) \<times> 'd DayRow \<Rightarrow> 'd AggregateResponse \<Rightarrow> 'd AggregateResponse" where
  "addAggregate env p response =
     (case p of ((_, day), row) \<Rightarrow>
        let response = response\<lparr>Aggregates := Aggregates response @ [\<lparr>da_Day = day, da_Debit = dr_debit row, da_Credit = dr_credit row\<rparr>]\<rparr>
        in if ProjectionTimestamp response < dr_updated row
           then response\<lparr>ProjectionTimestamp := dr_updated row, LastEventID := uuidString env (dr_lastEvent row)\<rparr> else response)"

definition getDailyAggregates ::
  "('d, 'm) pg_env_scheme \<Rightarrow> ('d Database \<Rightarrow> ((uuid \<times> int) \<times> 'd DayRow) list) \<Rightarrow> uuid \<Rightarrow> ('d, 'd AggregateResponse) act" where
  "getDailyAggregates env table k =
     bindE (dbCall env ''select aggregates'') (\<lambda>_.
     bindE getDb (\<lambda>d.
     returnE (fold (addAggregate env)
       (sort_key (\<lambda>((_, day), _). day) (filter (\<lambda>((i, _), _). i = k) (table d)))
       \<lparr>Aggregates = [], ProjectionTimestamp = 0, LastEventID = ''''\<rparr>)))"

definition GetAccountDailyAggregates :: "('d, 'm) pg_env_scheme \<Rightarrow> string \<Rightarrow> ('d, 'd AggregateResponse) act" where
  "GetAccountDailyAggregates env accountID =
     bindE (parseE env ''account'' accountID) (getDailyAggregates env accountDaysT)"

definition GetLedgerDailyAggregates :: "('d, 'm) pg_env_scheme \<Rightarrow> string \<Rightarrow> ('d, 'd AggregateResponse) act" where
  "GetLedgerDailyAggregates env ledgerID =
     bindE (parseE env ''ledger'' ledgerID) (getDailyAggregates env ledgerDaysT)"

definition postedEventOf :: "uuid \<Rightarrow> 'd Database \<Rightarrow> uuid option" where
  "postedEventOf tid d =
     map_option or_id (find (\<lambda>r. or_transaction r = Some tid \<and> or_type r = transactionPosted) (outboxT d))"

definition GetTransactionProjectionStatus ::
  "('d, 'm) pg_env_scheme \<Rightarrow> string \<Rightarrow> string \<Rightarrow> ('d, TransactionProjectionStatus) act" where
  "GetTransactionProjectionStatus env transactionID consumer =
     (if consumer = '''' then failE ConsumerRequired
      else bindE (parseE env ''transaction'' transactionID) (\<lambda>tid.
        bindE (dbCall env ''get transaction projection status'') (\<lambda>_.
        bindE getDb (\<lambda>d.
        case postedEventOf tid d of
          None \<Rightarrow> failE (ProjectionNotFound (uuidString env tid))
        | Some eid \<Rightarrow> returnE \<lparr>ps_TransactionID = uuidString env tid, ps_EventID = uuidString env eid, ps_Consumer = consumer,
            ps_Projected = (consumer, eid) \<in> set (inboxT d)\<rparr>))))"

definition WaitForTransactionProjection ::
  "('d, 'm) pg_env_scheme \<Rightarrow> ('d Pg \<Rightarrow> 'd Pg) \<Rightarrow> ('d Pg \<Rightarrow> 'd Pg) \<Rightarrow> string \<Rightarrow> string \<Rightarrow> int \<Rightarrow> ('d, TransactionProjectionStatus) act" where
  "WaitForTransactionProjection env others1 others2 transactionID consumer timeout =
     waitForCompletion others1 others2
       (\<lambda>key s. case subscribe key (projectionWaiters s) of (w, wid, _) \<Rightarrow> (s\<lparr>projectionWaiters := w\<rparr>, wid))
       (\<lambda>key wid s. s\<lparr>projectionWaiters := unsubscribe key wid (projectionWaiters s)\<rparr>)
       timeout (bindE (GetTransactionProjectionStatus env transactionID consumer) (\<lambda>st. returnE (st, ps_Projected st))) transactionID"

text \<open>
  \<open>ProjectionStatusStore\<close>: the outbox in one database and the inbox in another. The two stores share their waiters
  (\<open>WithDatabase\<close>), here those of the first.
\<close>

record 'd ProjectionStatusStore =
  oltp :: "'d Pg"
  projectionDB :: "'d Pg"

definition ProjectionStatus ::
  "('d, 'm) pg_env_scheme \<Rightarrow> string \<Rightarrow> string \<Rightarrow> 'd ProjectionStatusStore \<Rightarrow> 'd ProjectionStatusStore \<times> ('d err, TransactionProjectionStatus) res" where
  "ProjectionStatus env transactionID consumer s =
     (if consumer = '''' then (s, Inl ConsumerRequired)
      else case uuidParse env transactionID of
          None \<Rightarrow> (s, Inl (InvalidID ''transaction'' transactionID))
        | Some tid \<Rightarrow>
          case bindE (dbCall env ''get transaction projection event'') (\<lambda>_. getDb) (oltp s) of
            (o1, Inl e) \<Rightarrow> (s\<lparr>oltp := o1\<rparr>, Inl e)
          | (o1, Inr d) \<Rightarrow>
            case postedEventOf tid d of
              None \<Rightarrow> (s\<lparr>oltp := o1\<rparr>, Inl (ProjectionNotFound (uuidString env tid)))
            | Some eid \<Rightarrow>
              case bindE (dbCall env ''get projection inbox status'') (\<lambda>_. getDb) (projectionDB s) of
                (p1, Inl e) \<Rightarrow> (s\<lparr>oltp := o1, projectionDB := p1\<rparr>, Inl e)
              | (p1, Inr d) \<Rightarrow> (s\<lparr>oltp := o1, projectionDB := p1\<rparr>,
                  Inr \<lparr>ps_TransactionID = uuidString env tid, ps_EventID = uuidString env eid, ps_Consumer = consumer,
                    ps_Projected = (consumer, eid) \<in> set (inboxT d)\<rparr>))"

definition WaitForProjectionStatus ::
  "('d, 'm) pg_env_scheme \<Rightarrow> ('d ProjectionStatusStore \<Rightarrow> 'd ProjectionStatusStore) \<Rightarrow> ('d ProjectionStatusStore \<Rightarrow> 'd ProjectionStatusStore)
     \<Rightarrow> string \<Rightarrow> string \<Rightarrow> int \<Rightarrow> 'd ProjectionStatusStore \<Rightarrow> 'd ProjectionStatusStore \<times> ('d err, TransactionProjectionStatus) res" where
  "WaitForProjectionStatus env others1 others2 transactionID consumer timeout =
     waitForCompletion others1 others2
       (\<lambda>key s. case subscribe key (projectionWaiters (oltp s)) of (w, wid, _) \<Rightarrow> (s\<lparr>oltp := (oltp s)\<lparr>projectionWaiters := w\<rparr>\<rparr>, wid))
       (\<lambda>key wid s. s\<lparr>oltp := (oltp s)\<lparr>projectionWaiters := unsubscribe key wid (projectionWaiters (oltp s))\<rparr>\<rparr>)
       timeout
       (\<lambda>s. case ProjectionStatus env transactionID consumer s of (s, Inl e) \<Rightarrow> (s, Inl e) | (s, Inr st) \<Rightarrow> (s, Inr (st, ps_Projected st)))
       transactionID"

subsection \<open>The consumer\<close>

text \<open>What becomes of a message: acknowledged, given back for redelivery, or given up.\<close>

datatype verdict = Ack | Nak | Term

text \<open>
  The body of the loop of a worker, on the messages of one fetch: a message that cannot be decoded is given up; the
  others are acknowledged together after they were projected, and given back together when that failed.
\<close>

definition consumeBatch ::
  "('d :: linordered_ab_group_add, 'm) stream_env_scheme \<Rightarrow> EventPublication list \<Rightarrow> 'd Pg \<Rightarrow> 'd Pg \<times> verdict list" where
  "consumeBatch env msgs s =
     (let decoded = map (\<lambda>m. unmarshalEvent env (Data m)) msgs;
          events = List.map_filter (\<lambda>x. x) decoded
      in if events = [] then (s, map (\<lambda>_. Term) msgs)
         else case ApplyTransactionPostedBatch env AggregateConsumerName events s of
             (s, Inl _) \<Rightarrow> (s, map (\<lambda>x. if x = None then Term else Nak) decoded)
           | (s, Inr _) \<Rightarrow> (s, map (\<lambda>x. if x = None then Term else Ack) decoded))"

end
