(* ===== verification/Pg_Transfer_Books.thy ===== *)
theory Pg_Transfer_Books
  imports Pg_Transfer Pg_Properties
begin

text \<open>
  What the transfer path of the PostgreSQL store does to the tables: the clearing accounts it adds, the legs it posts,
  and the sagas it opens and completes.
\<close>

subsection \<open>Actions that succeed\<close>

lemma dbCall_then:
  "bindE (dbCall env w) f s = (s', Inr x) \<longleftrightarrow>
     fault env (calls s) = None \<and> f () (s\<lparr>calls := Suc (calls s)\<rparr>) = (s', Inr x)"
  by (auto simp: bindE_Inr dbCall_def split: option.splits)

lemma execDb_then:
  "bindE (execDb env w g) f s = (s', Inr x) \<longleftrightarrow>
     fault env (calls s) = None \<and> (\<exists>d. g (db s) = Inr d \<and> f () (s\<lparr>calls := Suc (calls s), db := d\<rparr>) = (s', Inr x))"
  by (auto simp: bindE_Inr execDb_Inr)

lemma parseE_then:
  "bindE (parseE env w y) f s = (s', Inr x) \<longleftrightarrow> (\<exists>u. uuidParse env y = Some u \<and> f u s = (s', Inr x))"
  by (auto simp: parseE_def failE_def bindE_Inr returnE_def split: option.splits)

lemma liftE_then: "bindE (liftE r) f s = (s', Inr x) \<longleftrightarrow> (\<exists>y. r = Inr y \<and> f y s = (s', Inr x))"
  by (auto simp: bindE_liftE split: sum.splits)

lemmas act_then = dbCall_then execDb_then parseE_then liftE_then

subsection \<open>New accounts\<close>

lemma frame_tables [simp]:
  "pg_books env (d\<lparr>sagasT := a\<rparr>) = pg_books env d" "pg_books env (d\<lparr>stepsT := b\<rparr>) = pg_books env d"
  "pg_books env (d\<lparr>outboxT := c\<rparr>) = pg_books env d" "pg_books env (d\<lparr>inboxT := e\<rparr>) = pg_books env d"
  "pg_books env (d\<lparr>accountDaysT := f\<rparr>) = pg_books env d" "pg_books env (d\<lparr>ledgerDaysT := g\<rparr>) = pg_books env d"
  by (simp_all add: pg_books_def row_placed_def)

text \<open>Only accounts were added, with balance zero.\<close>

definition accounts_added :: "'d :: zero Database \<Rightarrow> 'd Database \<Rightarrow> bool" where
  "accounts_added d d' \<longleftrightarrow> (\<exists>news. d' = d\<lparr>accountsT := accountsT d @ news\<rparr> \<and>
     (distinct (map fst (accountsT d)) \<longrightarrow> distinct (map fst (accountsT d @ news))) \<and> (\<forall>p \<in> set news. ar_balance (snd p) = 0))"

lemma accounts_added_refl [simp]: "accounts_added d d"
  by (auto simp: accounts_added_def intro!: exI [of _ "[]"])

lemma accounts_added_trans:
  assumes "accounts_added d d1" and "accounts_added d1 d2"
  shows "accounts_added d d2"
proof -
  obtain n1 n2 where 1: "d1 = d\<lparr>accountsT := accountsT d @ n1\<rparr>"
    "distinct (map fst (accountsT d)) \<longrightarrow> distinct (map fst (accountsT d @ n1))" "\<forall>p \<in> set n1. ar_balance (snd p) = 0"
    and 2: "d2 = d1\<lparr>accountsT := accountsT d1 @ n2\<rparr>"
    "distinct (map fst (accountsT d1)) \<longrightarrow> distinct (map fst (accountsT d1 @ n2))" "\<forall>p \<in> set n2. ar_balance (snd p) = 0"
    using assms unfolding accounts_added_def by blast
  have "d2 = d\<lparr>accountsT := accountsT d @ (n1 @ n2)\<rparr>" using 1(1) 2(1) by simp
  moreover have "distinct (map fst (accountsT d)) \<longrightarrow> distinct (map fst (accountsT d @ (n1 @ n2)))"
    using 1(1,2) 2(2) by simp
  ultimately show ?thesis unfolding accounts_added_def using 1(3) 2(3) by (metis Un_iff set_append)
qed

lemma accounts_added_row:
  assumes "accounts_added d d'"
  shows "accountRow d k = Some a \<Longrightarrow> accountRow d' k = Some a"
    and "accountRow d k = None \<Longrightarrow> accountRow d' k = Some a \<Longrightarrow> ar_balance a = 0"
proof -
  obtain news where n: "d' = d\<lparr>accountsT := accountsT d @ news\<rparr>" "\<forall>p \<in> set news. ar_balance (snd p) = 0"
    using assms unfolding accounts_added_def by blast
  show "accountRow d k = Some a \<Longrightarrow> accountRow d' k = Some a" by (simp add: n(1) map_add_def)
  show "accountRow d k = None \<Longrightarrow> accountRow d' k = Some a \<Longrightarrow> ar_balance a = 0"
    using n(2) by (force simp: n(1) map_add_def dest: map_of_SomeD)
qed

lemma accounts_added_frame:
  assumes "accounts_added d d'"
  shows "entriesT d' = entriesT d" "transactionsT d' = transactionsT d" "sagasT d' = sagasT d" "outboxT d' = outboxT d"
    "stepsT d' = stepsT d" "keysT d' = keysT d"
  using assms by (auto simp: accounts_added_def)

lemma accounts_added_books:
  assumes "numeric_ok env" and "pg_books env d" and "accounts_added d d'"
  shows "pg_books env d'"
  unfolding pg_books_def
proof (intro conjI ballI allI impI)
  note R = accounts_added_row [OF assms(3)] and F = accounts_added_frame [OF assms(3)]
  show "distinct (map fst (accountsT d'))"
    using assms(2,3) by (fastforce simp: pg_books_def accounts_added_def)
  show "rowImbalance tid (entriesT d') = 0" for tid using assms(2) by (simp add: F pg_books_def)
  fix r assume r: "r \<in> set (entriesT d')"
  then have "entryCheck r" "row_placed d r" using assms(2) by (auto simp: F pg_books_def)
  then show "entryCheck r" "row_placed d' r" using R(1) unfolding row_placed_def F by blast+
next
  note R = accounts_added_row [OF assms(3)] and F = accounts_added_frame [OF assms(3)]
  fix k a assume a: "accountRow d' k = Some a"
  show "ar_balance a = rowNet k (entriesT d')" "cents env (ar_balance a)"
  proof (atomize (full), cases "accountRow d k")
    case None
    then have "k \<notin> er_account ` set (entriesT d)" using assms(2) by (fastforce simp: pg_books_def row_placed_def)
    then have "rowNet k (entriesT d) = 0" by (rule rowNet_notin)
    then show "ar_balance a = rowNet k (entriesT d') \<and> cents env (ar_balance a)"
      using R(2) [OF None a] numeric_okD(1) [OF assms(1)] by (simp add: F)
  next
    case (Some b)
    then show "ar_balance a = rowNet k (entriesT d') \<and> cents env (ar_balance a)"
      using R(1) [OF Some] a pg_booksD [OF assms(2) Some] by (simp add: F)
  qed
qed

lemma insertAccount_added:
  assumes "insertAccount aid ledger name ty d = Inr d'"
  shows "accounts_added d d'" and "accountRow d aid = None"
    and "accountRow d' = (accountRow d)(aid \<mapsto> \<lparr>ar_ledger = ledger, ar_name = name, ar_type = ty, ar_balance = 0\<rparr>)"
proof -
  have d: "accountRow d aid = None"
    "d' = d\<lparr>accountsT := accountsT d @ [(aid, \<lparr>ar_ledger = ledger, ar_name = name, ar_type = ty, ar_balance = 0\<rparr>)]\<rparr>"
    using assms by (auto simp: insertAccount_def split: if_splits)
  then show "accountRow d aid = None" "accounts_added d d'"
    by (force simp: accounts_added_def map_of_eq_None_iff intro!: exI [of _ "[(aid, \<lparr>ar_ledger = ledger, ar_name = name, ar_type = ty, ar_balance = 0\<rparr>)]"])+
  show "accountRow d' = (accountRow d)(aid \<mapsto> \<lparr>ar_ledger = ledger, ar_name = name, ar_type = ty, ar_balance = 0\<rparr>)"
    using d by (auto simp: map_add_def split: option.splits)
qed

lemma accountByName_Some:
  assumes "accountByName d ledger name = Some k" and "distinct (map fst (accountsT d))"
  shows "\<exists>a. accountRow d k = Some a \<and> ar_ledger a = ledger \<and> ar_name a = name"
proof -
  obtain a where "(k, a) \<in> set (accountsT d)" "ar_ledger a = ledger" "ar_name a = name"
    using assms(1) by (auto simp: accountByName_def find_Some_iff) (metis nth_mem)
  then show ?thesis using assms(2) by auto
qed

definition clearing_of :: "'d Database \<Rightarrow> uuid \<Rightarrow> uuid \<Rightarrow> bool" where
  "clearing_of d ledger c \<longleftrightarrow> (\<exists>a. accountRow d c = Some a \<and> ar_ledger a = ledger \<and> ar_name a = clearingName)"

lemma ensureClearing_Inr:
  assumes "ensureClearing env ledger s = (s', Inr c)" and "distinct (map fst (accountsT (db s)))"
  shows "accounts_added (db s) (db s')" and "clearing_of (db s') ledger c"
proof -
  let ?s1 = "s\<lparr>calls := Suc (calls s)\<rparr>"
  have rest: "(case accountByName (db s) ledger clearingName of
       Some aid \<Rightarrow> returnE aid
     | None \<Rightarrow> bindE (newID env) (\<lambda>aid.
         bindE (execDb env ''insert clearing'' (insertAccount aid ledger clearingName AssetType)) (\<lambda>_. returnE aid))) ?s1 = (s', Inr c)"
    using assms(1) unfolding ensureClearing_def by (simp add: dbCall_then)
  have "accounts_added (db s) (db s') \<and> clearing_of (db s') ledger c"
  proof (cases "accountByName (db s) ledger clearingName")
    case None
    then obtain d where "insertAccount c ledger clearingName AssetType (db s) = Inr d" "db s' = d"
      using rest by (auto simp: execDb_then returnE_def)
    from insertAccount_added [OF this(1)] this(2) show ?thesis by (auto simp: clearing_of_def)
  next
    case (Some k)
    then have "k = c" "db s' = db s" using rest by (auto simp: returnE_def)
    then show ?thesis using accountByName_Some [of "db s" ledger clearingName c] Some assms(2) by (auto simp: clearing_of_def)
  qed
  then show "accounts_added (db s) (db s')" "clearing_of (db s') ledger c" by blast+
qed

subsection \<open>Legs\<close>

lemma postStatement_frame:
  assumes "postStatement env t txs vals upd oids d = Inr d'"
  shows "sagasT d' = sagasT d" "stepsT d' = stepsT d" "keysT d' = keysT d" "inboxT d' = inboxT d"
    "accountDaysT d' = accountDaysT d" "ledgerDaysT d' = ledgerDaysT d"
    "outboxT d' = outboxT d @ map (\<lambda>(oid, tid, _). postedEvent oid t tid) (zip oids txs)"
    "map fst (accountsT d') = map fst (accountsT d)"
proof -
  from assms obtain d1 rows d2 d3 where d1: "insertTransactions t txs d = Inr d1"
    and d2: "insertEntries rows d1 = Inr d2" and d3: "updateBalances env upd d2 = Inr d3"
    and d': "insertOutboxes (map (\<lambda>(oid, tid, _). postedEvent oid t tid) (zip oids txs)) d3 = Inr d'"
    by (auto simp: postStatement_def bindR_Inr)
  obtain m where "d1 = d\<lparr>transactionsT := m\<rparr>" using insertTransactions_Inr [OF d1] by blast
  moreover have "d2 = d1\<lparr>entriesT := entriesT d1 @ rows\<rparr>" using d2 by (auto simp: insertEntries_def split: if_splits)
  moreover obtain accs where "updateRows env upd (accountsT d2) = Inr accs" "d3 = d2\<lparr>accountsT := accs\<rparr>"
    using d3 by (auto simp: updateBalances_def bindR_Inr)
  moreover have "map fst accs = map fst (accountsT d2)" using calculation(3) by (rule updateRows_Inr)
  ultimately show "sagasT d' = sagasT d" "stepsT d' = stepsT d" "keysT d' = keysT d" "inboxT d' = inboxT d"
    "accountDaysT d' = accountDaysT d" "ledgerDaysT d' = ledgerDaysT d"
    "outboxT d' = outboxT d @ map (\<lambda>(oid, tid, _). postedEvent oid t tid) (zip oids txs)"
    "map fst (accountsT d') = map fst (accountsT d)"
    using insertOutboxes_Inr [OF d'] by simp_all
qed

lemma legUpdate_by:
  "a \<noteq> c \<Longrightarrow> updates_by (legUpdate a c x) (\<lambda>k. (if a = k then x else 0) + ((if c = k then - x else 0) + 0))"
  by (auto simp: updates_by_def legUpdate_def)

lemma leg_books:
  assumes num: "numeric_ok env" and books: "pg_books env d"
    and post: "postStatement env t [(tid, ledger)] [(e1, a, tid, c1, d1), (e2, c, tid, c2, d2)] (legUpdate a c x) oids d = Inr d'"
    and x: "d1 - c1 = x" "d2 - c2 = - x"
    and cents: "cents env c1" "cents env d1" "cents env c2" "cents env d2"
    and a: "accountRow d a = Some ra" "ar_ledger ra = ledger" and c: "clearing_of d ledger c" and ne: "a \<noteq> c"
  shows "pg_books env d'"
    and "accountRow d k = Some r \<Longrightarrow>
      accountRow d' k = Some (r\<lparr>ar_balance := ar_balance r + (if k = a then x else if k = c then - x else 0)\<rparr>)"
proof -
  let ?vs = "[(e1, a, tid, c1, d1), (e2, c, tid, c2, d2)]"
  have net: "valueNet k ?vs = (if a = k then x else 0) + ((if c = k then - x else 0) + 0)" for k using x by simp
  have upd: "updates_by (legUpdate a c x) (\<lambda>k. valueNet k ?vs)" unfolding net by (rule legUpdate_by [OF ne])
  have placed: "\<forall>v \<in> set ?vs. value_placed d [(tid, ledger)] v"
    using a c by (auto simp: value_placed_def clearing_of_def)
  have bal: "\<forall>y. valueImbalance y ?vs = 0" using x by auto
  have cts: "\<forall>v \<in> set ?vs. valueCents env v" using cents by simp
  note B = postStatement_books [OF num books post cts placed bal upd]
  show "pg_books env d'" by (rule B(1))
  show "accountRow d' k = Some (r\<lparr>ar_balance := ar_balance r + (if k = a then x else if k = c then - x else 0)\<rparr>)"
    if "accountRow d k = Some r" using B(2) [OF that] net [of k] ne by auto
qed

subsection \<open>Opening a transfer\<close>

lemma insertSaga_Inr:
  assumes "insertSaga env sid row d = Inr d'"
  obtains amount where "numeric env (sr_amount row) = Some amount" and "0 < amount"
    and "d' = d\<lparr>sagasT := sagasT d @ [(sid, row\<lparr>sr_amount := amount\<rparr>)]\<rparr>"
    and "\<forall>(k, r) \<in> set (sagasT d). k \<noteq> sid \<and> sr_key r \<noteq> sr_key row"
  using assms by (auto simp: insertSaga_def list_ex_iff split: option.splits if_splits)

lemma insertOutbox_Inr: "insertOutbox row d = Inr d' \<Longrightarrow> d' = d\<lparr>outboxT := outboxT d @ [row]\<rparr>"
  by (auto simp: insertOutbox_def split: if_splits)

text \<open>The tables after a new transfer.\<close>

definition opened ::
  "('d :: linordered_ab_group_add, 'm) pg_env_scheme \<Rightarrow> 'd TransferRequest \<Rightarrow> uuid \<Rightarrow> uuid \<Rightarrow> uuid \<Rightarrow> uuid \<Rightarrow> uuid \<Rightarrow> time
     \<Rightarrow> 'd Database \<Rightarrow> 'd Database \<Rightarrow> bool" where
  "opened env req sl src dl dst sid u d d' \<longleftrightarrow>
     (\<exists>a d1 c tid e1 e2 t o1 o2 d2 d3.
        accountRow d src = Some a \<and> ar_ledger a = sl \<and> 0 \<le> displayedBalanceAfter (ar_type a) (ar_balance a) 0 (Amount req) \<and>
        (\<exists>b. accountRow d dst = Some b \<and> ar_ledger b = dl) \<and> accounts_added d d1 \<and> clearing_of d1 sl c \<and>
        postStatement env t [(tid, sl)] [(e1, src, tid, Amount req, 0), (e2, c, tid, 0, Amount req)]
          (legUpdate src c (- Amount req)) [o1] d1 = Inr d2 \<and>
        insertSaga env sid \<lparr>sr_key = IdempotencyKey req, sr_sourceLedger = sl, sr_sourceAccount = src,
          sr_destinationLedger = dl, sr_destinationAccount = dst, sr_amount = Amount req,
          sr_status = TransferPending, sr_created = u, sr_updated = u\<rparr> d2 = Inr d3 \<and>
        insertOutbox (sagaEvent o2 t sid ''destination_credit'')
         (insertSteps [\<lparr>st_saga = sid, st_step = ''source_debit'', st_status = ''completed'', st_attempts = 1\<rparr>,
            \<lparr>st_saga = sid, st_step = ''destination_credit'', st_status = ''pending'', st_attempts = 0\<rparr>] d3) = Inr d')"

lemma newTransfer_Inr:
  assumes "newTransfer env req sl src dl dst s = (s', Inr (r, existed))" and "distinct (map fst (accountsT (db s)))"
  shows "\<not> existed \<and> (\<exists>sid u. opened env req sl src dl dst sid u (db s) (db s') \<and>
    r = \<lparr>r_ID = uuidString env sid, r_SourceLedgerID = SourceLedgerID req, r_SourceAccountID = SourceAccountID req,
      r_DestinationLedgerID = DestinationLedgerID req, r_DestinationAccountID = DestinationAccountID req, r_Amount = Amount req,
      r_Status = TransferPending, r_CreatedAt = u, r_UpdatedAt = u\<rparr>)"
proof -
  let ?s0 = "s\<lparr>calls := Suc (calls s)\<rparr>"
  obtain a b where ab: "accountRow (db s) src = Some a" "ar_ledger a = sl" "accountRow (db s) dst = Some b" "ar_ledger b = dl"
    "0 \<le> displayedBalanceAfter (ar_type a) (ar_balance a) 0 (Amount req)"
    using assms(1) by (auto simp: newTransfer_def dbCall_then failE_def not_less split: option.splits if_splits)
  from assms(1) ab obtain s1 c where cl: "ensureClearing env sl ?s0 = (s1, Inr c)" and
    rest: "bindE (timeP env) (\<lambda>t. bindE (newID env) (\<lambda>sid.
           bindE (writeSourceTransfer env sid (IdempotencyKey req) sl src c dl dst (Amount req) t) (\<lambda>_.
           bindE (dbCall env ''commit'') (\<lambda>_.
           returnE (\<lparr>r_ID = uuidString env sid, r_SourceLedgerID = SourceLedgerID req,
             r_SourceAccountID = SourceAccountID req, r_DestinationLedgerID = DestinationLedgerID req,
             r_DestinationAccountID = DestinationAccountID req, r_Amount = Amount req, r_Status = TransferPending,
             r_CreatedAt = t, r_UpdatedAt = t\<rparr>, False))))) s1 = (s', Inr (r, existed))"
    by (simp add: newTransfer_def dbCall_then not_less [symmetric] bindE_Inr [of "ensureClearing env sl"]) blast
  note C = ensureClearing_Inr [OF cl, simplified, OF assms(2)]
  let ?u = "readClock env (ticks s1)" and ?sid = "drawUUID env (draws s1)"
  obtain tid e1 e2 t o1 o2 d2 d3 where
    post: "postStatement env t [(tid, sl)] [(e1, src, tid, Amount req, 0), (e2, c, tid, 0, Amount req)]
        (legUpdate src c (- Amount req)) [o1] (db s1) = Inr d2"
    and saga: "insertSaga env ?sid \<lparr>sr_key = IdempotencyKey req, sr_sourceLedger = sl, sr_sourceAccount = src,
          sr_destinationLedger = dl, sr_destinationAccount = dst, sr_amount = Amount req,
          sr_status = TransferPending, sr_created = ?u, sr_updated = ?u\<rparr> d2 = Inr d3"
    and ev: "insertOutbox (sagaEvent o2 t ?sid ''destination_credit'')
         (insertSteps [\<lparr>st_saga = ?sid, st_step = ''source_debit'', st_status = ''completed'', st_attempts = 1\<rparr>,
            \<lparr>st_saga = ?sid, st_step = ''destination_credit'', st_status = ''pending'', st_attempts = 0\<rparr>] d3) = Inr (db s')"
    and r: "r = \<lparr>r_ID = uuidString env ?sid, r_SourceLedgerID = SourceLedgerID req, r_SourceAccountID = SourceAccountID req,
      r_DestinationLedgerID = DestinationLedgerID req, r_DestinationAccountID = DestinationAccountID req, r_Amount = Amount req,
      r_Status = TransferPending, r_CreatedAt = ?u, r_UpdatedAt = ?u\<rparr>" "\<not> existed"
    using rest by (auto simp: writeSourceTransfer_def bindE_assoc act_then bindR_Inr returnE_def)
  have "opened env req sl src dl dst ?sid ?u (db s) (db s')"
    unfolding opened_def
    by (intro exI conjI) (rule ab C post saga ev)+
  then show ?thesis using r by blast
qed

lemma opened_books:
  assumes num: "numeric_ok env" and books: "pg_books env d" and cts: "cents env (Amount req)"
    and src: "\<forall>a. accountRow d src = Some a \<longrightarrow> ar_name a \<noteq> clearingName"
    and op: "opened env req sl src dl dst sid u d d'"
  shows "pg_books env d'"
    and "\<exists>a. accountRow d src = Some a \<and> ar_ledger a = sl \<and>
      accountRow d' src = Some (a\<lparr>ar_balance := ar_balance a - Amount req\<rparr>) \<and> 0 \<le> displayed (a\<lparr>ar_balance := ar_balance a - Amount req\<rparr>)"
    and "accountRow d k = Some b \<Longrightarrow> ar_name b \<noteq> clearingName \<Longrightarrow> k \<noteq> src \<Longrightarrow> accountRow d' k = Some b"
    and "sagasT d' = sagasT d @ [(sid, \<lparr>sr_key = IdempotencyKey req, sr_sourceLedger = sl, sr_sourceAccount = src,
          sr_destinationLedger = dl, sr_destinationAccount = dst, sr_amount = Amount req,
          sr_status = TransferPending, sr_created = u, sr_updated = u\<rparr>)]"
    and "\<exists>t tid o1 o2. outboxT d' = outboxT d @ [postedEvent o1 t tid, sagaEvent o2 t sid ''destination_credit'']"
    and "accountRow d k = Some b \<Longrightarrow> \<exists>x. accountRow d' k = Some (b\<lparr>ar_balance := x\<rparr>)"
    and "\<forall>(k, r) \<in> set (sagasT d). k \<noteq> sid" and "0 < Amount req"
    and "\<exists>b. accountRow d dst = Some b \<and> ar_ledger b = dl"
proof -
  obtain a d1 c tid e1 e2 t o1 o2 d2 d3 where a: "accountRow d src = Some a" "ar_ledger a = sl"
    "0 \<le> displayedBalanceAfter (ar_type a) (ar_balance a) 0 (Amount req)"
    and add: "accounts_added d d1" and c: "clearing_of d1 sl c"
    and post: "postStatement env t [(tid, sl)] [(e1, src, tid, Amount req, 0), (e2, c, tid, 0, Amount req)]
          (legUpdate src c (- Amount req)) [o1] d1 = Inr d2"
    and saga: "insertSaga env sid \<lparr>sr_key = IdempotencyKey req, sr_sourceLedger = sl, sr_sourceAccount = src,
          sr_destinationLedger = dl, sr_destinationAccount = dst, sr_amount = Amount req,
          sr_status = TransferPending, sr_created = u, sr_updated = u\<rparr> d2 = Inr d3"
    and ins: "insertOutbox (sagaEvent o2 t sid ''destination_credit'')
         (insertSteps [\<lparr>st_saga = sid, st_step = ''source_debit'', st_status = ''completed'', st_attempts = 1\<rparr>,
            \<lparr>st_saga = sid, st_step = ''destination_credit'', st_status = ''pending'', st_attempts = 0\<rparr>] d3) = Inr d'"
    using op unfolding opened_def by blast
  note d' = insertOutbox_Inr [OF ins, unfolded insertSteps_def]
  show "\<exists>b. accountRow d dst = Some b \<and> ar_ledger b = dl" using op unfolding opened_def by blast
  note A = accounts_added_row(1) [OF add] and F = accounts_added_frame [OF add] and P = postStatement_frame [OF post]
  have ne: "src \<noteq> c" using src a(1) A [OF a(1)] c by (auto simp: clearing_of_def)
  have z: "cents env 0" using numeric_okD(1) [OF num] .
  obtain amount where m: "numeric env (Amount req) = Some amount" and pos: "0 < amount"
    and new: "\<forall>(k, r) \<in> set (sagasT d2). k \<noteq> sid" and
    d3: "d3 = d2\<lparr>sagasT := sagasT d2 @ [(sid, \<lparr>sr_key = IdempotencyKey req, sr_sourceLedger = sl, sr_sourceAccount = src,
          sr_destinationLedger = dl, sr_destinationAccount = dst, sr_amount = amount,
          sr_status = TransferPending, sr_created = u, sr_updated = u\<rparr>)]\<rparr>"
    by (rule insertSaga_Inr [OF saga]) auto
  have m: "amount = Amount req" using numeric_okD(5) [OF num m cts] .
  note B = leg_books [OF num accounts_added_books [OF num books add] post _ _ cts z z cts A [OF a(1)] a(2) c ne]
  have row: "accountRow d' k = accountRow d2 k" for k by (simp add: d' d3)
  show "pg_books env d'" using B(1) by (simp add: d' d3)
  show "\<exists>a. accountRow d src = Some a \<and> ar_ledger a = sl \<and>
      accountRow d' src = Some (a\<lparr>ar_balance := ar_balance a - Amount req\<rparr>) \<and> 0 \<le> displayed (a\<lparr>ar_balance := ar_balance a - Amount req\<rparr>)"
    using a B(2) [OF _ _ A [OF a(1)]] displayed_after [of a 0 "Amount req"] row by auto
  show "accountRow d' k = Some b" if "accountRow d k = Some b" "ar_name b \<noteq> clearingName" "k \<noteq> src"
    using B(2) [OF _ _ A [OF that(1)]] that A [OF that(1)] c row by (auto simp: clearing_of_def)
  show "sagasT d' = sagasT d @ [(sid, \<lparr>sr_key = IdempotencyKey req, sr_sourceLedger = sl, sr_sourceAccount = src,
          sr_destinationLedger = dl, sr_destinationAccount = dst, sr_amount = Amount req,
          sr_status = TransferPending, sr_created = u, sr_updated = u\<rparr>)]"
    using P(1) F(3) by (simp add: d' d3 m)
  show "\<exists>t tid o1 o2. outboxT d' = outboxT d @ [postedEvent o1 t tid, sagaEvent o2 t sid ''destination_credit'']"
    using P(7) F(4) by (auto simp: d' d3)
  show "\<exists>x. accountRow d' k = Some (b\<lparr>ar_balance := x\<rparr>)" if "accountRow d k = Some b"
    using B(2) [OF _ _ A [OF that]] row [of k] by (intro exI) simp
  show "\<forall>(k, r) \<in> set (sagasT d). k \<noteq> sid" using new P(1) F(3) by simp
  show "0 < Amount req" using pos m by simp
qed

lemma scanSaga_option:
  "optionE (scanSaga env key) s = (s', Inr x) \<Longrightarrow> x = map_option (sagaResponse env) (findSaga env key (db s)) \<and> db s' = db s"
  by (auto simp: optionE_def scanSaga_def bindE_def act_defs split: option.splits prod.splits sum.splits if_splits)

text \<open>What a call that succeeds did: found the transfer of the key, or opened a new one.\<close>

lemma opened_key_new:
  assumes "opened env req sl src dl dst sid u d d'" and "(k, r) \<in> set (sagasT d)"
  shows "sr_key r \<noteq> IdempotencyKey req"
proof -
  from assms(1) obtain d1 t rows us changes o1 d2 d3 row where d: "accounts_added d d1"
    "postStatement env t rows us changes o1 d1 = Inr d2" and ins: "insertSaga env sid row d2 = Inr d3" "sr_key row = IdempotencyKey req"
    unfolding opened_def by (elim exE conjE) simp
  have "sagasT d2 = sagasT d" using postStatement_frame(1) [OF d(2)] d(1) by (auto simp: accounts_added_def)
  then have "\<forall>x \<in> set (sagasT d). sr_key (snd x) \<noteq> IdempotencyKey req"
    using ins by (auto simp: insertSaga_def list_ex_iff split: option.splits if_splits)
  then show ?thesis using assms(2) by fastforce
qed

definition transferOutcome ::
  "('d :: linordered_ab_group_add, 'm) pg_env_scheme \<Rightarrow> 'd TransferRequest \<Rightarrow> uuid \<Rightarrow> uuid \<Rightarrow> uuid \<Rightarrow> uuid \<Rightarrow> 'd TransferResponse
     \<Rightarrow> bool \<Rightarrow> 'd Database \<Rightarrow> 'd Database \<Rightarrow> bool" where
  "transferOutcome env req sl src dl dst r existed d d' \<longleftrightarrow>
     (if existed then d' = d \<and> (\<exists>p. findSaga env (IdempotencyKey req) d = Some p \<and> r = sagaResponse env p \<and> sameTransfer r req)
     else findSaga env (IdempotencyKey req) d = None \<and> (\<exists>sid u. opened env req sl src dl dst sid u d d' \<and>
       r = \<lparr>r_ID = uuidString env sid, r_SourceLedgerID = SourceLedgerID req, r_SourceAccountID = SourceAccountID req,
      r_DestinationLedgerID = DestinationLedgerID req, r_DestinationAccountID = DestinationAccountID req, r_Amount = Amount req,
      r_Status = TransferPending, r_CreatedAt = u, r_UpdatedAt = u\<rparr>))"

lemma PgCreateTransfer_Inr:
  assumes "PgCreateTransfer env req s = (s', Inr (r, existed))" and "distinct (map fst (accountsT (db s)))"
  obtains sl dl src dst where "validateTransfer req = None" "uuidParse env (SourceLedgerID req) = Some sl"
    "uuidParse env (DestinationLedgerID req) = Some dl" "uuidParse env (SourceAccountID req) = Some src"
    "uuidParse env (DestinationAccountID req) = Some dst" "sl \<noteq> dl"
    "transferOutcome env req sl src dl dst r existed (db s) (db s')"
proof -
  from assms(1) obtain sl dl src dst where parse: "validateTransfer req = None" "uuidParse env (SourceLedgerID req) = Some sl"
    "uuidParse env (DestinationLedgerID req) = Some dl" "uuidParse env (SourceAccountID req) = Some src"
    "uuidParse env (DestinationAccountID req) = Some dst" "sl \<noteq> dl"
    and tx: "transferTransaction env req sl src dl dst s = (s', Inr (r, existed))"
    by (auto simp: PgCreateTransfer_def parseE_then failE_def split: option.splits if_splits)
  from tx obtain s1 x where scan: "optionE (scanSaga env (IdempotencyKey req)) (s\<lparr>calls := Suc (calls s)\<rparr>) = (s1, Inr x)"
    and rest: "(case x of Some r \<Rightarrow> if \<not> sameTransfer r req then failE TransferIdempotencyConflict else returnE (r, True)
     | None \<Rightarrow> newTransfer env req sl src dl dst) s1 = (s', Inr (r, existed))"
    by (auto simp: transferTransaction_def dbCall_then bindE_Inr [of "optionE (scanSaga env (IdempotencyKey req))"])
  note S = scanSaga_option [OF scan, simplified]
  show ?thesis
  proof (rule that [OF parse], cases x)
    case None
    then have n: "newTransfer env req sl src dl dst s1 = (s', Inr (r, existed))" using rest by simp
    show "transferOutcome env req sl src dl dst r existed (db s) (db s')"
      using newTransfer_Inr [OF n] S None assms(2) by (auto simp: transferOutcome_def)
  next
    case (Some y)
    then show "transferOutcome env req sl src dl dst r existed (db s) (db s')"
      using rest S by (auto simp: transferOutcome_def failE_def returnE_def split: if_splits)
  qed
qed

lemma PgCreateTransfer_Inl: "PgCreateTransfer env req s = (s', Inl e) \<Longrightarrow> db s' = db s"
  by (auto simp: PgCreateTransfer_def parseE_def bindE_Inl failE_def returnE_def transferTransaction_def
      dest: atomically_Inl split: option.splits if_splits)

end
