(* ===== verification/Pg_Credit_Books.thy ===== *)
theory Pg_Credit_Books
  imports Pg_Transfer_Books
begin

text \<open>
  The worker that credits destinations in batches (\<open>transfer_batch.go\<close>): which transfers a batch completes, and what
  it does to the accounts.
\<close>

subsection \<open>The invariant of sagas\<close>

definition saga_placed :: "('d :: linordered_ab_group_add, 'm) pg_env_scheme \<Rightarrow> 'd Database \<Rightarrow> 'd SagaRow \<Rightarrow> bool" where
  "saga_placed env d r \<longleftrightarrow> 0 < sr_amount r \<and> cents env (sr_amount r) \<and>
     (\<exists>a. accountRow d (sr_sourceAccount r) = Some a \<and> ar_ledger a = sr_sourceLedger r \<and> ar_name a \<noteq> clearingName) \<and>
     (\<exists>b. accountRow d (sr_destinationAccount r) = Some b \<and> ar_ledger b = sr_destinationLedger r)"

text \<open>
  Sagas are placed and have different identifiers; no two events have the same identifier, and none of a saga is there
  twice.
\<close>

definition outbox_ok :: "OutboxRow list \<Rightarrow> bool" where
  "outbox_ok rows \<longleftrightarrow> distinct (map or_id rows) \<and>
     (\<forall>e \<in> set rows. \<forall>e' \<in> set rows. or_saga e = or_saga e' \<longrightarrow> or_saga e \<noteq> None \<longrightarrow> or_type e = or_type e' \<longrightarrow> e = e')"

definition pg_sagas :: "('d :: linordered_ab_group_add, 'm) pg_env_scheme \<Rightarrow> 'd Database \<Rightarrow> bool" where
  "pg_sagas env d \<longleftrightarrow> distinct (map fst (sagasT d)) \<and> (\<forall>p \<in> set (sagasT d). saga_placed env d (snd p)) \<and> outbox_ok (outboxT d)"

lemma outbox_ok_map:
  assumes "outbox_ok rows" and "\<And>e. or_id (f e) = or_id e \<and> or_saga (f e) = or_saga e \<and> or_type (f e) = or_type e"
  shows "outbox_ok (map f rows)"
  using assms by (auto simp: outbox_ok_def comp_def)

lemma insertOutbox_ok: "insertOutbox row d = Inr d' \<Longrightarrow> outbox_ok (outboxT d) \<Longrightarrow> outbox_ok (outboxT d')"
proof -
  assume i: "insertOutbox row d = Inr d'" and ok: "outbox_ok (outboxT d)"
  have id: "or_id row \<notin> or_id ` set (outboxT d)"
    and new: "\<And>e. e \<in> set (outboxT d) \<Longrightarrow> or_saga row \<noteq> None \<Longrightarrow> or_saga e = or_saga row \<Longrightarrow> or_type e = or_type row \<Longrightarrow> False"
    using i by (auto simp: insertOutbox_def list_ex_iff split: if_splits)
  show "outbox_ok (outboxT d')"
    unfolding insertOutbox_Inr [OF i] outbox_ok_def
  proof (intro conjI ballI impI)
    show "distinct (map or_id (outboxT (d\<lparr>outboxT := outboxT d @ [row]\<rparr>)))" using ok id by (simp add: outbox_ok_def)
    fix e e' assume "e \<in> set (outboxT (d\<lparr>outboxT := outboxT d @ [row]\<rparr>))" "e' \<in> set (outboxT (d\<lparr>outboxT := outboxT d @ [row]\<rparr>))"
      and s: "or_saga e = or_saga e'" "or_saga e \<noteq> None" "or_type e = or_type e'"
    then consider "e \<in> set (outboxT d)" "e' \<in> set (outboxT d)" | "e = row" "e' = row"
      | "e = row" "e' \<in> set (outboxT d)" | "e \<in> set (outboxT d)" "e' = row" by auto
    then show "e = e'"
    proof cases
      case 1
      then show ?thesis using ok s unfolding outbox_ok_def by blast
    qed (use new s in auto)
  qed
qed

lemma insertOutboxes_ok: "insertOutboxes rows d = Inr d' \<Longrightarrow> outbox_ok (outboxT d) \<Longrightarrow> outbox_ok (outboxT d')"
  by (induction rows d rule: insertOutboxes.induct) (auto simp: bindR_Inr dest: insertOutbox_ok)

lemma postStatement_outbox_ok:
  assumes "postStatement env t txs vals upd oids d = Inr d'" and "outbox_ok (outboxT d)"
  shows "outbox_ok (outboxT d')"
proof -
  from assms(1) obtain d1 rows d2 d3 where d1: "insertTransactions t txs d = Inr d1"
    and d2: "insertEntries rows d1 = Inr d2" and d3: "updateBalances env upd d2 = Inr d3"
    and d': "insertOutboxes (map (\<lambda>(oid, tid, _). postedEvent oid t tid) (zip oids txs)) d3 = Inr d'"
    by (auto simp: postStatement_def bindR_Inr)
  have "outboxT d3 = outboxT d"
    using insertTransactions_Inr [OF d1] d2 d3 by (auto simp: insertEntries_def updateBalances_def bindR_Inr split: if_splits)
  then show ?thesis using insertOutboxes_ok [OF d'] assms(2) by simp
qed

text \<open>Accounts that stay where they are.\<close>

definition accounts_kept :: "'d Database \<Rightarrow> 'd Database \<Rightarrow> bool" where
  "accounts_kept d d' \<longleftrightarrow> (\<forall>k a. accountRow d k = Some a \<longrightarrow>
     (\<exists>a'. accountRow d' k = Some a' \<and> ar_ledger a' = ar_ledger a \<and> ar_name a' = ar_name a \<and> ar_type a' = ar_type a))"

lemma saga_placed_kept: "saga_placed env d r \<Longrightarrow> accounts_kept d d' \<Longrightarrow> saga_placed env d' r"
  unfolding saga_placed_def accounts_kept_def by metis

lemma saga_placed_status [simp]:
  "saga_placed env d (r\<lparr>sr_status := st, sr_updated := t\<rparr>) = saga_placed env d r"
  by (simp add: saga_placed_def)

subsection \<open>What a batch posts\<close>

definition creditNet :: "uuid \<Rightarrow> 'd :: linordered_ab_group_add destinationCreditBatchEvent list \<Rightarrow> 'd" where
  "creditNet k es = (\<Sum>e\<leftarrow>es. (if de_destinationAccount e = k then de_amount e else 0) - (if de_clearingAccount e = k then de_amount e else 0))"

lemma creditVals_Cons:
  "creditVals (e # es) = (de_destinationEntryID e, de_destinationAccount e, de_transactionID e, 0, de_amount e) #
     (de_clearingEntryID e, de_clearingAccount e, de_transactionID e, de_amount e, 0) # creditVals es"
  by (simp add: creditVals_def)

lemma creditVals_net: "valueNet k (creditVals es) = creditNet k es"
  by (induction es) (auto simp: creditVals_Cons creditNet_def, simp_all add: creditVals_def)

lemma creditVals_imbalance: "valueImbalance x (creditVals es) = 0"
  by (induction es) (auto simp: creditVals_Cons, simp_all add: creditVals_def)

lemma creditDeltas_fold:
  fixes es :: "'d :: linordered_ab_group_add destinationCreditBatchEvent list"
  defines "f \<equiv> \<lambda>e m. addDelta (de_clearingAccount e) (- de_amount e) (addDelta (de_destinationAccount e) (de_amount e) m)"
  shows "map_get 0 (fold f es m) k = map_get 0 m k + creditNet k es"
    and "dom (fold f es m) = dom m \<union> de_destinationAccount ` set es \<union> de_clearingAccount ` set es"
  by (induction es arbitrary: m) (auto simp: f_def addDelta_def creditNet_def algebra_simps)

lemma creditNet_notin:
  "k \<notin> de_destinationAccount ` set es \<Longrightarrow> k \<notin> de_clearingAccount ` set es \<Longrightarrow> creditNet k es = 0"
  by (induction es) (auto simp: creditNet_def)

lemma creditDeltas_by: "updates_by (deltaUpdate (creditDeltas es)) (\<lambda>k. valueNet k (creditVals es))"
  unfolding updates_by_def
proof
  fix k
  show "case deltaUpdate (creditDeltas es) k of None \<Rightarrow> valueNet k (creditVals es) = 0
    | Some f \<Rightarrow> \<forall>b. f b = b + valueNet k (creditVals es)"
  proof (cases "creditDeltas es k")
    case None
    then have "k \<notin> de_destinationAccount ` set es" "k \<notin> de_clearingAccount ` set es"
      using creditDeltas_fold(2) [of es Map.empty] unfolding creditDeltas_def by blast+
    then show ?thesis using None by (simp add: deltaUpdate_def creditVals_net creditNet_notin)
  next
    case (Some x)
    then have "x = creditNet k es"
      using creditDeltas_fold(1) [of es Map.empty k] unfolding creditDeltas_def by (simp add: map_get_def)
    then show ?thesis using Some by (simp add: deltaUpdate_def creditVals_net)
  qed
qed

text \<open>A destination that is no clearing account is credited with its amounts.\<close>

definition creditedTo :: "uuid \<Rightarrow> (OutboxRow \<times> uuid \<times> 'd :: linordered_ab_group_add SagaRow) list \<Rightarrow> 'd" where
  "creditedTo k ready = (\<Sum>(_, _, r)\<leftarrow>ready. if sr_destinationAccount r = k then sr_amount r else 0)"

definition event_of :: "OutboxRow \<times> uuid \<times> 'd SagaRow \<Rightarrow> 'd destinationCreditBatchEvent \<Rightarrow> bool" where
  "event_of p e \<longleftrightarrow> (case p of (ev, sid, r) \<Rightarrow> de_eventID e = or_id ev \<and> de_sagaID e = sid \<and>
     de_destinationLedger e = sr_destinationLedger r \<and> de_destinationAccount e = sr_destinationAccount r \<and> de_amount e = sr_amount r)"

lemma creditEvent_of: "creditEvent env p s = (s', Inr e) \<Longrightarrow> event_of p e \<and> db s' = db s"
  by (auto simp: creditEvent_def event_of_def returnE_def split: prod.splits)

lemma mapE_creditEvent:
  assumes "mapE (creditEvent env) ps s = (s', Inr es)"
  shows "list_all2 event_of ps es" and "db s' = db s"
proof -
  show "list_all2 event_of ps es"
    using mapE_each [OF assms] by (rule list_all2_mono) (auto dest: creditEvent_of)
  have "quiet (mapE (creditEvent env) ps)" by (intro quiet_intros) (auto simp: creditEvent_def intro!: quiet_intros split: prod.splits)
  then show "db s' = db s" using assms by (rule quietD)
qed

lemma setClearing_Inr:
  assumes "setClearing env f es = Inr es'"
  shows "list_all2 event_of ps es \<Longrightarrow> list_all2 event_of ps es'" and "length es' = length es"
    and "e \<in> set es' \<Longrightarrow> f (de_destinationLedger e) = Some (de_clearingAccount e)"
  using assms
  by (induction es arbitrary: ps es')
    (auto simp: bindR_Inr list_all2_Cons2 event_of_def split: option.splits prod.splits)

lemma creditNet_credited:
  assumes "list_all2 event_of ps es" and "k \<notin> de_clearingAccount ` set es"
  shows "creditNet k es = creditedTo k ps"
  using assms by (induction rule: list_all2_induct) (auto simp: creditNet_def creditedTo_def event_of_def)

lemma insertClearings_added: "insertClearings ps d = Inr d' \<Longrightarrow> accounts_added d d'"
proof (induction ps d rule: insertClearings.induct)
  case (2 aid ledger rest d)
  then show ?case
    by (auto simp: bindR_Inr split: if_splits intro: accounts_added_trans insertAccount_added(1))
qed simp

subsection \<open>A batch that commits\<close>

text \<open>The tables after a batch of ready credits: accounts added, one command executed, the sagas and events completed.\<close>

definition credited ::
  "('d :: linordered_ab_group_add, 'm) pg_env_scheme \<Rightarrow> time \<Rightarrow> (OutboxRow \<times> uuid \<times> 'd SagaRow) list \<Rightarrow> 'd destinationCreditBatchEvent list
     \<Rightarrow> 'd Database \<Rightarrow> 'd Database \<Rightarrow> bool" where
  "credited env t ready events d d' \<longleftrightarrow> list_all2 event_of ready events \<and>
     (\<exists>d1 oids d2. accounts_added d d1 \<and>
        (\<forall>e \<in> set events. accountByName d1 (de_destinationLedger e) clearingName = Some (de_clearingAccount e)) \<and>
        postStatement env t (map (\<lambda>e. (de_transactionID e, de_destinationLedger e)) events) (creditVals events)
          (deltaUpdate (creditDeltas events)) oids d1 = Inr d2 \<and>
        d' = processedEvents (map de_eventID events) (setCreditSteps (map de_sagaID events) ''completed''
           (setSagas (map de_sagaID events) TransferCompleted t d2)))"

lemma writeDestinationCreditBatch_Inr:
  assumes "writeDestinationCreditBatch env t events s = (s', Inr x)"
  shows "\<exists>oids d2. postStatement env t (map (\<lambda>e. (de_transactionID e, de_destinationLedger e)) events) (creditVals events)
      (deltaUpdate (creditDeltas events)) oids (db s) = Inr d2 \<and>
    db s' = processedEvents (map de_eventID events) (setCreditSteps (map de_sagaID events) ''completed''
      (setSagas (map de_sagaID events) TransferCompleted t d2))"
proof -
  from assms obtain s1 oids where m: "mapE (\<lambda>_. newID env) events s = (s1, Inr oids)"
    and e: "execDb env ''write destination credit batch'' (\<lambda>d.
       bindR (postStatement env t (map (\<lambda>e. (de_transactionID e, de_destinationLedger e)) events) (creditVals events)
         (deltaUpdate (creditDeltas events)) oids d) (\<lambda>d'.
       Inr (processedEvents (map de_eventID events)
         (setCreditSteps (map de_sagaID events) ''completed''
           (setSagas (map de_sagaID events) TransferCompleted t d'))))) s1 = (s', Inr x)"
    unfolding writeDestinationCreditBatch_def bindE_Inr by blast
  have "quiet (mapE (\<lambda>_. newID env) events)" by (intro quiet_intros)
  then have "db s1 = db s" using m by (rule quietD)
  then show ?thesis using e by (fastforce simp: execDb_Inr bindR_Inr)
qed

lemma completeCredits_Inr:
  assumes "completeCredits env t es0 s = (s', Inr es)" and "list_all2 event_of ready es0"
  shows "credited env t ready es (db s) (db s')" and "length es = length es0"
proof -
  let ?ls = "sortedUUIDKeys (map de_destinationLedger es0)"
  from assms(1) obtain s2 aids where m: "mapE (\<lambda>_. newID env) ?ls s = (s2, Inr aids)" and
    rest: "bindE (execDb env ''ensure destination clearing accounts'' (insertClearings (zip aids ?ls))) (\<lambda>_.
         bindE (dbCall env ''select clearing accounts'') (\<lambda>_.
         bindE getDb (\<lambda>d.
         bindE (liftE (setClearing env (\<lambda>l. if l \<in> set ?ls then accountByName d l clearingName else None) es0)) (\<lambda>events.
         let accountIDs = sortedUUIDKeys (concat (map (\<lambda>e. [de_destinationAccount e, de_clearingAccount e]) events))
         in bindE (dbCall env ''lock accounts'') (\<lambda>_.
            let locked = length (selectAccounts d accountIDs)
            in if locked \<noteq> length accountIDs then failE (LockedAccountsMismatch locked (length accountIDs))
               else bindE (writeDestinationCreditBatch env t events) (\<lambda>_.
                 bindE (dbCall env ''commit'') (\<lambda>_. returnE events))))))) s2 = (s', Inr es)"
    unfolding completeCredits_def Let_def bindE_Inr [of "mapE (\<lambda>_. newID env) ?ls"] by blast
  have "quiet (mapE (\<lambda>_. newID env) ?ls)" by (intro quiet_intros)
  then have d2: "db s2 = db s" using m by (rule quietD)
  from rest obtain d1 es1 where ins: "insertClearings (zip aids ?ls) (db s2) = Inr d1"
    and sc: "setClearing env (\<lambda>l. if l \<in> set ?ls then accountByName d1 l clearingName else None) es0 = Inr es1"
    and rest3: "bindE (writeDestinationCreditBatch env t es1) (\<lambda>_. bindE (dbCall env ''commit'') (\<lambda>_. returnE es1))
      (s2\<lparr>db := d1, calls := Suc (Suc (Suc (calls s2)))\<rparr>) = (s', Inr es)"
    by (auto simp: act_then Let_def failE_def cong: if_cong split: if_split_asm)
  from rest3 obtain s4 where
    w: "writeDestinationCreditBatch env t es1 (s2\<lparr>db := d1, calls := Suc (Suc (Suc (calls s2)))\<rparr>) = (s4, Inr ())"
      "db s' = db s4" "es = es1"
    by (auto simp: bindE_Inr [of "writeDestinationCreditBatch env t es1"] dbCall_then returnE_def)
  note C = setClearing_Inr [OF sc]
  have "\<forall>e \<in> set es. accountByName d1 (de_destinationLedger e) clearingName = Some (de_clearingAccount e)"
    unfolding w(3) using C(3) by (metis option.distinct(1))
  then show "credited env t ready es (db s) (db s')"
    using insertClearings_added [OF ins] writeDestinationCreditBatch_Inr [OF w(1)] C(1) [OF assms(2)]
    unfolding credited_def by (auto simp: w(2,3) d2)
  show "length es = length es0" using C(2) w(3) by simp
qed

lemma creditBatchTransaction_Inr:
  assumes "creditBatchTransaction env limit s = (s', Inr events)"
  defines "t \<equiv> readClock env (ticks s)"
  shows "if events = [] then db s' = db s \<and> readyCredits t limit (db s) = []
    else credited env t (readyCredits t limit (db s)) events (db s) (db s')"
proof -
  let ?ready = "readyCredits t limit (db s)"
  let ?s0 = "s\<lparr>ticks := Suc (ticks s), calls := Suc (Suc (calls s))\<rparr>"
  from assms(1) obtain s1 es0 where es0: "mapE (creditEvent env) ?ready ?s0 = (s1, Inr es0)" and
    rest: "(if es0 = [] then returnE [] else completeCredits env t es0) s1 = (s', Inr events)"
    unfolding creditBatchTransaction_def t_def
    by (auto simp: dbCall_then bindE_Inr [of "mapE (creditEvent env) x" for x] cong: if_cong)
  note E = mapE_creditEvent [OF es0]
  show ?thesis
  proof (cases "es0 = []")
    case True
    then show ?thesis using rest E by (simp add: returnE_def)
  next
    case False
    then have "completeCredits env t es0 s1 = (s', Inr events)" using rest by simp
    from completeCredits_Inr [OF this E(1)] show ?thesis using E(2) False by (cases events) auto
  qed
qed

subsection \<open>A batch keeps the books\<close>

lemma readyCredits_row:
  assumes "(ev, sid, r) \<in> set (readyCredits t limit d)"
  shows "ev \<in> set (outboxT d)" "or_status ev = ''pending''" "or_type ev = ''destination_credit''" "or_saga ev = Some sid"
    "map_of (sagasT d) sid = Some r" "sr_status r = TransferPending"
proof -
  have "(ev, sid, r) \<in> set (List.map_filter (readyCredit t d) (outboxT d))"
    using assms in_set_takeD by (fastforce simp: readyCredits_def)
  then obtain ev' where "ev' \<in> set (outboxT d)" "readyCredit t d ev' = Some (ev, sid, r)"
    by (auto simp: List.map_filter_def)
  then show "ev \<in> set (outboxT d)" "or_status ev = ''pending''" "or_type ev = ''destination_credit''" "or_saga ev = Some sid"
    "map_of (sagasT d) sid = Some r" "sr_status r = TransferPending"
    by (auto simp: readyCredit_def split: if_splits option.splits)
qed

lemma accounts_added_kept: "accounts_added d d' \<Longrightarrow> accounts_kept d d'"
  unfolding accounts_kept_def using accounts_added_row(1) by blast

lemma accounts_kept_trans: "accounts_kept d d1 \<Longrightarrow> accounts_kept d1 d2 \<Longrightarrow> accounts_kept d d2"
  unfolding accounts_kept_def by metis

lemma saga_updates [simp]:
  "accountsT (setSagas sids st t d) = accountsT d" "accountsT (setCreditSteps sids w d) = accountsT d"
  "accountsT (processedEvents eids d) = accountsT d"
  "pg_books env (setSagas sids st t d) = pg_books env d" "pg_books env (setCreditSteps sids w d) = pg_books env d"
  "pg_books env (processedEvents eids d) = pg_books env d"
  "sagasT (setCreditSteps sids w d) = sagasT d" "sagasT (processedEvents eids d) = sagasT d"
  "outboxT (setSagas sids st t d) = outboxT d" "outboxT (setCreditSteps sids w d) = outboxT d"
  by (simp_all add: setSagas_def setCreditSteps_def processedEvents_def)

lemma credited_effect:
  assumes num: "numeric_ok env" and books: "pg_books env d" and sagas: "pg_sagas env d"
    and cr: "credited env t (readyCredits t limit d) events d d'"
  shows "pg_books env d'" and "pg_sagas env d'" and "accounts_kept d d'"
    and "accountRow d k = Some a \<Longrightarrow> ar_name a \<noteq> clearingName \<Longrightarrow>
      accountRow d' k = Some (a\<lparr>ar_balance := ar_balance a + creditedTo k (readyCredits t limit d)\<rparr>)"
proof -
  let ?ready = "readyCredits t limit d"
  from cr obtain d1 oids d2 where ev: "list_all2 event_of ?ready events" and add: "accounts_added d d1"
    and cl: "\<forall>e \<in> set events. accountByName d1 (de_destinationLedger e) clearingName = Some (de_clearingAccount e)"
    and post: "postStatement env t (map (\<lambda>e. (de_transactionID e, de_destinationLedger e)) events) (creditVals events)
          (deltaUpdate (creditDeltas events)) oids d1 = Inr d2"
    and d': "d' = processedEvents (map de_eventID events) (setCreditSteps (map de_sagaID events) ''completed''
           (setSagas (map de_sagaID events) TransferCompleted t d2))"
    unfolding credited_def by blast
  have b1: "pg_books env d1" by (rule accounts_added_books [OF num books add])
  have clearing: "clearing_of d1 (de_destinationLedger e) (de_clearingAccount e)" if "e \<in> set events" for e
    using accountByName_Some cl that b1 unfolding clearing_of_def pg_books_def by blast
  have row: "cents env (de_amount e) \<and> (\<exists>a. accountRow d1 (de_destinationAccount e) = Some a \<and> ar_ledger a = de_destinationLedger e)"
    if e: "e \<in> set events" for e
  proof -
    obtain ev sid r where p: "(ev, sid, r) \<in> set ?ready" "event_of (ev, sid, r) e"
      using ev e by (metis list_all2_conv_all_nth in_set_conv_nth prod_cases3)
    have "saga_placed env d r"
      using sagas map_of_SomeD [OF readyCredits_row(5) [OF p(1)]] by (auto simp: pg_sagas_def)
    then show ?thesis using p(2) accounts_added_row(1) [OF add] by (auto simp: saga_placed_def event_of_def)
  qed
  have cents: "\<forall>v \<in> set (creditVals events). valueCents env v"
    using row numeric_okD(1) [OF num] by (auto simp: creditVals_def)
  have placed: "\<forall>v \<in> set (creditVals events). value_placed d1 (map (\<lambda>e. (de_transactionID e, de_destinationLedger e)) events) v"
    using row clearing by (fastforce simp: creditVals_def value_placed_def clearing_of_def)
  note B = postStatement_books [OF num b1 post cents placed _ creditDeltas_by] and F = postStatement_frame [OF post]
  have bal: "\<forall>x. valueImbalance x (creditVals events) = 0" by (simp add: creditVals_imbalance)
  show "pg_books env d'" using B(1) [OF bal] by (simp add: d')
  have kept2: "accounts_kept d1 d2" unfolding accounts_kept_def using B(2) [OF bal] by fastforce
  then have "accounts_kept d1 d'" by (simp add: accounts_kept_def d')
  then show kept: "accounts_kept d d'" using accounts_kept_trans [OF accounts_added_kept [OF add]] by blast
  have "k \<notin> de_clearingAccount ` set events" if "accountRow d k = Some a" "ar_name a \<noteq> clearingName"
    using clearing accounts_added_row(1) [OF add that(1)] that(2) by (fastforce simp: clearing_of_def)
  then show "accountRow d' k = Some (a\<lparr>ar_balance := ar_balance a + creditedTo k ?ready\<rparr>)"
    if "accountRow d k = Some a" "ar_name a \<noteq> clearingName"
    using B(2) [OF bal accounts_added_row(1) [OF add that(1)]] creditNet_credited [OF ev] that
    by (simp add: d' creditVals_net)
  have "outbox_ok (outboxT d2)"
    using postStatement_outbox_ok [OF post] sagas accounts_added_frame(4) [OF add] by (simp add: pg_sagas_def)
  then have "outbox_ok (outboxT d')" by (simp add: d' processedEvents_def outbox_ok_map)
  moreover have "sagasT d2 = sagasT d" using F(1) accounts_added_frame(3) [OF add] by simp
  then have st: "sagasT d' = map (\<lambda>(k, r). (k, if k \<in> set (map de_sagaID events) then r\<lparr>sr_status := TransferCompleted, sr_updated := t\<rparr> else r)) (sagasT d)"
    by (simp add: d' setSagas_def)
  have "map fst (sagasT d') = map fst (sagasT d)" unfolding st by (auto simp: comp_def split_def)
  moreover have "saga_placed env d' (snd p)" if "p \<in> set (sagasT d')" for p
    using that sagas saga_placed_kept [OF _ kept] unfolding st by (fastforce simp: pg_sagas_def)
  ultimately show "pg_sagas env d'" using sagas unfolding pg_sagas_def by simp
qed

text \<open>The transfers of a batch are completed, and none of them is ready again.\<close>

lemma credited_sagas:
  assumes cr: "credited env t (readyCredits t limit d) events d d'"
  defines "sids \<equiv> (\<lambda>(_, sid, _). sid) ` set (readyCredits t limit d)"
  shows "sagasT d' = map (\<lambda>(k, r). (k, if k \<in> sids then r\<lparr>sr_status := TransferCompleted, sr_updated := t\<rparr> else r)) (sagasT d)"
    and "length events = length (readyCredits t limit d)"
proof -
  from cr obtain d1 oids d2 where ev: "list_all2 event_of (readyCredits t limit d) events" and add: "accounts_added d d1"
    and post: "postStatement env t (map (\<lambda>e. (de_transactionID e, de_destinationLedger e)) events) (creditVals events)
          (deltaUpdate (creditDeltas events)) oids d1 = Inr d2"
    and d': "d' = processedEvents (map de_eventID events) (setCreditSteps (map de_sagaID events) ''completed''
           (setSagas (map de_sagaID events) TransferCompleted t d2))"
    unfolding credited_def by blast
  have "de_sagaID ` set events = sids"
    using ev unfolding sids_def by (induction rule: list_all2_induct) (auto simp: event_of_def)
  then show "sagasT d' = map (\<lambda>(k, r). (k, if k \<in> sids then r\<lparr>sr_status := TransferCompleted, sr_updated := t\<rparr> else r)) (sagasT d)"
    using postStatement_frame(1) [OF post] accounts_added_frame(3) [OF add] by (simp add: d' setSagas_def)
  show "length events = length (readyCredits t limit d)" using ev by (simp add: list_all2_lengthD)
qed

subsection \<open>Opening a transfer keeps the sagas in order\<close>

lemma opened_outbox_ok:
  assumes "opened env req sl src dl dst sid u d d'" and "outbox_ok (outboxT d)"
  shows "outbox_ok (outboxT d')"
proof -
  obtain t tid o1 o2 d1 d2 d3 e1 e2 c where add: "accounts_added d d1"
    and post: "postStatement env t [(tid, sl)] [(e1, src, tid, Amount req, 0), (e2, c, tid, 0, Amount req)]
          (legUpdate src c (- Amount req)) [o1] d1 = Inr d2"
    and saga: "insertSaga env sid \<lparr>sr_key = IdempotencyKey req, sr_sourceLedger = sl, sr_sourceAccount = src,
          sr_destinationLedger = dl, sr_destinationAccount = dst, sr_amount = Amount req,
          sr_status = TransferPending, sr_created = u, sr_updated = u\<rparr> d2 = Inr d3"
    and ins: "insertOutbox (sagaEvent o2 t sid ''destination_credit'')
         (insertSteps [\<lparr>st_saga = sid, st_step = ''source_debit'', st_status = ''completed'', st_attempts = 1\<rparr>,
            \<lparr>st_saga = sid, st_step = ''destination_credit'', st_status = ''pending'', st_attempts = 0\<rparr>] d3) = Inr d'"
    using assms(1) unfolding opened_def by blast
  have "outbox_ok (outboxT d2)"
    using postStatement_outbox_ok [OF post] accounts_added_frame(4) [OF add] assms(2) by simp
  moreover have "outboxT d3 = outboxT d2" by (rule insertSaga_Inr [OF saga]) simp
  ultimately show ?thesis using insertOutbox_ok [OF ins] by (simp add: insertSteps_def)
qed

lemma opened_sagas:
  assumes num: "numeric_ok env" and books: "pg_books env d" and sagas: "pg_sagas env d" and cts: "cents env (Amount req)"
    and src: "\<forall>a. accountRow d src = Some a \<longrightarrow> ar_name a \<noteq> clearingName"
    and op: "opened env req sl src dl dst sid u d d'"
  shows "pg_sagas env d'" and "accounts_kept d d'"
proof -
  note O = opened_books [OF num books cts src op]
  show kept: "accounts_kept d d'" unfolding accounts_kept_def using O(6) by fastforce
  obtain a where a: "accountRow d src = Some a" "ar_ledger a = sl" using O(2) by blast
  obtain b where b: "accountRow d dst = Some b" "ar_ledger b = dl" using O(9) by blast
  have "saga_placed env d \<lparr>sr_key = IdempotencyKey req, sr_sourceLedger = sl, sr_sourceAccount = src,
          sr_destinationLedger = dl, sr_destinationAccount = dst, sr_amount = Amount req,
          sr_status = TransferPending, sr_created = u, sr_updated = u\<rparr>"
    using a b src O(8) cts by (simp add: saga_placed_def)
  then have "\<forall>p \<in> set (sagasT d'). saga_placed env d' (snd p)"
    using sagas saga_placed_kept [OF _ kept] by (auto simp: pg_sagas_def O(4))
  moreover have "distinct (map fst (sagasT d'))" using sagas O(7) unfolding O(4) by (auto simp: pg_sagas_def)
  ultimately show "pg_sagas env d'" using opened_outbox_ok [OF op] sagas by (simp add: pg_sagas_def)
qed

lemma map_of_map_keyed: "map_of (map (\<lambda>(k, r). (k, f k r)) xs) k = map_option (f k) (map_of xs k)"
  by (induction xs) auto

lemma credited_status:
  assumes cr: "credited env t (readyCredits t limit d) events d d'"
  defines "sids \<equiv> (\<lambda>(_, sid, _). sid) ` set (readyCredits t limit d)"
  shows "map_of (sagasT d) sid = Some r \<Longrightarrow>
      \<exists>r'. map_of (sagasT d') sid = Some r' \<and> sr_status r' = (if sid \<in> sids then TransferCompleted else sr_status r)"
    and "sids \<inter> (\<lambda>(_, sid, _). sid) ` set (readyCredits u l d') = {}"
proof -
  note S = credited_sagas(1) [OF cr, folded sids_def]
  have st: "map_of (sagasT d') k = map_option (\<lambda>r. if k \<in> sids then r\<lparr>sr_status := TransferCompleted, sr_updated := t\<rparr> else r) (map_of (sagasT d) k)" for k
    unfolding S by (rule map_of_map_keyed)
  show "\<exists>r'. map_of (sagasT d') sid = Some r' \<and> sr_status r' = (if sid \<in> sids then TransferCompleted else sr_status r)"
    if "map_of (sagasT d) sid = Some r" using st [of sid] that by simp
  have "k \<notin> sids" if "(ev, k, r) \<in> set (readyCredits u l d')" for ev k r
    using readyCredits_row(5,6) [OF that] st [of k] by auto
  then show "sids \<inter> (\<lambda>(_, sid, _). sid) ` set (readyCredits u l d') = {}" by fastforce
qed

lemma mapE_notify: "\<exists>s' us. mapE (\<lambda>x. notifyTransfer (f x)) xs s = (s', Inr us)"
proof (induction xs arbitrary: s)
  case (Cons x xs)
  obtain s' us where "mapE (\<lambda>x. notifyTransfer (f x)) xs (s\<lparr>transferWaiters := notified (f x) (transferWaiters s)\<rparr>) = (s', Inr us)"
    using Cons.IH by blast
  moreover have "notifyTransfer (f x) s = (s\<lparr>transferWaiters := notified (f x) (transferWaiters s)\<rparr>, Inr ())"
    by (simp add: notifyTransfer_def)
  ultimately show ?case by (simp add: bindE_def returnE_def)
qed (simp add: returnE_def)

end
