(* ===== verification/Pg_Journal.thy ===== *)
theory Pg_Journal
  imports Table_Relation Streaming Pg_Batch_Books Pg_Credit_Books
begin

text \<open>
  The journal of the PostgreSQL store only grows: no operation changes a transaction or an entry that is stored, adds an
  entry to a transaction of an earlier commit, or forgets an event of the outbox.

  That an operation moves the tables along the relation \<open>journal\<close> is shown statement by statement, with the rules of
  the locale \<open>table_relation\<close>.
\<close>

subsection \<open>The journal\<close>

definition same_event :: "OutboxRow \<Rightarrow> OutboxRow \<Rightarrow> bool" where
  "same_event r r' \<longleftrightarrow> or_id r' = or_id r \<and> or_transaction r' = or_transaction r \<and> or_type r' = or_type r \<and>
     (or_type r = transactionPosted \<longrightarrow> or_status r' = or_status r)"

definition extends :: "'d Database \<Rightarrow> 'd Database \<Rightarrow> bool" where
  "extends d d' \<longleftrightarrow>
     (\<exists>rows. entriesT d' = entriesT d @ rows \<and> (\<forall>r \<in> set rows. transactionsT d (er_transaction r) = None)) \<and>
     transactionsT d \<subseteq>\<^sub>m transactionsT d' \<and>
     (\<exists>f outs. outboxT d' = map f (outboxT d) @ outs \<and> (\<forall>r \<in> set (outboxT d). same_event r (f r)) \<and>
        (\<forall>r \<in> set outs. or_type r \<noteq> ''compensate_source'' \<and> (or_type r = transactionPosted \<longrightarrow> or_status r = ''pending'') \<and> (\<forall>tid. or_transaction r = Some tid \<longrightarrow> transactionsT d tid = None))) \<and>
     inboxT d' = inboxT d \<and> accountDaysT d' = accountDaysT d \<and> ledgerDaysT d' = ledgerDaysT d"

text \<open>
  No two events have the same identifier, and no transaction has two events of a type; entries belong to stored
  transactions, as do the events of postings; amounts have two decimals; the inbox knows only events of the outbox.
\<close>

definition eventTarget :: "OutboxRow \<Rightarrow> uuid option \<times> string" where
  "eventTarget r = (or_transaction r, or_type r)"

definition outbox_unique :: "OutboxRow list \<Rightarrow> bool" where
  "outbox_unique rows \<longleftrightarrow> distinct (map or_id rows) \<and> distinct (map eventTarget (filter (\<lambda>r. or_transaction r \<noteq> None) rows))"

definition outbox_known :: "(uuid \<rightharpoonup> TransactionRow) \<Rightarrow> OutboxRow list \<Rightarrow> bool" where
  "outbox_known m rows \<longleftrightarrow> (\<forall>r \<in> set rows. \<forall>tid. or_transaction r = Some tid \<longrightarrow> tid \<in> dom m \<and> or_type r = transactionPosted)"

definition entries_known :: "('d, 'm) pg_env_scheme \<Rightarrow> (uuid \<rightharpoonup> TransactionRow) \<Rightarrow> 'd EntryRow list \<Rightarrow> bool" where
  "entries_known env m rows \<longleftrightarrow> (\<forall>e \<in> set rows. er_transaction e \<in> dom m \<and> cents env (er_debit e) \<and> cents env (er_credit e))"

definition journal_ok :: "('d :: linordered_ab_group_add, 'm) pg_env_scheme \<Rightarrow> 'd Database \<Rightarrow> bool" where
  "journal_ok env d \<longleftrightarrow> outbox_unique (outboxT d) \<and> outbox_known (transactionsT d) (outboxT d) \<and>
     entries_known env (transactionsT d) (entriesT d) \<and> snd ` set (inboxT d) \<subseteq> or_id ` set (outboxT d)"

lemma journal_okD:
  assumes "journal_ok env d"
  shows "distinct (map or_id (outboxT d))" and "outbox_unique (outboxT d)" and "outbox_known (transactionsT d) (outboxT d)"
    and "entries_known env (transactionsT d) (entriesT d)" and "snd ` set (inboxT d) \<subseteq> or_id ` set (outboxT d)"
  using assms by (auto simp: journal_ok_def outbox_unique_def)

lemma known_mono:
  assumes "dom m \<subseteq> dom m'"
  shows "outbox_known m rows \<Longrightarrow> outbox_known m' rows" and "entries_known env m es \<Longrightarrow> entries_known env m' es"
  using assms unfolding outbox_known_def entries_known_def by blast+

lemma journal_ok_map:
  assumes "journal_ok env d" and "\<And>r. or_id (f r) = or_id r \<and> or_transaction (f r) = or_transaction r \<and> or_type (f r) = or_type r"
  shows "journal_ok env (d\<lparr>outboxT := map f (outboxT d)\<rparr>)"
proof -
  have "map or_id (map f (outboxT d)) = map or_id (outboxT d)" "or_id ` set (map f (outboxT d)) = or_id ` set (outboxT d)"
    using assms(2) by (simp_all add: image_image)
  moreover have "map eventTarget (filter (\<lambda>r. or_transaction r \<noteq> None) (map f rows)) = map eventTarget (filter (\<lambda>r. or_transaction r \<noteq> None) rows)" for rows
    using assms(2) by (induction rows) (simp_all add: eventTarget_def)
  moreover have "outbox_known m rows \<Longrightarrow> outbox_known m (map f rows)" for m rows using assms(2) by (simp add: outbox_known_def)
  ultimately show ?thesis
    using assms(1) unfolding journal_ok_def outbox_unique_def by (simp del: map_map set_map)
qed

lemma known_append:
  "outbox_known m (rows @ rows') \<longleftrightarrow> outbox_known m rows \<and> outbox_known m rows'"
  "entries_known env m (es @ es') \<longleftrightarrow> entries_known env m es \<and> entries_known env m es'"
  by (auto simp: outbox_known_def entries_known_def)

definition journal :: "('d :: linordered_ab_group_add, 'm) pg_env_scheme \<Rightarrow> 'd Database \<Rightarrow> 'd Database \<Rightarrow> bool" where
  "journal env d d' \<longleftrightarrow> extends d d' \<and> (journal_ok env d \<longrightarrow> journal_ok env d')"

lemma same_event_refl [simp]: "same_event r r"
  by (simp add: same_event_def)

lemma extends_refl: "extends d d"
  unfolding extends_def by (intro conjI exI [of _ "[]"] exI [of _ "\<lambda>r. r"]) auto

lemma extends_trans:
  assumes "extends d d1" and "extends d1 d2"
  shows "extends d d2"
proof -
  obtain rows1 f1 outs1 where 1: "entriesT d1 = entriesT d @ rows1" "\<forall>r \<in> set rows1. transactionsT d (er_transaction r) = None"
    "outboxT d1 = map f1 (outboxT d) @ outs1" "\<forall>r \<in> set (outboxT d). same_event r (f1 r)"
    "\<forall>r \<in> set outs1. or_type r \<noteq> ''compensate_source'' \<and> (or_type r = transactionPosted \<longrightarrow> or_status r = ''pending'') \<and> (\<forall>tid. or_transaction r = Some tid \<longrightarrow> transactionsT d tid = None)"
    using assms(1) unfolding extends_def by blast
  obtain rows2 f2 outs2 where 2: "entriesT d2 = entriesT d1 @ rows2" "\<forall>r \<in> set rows2. transactionsT d1 (er_transaction r) = None"
    "outboxT d2 = map f2 (outboxT d1) @ outs2" "\<forall>r \<in> set (outboxT d1). same_event r (f2 r)"
    "\<forall>r \<in> set outs2. or_type r \<noteq> ''compensate_source'' \<and> (or_type r = transactionPosted \<longrightarrow> or_status r = ''pending'') \<and> (\<forall>tid. or_transaction r = Some tid \<longrightarrow> transactionsT d1 tid = None)"
    using assms(2) unfolding extends_def by blast
  have le: "transactionsT d \<subseteq>\<^sub>m transactionsT d1" using assms(1) by (simp add: extends_def)
  then have old: "transactionsT d tid = None" if "transactionsT d1 tid = None" for tid
    using that by (metis domIff map_le_def)
  show ?thesis
    unfolding extends_def
  proof (intro conjI exI)
    show "entriesT d2 = entriesT d @ (rows1 @ rows2)" using 1(1) 2(1) by simp
    show "\<forall>r \<in> set (rows1 @ rows2). transactionsT d (er_transaction r) = None" using 1(2) 2(2) old by auto
    show "outboxT d2 = map (f2 \<circ> f1) (outboxT d) @ (map f2 outs1 @ outs2)" using 1(3) 2(3) by simp
    show "\<forall>r \<in> set (outboxT d). same_event r ((f2 \<circ> f1) r)" using 1(3,4) 2(4) by (auto simp: same_event_def)
    show "\<forall>r \<in> set (map f2 outs1 @ outs2). or_type r \<noteq> ''compensate_source'' \<and> (or_type r = transactionPosted \<longrightarrow> or_status r = ''pending'') \<and> (\<forall>tid. or_transaction r = Some tid \<longrightarrow> transactionsT d tid = None)"
      using 1(3,5) 2(4,5) old by (auto simp: same_event_def)
    show "transactionsT d \<subseteq>\<^sub>m transactionsT d2" using le assms(2) map_le_trans by (auto simp: extends_def)
  qed (use assms in \<open>simp_all add: extends_def\<close>)
qed

interpretation jr: table_relation "journal env" for env
  by unfold_locales (auto simp: journal_def extends_refl intro: extends_trans)

text \<open>Statements that touch none of the tables of the journal.\<close>

lemma journal_frame [simp]:
  "journal env d (d\<lparr>accountsT := a\<rparr>)" "journal env d (d\<lparr>keysT := k\<rparr>)" "journal env d (d\<lparr>sagasT := g\<rparr>)" "journal env d (d\<lparr>stepsT := st\<rparr>)"
proof -
  have "journal env d d'" if "entriesT d' = entriesT d" "transactionsT d' = transactionsT d" "outboxT d' = outboxT d"
    "inboxT d' = inboxT d" "accountDaysT d' = accountDaysT d" "ledgerDaysT d' = ledgerDaysT d" for d'
    unfolding journal_def using that extends_refl [of d] by (simp add: extends_def journal_ok_def)
  then show "journal env d (d\<lparr>accountsT := a\<rparr>)" "journal env d (d\<lparr>keysT := k\<rparr>)" "journal env d (d\<lparr>sagasT := g\<rparr>)" "journal env d (d\<lparr>stepsT := st\<rparr>)"
    by simp_all
qed

lemma journal_completeKey [simp]: "journal env d (completeKey key tid d)"
  by (simp add: completeKey_def jr.refl split: option.splits)

lemma journal_insertAccount: "insertAccount aid l n ty d = Inr d' \<Longrightarrow> journal env d d'"
  by (auto simp: insertAccount_def split: if_splits)

lemma journal_added: "accounts_added d d' \<Longrightarrow> journal env d d'"
  by (auto simp: accounts_added_def)

lemma journal_insertSaga: "insertSaga env sid row d = Inr d' \<Longrightarrow> journal env d d'"
  by (auto simp: insertSaga_def split: option.splits if_splits)

lemma insertOutbox_unique:
  assumes "insertOutbox row d = Inr d'"
  shows "d' = d\<lparr>outboxT := outboxT d @ [row]\<rparr>" and "outbox_unique (outboxT d) \<Longrightarrow> outbox_unique (outboxT d @ [row])"
  using assms by (auto simp: insertOutbox_def list_ex_iff outbox_unique_def eventTarget_def split: if_splits)

lemma insertOutbox_journal_ok:
  assumes "insertOutbox row d = Inr d'" and "journal_ok env d" and "outbox_known (transactionsT d) [row]"
  shows "journal_ok env d'"
  using insertOutbox_unique [OF assms(1)] assms(2,3) by (auto simp: journal_ok_def known_append)

lemma journal_insertOutbox:
  assumes "insertOutbox row d = Inr d'" and "or_transaction row = None" and "or_status row = ''pending''"
    and "or_type row \<noteq> ''compensate_source''"
  shows "journal env d d'"
proof -
  note I = insertOutbox_unique [OF assms(1)]
  have "extends d d'"
    unfolding extends_def using I(1) assms(2-4)
    by (intro conjI exI [of _ "[]"] exI [of _ "\<lambda>r. r"] exI [of _ "[row]"]) auto
  moreover have "journal_ok env d \<longrightarrow> journal_ok env d'"
    using insertOutbox_journal_ok [OF assms(1), of env] assms(2) by (simp add: outbox_known_def)
  ultimately show ?thesis by (simp add: journal_def)
qed

subsection \<open>Postings\<close>

definition value_tid :: "'d entryValue \<Rightarrow> uuid" where
  "value_tid v = (case v of (eid, aid, tid, credit, debit) \<Rightarrow> tid)"

lemma entryRows_cents:
  assumes "numeric_ok env" and "entryRows env t vals = Inr rows"
  shows "\<forall>r \<in> set rows. cents env (er_debit r) \<and> cents env (er_credit r) \<and> er_transaction r \<in> value_tid ` set vals"
  using assms(2)
proof (induction vals arbitrary: rows)
  case (Cons v vs)
  obtain eid aid tid credit debit where v: "v = (eid, aid, tid, credit, debit)" by (cases v)
  obtain c x qs where "numeric env credit = Some c" "numeric env debit = Some x" "entryRows env t vs = Inr qs"
    "rows = \<lparr>er_id = eid, er_account = aid, er_transaction = tid, er_credit = c, er_debit = x, er_created = t\<rparr> # qs"
    using Cons.prems by (auto simp: v bindR_Inr split: option.splits)
  moreover have "cents env c" "cents env x" using numeric_okD(4) [OF assms(1)] calculation(1,2) by blast+
  ultimately show ?case using Cons.IH by (auto simp: v value_tid_def)
qed simp

lemma insertOutboxes_unique:
  assumes "insertOutboxes rows d = Inr d'" and "journal_ok env d"
    and "outbox_known (transactionsT d) rows"
  shows "journal_ok env d'"
  using assms
proof (induction rows arbitrary: d)
  case (Cons row rows)
  then obtain d1 where 1: "insertOutbox row d = Inr d1" and 2: "insertOutboxes rows d1 = Inr d'" by (auto simp: bindR_Inr)
  have k: "outbox_known (transactionsT d) [row]" "outbox_known (transactionsT d) rows"
    using Cons.prems(3) by (simp_all add: outbox_known_def)
  have "transactionsT d1 = transactionsT d" using insertOutbox_unique(1) [OF 1] by simp
  then show ?case using Cons.IH [OF 2] insertOutbox_journal_ok [OF 1 Cons.prems(2) k(1)] k(2) by simp
qed simp

text \<open>A command that posts extends the journal when its entries belong to the transactions it inserts.\<close>

lemma journal_postStatement:
  assumes num: "numeric_ok env" and post: "postStatement env t txs vals upd oids d = Inr d'"
    and tids: "value_tid ` set vals \<subseteq> fst ` set txs"
  shows "journal env d d'"
proof -
  let ?outs = "map (\<lambda>(oid, tid, _). postedEvent oid t tid) (zip oids txs)"
  from post obtain d1 rows d2 d3 where d1: "insertTransactions t txs d = Inr d1"
    and rows: "entryRows env t vals = Inr rows" and d2: "insertEntries rows d1 = Inr d2"
    and d3: "updateBalances env upd d2 = Inr d3" and d': "insertOutboxes ?outs d3 = Inr d'"
    by (auto simp: postStatement_def bindR_Inr)
  obtain m where m: "d1 = d\<lparr>transactionsT := m\<rparr>" "\<forall>tid r. transactionsT d tid = Some r \<longrightarrow> m tid = Some r"
    "dom m = dom (transactionsT d) \<union> fst ` set txs" "\<forall>(tid, l) \<in> set txs. transactionsT d tid = None \<and> m tid = Some \<lparr>tr_ledger = l, tr_created = t\<rparr>"
    using insertTransactions_Inr [OF d1] by blast
  obtain accs where d3': "d3 = d\<lparr>transactionsT := m, entriesT := entriesT d @ rows, accountsT := accs\<rparr>"
    using m(1) d2 d3 by (auto simp: insertEntries_def updateBalances_def bindR_Inr split: if_splits)
  have d'': "d' = d3\<lparr>outboxT := outboxT d @ ?outs\<rparr>" using insertOutboxes_Inr [OF d'] d3' by simp
  have new: "\<forall>r \<in> set rows. transactionsT d (er_transaction r) = None" and known: "entries_known env m rows"
    using entryRows_cents [OF num rows] tids m(3,4) by (fastforce simp: image_iff entries_known_def)+
  have outs: "\<forall>r \<in> set ?outs. or_type r \<noteq> ''compensate_source'' \<and> or_status r = ''pending'' \<and> (\<forall>tid. or_transaction r = Some tid \<longrightarrow> transactionsT d tid = None)"
    using m(4) by (auto simp: postedEvent_def dest!: set_zip_rightD)
  have outs_known: "outbox_known m ?outs"
    using m(3) by (force simp: outbox_known_def postedEvent_def transactionPosted_def dest!: set_zip_rightD)
  have "extends d d'"
    unfolding extends_def
  proof (intro conjI exI)
    show "entriesT d' = entriesT d @ rows" "outboxT d' = map (\<lambda>r. r) (outboxT d) @ ?outs" using d'' d3' by simp_all
    show "transactionsT d \<subseteq>\<^sub>m transactionsT d'" using d'' d3' m(2) by (auto simp: map_le_def)
    show "\<forall>r \<in> set rows. transactionsT d (er_transaction r) = None" by (rule new)
    show "\<forall>r \<in> set ?outs. or_type r \<noteq> ''compensate_source'' \<and> (or_type r = transactionPosted \<longrightarrow> or_status r = ''pending'') \<and>
        (\<forall>tid. or_transaction r = Some tid \<longrightarrow> transactionsT d tid = None)" using outs by blast
    show "inboxT d' = inboxT d" "accountDaysT d' = accountDaysT d" "ledgerDaysT d' = ledgerDaysT d" using d'' d3' by simp_all
  qed simp
  moreover have "journal_ok env d'" if ok: "journal_ok env d"
  proof (rule insertOutboxes_unique [OF d'])
    have "dom (transactionsT d) \<subseteq> dom m" using m(3) by blast
    from known_mono [OF this] show "journal_ok env d3"
      using ok d3' known by (auto simp: journal_ok_def known_append)
    show "outbox_known (transactionsT d3) ?outs" using outs_known d3' by simp
  qed
  ultimately show ?thesis by (simp add: journal_def)
qed

subsection \<open>The operations\<close>

lemmas journal_intros = jr.keeps_rules

lemma keeps_PgCreateAccount: "keeps (journal env) (PgCreateAccount env name ty)"
  unfolding PgCreateAccount_def by (auto intro!: journal_intros intro: journal_insertAccount split: option.splits)

lemma keeps_PgCreateAccountInLedger: "keeps (journal env) (PgCreateAccountInLedger env l name ty)"
  unfolding PgCreateAccountInLedger_def parseE_def by (auto intro!: journal_intros intro: journal_insertAccount split: option.splits)

lemma keeps_writePosting:
  assumes "numeric_ok env"
  shows "keeps (journal env) (writePosting env tid l key es changes)"
proof -
  have "journal env d (completeKey key tid d1)"
    if p: "postStatement env t [(tid, l)] (map (\<lambda>(eid, e). (eid, pe_accountID e, tid, Credit (pe_entry e), Debit (pe_entry e))) (zip ids es)) upd [oid] d = Inr d1"
    for t ids upd oid d d1
    by (rule jr.trans [OF journal_postStatement [OF assms p] journal_completeKey]) (auto simp: value_tid_def)
  then show ?thesis
    unfolding writePosting_def by (auto simp: bindR_Inr intro!: journal_intros)
qed

lemma keeps_PgCreateTransaction:
  assumes "numeric_ok env"
  shows "keeps (journal env) (PgCreateTransaction env key es)"
proof -
  have new: "keeps (journal env) (postNew env k es)" for k
    unfolding postNew_def
    by (auto intro!: journal_intros keeps_writePosting [OF assms] jr.keeps_quiet [OF quiet_lock] split: prod.splits)
  have "keeps (journal env) (createTransactionAttempt env key c es)" for c
    unfolding createTransactionAttempt_def ClaimIdempotencyKey_def buildTransaction_def
    by (auto intro!: journal_intros new split: option.splits)
  then show ?thesis
    unfolding PgCreateTransaction_def completedIdempotentTransaction_def Let_def
    by (auto intro!: journal_intros split: option.splits)
qed

lemma keeps_CreateTransactionsBatch:
  assumes "numeric_ok env"
  shows "keeps (journal env) (CreateTransactionsBatch env ess)"
proof -
  have vals: "value_tid ` set (writeVals writes) \<subseteq> fst ` set (map (\<lambda>(tid, posting, _). (tid, bp_ledgerID posting)) writes)"
    for writes :: "(uuid \<times> 'a preparedBatchPosting \<times> uuid list) list"
    by (force simp: writeVals_def postingVals_def value_tid_def)
  have "keeps (journal env) (writePostingBatch env ps ch rs)" for ps ch rs
    unfolding writePostingBatch_def Let_def
    by (auto intro!: journal_intros journal_postStatement [OF assms _ vals])
  then show ?thesis
    unfolding CreateTransactionsBatch_def Let_def
    by (auto intro!: journal_intros split: prod.splits)
qed

lemma keeps_ensureClearing: "keeps (journal env) (ensureClearing env l)"
  unfolding ensureClearing_def by (auto intro!: journal_intros intro: journal_insertAccount split: option.splits)

lemma journal_source:
  assumes "numeric_ok env"
    and "postStatement env t [(tid, sl)] [(e1, src, tid, amount, 0), (e2, c, tid, 0, amount)] upd [o1] d = Inr d1"
    and "insertSaga env sid row d1 = Inr d2" and "insertOutbox (sagaEvent o2 t sid ''destination_credit'') (insertSteps steps d2) = Inr d3"
  shows "journal env d d3"
proof (rule jr.trans [OF journal_postStatement [OF assms(1,2)]])
  show "journal env d1 d3"
  proof (rule jr.trans [OF journal_insertSaga [OF assms(3)]])
    have "journal env d2 (insertSteps steps d2)" by (simp add: insertSteps_def)
    then show "journal env d2 d3"
      by (rule jr.trans) (rule journal_insertOutbox [OF assms(4)]; simp add: sagaEvent_def)
  qed
qed (simp add: value_tid_def)

lemma keeps_PgCreateTransfer:
  assumes "numeric_ok env"
  shows "keeps (journal env) (PgCreateTransfer env req)"
proof -
  have "keeps (journal env) (writeSourceTransfer env sid key sl src c dl dst amount t)" for sid key sl src c dl dst amount t
    unfolding writeSourceTransfer_def
    by (auto simp: bindR_Inr intro!: journal_intros dest!: journal_source [OF assms])
  then have "keeps (journal env) (newTransfer env req sl src dl dst)" for sl src dl dst
    unfolding newTransfer_def
    by (auto intro!: journal_intros keeps_ensureClearing split: option.splits)
  then show ?thesis
    unfolding PgCreateTransfer_def transferTransaction_def scanSaga_def parseE_def
    by (auto intro!: journal_intros split: option.splits)
qed

text \<open>The credit worker changes events of transfers only.\<close>

lemma journal_processed:
  assumes "journal_ok env d" and "\<forall>r \<in> set (outboxT d). or_id r \<in> set eids \<longrightarrow> or_type r \<noteq> transactionPosted"
  shows "journal env d (processedEvents eids d)"
proof -
  let ?f = "\<lambda>r. if or_id r \<in> set eids then r\<lparr>or_status := ''processed'', or_attempts := Suc (or_attempts r)\<rparr> else r"
  have "extends d (processedEvents eids d)"
    unfolding extends_def processedEvents_def using assms(2)
    by (intro conjI exI [of _ "[]"] exI [of _ ?f]) (auto simp: same_event_def)
  moreover have "journal_ok env (d\<lparr>outboxT := map ?f (outboxT d)\<rparr>)"
    by (rule journal_ok_map [OF assms(1)]) simp
  ultimately show ?thesis by (simp add: journal_def processedEvents_def)
qed

lemma journal_credited:
  assumes num: "numeric_ok env" and ok: "journal_ok env d" and cr: "credited env t (readyCredits t l d) es d d'"
  shows "journal env d d'"
proof -
  obtain d1 oids d2 where ev: "list_all2 event_of (readyCredits t l d) es" and d1: "accounts_added d d1"
    and d2: "postStatement env t (map (\<lambda>e. (de_transactionID e, de_destinationLedger e)) es) (creditVals es) (deltaUpdate (creditDeltas es)) oids d1 = Inr d2"
    and d': "d' = processedEvents (map de_eventID es) (setCreditSteps (map de_sagaID es) ''completed'' (setSagas (map de_sagaID es) TransferCompleted t d2))"
    using cr by (auto simp: credited_def)
  let ?d3 = "setCreditSteps (map de_sagaID es) ''completed'' (setSagas (map de_sagaID es) TransferCompleted t d2)"
  have tids: "value_tid ` set (creditVals es) \<subseteq> fst ` set (map (\<lambda>e. (de_transactionID e, de_destinationLedger e)) es)"
    by (auto simp: creditVals_def value_tid_def image_image)
  have j2: "journal env d d2" by (rule jr.trans [OF journal_added [OF d1] journal_postStatement [OF num d2 tids]])
  then have j3: "journal env d ?d3" by (rule jr.trans) (simp add: setCreditSteps_def setSagas_def jr.trans [OF journal_frame(3) journal_frame(4)])
  have ok3: "journal_ok env ?d3" using j3 ok by (simp add: journal_def)
  have "or_type r \<noteq> transactionPosted" if r: "r \<in> set (outboxT ?d3)" and e: "e \<in> set es" and k: "or_id r = de_eventID e" for r e
  proof -
    obtain p where p: "p \<in> set (readyCredits t l d)" "event_of p e" using ev e by (metis in_set_conv_nth list_all2_conv_all_nth)
    obtain x sid q where x: "p = (x, sid, q)" by (cases p)
    have X: "x \<in> set (outboxT d)" "or_type x = ''destination_credit''" "or_id x = de_eventID e"
      using p readyCredits_row(1,3) by (auto simp: x event_of_def)
    obtain f outs where f: "outboxT ?d3 = map f (outboxT d) @ outs" "\<forall>y \<in> set (outboxT d). same_event y (f y)"
      using j3 by (auto simp: journal_def extends_def)
    have "f x \<in> set (outboxT ?d3)" "or_id (f x) = or_id r" using f X k by (auto simp: same_event_def)
    then have "r = f x" using r journal_okD(1) [OF ok3] by (metis distinct_map inj_onD)
    then show ?thesis using f(2) X by (auto simp: same_event_def transactionPosted_def)
  qed
  then have "journal env ?d3 d'" unfolding d' by (intro journal_processed [OF ok3]) auto
  then show ?thesis by (rule jr.trans [OF j3])
qed

lemma PgProcessOutbox_journal:
  assumes "numeric_ok env" and "journal_ok env (db s)" and "PgProcessOutbox env limit s = (s', res)"
  shows "journal env (db s) (db s')"
proof -
  let ?l = "if limit \<le> 0 then 100 else nat limit"
  obtain s1 r1 where tx: "creditBatchTransaction env ?l s = (s1, r1)" by (cases "creditBatchTransaction env ?l s")
  have "quiet (bindE (mapE (\<lambda>e. notifyTransfer (uuidString env (de_sagaID e))) es) (\<lambda>_. returnE n))"
    for es :: "'a destinationCreditBatchEvent list" and n :: nat by (intro quiet_intros)
  then have "db s' = db s1" using assms(3) tx
    by (auto simp: PgProcessOutbox_def processDestinationCreditBatch_def bindE_def [of "creditBatchTransaction env ?l"] split: sum.splits intro: quietD)
  moreover have "journal env (db s) (db s1)"
  proof (cases r1)
    case (Inl e)
    then have "db s1 = db s" using tx unfolding creditBatchTransaction_def by (auto dest: atomically_Inl)
    then show ?thesis by (simp add: jr.refl)
  next
    case (Inr es)
    show ?thesis using creditBatchTransaction_Inr [OF tx [unfolded Inr]] journal_credited [OF assms(1,2)]
      by (auto simp: jr.refl split: if_splits)
  qed
  ultimately show ?thesis by simp
qed

subsection \<open>Compensations\<close>

definition no_compensation :: "'d Database \<Rightarrow> bool" where
  "no_compensation d \<longleftrightarrow> (\<forall>r \<in> set (outboxT d). or_type r \<noteq> ''compensate_source'')"

lemma extends_no_compensation: "extends d d' \<Longrightarrow> no_compensation d \<Longrightarrow> no_compensation d'"
  by (fastforce simp: extends_def no_compensation_def same_event_def)

lemma ProcessCompensationOutbox_idle:
  assumes "no_compensation (db s)" and "ProcessCompensationOutbox env limit s = (s', n, e)"
  shows "db s' = db s \<and> n = 0"
proof -
  obtain m where m: "(if limit \<le> 0 then 100 else nat limit) = Suc m" by (cases "if limit \<le> 0 then 100 else nat limit") (auto split: if_splits)
  have none: "readyCompensation t (db s) = None" for t
    using assms(1) by (auto simp: readyCompensation_def no_compensation_def filter_empty_conv split: list.splits
        dest: arg_cong [where f = set])
  show ?thesis
    using assms(2) none unfolding ProcessCompensationOutbox_def m
    by (auto simp: individualTransaction_def atomically_def bindE_def [of "dbCall env w" for w] dbCall_def returnE_def
        split: option.splits prod.splits sum.splits)
qed

end
