(* ===== verification/Projection.thy ===== *)
theory Projection
  imports Streaming Pg_Transfer_Books
begin

text \<open>
  What one call of \<open>ApplyTransactionPostedBatch\<close> does to the inbox and to the daily aggregates: the events that are not
  in the inbox are added to the aggregates once each.
\<close>

subsection \<open>Debit and credit side by side\<close>

datatype side = DebitSide | CreditSide

fun entrySide :: "side \<Rightarrow> 'd Entry \<Rightarrow> 'd" where
  "entrySide DebitSide e = e_Debit e"
| "entrySide CreditSide e = e_Credit e"

fun deltaSide :: "side \<Rightarrow> 'd aggregateDelta \<Rightarrow> 'd" where
  "deltaSide DebitSide x = ad_debit x"
| "deltaSide CreditSide x = ad_credit x"

fun rowSide :: "side \<Rightarrow> 'd EntryRow \<Rightarrow> 'd" where
  "rowSide DebitSide r = er_debit r"
| "rowSide CreditSide r = er_credit r"

fun dayRowSide :: "side \<Rightarrow> 'd DayRow \<Rightarrow> 'd" where
  "dayRowSide DebitSide r = dr_debit r"
| "dayRowSide CreditSide r = dr_credit r"

text \<open>The total of a table of aggregates for a key.\<close>

definition dayTotal :: "side \<Rightarrow> ((uuid \<times> int) \<times> 'd :: zero DayRow) list \<Rightarrow> uuid \<times> int \<Rightarrow> 'd" where
  "dayTotal sd rows k = (case map_of rows k of None \<Rightarrow> 0 | Some r \<Rightarrow> dayRowSide sd r)"

text \<open>What an event adds for an account and for a ledger on a day.\<close>

definition accountShare ::
  "('d :: linordered_ab_group_add, 'm) pg_env_scheme \<Rightarrow> side \<Rightarrow> uuid \<times> int \<Rightarrow> 'd TransactionPostedEvent \<Rightarrow> 'd" where
  "accountShare env sd k ev =
     (if dayOf (pe_Timestamp ev) = snd k
      then (\<Sum>e\<leftarrow>pe_Entries ev. if uuidParse env (e_AccountID e) = Some (fst k) then entrySide sd e else 0) else 0)"

definition ledgerShare ::
  "('d :: linordered_ab_group_add, 'm) pg_env_scheme \<Rightarrow> side \<Rightarrow> uuid \<times> int \<Rightarrow> 'd TransactionPostedEvent \<Rightarrow> 'd" where
  "ledgerShare env sd k ev =
     (if dayOf (pe_Timestamp ev) = snd k \<and> uuidParse env (pe_LedgerID ev) = Some (fst k)
      then (\<Sum>e\<leftarrow>pe_Entries ev. entrySide sd e) else 0)"

subsection \<open>The inbox\<close>

lemma insertInbox_eq:
  "insertInbox consumer eids inbox = (inbox', new) \<Longrightarrow>
     inbox' = inbox @ map (Pair consumer) new \<and> distinct new \<and>
     set new = {eid \<in> set eids. (consumer, eid) \<notin> set inbox}"
proof (induction consumer eids inbox arbitrary: inbox' new rule: insertInbox.induct)
  case (2 consumer eid eids inbox)
  show ?case
  proof (cases "(consumer, eid) \<in> set inbox")
    case True
    then show ?thesis using 2 by auto
  next
    case False
    obtain new1 where rec: "insertInbox consumer eids (inbox @ [(consumer, eid)]) = (inbox', new1)" and new: "new = eid # new1"
      using 2(3) False by (auto split: prod.splits)
    show ?thesis using 2(2) [OF False rec] new False by auto
  qed
qed auto

subsection \<open>The loop over the events\<close>

text \<open>The events it takes: the first of each identifier among the new ones.\<close>

fun firstNew :: "uuid set \<Rightarrow> uuid set \<Rightarrow> 'd preparedPostedEvent list \<Rightarrow> 'd preparedPostedEvent list" where
  "firstNew new seen [] = []"
| "firstNew new seen (p # ps) =
     (if pp_eventID p \<notin> new \<or> pp_eventID p \<in> seen then firstNew new seen ps
      else p # firstNew new (insert (pp_eventID p) seen) ps)"

lemma firstNew_ids:
  "set (map pp_eventID (firstNew new seen ps)) = (pp_eventID ` set ps \<inter> new) - seen"
  "distinct (map pp_eventID (firstNew new seen ps))"
  by (induction ps arbitrary: seen) auto

lemma firstNew_sub: "set (firstNew new seen ps) \<subseteq> set ps"
proof (induction ps arbitrary: seen)
  case (Cons p ps)
  show ?case using Cons.IH [of seen] Cons.IH [of "insert (pp_eventID p) seen"] by auto
qed simp

lemma firstNew_index: "distinct (map pp_index ps) \<Longrightarrow> distinct (map pp_index (firstNew new seen ps))"
proof (induction ps arbitrary: seen)
  case (Cons p ps)
  then show ?case using firstNew_sub [of new "insert (pp_eventID p) seen" ps] by auto
qed simp

lemma deltaOf_update [simp]: "deltaOf (AList.update k v ds) k' = (if k' = k then v else deltaOf ds k')"
  by (simp add: deltaOf_def update_conv')

lemma deltaOf_Nil [simp]: "deltaSide sd (deltaOf [] k) = 0"
  by (cases sd) (simp_all add: deltaOf_def)

lemma addEntries_Inr:
  "addEntries env day eid es acc led = Inr (acc', led') \<Longrightarrow>
     deltaSide sd (deltaOf acc' k) = deltaSide sd (deltaOf acc k) +
       (if day = snd k then (\<Sum>e\<leftarrow>es. if uuidParse env (e_AccountID e) = Some (fst k) then entrySide sd e else 0) else 0) \<and>
     deltaSide sd led' = deltaSide sd led + (\<Sum>e\<leftarrow>es. entrySide sd e) \<and>
     (distinct (map fst acc) \<longrightarrow> distinct (map fst acc'))"
proof (induction es arbitrary: acc led)
  case (Cons e es)
  obtain a where a: "uuidParse env (e_AccountID e) = Some a" using Cons.prems by (auto split: option.splits)
  let ?acc = "AList.update (a, day) \<lparr>ad_debit = ad_debit (deltaOf acc (a, day)) + e_Debit e,
    ad_credit = ad_credit (deltaOf acc (a, day)) + e_Credit e, ad_lastEventID = eid\<rparr> acc"
  let ?led = "led\<lparr>ad_debit := ad_debit led + e_Debit e, ad_credit := ad_credit led + e_Credit e\<rparr>"
  have rec: "addEntries env day eid es ?acc ?led = Inr (acc', led')" using Cons.prems a by (simp add: Let_def)
  have "deltaSide sd (deltaOf ?acc k) = deltaSide sd (deltaOf acc k) + (if day = snd k \<and> a = fst k then entrySide sd e else 0)"
    by (cases sd; cases k) auto
  moreover have "deltaSide sd ?led = deltaSide sd led + entrySide sd e" by (cases sd) simp_all
  moreover have "distinct (map fst acc) \<longrightarrow> distinct (map fst ?acc)" by (simp add: distinct_update)
  ultimately show ?case using Cons.IH [OF rec] a by (simp add: ac_simps)
qed simp

text \<open>The effect of the loop on the deltas and on \<open>applied\<close>.\<close>

lemma aggregateLoop_Inr:
  assumes "aggregateLoop env new ps st = Inr st'" and "\<forall>p \<in> set ps. uuidParse env (pe_LedgerID (pp_event p)) = Some (pp_ledgerID p)"
    and "fresh = firstNew (set new) (set (pj_aggregated st)) ps"
  shows "deltaSide sd (deltaOf (pj_accounts st') k) = deltaSide sd (deltaOf (pj_accounts st) k) + (\<Sum>p\<leftarrow>fresh. accountShare env sd k (pp_event p)) \<and>
    deltaSide sd (deltaOf (pj_ledgers st') k) = deltaSide sd (deltaOf (pj_ledgers st) k) + (\<Sum>p\<leftarrow>fresh. ledgerShare env sd k (pp_event p)) \<and>
    (distinct (map fst (pj_accounts st)) \<longrightarrow> distinct (map fst (pj_accounts st'))) \<and>
    (distinct (map fst (pj_ledgers st)) \<longrightarrow> distinct (map fst (pj_ledgers st'))) \<and>
    pj_applied st' = fold (\<lambda>p fs. fs[pp_index p := True]) fresh (pj_applied st)"
  using assms
proof (induction ps arbitrary: st fresh)
  case (Cons p ps)
  show ?case
  proof (cases "pp_eventID p \<notin> set new \<or> pp_eventID p \<in> set (pj_aggregated st)")
    case True
    then show ?thesis using Cons.IH [of st fresh] Cons.prems by auto
  next
    case False
    let ?day = "dayOf (pe_Timestamp (pp_event p))"
    let ?led = "(deltaOf (pj_ledgers st) (pp_ledgerID p, ?day))\<lparr>ad_lastEventID := pp_eventID p\<rparr>"
    obtain acc led where add: "addEntries env ?day (pp_eventID p) (pe_Entries (pp_event p)) (pj_accounts st) ?led = Inr (acc, led)"
      and rec: "aggregateLoop env new ps \<lparr>pj_applied = (pj_applied st)[pp_index p := True], pj_accounts = acc,
         pj_ledgers = AList.update (pp_ledgerID p, ?day) led (pj_ledgers st), pj_aggregated = pp_eventID p # pj_aggregated st\<rparr> = Inr st'"
      using Cons.prems(1) False by (auto simp: Let_def split: sum.splits prod.splits)
    note A = addEntries_Inr [OF add, of sd k]
    have led: "deltaSide sd ?led = deltaSide sd (deltaOf (pj_ledgers st) (pp_ledgerID p, ?day))" by (cases sd) simp_all
    show ?thesis
      using Cons.IH [OF rec _ refl] Cons.prems(2,3) A False led
      by (cases k) (auto simp: accountShare_def ledgerShare_def distinct_update ac_simps)
  qed
qed simp

subsection \<open>The upserts\<close>

definition days_ok :: "('d, 'm) pg_env_scheme \<Rightarrow> ((uuid \<times> int) \<times> 'd DayRow) list \<Rightarrow> bool" where
  "days_ok env rows \<longleftrightarrow> distinct (map fst rows) \<and> (\<forall>p \<in> set rows. cents env (dr_debit (snd p)) \<and> cents env (dr_credit (snd p)))"

lemma days_ok_row: "days_ok env rows \<Longrightarrow> map_of rows k = Some r \<Longrightarrow> cents env (dr_debit r) \<and> cents env (dr_credit r)"
  by (auto simp: days_ok_def dest!: map_of_SomeD)

lemma set_update: "set (AList.update k r rows) \<subseteq> insert (k, r) (set rows)"
  by (induction rows) auto

lemma days_ok_update:
  assumes "days_ok env rows" and "cents env (dr_debit r)" and "cents env (dr_credit r)"
  shows "days_ok env (AList.update k r rows)"
  using assms set_update [of k r rows] by (fastforce simp: days_ok_def distinct_update)

definition delta_cents :: "('d, 'm) pg_env_scheme \<Rightarrow> 'd aggregateDelta \<Rightarrow> bool" where
  "delta_cents env x \<longleftrightarrow> (\<forall>sd. cents env (deltaSide sd x))"

lemma delta_centsD: "delta_cents env x \<Longrightarrow> cents env (ad_debit x) \<and> cents env (ad_credit x)"
  unfolding delta_cents_def by (metis deltaSide.simps)

lemma upsertDay_Inr:
  assumes "numeric_ok env" and "delta_cents env x" and "days_ok env rows" and "upsertDay env t ref (k, x) rows = Inr rows'"
  shows "days_ok env rows' \<and> dayTotal sd rows' k' = dayTotal sd rows k' + (if k' = k then deltaSide sd x else 0)"
proof -
  note num = numeric_okD(5) [OF assms(1)]
  note c = delta_centsD [OF assms(2)]
  show ?thesis
  proof (cases "map_of rows k")
    case None
    then have "rows' = rows @ [(k, \<lparr>dr_debit = ad_debit x, dr_credit = ad_credit x, dr_updated = t, dr_lastEvent = ad_lastEventID x\<rparr>)]"
      using assms(4) c num by (auto simp: upsertDay_def split: option.splits if_splits)
    moreover have "k \<notin> fst ` set rows" using None by (simp add: map_of_eq_None_iff)
    ultimately show ?thesis using assms(3) c None
      by (cases sd) (auto simp: days_ok_def dayTotal_def map_add_def split: option.splits)
  next
    case (Some r)
    note cr = days_ok_row [OF assms(3) Some]
    have s: "cents env (dr_debit r + ad_debit x)" "cents env (dr_credit r + ad_credit x)"
      using numeric_okD(2) [OF assms(1)] cr c by blast+
    obtain v w v' w' where n: "numeric env (ad_debit x) = Some v" "numeric env (ad_credit x) = Some w"
      "numeric env (dr_debit r + v) = Some v'" "numeric env (dr_credit r + w) = Some w'"
      and rows': "rows' = AList.update k \<lparr>dr_debit = v', dr_credit = w', dr_updated = t, dr_lastEvent = ad_lastEventID x\<rparr> rows"
      using assms(4) Some by (auto simp: upsertDay_def split: option.splits)
    have "v = ad_debit x" "w = ad_credit x" using num n(1,2) c by blast+
    then have "v' = dr_debit r + ad_debit x" "w' = dr_credit r + ad_credit x" using num n(3,4) s by blast+
    then show ?thesis using days_ok_update [OF assms(3)] s Some rows'
      by (cases sd) (auto simp: dayTotal_def update_conv')
  qed
qed

lemma deltaOf_Cons: "k \<noteq> fst p \<Longrightarrow> deltaOf (p # ps) k = deltaOf ps k" "deltaOf ((k, x) # ps) k = x"
  by (cases p) (simp_all add: deltaOf_def)

lemma deltaOf_notin: "k \<notin> fst ` set ps \<Longrightarrow> deltaSide sd (deltaOf ps k) = 0"
  by (cases sd) (simp_all add: deltaOf_def map_of_eq_None_iff [THEN iffD2])

lemma upsertDays_Inr:
  assumes "numeric_ok env" and "upsertDays env t ref ps rows = Inr rows'" and "days_ok env rows" and "distinct (map fst ps)"
    and "\<forall>p \<in> set ps. delta_cents env (snd p)"
  shows "days_ok env rows' \<and> dayTotal sd rows' k = dayTotal sd rows k + deltaSide sd (deltaOf ps k)"
  using assms(2-5)
proof (induction ps arbitrary: rows)
  case (Cons p ps)
  obtain q x where p: "p = (q, x)" by (cases p)
  from Cons.prems(1) obtain rows1 where 1: "upsertDay env t ref (q, x) rows = Inr rows1" and 2: "upsertDays env t ref ps rows1 = Inr rows'"
    by (auto simp: p bindR_Inr)
  have x: "delta_cents env x" using Cons.prems(4) p by simp
  note U = upsertDay_Inr [OF assms(1) x Cons.prems(2) 1, of sd k]
  have "days_ok env rows' \<and> dayTotal sd rows' k = dayTotal sd rows1 k + deltaSide sd (deltaOf ps k)"
    using Cons.IH [OF 2] U Cons.prems(3,4) by simp
  then show ?case
    using U Cons.prems(3) by (cases "k = q") (auto simp: p deltaOf_Cons deltaOf_notin)
qed simp

lemma distinct_sorted: "distinct (map fst ds) \<Longrightarrow> distinct (map fst (sort_key fst ds))"
  using mset_eq_imp_distinct_iff [of "map fst (sort_key fst ds)" "map fst ds"] by simp

lemma deltaOf_sort: "distinct (map fst ds) \<Longrightarrow> deltaOf (sort_key fst ds) k = deltaOf ds k"
proof -
  assume d: "distinct (map fst ds)"
  have "map_of (sort_key fst ds) = map_of ds"
    using d distinct_sorted [OF d] by (intro map_of_inject_set [THEN iffD2]) simp_all
  then show ?thesis by (simp add: deltaOf_def)
qed

lemma upsertAggregateDeltas_Inr:
  assumes "numeric_ok env" and "upsertAggregateDeltas env t ref ds rows = Inr rows'" and "days_ok env rows" and "distinct (map fst ds)"
    and "\<forall>k. delta_cents env (deltaOf ds k)"
  shows "days_ok env rows' \<and> dayTotal sd rows' k = dayTotal sd rows k + deltaSide sd (deltaOf ds k)"
proof -
  note dist = distinct_sorted [OF assms(4)]
  have "delta_cents env (snd p)" if "p \<in> set ds" for p
    using that assms(4,5) by (metis deltaOf_def map_of_is_SomeI option.case(2) prod.collapse)
  then show ?thesis
    using upsertDays_Inr [OF assms(1) _ assms(3) dist] assms(2) deltaOf_sort [OF assms(4)]
    by (auto simp: upsertAggregateDeltas_def)
qed

subsection \<open>The transaction of the projection\<close>

definition event_cents :: "('d, 'm) pg_env_scheme \<Rightarrow> 'd TransactionPostedEvent \<Rightarrow> bool" where
  "event_cents env ev \<longleftrightarrow> (\<forall>e \<in> set (pe_Entries ev). cents env (e_Debit e) \<and> cents env (e_Credit e))"

lemma shares_cents:
  assumes "numeric_ok env" and "event_cents env ev"
  shows "cents env (accountShare env sd k ev)" and "cents env (ledgerShare env sd k ev)"
proof -
  have "cents env (entrySide sd e)" if "e \<in> set (pe_Entries ev)" for e
    using that assms(2) by (cases sd) (auto simp: event_cents_def)
  then show "cents env (accountShare env sd k ev)" "cents env (ledgerShare env sd k ev)"
    using numeric_okD(1) [OF assms(1)] by (auto simp: accountShare_def ledgerShare_def intro!: cents_sum_list [OF assms(1)])
qed

lemma upsert_act:
  assumes "(if ds = [] then returnE () else execDb env w (\<lambda>d. bindR (upsertAggregateDeltas env t (ref d) ds (tab d)) (\<lambda>rows. Inr (setTab rows d)))) s
      = (s', Inr u)"
    and "numeric_ok env" and "days_ok env (tab (db s))" and "distinct (map fst ds)" and "\<forall>k. delta_cents env (deltaOf ds k)"
    and "\<And>d. setTab (tab d) d = d"
  obtains rows where "db s' = setTab rows (db s)" and "days_ok env rows"
    and "\<forall>sd k. dayTotal sd rows k = dayTotal sd (tab (db s)) k + deltaSide sd (deltaOf ds k)"
proof (cases "ds = []")
  case True
  then have "s' = s" using assms(1) by (simp add: returnE_def)
  then show ?thesis using that [of "tab (db s)"] assms(3,6) True by simp
next
  case False
  then obtain rows where r: "upsertAggregateDeltas env t (ref (db s)) ds (tab (db s)) = Inr rows" "db s' = setTab rows (db s)"
    using assms(1) by (auto simp: execDb_Inr bindR_Inr)
  show ?thesis by (rule that [OF r(2)]) (use upsertAggregateDeltas_Inr [OF assms(2) r(1) assms(3-5)] in auto)
qed

lemma writeProjection_Inr:
  assumes "writeProjection env t st s = (s', Inr u)" and num: "numeric_ok env"
    and ok: "days_ok env (accountDaysT (db s))" "days_ok env (ledgerDaysT (db s))"
    and ds: "distinct (map fst (pj_accounts st))" "distinct (map fst (pj_ledgers st))"
    and c: "\<forall>k. delta_cents env (deltaOf (pj_accounts st) k)" "\<forall>k. delta_cents env (deltaOf (pj_ledgers st) k)"
  obtains A L where "db s' = (db s)\<lparr>accountDaysT := A, ledgerDaysT := L\<rparr>" "days_ok env A" "days_ok env L"
    "\<forall>sd k. dayTotal sd A k = dayTotal sd (accountDaysT (db s)) k + deltaSide sd (deltaOf (pj_accounts st) k)"
    "\<forall>sd k. dayTotal sd L k = dayTotal sd (ledgerDaysT (db s)) k + deltaSide sd (deltaOf (pj_ledgers st) k)"
proof -
  obtain s1 where 1: "(if pj_accounts st = [] then returnE () else execDb env ''upsert account aggregates'' (\<lambda>d.
        bindR (upsertAggregateDeltas env t (\<lambda>a. accountsReferenced env \<longrightarrow> accountRow d a \<noteq> None) (pj_accounts st) (accountDaysT d))
          (\<lambda>rows. Inr (d\<lparr>accountDaysT := rows\<rparr>)))) s = (s1, Inr ())"
    and 2: "(if pj_ledgers st = [] then returnE () else execDb env ''upsert ledger aggregates'' (\<lambda>d.
        bindR (upsertAggregateDeltas env t (\<lambda>_. True) (pj_ledgers st) (ledgerDaysT d)) (\<lambda>rows. Inr (d\<lparr>ledgerDaysT := rows\<rparr>)))) s1 = (s', Inr u)"
    using assms(1) unfolding writeProjection_def bindE_Inr by auto
  obtain A where A: "db s1 = (db s)\<lparr>accountDaysT := A\<rparr>" "days_ok env A"
    "\<forall>sd k. dayTotal sd A k = dayTotal sd (accountDaysT (db s)) k + deltaSide sd (deltaOf (pj_accounts st) k)"
    by (rule upsert_act [where tab = accountDaysT and setTab = "\<lambda>rows d. d\<lparr>accountDaysT := rows\<rparr>", OF 1 num ok(1) ds(1) c(1)]) auto
  have ok2: "days_ok env (ledgerDaysT (db s1))" using A(1) ok(2) by simp
  obtain L where L: "db s' = (db s1)\<lparr>ledgerDaysT := L\<rparr>" "days_ok env L"
    "\<forall>sd k. dayTotal sd L k = dayTotal sd (ledgerDaysT (db s1)) k + deltaSide sd (deltaOf (pj_ledgers st) k)"
    by (rule upsert_act [where tab = ledgerDaysT and setTab = "\<lambda>rows d. d\<lparr>ledgerDaysT := rows\<rparr>", OF 2 num ok2 ds(2) c(2)]) auto
  show ?thesis by (rule that [where A = A and L = L]) (use A L in auto)
qed

lemma projectTransaction_Inr:
  assumes "projectTransaction env consumer n ps s = (s', Inr applied)" and num: "numeric_ok env"
    and ok: "days_ok env (accountDaysT (db s))" "days_ok env (ledgerDaysT (db s))"
    and ps: "\<forall>p \<in> set ps. uuidParse env (pe_LedgerID (pp_event p)) = Some (pp_ledgerID p) \<and> event_cents env (pp_event p)"
  obtains new A L where "distinct new" "set new = {eid \<in> pp_eventID ` set ps. (consumer, eid) \<notin> set (inboxT (db s))}"
    "db s' = (db s)\<lparr>inboxT := inboxT (db s) @ map (Pair consumer) new, accountDaysT := A, ledgerDaysT := L\<rparr>"
    "days_ok env A" "days_ok env L"
    "\<forall>sd k. dayTotal sd A k = dayTotal sd (accountDaysT (db s)) k + (\<Sum>p\<leftarrow>firstNew (set new) {} ps. accountShare env sd k (pp_event p))"
    "\<forall>sd k. dayTotal sd L k = dayTotal sd (ledgerDaysT (db s)) k + (\<Sum>p\<leftarrow>firstNew (set new) {} ps. ledgerShare env sd k (pp_event p))"
    "applied = fold (\<lambda>p fs. fs[pp_index p := True]) (firstNew (set new) {} ps) (replicate n False)"
proof -
  let ?st = "\<lparr>pj_applied = replicate n False, pj_accounts = [], pj_ledgers = [], pj_aggregated = []\<rparr>"
  obtain inbox new where ins: "insertInbox consumer (map pp_eventID ps) (inboxT (db s)) = (inbox, new)"
    by (cases "insertInbox consumer (map pp_eventID ps) (inboxT (db s))")
  note I = insertInbox_eq [OF ins]
  let ?s1 = "s\<lparr>ticks := Suc (ticks s), calls := Suc (Suc (calls s)), db := (db s)\<lparr>inboxT := inbox\<rparr>\<rparr>"
  from assms(1) obtain st s2 u where loop: "aggregateLoop env new ps ?st = Inr st" and wr: "writeProjection env (readClock env (ticks s)) st ?s1 = (s2, Inr u)"
    and d2: "db s' = db s2" and ap: "applied = pj_applied st"
    by (auto simp: projectTransaction_def dbCall_then ins liftE_then bindE_Inr [of "writeProjection env t st'" for t st'] returnE_def)
  have pl: "\<forall>p \<in> set ps. uuidParse env (pe_LedgerID (pp_event p)) = Some (pp_ledgerID p)" using ps by blast
  note A = aggregateLoop_Inr [OF loop pl refl, simplified]
  have sub: "event_cents env (pp_event p)" if "p \<in> set (firstNew (set new) {} ps)" for p
    using that ps firstNew_sub by blast
  have c: "\<forall>k. delta_cents env (deltaOf (pj_accounts st) k)" "\<forall>k. delta_cents env (deltaOf (pj_ledgers st) k)"
    unfolding delta_cents_def using A sub by (auto intro!: cents_sum_list [OF num] shares_cents [OF num])
  have ok1: "days_ok env (accountDaysT (db ?s1))" "days_ok env (ledgerDaysT (db ?s1))" using ok by simp_all
  have ds: "distinct (map fst (pj_accounts st))" "distinct (map fst (pj_ledgers st))" using A by blast+
  obtain X L where W: "db s2 = (db ?s1)\<lparr>accountDaysT := X, ledgerDaysT := L\<rparr>" "days_ok env X" "days_ok env L"
    "\<forall>sd k. dayTotal sd X k = dayTotal sd (accountDaysT (db ?s1)) k + deltaSide sd (deltaOf (pj_accounts st) k)"
    "\<forall>sd k. dayTotal sd L k = dayTotal sd (ledgerDaysT (db ?s1)) k + deltaSide sd (deltaOf (pj_ledgers st) k)"
    by (rule writeProjection_Inr [OF wr num ok1 ds c])
  show ?thesis
    by (rule that [where new = new and A = X and L = L]) (use I W d2 A ap in auto)
qed

subsection \<open>A batch of events\<close>

text \<open>\<open>sort.Slice\<close> leaves a sorted permutation.\<close>

definition slice_order :: "('d, 'm) stream_env_scheme \<Rightarrow> bool" where
  "slice_order env \<longleftrightarrow> (\<forall>ks. mset (sliceOrder env ks) = mset [0..<length ks] \<and> sorted (map ((!) ks) (sliceOrder env ks)))"

lemma mset_sortPrepared: "slice_order env \<Longrightarrow> mset (sortPrepared env ps) = mset ps"
proof -
  assume "slice_order env"
  then have "mset (sliceOrder env (map pp_eventID ps)) = mset [0..<length ps]" by (simp add: slice_order_def)
  then have "image_mset ((!) ps) (mset (sliceOrder env (map pp_eventID ps))) = mset (map ((!) ps) [0..<length ps])" by simp
  then show ?thesis by (simp add: sortPrepared_def map_nth)
qed

definition eventKey :: "('d, 'm) pg_env_scheme \<Rightarrow> 'd TransactionPostedEvent \<Rightarrow> uuid" where
  "eventKey env ev = parseOrNil env (pe_EventID ev)"

lemma prepareAll_Inr:
  assumes "prepareAll env (enumerate n events) = Inr ps"
  shows "map pp_event ps = events" and "map pp_index ps = [n..<n + length events]"
    and "\<forall>p \<in> set ps. uuidParse env (pe_EventID (pp_event p)) = Some (pp_eventID p) \<and>
      uuidParse env (pe_LedgerID (pp_event p)) = Some (pp_ledgerID p)"
  using assms
proof (induction events arbitrary: n ps)
  case (Cons ev events)
  have split: thesis if "prepareAll env (enumerate n (ev # events)) = Inr ps"
    "\<And>p qs. ps = p # qs \<Longrightarrow> prepareAll env (enumerate (Suc n) events) = Inr qs \<Longrightarrow> pp_event p = ev \<Longrightarrow> pp_index p = n \<Longrightarrow>
       uuidParse env (pe_EventID ev) = Some (pp_eventID p) \<Longrightarrow> uuidParse env (pe_LedgerID ev) = Some (pp_ledgerID p) \<Longrightarrow> thesis"
    for n ps thesis
    using that(1) by (auto simp: bindR_Inr preparePosted_def split: option.splits if_splits intro!: that(2))
  {
    case 1
    then show ?case by (rule split) (use Cons.IH(1) in auto)
  next
    case 2
    then show ?case by (rule split) (use Cons.IH(2) [of "Suc n"] in \<open>simp add: upt_conv_Cons del: upt_Suc\<close>)
  next
    case 3
    then show ?case by (rule split) (use Cons.IH(3) in auto)
  }
qed simp_all

text \<open>The events that a call says it applied.\<close>

definition appliedEvents :: "'a list \<Rightarrow> bool list \<Rightarrow> 'a list" where
  "appliedEvents events applied = map fst (filter snd (zip events applied))"

lemma appliedEvents_nth:
  assumes "length applied = length events"
  shows "appliedEvents events applied = map ((!) events) (filter ((!) applied) [0..<length events])"
  using assms
proof (induction events arbitrary: applied rule: rev_induct)
  case (snoc ev events)
  obtain a as where a: "applied = as @ [a]" "length as = length events"
    using snoc.prems by (metis append_butlast_last_id length_0_conv length_append_singleton length_butlast nat.simps(3) diff_Suc_1)
  have "filter ((!) (as @ [a])) [0..<length events] = filter ((!) as) [0..<length events]"
    using a(2) by (intro filter_cong) (auto simp: nth_append)
  moreover have "map ((!) (events @ [ev])) (filter ((!) as) [0..<length events]) = map ((!) events) (filter ((!) as) [0..<length events])"
    by (auto simp: nth_append)
  moreover have "(as @ [a]) ! length events = a" using a(2) by (metis nth_append_length)
  ultimately show ?case using snoc.IH [OF a(2)] a by (simp add: appliedEvents_def)
qed (simp add: appliedEvents_def)

lemma applied_chosen:
  assumes "applied = fold (\<lambda>p fs. fs[pp_index p := True]) fresh (replicate (length events) False)"
    and "distinct (map pp_index fresh)" and "\<forall>p \<in> set fresh. pp_index p < length events \<and> pp_event p = events ! pp_index p"
  shows "length applied = length events" and "mset (appliedEvents events applied) = mset (map pp_event fresh)"
proof -
  let ?n = "length events"
  have f: "applied = fold (\<lambda>c fs. fs[c := True]) (map pp_index fresh) (replicate ?n False)"
    using assms(1) by (simp add: fold_map comp_def)
  show len: "length applied = ?n" using f nth_closeAll(1) by simp
  have nth: "applied ! i \<longleftrightarrow> i \<in> pp_index ` set fresh" if "i < ?n" for i
    using nth_closeAll(2) [of i "replicate ?n False" "map pp_index fresh"] that f by auto
  have "set (filter ((!) applied) [0..<?n]) = set (map pp_index fresh)" using nth assms(3) by auto
  then have "mset (filter ((!) applied) [0..<?n]) = mset (map pp_index fresh)"
    using assms(2) set_eq_iff_mset_eq_distinct [of "filter ((!) applied) [0..<?n]" "map pp_index fresh"] by (simp only: distinct_filter distinct_upt)
  then have "mset (map ((!) events) (filter ((!) applied) [0..<?n])) = mset (map ((!) events) (map pp_index fresh))"
    by (simp only: mset_map)
  moreover have "map ((!) events) (map pp_index fresh) = map pp_event fresh" using assms(3) by simp
  ultimately show "mset (appliedEvents events applied) = mset (map pp_event fresh)"
    using appliedEvents_nth [OF len] by (simp only:)
qed

text \<open>What a successful call does.\<close>

definition projected ::
  "('d :: linordered_ab_group_add, 'm) pg_env_scheme \<Rightarrow> string \<Rightarrow> 'd TransactionPostedEvent list \<Rightarrow> bool list
     \<Rightarrow> 'd Database \<Rightarrow> 'd Database \<Rightarrow> bool" where
  "projected env consumer events applied d d' \<longleftrightarrow>
     length applied = length events \<and>
     distinct (map (eventKey env) (appliedEvents events applied)) \<and>
     eventKey env ` set (appliedEvents events applied) = {k \<in> eventKey env ` set events. (consumer, k) \<notin> set (inboxT d)} \<and>
     (\<exists>inbox A L. d' = d\<lparr>inboxT := inbox, accountDaysT := A, ledgerDaysT := L\<rparr> \<and>
        set inbox = set (inboxT d) \<union> Pair consumer ` eventKey env ` set events \<and> days_ok env A \<and> days_ok env L \<and>
        (\<forall>sd k. dayTotal sd A k = dayTotal sd (accountDaysT d) k + (\<Sum>ev\<leftarrow>appliedEvents events applied. accountShare env sd k ev)) \<and>
        (\<forall>sd k. dayTotal sd L k = dayTotal sd (ledgerDaysT d) k + (\<Sum>ev\<leftarrow>appliedEvents events applied. ledgerShare env sd k ev)))"

lemma sum_list_mset: "mset xs = mset ys \<Longrightarrow> (\<Sum>x\<leftarrow>xs. f x) = (\<Sum>y\<leftarrow>ys. f y :: 'd :: linordered_ab_group_add)"
  by (metis mset_map sum_mset_sum_list)

lemma mapE_total: "(\<And>x s. \<exists>s' y. f x s = (s', Inr y)) \<Longrightarrow> \<exists>s' ys. mapE f xs s = (s', Inr ys)"
proof (induction xs arbitrary: s)
  case (Cons x xs)
  obtain s1 y where 1: "f x s = (s1, Inr y)" using Cons.prems by blast
  obtain s2 ys where "mapE f xs s1 = (s2, Inr ys)" using Cons.IH [OF Cons.prems] by blast
  with 1 show ?case by (simp add: bindE_def returnE_def)
qed (simp add: returnE_def)

lemma ApplyTransactionPostedBatch_Inl:
  assumes "ApplyTransactionPostedBatch env consumer events s = (s', Inl e)"
  shows "db s' = db s"
proof -
  have n: "mapE (\<lambda>ev. notifyProjection (pe_TransactionID ev)) events s1 \<noteq> (s2, Inl e)" for s1 s2
    using mapE_total [of "\<lambda>ev. notifyProjection (pe_TransactionID ev)" events s1] by (auto simp: notifyProjection_def)
  have "rolls_back (projectTransaction env consumer m ps)" for m ps
    unfolding projectTransaction_def by (rule rolls_back_atomically)
  then show ?thesis using assms
    by (auto simp: ApplyTransactionPostedBatch_def failE_def returnE_def liftE_def bindE_Inl n dest: rolls_backD split: if_splits)
qed

lemma ApplyTransactionPostedBatch_Inr:
  assumes run: "ApplyTransactionPostedBatch env consumer events s = (s', Inr applied)" and num: "numeric_ok env" and ord: "slice_order env"
    and ok: "days_ok env (accountDaysT (db s))" "days_ok env (ledgerDaysT (db s))" and c: "\<forall>ev \<in> set events. event_cents env ev"
  shows "projected env consumer events applied (db s) (db s')"
proof (cases "events = []")
  case True
  then have "applied = [] \<and> db s' = db s" using run by (auto simp: ApplyTransactionPostedBatch_def failE_def returnE_def split: if_splits)
  then show ?thesis using True ok
    unfolding projected_def
    by (intro conjI exI [of _ "inboxT (db s)"] exI [of _ "accountDaysT (db s)"] exI [of _ "ledgerDaysT (db s)"]) (simp_all add: appliedEvents_def)
next
  case False
  from run False obtain ps s1 s2 us where prep: "prepareAll env (enumerate 0 events) = Inr ps"
    and tx: "projectTransaction env consumer (length events) (sortPrepared env ps) s = (s1, Inr applied)"
    and not: "mapE (\<lambda>ev. notifyProjection (pe_TransactionID ev)) events s1 = (s2, Inr us)" and s': "s' = s2"
    by (auto simp: ApplyTransactionPostedBatch_def failE_def returnE_def liftE_def bindE_Inr split: if_splits)
  have "quiet (mapE (\<lambda>ev. notifyProjection (pe_TransactionID ev)) events)" by (intro quiet_intros)
  from quietD [OF this not] have d: "db s' = db s1" using s' by simp
  let ?qs = "sortPrepared env ps"
  note P = prepareAll_Inr [OF prep]
  have perm: "mset ?qs = mset ps" by (rule mset_sortPrepared [OF ord])
  then have set: "set ?qs = set ps" by (rule mset_eq_setD)
  have idx: "distinct (map pp_index ?qs)" using P(2) perm by (metis distinct_upt mset_eq_imp_distinct_iff mset_map)
  have nth: "\<forall>p \<in> set ps. pp_index p < length events \<and> pp_event p = events ! pp_index p"
  proof
    fix p assume "p \<in> set ps"
    then obtain i where i: "i < length ps" "p = ps ! i" by (auto simp: in_set_conv_nth)
    have "length ps = length events" using P(1) by auto
    with i show "pp_index p < length events \<and> pp_event p = events ! pp_index p" using P(1,2)
      by (metis add_0 nth_map nth_upt)
  qed
  have key: "eventKey env (pp_event p) = pp_eventID p" if "p \<in> set ps" for p
    using that P(3) by (auto simp: eventKey_def parseOrNil_def)
  have qs: "\<forall>p \<in> set ?qs. uuidParse env (pe_LedgerID (pp_event p)) = Some (pp_ledgerID p) \<and> event_cents env (pp_event p)"
    using P(1,3) c set by auto
  obtain new A L where T: "distinct new" "set new = {eid \<in> pp_eventID ` set ?qs. (consumer, eid) \<notin> set (inboxT (db s))}"
    "db s1 = (db s)\<lparr>inboxT := inboxT (db s) @ map (Pair consumer) new, accountDaysT := A, ledgerDaysT := L\<rparr>"
    "days_ok env A" "days_ok env L"
    "\<forall>sd k. dayTotal sd A k = dayTotal sd (accountDaysT (db s)) k + (\<Sum>p\<leftarrow>firstNew (set new) {} ?qs. accountShare env sd k (pp_event p))"
    "\<forall>sd k. dayTotal sd L k = dayTotal sd (ledgerDaysT (db s)) k + (\<Sum>p\<leftarrow>firstNew (set new) {} ?qs. ledgerShare env sd k (pp_event p))"
    "applied = fold (\<lambda>p fs. fs[pp_index p := True]) (firstNew (set new) {} ?qs) (replicate (length events) False)"
    by (rule projectTransaction_Inr [OF tx num ok qs])
  let ?fresh = "firstNew (set new) {} ?qs"
  have sub: "set ?fresh \<subseteq> set ps" using firstNew_sub set by fast
  have ch: "length applied = length events" "mset (appliedEvents events applied) = mset (map pp_event ?fresh)"
    using applied_chosen [OF T(8) firstNew_index [OF idx]] nth sub by blast+
  have keys: "map (eventKey env) (map pp_event ?fresh) = map pp_eventID ?fresh" using key sub by auto
  have "mset (map (eventKey env) (appliedEvents events applied)) = mset (map pp_eventID ?fresh)" using ch(2) keys by (metis mset_map)
  then have dist: "distinct (map (eventKey env) (appliedEvents events applied))"
    and kset: "set (map (eventKey env) (appliedEvents events applied)) = set (map pp_eventID ?fresh)"
    using firstNew_ids(2) by (metis mset_eq_imp_distinct_iff, metis mset_eq_setD)
  have ids: "pp_eventID ` set ps = eventKey env ` set events" using key P(1) by (force simp: image_iff)
  have sums: "(\<Sum>p\<leftarrow>?fresh. f (pp_event p)) = (\<Sum>ev\<leftarrow>appliedEvents events applied. f ev)" for f :: "'a TransactionPostedEvent \<Rightarrow> 'a"
    using sum_list_mset [OF ch(2), of f] by (simp add: comp_def)
  show ?thesis
    unfolding projected_def
  proof (intro conjI)
    show "eventKey env ` set (appliedEvents events applied) = {k \<in> eventKey env ` set events. (consumer, k) \<notin> set (inboxT (db s))}"
      using kset firstNew_ids(1) [of "set new" "{}" ?qs] T(2) ids set by auto
    have "set (inboxT (db s) @ map (Pair consumer) new) = set (inboxT (db s)) \<union> Pair consumer ` eventKey env ` set events"
      using T(2) ids set by auto
    then show "\<exists>inbox A L. db s' = (db s)\<lparr>inboxT := inbox, accountDaysT := A, ledgerDaysT := L\<rparr> \<and>
        set inbox = set (inboxT (db s)) \<union> Pair consumer ` eventKey env ` set events \<and> days_ok env A \<and> days_ok env L \<and>
        (\<forall>sd k. dayTotal sd A k = dayTotal sd (accountDaysT (db s)) k + (\<Sum>ev\<leftarrow>appliedEvents events applied. accountShare env sd k ev)) \<and>
        (\<forall>sd k. dayTotal sd L k = dayTotal sd (ledgerDaysT (db s)) k + (\<Sum>ev\<leftarrow>appliedEvents events applied. ledgerShare env sd k ev))"
      using T(3-5) T(6,7) [unfolded sums] d
      by (intro exI [of _ "inboxT (db s) @ map (Pair consumer) new"] exI [of _ A] exI [of _ L] conjI) simp_all
  qed (use ch dist in auto)
qed

end
