(* ===== verification/Pipeline.thy ===== *)
theory Pipeline
  imports Pg_Journal Projection
begin

text \<open>
  The whole way of a posting: committed with its event in the outbox, claimed and published by a worker, stored and
  delivered by the broker (as often as it likes, in any order), projected by the consumer. The steps of
  the workers interleave freely with each other and with the operations of the store.
\<close>

subsection \<open>Events as they are published\<close>

definition eventOf :: "('d, 'm) pg_env_scheme \<Rightarrow> 'd Database \<Rightarrow> OutboxRow \<Rightarrow> 'd TransactionPostedEvent option" where
  "eventOf env d r =
     (case or_transaction r of
        None \<Rightarrow> None
      | Some tid \<Rightarrow> map_option (\<lambda>tx. (newEvent env (or_id r) tid tx)\<lparr>pe_Entries :=
          map (entryOf env tid) (sort_key er_id (filter (\<lambda>e. er_transaction e = tid) (entriesT d)))\<rparr>) (transactionsT d tid))"

lemma addEntry_snoc: "addEntry x (evs @ [ev]) = evs @ [ev\<lparr>pe_Entries := pe_Entries ev @ [x]\<rparr>]"
  by (simp add: addEntry_def Let_def)

lemma hydrateLoop_same:
  "hydrateLoop env (map (\<lambda>e. (i, tid, tx, e)) es @ rest) i (evs @ [ev]) =
     hydrateLoop env rest i (evs @ [ev\<lparr>pe_Entries := pe_Entries ev @ map (entryOf env tid) es\<rparr>])"
  by (induction es arbitrary: ev) (simp_all add: addEntry_snoc)

lemma hydrateLoop_event:
  assumes "rowsOfEvent d r \<noteq> []" and "evs = [] \<or> cur \<noteq> or_id r"
  shows "\<exists>ev. eventOf env d r = Some ev \<and> hydrateLoop env (rowsOfEvent d r @ rest) cur evs = hydrateLoop env rest (or_id r) (evs @ [ev])"
proof -
  obtain tid tx where t: "or_transaction r = Some tid" "transactionsT d tid = Some tx"
    using assms(1) by (auto simp: rowsOfEvent_def split: option.splits)
  let ?es = "sort_key er_id (filter (\<lambda>e. er_transaction e = tid) (entriesT d))"
  obtain e es where es: "?es = e # es" using assms(1) t by (cases ?es) (simp_all add: rowsOfEvent_def)
  have ev: "eventOf env d r = Some ((newEvent env (or_id r) tid tx)\<lparr>pe_Entries := map (entryOf env tid) (e # es)\<rparr>)"
    using t es by (simp add: eventOf_def)
  have rows: "rowsOfEvent d r = (or_id r, tid, tx, e) # map (\<lambda>e. (or_id r, tid, tx, e)) es" using t es by (simp add: rowsOfEvent_def)
  have "hydrateLoop env (rowsOfEvent d r @ rest) cur evs =
      hydrateLoop env (map (\<lambda>e. (or_id r, tid, tx, e)) es @ rest) (or_id r) (evs @ [(newEvent env (or_id r) tid tx)\<lparr>pe_Entries := [entryOf env tid e]\<rparr>])"
    using assms(2) addEntry_snoc [of "entryOf env tid e" evs "newEvent env (or_id r) tid tx"] by (auto simp: rows newEvent_def)
  also have "\<dots> = hydrateLoop env rest (or_id r) (evs @ [(newEvent env (or_id r) tid tx)\<lparr>pe_Entries := map (entryOf env tid) (e # es)\<rparr>])"
    by (simp add: hydrateLoop_same)
  finally show ?thesis using ev by blast
qed

lemma hydrateLoop_events:
  assumes "distinct (map or_id rs)" and "evs = [] \<or> cur \<notin> or_id ` set rs"
  shows "hydrateLoop env (concat (map (rowsOfEvent d) rs)) cur evs =
    evs @ map (\<lambda>r. the (eventOf env d r)) (filter (\<lambda>r. rowsOfEvent d r \<noteq> []) rs)"
  using assms
proof (induction rs arbitrary: cur evs)
  case (Cons r rs)
  show ?case
  proof (cases "rowsOfEvent d r = []")
    case True
    then show ?thesis using Cons by auto
  next
    case False
    have c: "evs = [] \<or> cur \<noteq> or_id r" using Cons.prems(2) by auto
    obtain ev where ev: "eventOf env d r = Some ev"
      "hydrateLoop env (rowsOfEvent d r @ concat (map (rowsOfEvent d) rs)) cur evs = hydrateLoop env (concat (map (rowsOfEvent d) rs)) (or_id r) (evs @ [ev])"
      using hydrateLoop_event [OF False c] by blast
    have "hydrateLoop env (concat (map (rowsOfEvent d) rs)) (or_id r) (evs @ [ev]) =
      (evs @ [ev]) @ map (\<lambda>r. the (eventOf env d r)) (filter (\<lambda>r. rowsOfEvent d r \<noteq> []) rs)"
      by (rule Cons.IH) (use Cons.prems in auto)
    then show ?thesis using ev False by simp
  qed
qed simp

lemma rowsOfEvent_eventOf: "rowsOfEvent d r \<noteq> [] \<Longrightarrow> eventOf env d r \<noteq> None"
  by (auto simp: rowsOfEvent_def eventOf_def split: option.splits)

lemma hydrate_Inr:
  assumes "hydrateClaimedTransactionEvents env owner s = (s', Inr evs)" and "distinct (map or_id (outboxT (db s)))"
  shows "db s' = db s" and "\<exists>rs. set rs \<subseteq> set (outboxT (db s)) \<and> map Some evs = map (eventOf env (db s)) rs"
proof -
  let ?d = "db s"
  let ?rs = "claimedRows owner ?d"
  have q: "quiet (hydrateClaimedTransactionEvents env owner)" unfolding hydrateClaimedTransactionEvents_def by (intro quiet_intros)
  show "db s' = db s" by (rule quietD [OF q assms(1)])
  have "distinct (map or_id (filter P (outboxT ?d)))" for P using assms(2) by (simp add: distinct_map_filter)
  then have dist: "distinct (map or_id ?rs)"
    unfolding claimedRows_def
    using mset_eq_imp_distinct_iff [of "map or_id (sort_key k xs)" "map or_id xs" for k :: "OutboxRow \<Rightarrow> time \<times> uuid" and xs] by simp
  have "evs = map (\<lambda>r. the (eventOf env ?d r)) (filter (\<lambda>r. rowsOfEvent ?d r \<noteq> []) ?rs)"
    using assms(1) hydrateLoop_events [OF dist, of "[]" uuidNil env ?d]
    by (auto simp: hydrateClaimedTransactionEvents_def bindE_def dbCall_def getDb_def returnE_def split: option.splits)
  then have "map Some evs = map (eventOf env ?d) (filter (\<lambda>r. rowsOfEvent ?d r \<noteq> []) ?rs)"
    using rowsOfEvent_eventOf [of ?d _ env] by auto
  moreover have "set (filter (\<lambda>r. rowsOfEvent ?d r \<noteq> []) ?rs) \<subseteq> set (outboxT ?d)" by (auto simp: claimedRows_def)
  ultimately show "\<exists>rs. set rs \<subseteq> set (outboxT ?d) \<and> map Some evs = map (eventOf env ?d) rs" by blast
qed

subsection \<open>What the broker stores\<close>

lemma deliver_messages:
  assumes "deliver env p b = (b', x)"
  shows "\<exists>sub. messages b' = messages b @ sub \<and> set sub \<subseteq> {p}" and "x = None \<Longrightarrow> p \<in> set (messages b')"
  using assms by (auto simp: deliver_def split: delivery.splits if_splits)

lemma publishAsync_messages:
  assumes "publishAsync env ps b = (b', rs)"
  shows "(\<exists>sub. messages b' = messages b @ sub \<and> set sub \<subseteq> set ps) \<and> list_all2 (\<lambda>p r. r = Inr None \<longrightarrow> p \<in> set (messages b')) ps rs"
  using assms
proof (induction ps arbitrary: b b' rs)
  case (Cons p ps)
  show ?case
  proof (cases "sendOutcome env (sent b)")
    case None
    obtain b1 x where d: "deliver env p b = (b1, x)" by (cases "deliver env p b")
    obtain rs1 where r: "publishAsync env ps b1 = (b', rs1)" "rs = Inr x # rs1" using Cons.prems None d by (auto split: prod.splits)
    note D = deliver_messages [OF d]
    have IH: "(\<exists>sub. messages b' = messages b1 @ sub \<and> set sub \<subseteq> set ps) \<and> list_all2 (\<lambda>p r. r = Inr None \<longrightarrow> p \<in> set (messages b')) ps rs1"
      by (rule Cons.IH [OF r(1)])
    then show ?thesis using D r(2) by (auto simp: subset_insertI2)
  next
    case (Some e)
    obtain rs1 where r: "publishAsync env ps (b\<lparr>sent := Suc (sent b)\<rparr>) = (b', rs1)" "rs = Inl e # rs1"
      using Cons.prems Some by (auto split: prod.splits)
    then show ?thesis using Cons.IH [OF r(1)] by auto
  qed
qed simp

lemma validPublications_set: "p \<in> set (validPublications rs) \<longleftrightarrow> Inr p \<in> set rs"
  by (induction rs rule: validPublications.induct) auto

lemma mergeResults_acked:
  assumes "list_all2 (\<lambda>p x. x = None \<longrightarrow> p \<in> M) (validPublications rs) results"
  shows "list_all2 (\<lambda>q x. x = None \<longrightarrow> (\<exists>p \<in> M. q = Inr p)) rs (mergeResults rs results)"
  using assms
proof (induction rs results rule: mergeResults.induct)
  case (3 p rs results)
  then show ?case by (cases results) auto
qed auto

lemma publishAll_messages:
  assumes "publishAll (JetStreamPublisher env) prepared b = (b', errs)"
  shows "\<exists>sub. messages b' = messages b @ sub \<and> (\<forall>p \<in> set sub. Inr p \<in> set prepared)"
    and "list_all2 (\<lambda>q x. x = None \<longrightarrow> (\<exists>p \<in> set (messages b'). q = Inr p)) prepared errs"
proof -
  obtain b1 rs where a: "publishAsync env (validPublications prepared) b = (b1, rs)"
    by (cases "publishAsync env (validPublications prepared) b")
  let ?results = "map (\<lambda>r. case r of Inl e \<Rightarrow> Some e | Inr future \<Rightarrow> future) rs"
  note A = publishAsync_messages [OF a]
  have len: "length rs = length (validPublications prepared)" using A list_all2_lengthD by fastforce
  have b': "b' = b1" and errs: "errs = mergeResults prepared ?results"
    using assms a len by (auto simp: publishAll_def JetStreamPublisher_def JetStreamPublishBatch_def Let_def)
  show "\<exists>sub. messages b' = messages b @ sub \<and> (\<forall>p \<in> set sub. Inr p \<in> set prepared)"
    using A b' validPublications_set by blast
  have "list_all2 (\<lambda>p x. x = None \<longrightarrow> p \<in> set (messages b1)) (validPublications prepared) ?results"
    using A by (auto simp: list_all2_conv_all_nth split: sum.splits)
  from mergeResults_acked [OF this]
  show "list_all2 (\<lambda>q x. x = None \<longrightarrow> (\<exists>p \<in> set (messages b'). q = Inr p)) prepared errs" using b' errs by simp
qed

subsection \<open>The invariant\<close>

definition stored :: "('d, 'm) stream_env_scheme \<Rightarrow> broker \<Rightarrow> 'd Database \<Rightarrow> OutboxRow \<Rightarrow> bool" where
  "stored env b d r \<longleftrightarrow> (\<exists>m \<in> set (messages b). eventOf env d r \<noteq> None \<and> unmarshalEvent env (Data m) = eventOf env d r)"

definition projectedTxs :: "'d Database \<Rightarrow> uuid set" where
  "projectedTxs d = {tid. \<exists>r \<in> set (outboxT d). or_transaction r = Some tid \<and> (AggregateConsumerName, or_id r) \<in> set (inboxT d)}"

definition onAccountDay :: "'d Database \<Rightarrow> uuid \<times> int \<Rightarrow> 'd EntryRow \<Rightarrow> bool" where
  "onAccountDay d k e \<longleftrightarrow> er_account e = fst k \<and> (\<exists>tx. transactionsT d (er_transaction e) = Some tx \<and> dayOf (tr_created tx) = snd k)"

definition onLedgerDay :: "'d Database \<Rightarrow> uuid \<times> int \<Rightarrow> 'd EntryRow \<Rightarrow> bool" where
  "onLedgerDay d k e \<longleftrightarrow> (\<exists>tx. transactionsT d (er_transaction e) = Some tx \<and> tr_ledger tx = fst k \<and> dayOf (tr_created tx) = snd k)"

definition entryTotal :: "side \<Rightarrow> ('d EntryRow \<Rightarrow> bool) \<Rightarrow> 'd :: linordered_ab_group_add EntryRow list \<Rightarrow> 'd" where
  "entryTotal sd P es = (\<Sum>e\<leftarrow>es. if P e then rowSide sd e else 0)"

text \<open>The aggregates are the sums of the entries of the projected transactions.\<close>

definition aggregates_exact :: "'d :: linordered_ab_group_add Database \<Rightarrow> bool" where
  "aggregates_exact d \<longleftrightarrow> (\<forall>sd k.
     dayTotal sd (accountDaysT d) k = entryTotal sd (\<lambda>e. er_transaction e \<in> projectedTxs d \<and> onAccountDay d k e) (entriesT d) \<and>
     dayTotal sd (ledgerDaysT d) k = entryTotal sd (\<lambda>e. er_transaction e \<in> projectedTxs d \<and> onLedgerDay d k e) (entriesT d))"

definition pipeline_ok :: "('d :: linordered_ab_group_add, 'm) stream_env_scheme \<Rightarrow> broker \<Rightarrow> 'd Database \<Rightarrow> bool" where
  "pipeline_ok env b d \<longleftrightarrow>
     journal_ok env d \<and> no_compensation d \<and> days_ok env (accountDaysT d) \<and> days_ok env (ledgerDaysT d) \<and>
     (\<forall>m \<in> set (messages b). \<exists>r \<in> set (outboxT d). eventOf env d r \<noteq> None \<and> unmarshalEvent env (Data m) = eventOf env d r) \<and>
     (\<forall>r \<in> set (outboxT d). or_type r = transactionPosted \<longrightarrow> or_status r = ''processed'' \<longrightarrow> stored env b d r) \<and>
     aggregates_exact d"

lemma pipeline_okD:
  assumes "pipeline_ok env b d"
  shows "journal_ok env d" and "no_compensation d" and "days_ok env (accountDaysT d)" and "days_ok env (ledgerDaysT d)"
    and "m \<in> set (messages b) \<Longrightarrow> \<exists>r \<in> set (outboxT d). eventOf env d r \<noteq> None \<and> unmarshalEvent env (Data m) = eventOf env d r"
    and "r \<in> set (outboxT d) \<Longrightarrow> or_type r = transactionPosted \<Longrightarrow> or_status r = ''processed'' \<Longrightarrow> stored env b d r"
    and "aggregates_exact d"
  using assms by (simp_all add: pipeline_ok_def)

lemma entryTotal_simps [simp]:
  "entryTotal sd P [] = 0" "entryTotal sd P (e # es) = (if P e then rowSide sd e else 0) + entryTotal sd P es"
  "entryTotal sd P (es @ es') = entryTotal sd P es + entryTotal sd P es'"
  by (simp_all add: entryTotal_def)

lemma entryTotal_cong: "(\<And>e. e \<in> set es \<Longrightarrow> P e \<longleftrightarrow> Q e) \<Longrightarrow> entryTotal sd P es = entryTotal sd Q es"
  by (induction es) auto

lemma entryTotal_none: "(\<And>e. e \<in> set es \<Longrightarrow> \<not> P e) \<Longrightarrow> entryTotal sd P es = 0"
  by (induction es) auto

lemma entryTotal_disjoint:
  assumes "\<And>e. e \<in> set es \<Longrightarrow> \<not> (P e \<and> Q e)"
  shows "entryTotal sd (\<lambda>e. P e \<or> Q e) es = entryTotal sd P es + entryTotal sd Q es"
  using assms by (induction es) (auto simp: ac_simps)

subsection \<open>Operations of the store\<close>

lemma eventOf_extends:
  assumes "extends d d'" and "outbox_known (transactionsT d) (outboxT d)" and "r \<in> set (outboxT d)" and "same_event r r'"
  shows "eventOf env d' r' = eventOf env d r"
proof (cases "or_transaction r")
  case None
  then show ?thesis using assms(4) by (simp add: eventOf_def same_event_def)
next
  case (Some tid)
  then have dom: "tid \<in> dom (transactionsT d)" using assms(2,3) by (auto simp: outbox_known_def)
  then have tx: "transactionsT d' tid = transactionsT d tid" using assms(1) by (auto simp: extends_def map_le_def)
  obtain rows where "entriesT d' = entriesT d @ rows" "\<forall>e \<in> set rows. transactionsT d (er_transaction e) = None"
    using assms(1) by (auto simp: extends_def)
  then have "filter (\<lambda>e. er_transaction e = tid) (entriesT d') = filter (\<lambda>e. er_transaction e = tid) (entriesT d)"
    using dom by (auto simp: filter_empty_conv)
  then show ?thesis using assms(4) Some tx by (simp add: eventOf_def same_event_def)
qed

lemma extends_projected:
  assumes ex: "extends d d'" and ok: "journal_ok env d" and ok': "journal_ok env d'"
  shows "projectedTxs d' = projectedTxs d"
proof -
  obtain f outs where f: "outboxT d' = map f (outboxT d) @ outs" "\<forall>r \<in> set (outboxT d). same_event r (f r)"
    using ex by (auto simp: extends_def)
  have inbox: "inboxT d' = inboxT d" using ex by (simp add: extends_def)
  have "or_id ` set outs \<inter> or_id ` set (map f (outboxT d)) = {}" using journal_okD(1) [OF ok'] f(1) by auto
  moreover have "or_id ` set (map f (outboxT d)) = or_id ` set (outboxT d)" using f(2) by (force simp: same_event_def image_iff)
  ultimately have out: "(c, or_id r) \<notin> set (inboxT d)" if "r \<in> set outs" for c r
    using that journal_okD(5) [OF ok] by (metis IntI empty_iff image_eqI snd_conv subsetD)
  let ?P = "\<lambda>tid r. or_transaction r = Some tid \<and> (AggregateConsumerName, or_id r) \<in> set (inboxT d)"
  have f': "?P tid (f r) \<longleftrightarrow> ?P tid r" if "r \<in> set (outboxT d)" for tid r using f(2) that by (simp add: same_event_def)
  have "tid \<in> projectedTxs d' \<longleftrightarrow> tid \<in> projectedTxs d" for tid
  proof
    assume "tid \<in> projectedTxs d'"
    then obtain r where r: "r \<in> set (outboxT d')" "?P tid r" by (auto simp: projectedTxs_def inbox)
    then have "r \<notin> set outs" using out by metis
    then obtain x where x: "x \<in> set (outboxT d)" "r = f x" using r(1) f(1) by auto
    then have "?P tid x" using r(2) f' [OF x(1), of tid] by simp
    then show "tid \<in> projectedTxs d" unfolding projectedTxs_def using x(1) by blast
  next
    assume "tid \<in> projectedTxs d"
    then obtain x where x: "x \<in> set (outboxT d)" "?P tid x" by (auto simp: projectedTxs_def)
    then have "f x \<in> set (outboxT d')" "?P tid (f x)" using f(1) f' [OF x(1), of tid] by simp_all
    then show "tid \<in> projectedTxs d'" unfolding projectedTxs_def inbox by blast
  qed
  then show ?thesis by blast
qed

lemma extends_aggregates:
  assumes ex: "extends d d'" and ok: "journal_ok env d" and ok': "journal_ok env d'" and agg: "aggregates_exact d"
  shows "aggregates_exact d'"
proof -
  note P = extends_projected [OF ex ok ok']
  obtain rows where rows: "entriesT d' = entriesT d @ rows" "\<forall>e \<in> set rows. transactionsT d (er_transaction e) = None"
    using ex by (auto simp: extends_def)
  have proj: "projectedTxs d \<subseteq> dom (transactionsT d)" using journal_okD(3) [OF ok] by (auto simp: projectedTxs_def outbox_known_def)
  have tx: "transactionsT d' (er_transaction e) = transactionsT d (er_transaction e)" if "e \<in> set (entriesT d)" for e
    using that ex journal_okD(4) [OF ok] by (auto simp: extends_def map_le_def entries_known_def)
  have new: "entryTotal sd (\<lambda>e. er_transaction e \<in> projectedTxs d \<and> Q e) rows = 0" for sd Q
    using rows(2) proj by (intro entryTotal_none) auto
  have old: "entryTotal sd (\<lambda>e. er_transaction e \<in> projectedTxs d \<and> onAccountDay d' k e) (entriesT d) =
      entryTotal sd (\<lambda>e. er_transaction e \<in> projectedTxs d \<and> onAccountDay d k e) (entriesT d)"
    "entryTotal sd (\<lambda>e. er_transaction e \<in> projectedTxs d \<and> onLedgerDay d' k e) (entriesT d) =
      entryTotal sd (\<lambda>e. er_transaction e \<in> projectedTxs d \<and> onLedgerDay d k e) (entriesT d)" for sd k
    by (intro entryTotal_cong; simp add: onAccountDay_def onLedgerDay_def tx)+
  have days: "accountDaysT d' = accountDaysT d" "ledgerDaysT d' = ledgerDaysT d" using ex by (simp_all add: extends_def)
  show ?thesis
    unfolding aggregates_exact_def P rows(1) entryTotal_simps new old days using agg by (simp add: aggregates_exact_def)
qed

lemma journal_pipeline:
  assumes "pipeline_ok env b d" and "journal env d d'"
  shows "pipeline_ok env b d'"
proof -
  have ok: "journal_ok env d" and ex: "extends d d'" and ok': "journal_ok env d'" using assms by (auto simp: pipeline_ok_def journal_def)
  obtain f outs where f: "outboxT d' = map f (outboxT d) @ outs" "\<forall>r \<in> set (outboxT d). same_event r (f r)"
    "\<forall>r \<in> set outs. or_type r = transactionPosted \<longrightarrow> or_status r = ''pending''"
    using ex unfolding extends_def by blast
  have ev: "eventOf env d' (f r) = eventOf env d r" if "r \<in> set (outboxT d)" for r
    using eventOf_extends [OF ex journal_okD(3) [OF ok] that] f(2) that by blast
  have "\<exists>r \<in> set (outboxT d'). eventOf env d' r \<noteq> None \<and> unmarshalEvent env (Data m) = eventOf env d' r" if m: "m \<in> set (messages b)" for m
  proof -
    obtain r where r: "r \<in> set (outboxT d)" "eventOf env d r \<noteq> None" "unmarshalEvent env (Data m) = eventOf env d r"
      using pipeline_okD(5) [OF assms(1) m] by blast
    then have "f r \<in> set (outboxT d')" using f(1) by simp
    then show ?thesis using ev [OF r(1)] r by metis
  qed
  moreover have "stored env b d' r" if r: "r \<in> set (outboxT d')" "or_type r = transactionPosted" "or_status r = ''processed''" for r
  proof -
    have "r \<notin> set outs" using r(2,3) f(3) by auto
    then obtain x where x: "x \<in> set (outboxT d)" "r = f x" using r(1) f(1) by auto
    then have "or_type x = transactionPosted" "or_status x = ''processed''" using f(2) r by (auto simp: same_event_def)
    then have "stored env b d x" by (rule pipeline_okD(6) [OF assms(1) x(1)])
    then show ?thesis unfolding stored_def x(2) ev [OF x(1)] .
  qed
  moreover have "accountDaysT d' = accountDaysT d" "ledgerDaysT d' = ledgerDaysT d" using ex by (simp_all add: extends_def)
  ultimately show ?thesis
    using pipeline_okD(2-4) [OF assms(1)] ok' extends_no_compensation [OF ex] extends_aggregates [OF ex ok ok' pipeline_okD(7) [OF assms(1)]]
    unfolding pipeline_ok_def by simp
qed

subsection \<open>The steps of the publisher\<close>

text \<open>Claiming, completing and releasing change only the status and the lease of events.\<close>

lemma relabel_pipeline:
  assumes ok: "pipeline_ok env b d" and same: "\<And>r. or_id (f r) = or_id r \<and> or_transaction (f r) = or_transaction r \<and> or_type (f r) = or_type r"
    and acked: "\<And>r. r \<in> set (outboxT d) \<Longrightarrow> or_type r = transactionPosted \<Longrightarrow> or_status (f r) = ''processed'' \<Longrightarrow>
      or_status r = ''processed'' \<or> stored env b d r"
  shows "pipeline_ok env b (d\<lparr>outboxT := map f (outboxT d)\<rparr>)" (is "pipeline_ok env b ?d")
proof -
  have ev: "eventOf env ?d (f r) = eventOf env d r" for r using same by (cases "or_transaction r") (simp_all add: eventOf_def)
  have st: "stored env b ?d (f r) \<longleftrightarrow> stored env b d r" for r by (simp add: stored_def ev)
  have proj: "projectedTxs ?d = projectedTxs d" using same by (simp add: projectedTxs_def)
  have "\<exists>r \<in> set (outboxT ?d). eventOf env ?d r \<noteq> None \<and> unmarshalEvent env (Data m) = eventOf env ?d r" if m: "m \<in> set (messages b)" for m
    using pipeline_okD(5) [OF ok m] ev by auto
  moreover have "stored env b ?d r" if r: "r \<in> set (outboxT ?d)" "or_type r = transactionPosted" "or_status r = ''processed''" for r
  proof -
    obtain x where x: "x \<in> set (outboxT d)" "r = f x" using r(1) by auto
    have ty: "or_type x = transactionPosted" using r(2) x(2) same [of x] by simp
    then have "stored env b d x" using acked [OF x(1) ty] r(3) x(2) pipeline_okD(6) [OF ok x(1) ty] by blast
    then show ?thesis using st x(2) by simp
  qed
  moreover have "aggregates_exact ?d"
    using pipeline_okD(7) [OF ok] by (simp add: aggregates_exact_def proj onAccountDay_def onLedgerDay_def)
  moreover have "no_compensation ?d" using pipeline_okD(2) [OF ok] same by (simp add: no_compensation_def)
  ultimately show ?thesis
    using journal_ok_map [OF pipeline_okD(1) [OF ok] same] pipeline_okD(3,4) [OF ok] unfolding pipeline_ok_def by simp
qed

lemma claim_pipeline:
  assumes "pipeline_ok env b (db s)" and "claimTransactionOutboxEvents env owner limit s = (s', res)"
  shows "pipeline_ok env b (db s')"
proof -
  have 1: "pipeline_ok env b (expireLeases t d)" if "pipeline_ok env b d" for t d
    unfolding expireLeases_def by (rule relabel_pipeline [OF that]) (auto split: if_splits)
  have 2: "pipeline_ok env b (leaseEvents owner t ids d)" if "pipeline_ok env b d" for t ids d
    unfolding leaseEvents_def by (rule relabel_pipeline [OF that]) (auto split: if_splits)
  show ?thesis
    using assms 1 2
    by (auto simp: claimTransactionOutboxEvents_def bindE_def act_defs Let_def split: option.splits)
qed

lemma release_pipeline:
  assumes "pipeline_ok env b (db s)" and "releaseTransactionOutboxClaim env owner s = (s', res)"
  shows "pipeline_ok env b (db s')"
proof -
  have "pipeline_ok env b (d\<lparr>outboxT := map (\<lambda>r. if or_leaseOwner r = Some owner
      then r\<lparr>or_status := ''pending'', or_leaseOwner := None, or_leaseExpires := None\<rparr> else r) (outboxT d)\<rparr>)" if "pipeline_ok env b d" for d
    by (rule relabel_pipeline [OF that]) (auto split: if_splits)
  then show ?thesis
    using assms by (auto simp: releaseTransactionOutboxClaim_def bindE_def act_defs split: option.splits)
qed

lemma complete_pipeline:
  assumes "pipeline_ok env b (db s)" and "completeTransactionOutboxClaim env owner succeeded failed s = (s', res)"
    and "\<forall>r \<in> set (outboxT (db s)). or_id r \<in> set succeeded \<longrightarrow> stored env b (db s) r"
  shows "pipeline_ok env b (db s')"
proof -
  have "pipeline_ok env b (completeClaim t owner succeeded failed (db s))" for t
    unfolding completeClaim_def by (rule relabel_pipeline [OF assms(1)]) (use assms(3) in \<open>auto split: if_splits\<close>)
  then show ?thesis
    using assms by (auto simp: completeTransactionOutboxClaim_def bindE_def act_defs split: option.splits)
qed

text \<open>The encoding of events is inverted by their decoding.\<close>

definition event_codec :: "('d, 'm) stream_env_scheme \<Rightarrow> bool" where
  "event_codec env \<longleftrightarrow> (\<forall>ev payload. marshalEvent env ev = Some payload \<longrightarrow> unmarshalEvent env payload = Some ev)"

lemma preparePublication_Inr:
  "event_codec env \<Longrightarrow> preparePublication env ev = Inr p \<Longrightarrow> unmarshalEvent env (Data p) = Some ev"
  by (auto simp: preparePublication_def event_codec_def split: option.splits)

lemma publish_pipeline:
  assumes ok: "pipeline_ok env b d" and codec: "event_codec env" and rs: "set rs \<subseteq> set (outboxT d)" "map Some evs = map (eventOf env d) rs"
    and pub: "publishAll (JetStreamPublisher env) (map (preparePublication env) evs) b = (b', errs)"
  shows "pipeline_ok env b' d"
    and "length errs = length rs" and "i < length rs \<Longrightarrow> errs ! i = None \<Longrightarrow> stored env b' d (rs ! i)"
proof -
  note P = publishAll_messages [OF pub]
  have len: "length rs = length evs" using rs(2) by (metis length_map)
  have nth: "eventOf env d (rs ! i) = Some (evs ! i)" if "i < length rs" for i using that rs(2) len by (metis nth_map)
  have new: "\<exists>r \<in> set (outboxT d). eventOf env d r \<noteq> None \<and> unmarshalEvent env (Data m) = eventOf env d r" if m: "m \<in> set (messages b')" for m
  proof (cases "m \<in> set (messages b)")
    case True
    then show ?thesis using pipeline_okD(5) [OF ok] by blast
  next
    case False
    then have "Inr m \<in> set (map (preparePublication env) evs)" using P(1) m by auto
    then obtain i where i: "i < length evs" "preparePublication env (evs ! i) = Inr m" by (auto simp: in_set_conv_nth)
    then have "unmarshalEvent env (Data m) = eventOf env d (rs ! i)" using preparePublication_Inr [OF codec i(2)] nth len by simp
    then show ?thesis using i(1) nth len rs(1) nth_mem by (metis option.distinct(1) subsetD)
  qed
  have mono: "stored env b' d r" if "stored env b d r" for r using that P(1) by (auto simp: stored_def)
  show "pipeline_ok env b' d"
    using pipeline_okD(1-4,7) [OF ok] new mono pipeline_okD(6) [OF ok] unfolding pipeline_ok_def by blast
  show "length errs = length rs" using list_all2_lengthD [OF P(2)] len by simp
  show "stored env b' d (rs ! i)" if i: "i < length rs" "errs ! i = None"
  proof -
    have "i < length (map (preparePublication env) evs)" using i(1) len by simp
    from list_all2_nthD [OF P(2) this] obtain p where p: "p \<in> set (messages b')" "preparePublication env (evs ! i) = Inr p"
      using i len by auto
    show ?thesis using p preparePublication_Inr [OF codec p(2)] nth [OF i(1)] by (auto simp: stored_def)
  qed
qed

subsection \<open>The step of the consumer\<close>

lemma eventOf_shares:
  assumes "parse_inverts env" and "eventOf env d r = Some ev" and "or_transaction r = Some tid"
  shows "accountShare env sd k ev = entryTotal sd (\<lambda>e. er_transaction e = tid \<and> onAccountDay d k e) (entriesT d)"
    and "ledgerShare env sd k ev = entryTotal sd (\<lambda>e. er_transaction e = tid \<and> onLedgerDay d k e) (entriesT d)"
proof -
  let ?es = "filter (\<lambda>e. er_transaction e = tid) (entriesT d)"
  obtain tx where tx: "transactionsT d tid = Some tx" and ev: "ev = (newEvent env (or_id r) tid tx)\<lparr>pe_Entries := map (entryOf env tid) (sort_key er_id ?es)\<rparr>"
    using assms(2,3) by (auto simp: eventOf_def)
  have sd: "entrySide sd (entryOf env tid e) = rowSide sd e" for e by (cases sd) (simp_all add: entryOf_def)
  have acct: "e_AccountID (entryOf env tid e) = uuidString env (er_account e)" for e by (simp add: entryOf_def)
  have parse: "uuidParse env (uuidString env u) = Some u" for u using assms(1) by (simp add: parse_inverts_def)
  have sort: "(\<Sum>e\<leftarrow>sort_key er_id ?es. f e) = (\<Sum>e\<leftarrow>entriesT d. if er_transaction e = tid then f e else 0)" for f :: "'a EntryRow \<Rightarrow> 'a"
  proof -
    have "(\<Sum>e\<leftarrow>sort_key er_id ?es. f e) = (\<Sum>e\<leftarrow>?es. f e)" by (rule sum_list_mset) simp
    then show ?thesis by (simp add: sum_list_map_filter')
  qed
  have sums: "(\<Sum>e\<leftarrow>sort_key er_id ?es. if R e then rowSide sd e else 0) = entryTotal sd (\<lambda>e. er_transaction e = tid \<and> R e) (entriesT d)" for R
    unfolding sort entryTotal_def by (auto intro!: arg_cong [where f = sum_list] map_cong)
  have tot: "(if C then entryTotal sd (\<lambda>e. er_transaction e = tid \<and> R e) (entriesT d) else 0) = entryTotal sd (\<lambda>e. er_transaction e = tid \<and> Q e) (entriesT d)"
    if "\<And>e. er_transaction e = tid \<Longrightarrow> Q e \<longleftrightarrow> C \<and> R e" for C R Q
    using that by (auto intro!: entryTotal_cong entryTotal_none)
  have "accountShare env sd k ev =
      (if dayOf (tr_created tx) = snd k then (\<Sum>e\<leftarrow>sort_key er_id ?es. if er_account e = fst k then rowSide sd e else 0) else 0)"
    by (simp add: accountShare_def ev newEvent_def comp_def sd acct parse cong: if_cong)
  then show "accountShare env sd k ev = entryTotal sd (\<lambda>e. er_transaction e = tid \<and> onAccountDay d k e) (entriesT d)"
    unfolding sums by (simp only:) (rule tot, auto simp: onAccountDay_def tx)
  have "ledgerShare env sd k ev = (if dayOf (tr_created tx) = snd k \<and> tr_ledger tx = fst k
      then (\<Sum>e\<leftarrow>sort_key er_id ?es. if True then rowSide sd e else 0) else 0)"
    by (simp add: ledgerShare_def ev newEvent_def comp_def sd parse)
  then show "ledgerShare env sd k ev = entryTotal sd (\<lambda>e. er_transaction e = tid \<and> onLedgerDay d k e) (entriesT d)"
    unfolding sums by (simp only:) (rule tot, auto simp: onLedgerDay_def tx)
qed

lemma entryTotal_each:
  assumes "distinct ts"
  shows "(\<Sum>t\<leftarrow>ts. entryTotal sd (\<lambda>e. er_transaction e = t \<and> Q e) es) = entryTotal sd (\<lambda>e. er_transaction e \<in> set ts \<and> Q e) es"
  using assms
proof (induction ts)
  case Nil
  show ?case by (simp add: entryTotal_none)
next
  case (Cons t ts)
  have "entryTotal sd (\<lambda>e. er_transaction e \<in> set (t # ts) \<and> Q e) es =
      entryTotal sd (\<lambda>e. (er_transaction e = t \<and> Q e) \<or> (er_transaction e \<in> set ts \<and> Q e)) es"
    by (rule entryTotal_cong) auto
  also have "\<dots> = entryTotal sd (\<lambda>e. er_transaction e = t \<and> Q e) es + entryTotal sd (\<lambda>e. er_transaction e \<in> set ts \<and> Q e) es"
    by (rule entryTotal_disjoint) (use Cons.prems in auto)
  finally show ?case using Cons by simp
qed

text \<open>Two events of one transaction are the same event.\<close>

lemma same_transaction:
  assumes "journal_ok env d" and "r \<in> set (outboxT d)" and "r' \<in> set (outboxT d)"
    and "or_transaction r = Some tid" and "or_transaction r' = Some tid"
  shows "r = r'"
proof -
  have "or_type r = or_type r'" using journal_okD(3) [OF assms(1)] assms(2-5) by (auto simp: outbox_known_def)
  then have "eventTarget r = eventTarget r'" using assms(4,5) by (simp add: eventTarget_def)
  then show ?thesis
    using journal_okD(2) [OF assms(1)] assms(2-5) unfolding outbox_unique_def by (auto simp: distinct_map inj_on_def)
qed

lemma eventOf_key:
  assumes "parse_inverts env" and "eventOf env d r = Some ev"
  shows "eventKey env ev = or_id r"
  using assms by (auto simp: eventOf_def eventKey_def newEvent_def parse_inverts_def parseOrNil_def split: option.splits)

lemma eventOf_cents:
  assumes "journal_ok env d" and "eventOf env d r = Some ev"
  shows "event_cents env ev"
  using journal_okD(4) [OF assms(1)] assms(2)
  by (auto simp: eventOf_def event_cents_def entryOf_def entries_known_def split: option.splits)

lemma same_id: "distinct (map or_id rows) \<Longrightarrow> r \<in> set rows \<Longrightarrow> r' \<in> set rows \<Longrightarrow> or_id r = or_id r' \<Longrightarrow> r = r'"
  by (simp add: distinct_map inj_on_def)

text \<open>The transaction of an event, found in the outbox by the identifier of the event.\<close>

definition tidOf :: "('d, 'm) pg_env_scheme \<Rightarrow> 'd Database \<Rightarrow> 'd TransactionPostedEvent \<Rightarrow> uuid" where
  "tidOf env d ev = the (or_transaction (the (find (\<lambda>r. or_id r = eventKey env ev) (outboxT d))))"

lemma tidOf_event:
  assumes "journal_ok env d" and "parse_inverts env" and "r \<in> set (outboxT d)" and "eventOf env d r = Some ev"
  shows "or_transaction r = Some (tidOf env d ev)"
proof -
  have "find (\<lambda>r. or_id r = or_id x) rows = Some x" if "distinct (map or_id rows)" "x \<in> set rows" for x rows
    using that by (induction rows) auto
  then have "find (\<lambda>r'. or_id r' = or_id r) (outboxT d) = Some r" using journal_okD(1) [OF assms(1)] assms(3) by blast
  then show ?thesis using eventOf_key [OF assms(2,4)] assms(4) by (auto simp: tidOf_def eventOf_def split: option.splits)
qed

lemma projected_transactions:
  assumes jok: "journal_ok env d" and inv: "parse_inverts env"
    and evs: "\<forall>ev \<in> set events. \<exists>r \<in> set (outboxT d). eventOf env d r = Some ev"
    and pr: "projected env AggregateConsumerName events applied d d'"
  defines "ts \<equiv> map (tidOf env d) (appliedEvents events applied)"
  shows "distinct ts" and "t \<in> set ts \<Longrightarrow> t \<notin> projectedTxs d" and "projectedTxs d' = projectedTxs d \<union> set ts"
proof -
  let ?chosen = "appliedEvents events applied"
  let ?A = AggregateConsumerName
  have keys: "distinct (map (eventKey env) ?chosen)"
    "eventKey env ` set ?chosen = {k \<in> eventKey env ` set events. (?A, k) \<notin> set (inboxT d)}"
    using pr by (simp_all add: projected_def)
  have out: "outboxT d' = outboxT d" and inbox: "set (inboxT d') = set (inboxT d) \<union> Pair ?A ` eventKey env ` set events"
    using pr by (auto simp: projected_def)
  have row: "\<exists>r \<in> set (outboxT d). eventOf env d r = Some ev \<and> or_id r = eventKey env ev \<and> or_transaction r = Some (tidOf env d ev)"
    if ev: "ev \<in> set events" for ev
  proof -
    obtain r where "r \<in> set (outboxT d)" "eventOf env d r = Some ev" using evs ev by blast
    then show ?thesis using eventOf_key [OF inv] tidOf_event [OF jok inv] by metis
  qed
  have sub: "set ?chosen \<subseteq> set events" by (auto simp: appliedEvents_def dest: set_zip_leftD)
  have "inj_on (tidOf env d) (set ?chosen)"
  proof (rule inj_onI)
    fix x y assume x: "x \<in> set ?chosen" and y: "y \<in> set ?chosen" and eq: "tidOf env d x = tidOf env d y"
    have "x \<in> set events" "y \<in> set events" using x y sub by blast+
    then obtain r r' where r: "r \<in> set (outboxT d)" "eventOf env d r = Some x" "or_transaction r = Some (tidOf env d x)"
      and r': "r' \<in> set (outboxT d)" "eventOf env d r' = Some y" "or_transaction r' = Some (tidOf env d y)"
      using row [of x] row [of y] by blast
    have "r = r'" using same_transaction [OF jok r(1) r'(1) r(3)] r'(3) eq by simp
    then show "x = y" using r(2) r'(2) by simp
  qed
  moreover have "distinct ?chosen" using keys(1) by (simp add: distinct_map)
  ultimately show "distinct ts" by (simp add: distinct_map ts_def)
  show "t \<notin> projectedTxs d" if t: "t \<in> set ts"
  proof
    assume "t \<in> projectedTxs d"
    then obtain r where r: "r \<in> set (outboxT d)" "or_transaction r = Some t" "(?A, or_id r) \<in> set (inboxT d)"
      unfolding projectedTxs_def by blast
    obtain ev where ev: "ev \<in> set ?chosen" "t = tidOf env d ev" using t by (auto simp: ts_def)
    then obtain r' where r': "r' \<in> set (outboxT d)" "or_id r' = eventKey env ev" "or_transaction r' = Some t" using row sub by blast
    then have "(?A, eventKey env ev) \<in> set (inboxT d)" using same_transaction [OF jok r(1) r'(1) r(2) r'(3)] r(3) by simp
    then show False using keys(2) ev(1) by blast
  qed
  show "projectedTxs d' = projectedTxs d \<union> set ts"
  proof (intro equalityI subsetI)
    fix t assume "t \<in> projectedTxs d'"
    then obtain r where r: "r \<in> set (outboxT d)" "or_transaction r = Some t" "(?A, or_id r) \<in> set (inboxT d')"
      unfolding projectedTxs_def out by blast
    show "t \<in> projectedTxs d \<union> set ts"
    proof (cases "(?A, or_id r) \<in> set (inboxT d)")
      case True
      then show ?thesis unfolding projectedTxs_def using r(1,2) by blast
    next
      case False
      then have "or_id r \<in> eventKey env ` set ?chosen" using r(3) inbox keys(2) by auto
      then obtain ev where ev: "ev \<in> set ?chosen" "or_id r = eventKey env ev" by blast
      then obtain r' where "r' \<in> set (outboxT d)" "or_id r' = or_id r" "or_transaction r' = Some (tidOf env d ev)" using row sub by fastforce
      then have "t = tidOf env d ev" using same_id [OF journal_okD(1) [OF jok]] r(1,2) by (metis option.inject)
      then show ?thesis using ev(1) by (simp add: ts_def)
    qed
  next
    fix t assume t: "t \<in> projectedTxs d \<union> set ts"
    have "\<exists>r \<in> set (outboxT d). or_transaction r = Some t \<and> (?A, or_id r) \<in> set (inboxT d')"
    proof (cases "t \<in> projectedTxs d")
      case True
      then show ?thesis unfolding projectedTxs_def inbox by blast
    next
      case False
      then obtain ev where ev: "ev \<in> set events" "t = tidOf env d ev" using t sub by (auto simp: ts_def)
      then obtain r where "r \<in> set (outboxT d)" "or_id r = eventKey env ev" "or_transaction r = Some t" using row by blast
      then show ?thesis using ev(1) inbox by blast
    qed
    then show "t \<in> projectedTxs d'" unfolding projectedTxs_def out by blast
  qed
qed

lemma projected_aggregates:
  assumes ok: "journal_ok env d" "aggregates_exact d" and inv: "parse_inverts env"
    and evs: "\<forall>ev \<in> set events. \<exists>r \<in> set (outboxT d). eventOf env d r = Some ev"
    and pr: "projected env AggregateConsumerName events applied d d'"
  shows "aggregates_exact d'"
proof -
  let ?chosen = "appliedEvents events applied"
  let ?ts = "map (tidOf env d) ?chosen"
  note T = projected_transactions [OF ok(1) inv evs pr]
  obtain inbox A L where d': "d' = d\<lparr>inboxT := inbox, accountDaysT := A, ledgerDaysT := L\<rparr>"
    and A: "\<forall>sd k. dayTotal sd A k = dayTotal sd (accountDaysT d) k + (\<Sum>ev\<leftarrow>?chosen. accountShare env sd k ev)"
    and L: "\<forall>sd k. dayTotal sd L k = dayTotal sd (ledgerDaysT d) k + (\<Sum>ev\<leftarrow>?chosen. ledgerShare env sd k ev)"
    using pr unfolding projected_def by blast
  have split: "entryTotal sd (\<lambda>e. er_transaction e \<in> projectedTxs d' \<and> Q e) es =
      entryTotal sd (\<lambda>e. er_transaction e \<in> projectedTxs d \<and> Q e) es + entryTotal sd (\<lambda>e. er_transaction e \<in> set ?ts \<and> Q e) es"
    for sd Q and es :: "'a EntryRow list"
  proof -
    have "entryTotal sd (\<lambda>e. er_transaction e \<in> projectedTxs d' \<and> Q e) es =
      entryTotal sd (\<lambda>e. (er_transaction e \<in> projectedTxs d \<and> Q e) \<or> (er_transaction e \<in> set ?ts \<and> Q e)) es"
      by (rule entryTotal_cong) (use T(3) in blast)
    also have "\<dots> = entryTotal sd (\<lambda>e. er_transaction e \<in> projectedTxs d \<and> Q e) es + entryTotal sd (\<lambda>e. er_transaction e \<in> set ?ts \<and> Q e) es"
      by (rule entryTotal_disjoint) (use T(2) in blast)
    finally show ?thesis .
  qed
  have shares: "accountShare env sd k ev = entryTotal sd (\<lambda>e. er_transaction e = tidOf env d ev \<and> onAccountDay d k e) (entriesT d)"
    "ledgerShare env sd k ev = entryTotal sd (\<lambda>e. er_transaction e = tidOf env d ev \<and> onLedgerDay d k e) (entriesT d)"
    if ev: "ev \<in> set ?chosen" for ev sd k
  proof -
    have "ev \<in> set events" using ev by (auto simp: appliedEvents_def dest: set_zip_leftD)
    then obtain r where r: "r \<in> set (outboxT d)" "eventOf env d r = Some ev" using evs by blast
    note eventOf_shares [OF inv r(2) tidOf_event [OF ok(1) inv r]]
    then show "accountShare env sd k ev = entryTotal sd (\<lambda>e. er_transaction e = tidOf env d ev \<and> onAccountDay d k e) (entriesT d)"
      "ledgerShare env sd k ev = entryTotal sd (\<lambda>e. er_transaction e = tidOf env d ev \<and> onLedgerDay d k e) (entriesT d)" by blast+
  qed
  have sums: "(\<Sum>ev\<leftarrow>?chosen. accountShare env sd k ev) = entryTotal sd (\<lambda>e. er_transaction e \<in> set ?ts \<and> onAccountDay d k e) (entriesT d)"
    "(\<Sum>ev\<leftarrow>?chosen. ledgerShare env sd k ev) = entryTotal sd (\<lambda>e. er_transaction e \<in> set ?ts \<and> onLedgerDay d k e) (entriesT d)" for sd k
  proof -
    have "(\<Sum>ev\<leftarrow>?chosen. accountShare env sd k ev) = (\<Sum>t\<leftarrow>?ts. entryTotal sd (\<lambda>e. er_transaction e = t \<and> onAccountDay d k e) (entriesT d))"
      "(\<Sum>ev\<leftarrow>?chosen. ledgerShare env sd k ev) = (\<Sum>t\<leftarrow>?ts. entryTotal sd (\<lambda>e. er_transaction e = t \<and> onLedgerDay d k e) (entriesT d))"
      by (simp_all add: shares comp_def cong: map_cong)
    then show "(\<Sum>ev\<leftarrow>?chosen. accountShare env sd k ev) = entryTotal sd (\<lambda>e. er_transaction e \<in> set ?ts \<and> onAccountDay d k e) (entriesT d)"
      "(\<Sum>ev\<leftarrow>?chosen. ledgerShare env sd k ev) = entryTotal sd (\<lambda>e. er_transaction e \<in> set ?ts \<and> onLedgerDay d k e) (entriesT d)"
      by (simp_all only: entryTotal_each [OF T(1)])
  qed
  have on: "onAccountDay d' = onAccountDay d" "onLedgerDay d' = onLedgerDay d" "entriesT d' = entriesT d"
    "accountDaysT d' = A" "ledgerDaysT d' = L"
    by (simp_all add: fun_eq_iff onAccountDay_def onLedgerDay_def d')
  show ?thesis
    unfolding aggregates_exact_def on split using ok(2) A L sums by (simp add: aggregates_exact_def)
qed

lemma projected_pipeline:
  assumes ok: "pipeline_ok env b d" and inv: "parse_inverts env"
    and evs: "\<forall>ev \<in> set events. \<exists>r \<in> set (outboxT d). eventOf env d r = Some ev"
    and pr: "projected env AggregateConsumerName events applied d d'"
  shows "pipeline_ok env b d'"
proof -
  obtain inbox A L where d': "d' = d\<lparr>inboxT := inbox, accountDaysT := A, ledgerDaysT := L\<rparr>"
    and inbox: "set inbox = set (inboxT d) \<union> Pair AggregateConsumerName ` eventKey env ` set events"
    and days: "days_ok env A" "days_ok env L"
    using pr unfolding projected_def by blast
  have ev: "eventOf env d' r = eventOf env d r" for r by (cases "or_transaction r") (simp_all add: eventOf_def d')
  have "eventKey env ` set events \<subseteq> or_id ` set (outboxT d)" using evs eventOf_key [OF inv] by fastforce
  then have "journal_ok env d'" using pipeline_okD(1) [OF ok] inbox by (auto simp: journal_ok_def d')
  moreover have "no_compensation d'" using pipeline_okD(2) [OF ok] by (simp add: no_compensation_def d')
  moreover have "outboxT d' = outboxT d" "accountDaysT d' = A" "ledgerDaysT d' = L" by (simp_all add: d')
  ultimately show ?thesis
    using projected_aggregates [OF pipeline_okD(1,7) [OF ok] inv evs pr] days pipeline_okD(5,6) [OF ok]
    unfolding pipeline_ok_def stored_def ev by simp
qed

lemma consume_pipeline:
  assumes ok: "pipeline_ok env b (db s)" and num: "numeric_ok env" and inv: "parse_inverts env" and ord: "slice_order env"
    and msgs: "set msgs \<subseteq> set (messages b)" and run: "consumeBatch env msgs s = (s', vs)"
  shows "pipeline_ok env b (db s')"
proof -
  let ?events = "List.map_filter (\<lambda>x. x) (map (\<lambda>m. unmarshalEvent env (Data m)) msgs)"
  have evs: "\<forall>ev \<in> set ?events. \<exists>r \<in> set (outboxT (db s)). eventOf env (db s) r = Some ev"
    using msgs pipeline_okD(5) [OF ok] by (fastforce simp: List.map_filter_def)
  have cents: "\<forall>ev \<in> set ?events. event_cents env ev"
    using evs eventOf_cents [OF pipeline_okD(1) [OF ok]] by blast
  obtain s1 res where ap: "ApplyTransactionPostedBatch env AggregateConsumerName ?events s = (s1, res)"
    by (cases "ApplyTransactionPostedBatch env AggregateConsumerName ?events s")
  have s': "s' = (if ?events = [] then s else s1)"
    using run ap by (auto simp: consumeBatch_def Let_def split: sum.splits if_splits)
  have "pipeline_ok env b (db s1)"
  proof (cases res)
    case (Inl e)
    then have "ApplyTransactionPostedBatch env AggregateConsumerName ?events s = (s1, Inl e)" using ap by simp
    from ApplyTransactionPostedBatch_Inl [OF this] show ?thesis using ok by simp
  next
    case (Inr applied)
    then have "ApplyTransactionPostedBatch env AggregateConsumerName ?events s = (s1, Inr applied)" using ap by simp
    from ApplyTransactionPostedBatch_Inr [OF this num ord pipeline_okD(3,4) [OF ok] cents]
    show ?thesis by (rule projected_pipeline [OF ok inv evs])
  qed
  then show ?thesis using ok s' by (simp split: if_splits)
qed

subsection \<open>Runs\<close>

text \<open>
  The steps of the system. \<open>reads\<close> stands for everything that leaves the tables alone: queries, waits, the other fields
  of the process. A publisher is split at its calls of the database, so that others can act between them.
\<close>

inductive pipeline_step :: "('d :: linordered_ab_group_add, 'm) stream_env_scheme \<Rightarrow> broker \<times> 'd Pg \<Rightarrow> broker \<times> 'd Pg \<Rightarrow> bool"
  for env :: "('d, 'm) stream_env_scheme" where
  reads: "db s' = db s \<Longrightarrow> pipeline_step env (b, s) (b, s')"
| createAccount: "PgCreateAccount env name ty s = (s', res1) \<Longrightarrow> pipeline_step env (b, s) (b, s')"
| createAccountInLedger: "PgCreateAccountInLedger env l name ty s = (s', res1) \<Longrightarrow> pipeline_step env (b, s) (b, s')"
| createTransaction: "PgCreateTransaction env key es s = (s', res2) \<Longrightarrow> pipeline_step env (b, s) (b, s')"
| createBatch: "CreateTransactionsBatch env ess s = (s', res3) \<Longrightarrow> pipeline_step env (b, s) (b, s')"
| createTransfer: "PgCreateTransfer env req s = (s', res4) \<Longrightarrow> pipeline_step env (b, s) (b, s')"
| processOutbox: "PgProcessOutbox env limit s = (s', res5) \<Longrightarrow> pipeline_step env (b, s) (b, s')"
| compensate: "ProcessCompensationOutbox env limit s = (s', n, e) \<Longrightarrow> pipeline_step env (b, s) (b, s')"
| claim: "claimTransactionOutboxEvents env owner m s = (s', res5) \<Longrightarrow> pipeline_step env (b, s) (b, s')"
| publish: "hydrateClaimedTransactionEvents env owner s = (s', Inr evs) \<Longrightarrow>
    publishAll (JetStreamPublisher env) (map (preparePublication env) evs) b = (b', errs) \<Longrightarrow> pipeline_step env (b, s) (b', s')"
| complete: "\<forall>r \<in> set (outboxT (db s)). or_id r \<in> set succeeded \<longrightarrow> stored env b (db s) r \<Longrightarrow>
    completeTransactionOutboxClaim env owner succeeded failed s = (s', res6) \<Longrightarrow> pipeline_step env (b, s) (b, s')"
| release: "releaseTransactionOutboxClaim env owner s = (s', res6) \<Longrightarrow> pipeline_step env (b, s) (b, s')"
| consume: "set msgs \<subseteq> set (messages b) \<Longrightarrow> consumeBatch env msgs s = (s', vs) \<Longrightarrow> pipeline_step env (b, s) (b, s')"

text \<open>The system starts before the first posting; there may be accounts.\<close>

definition pipeline_start :: "broker \<Rightarrow> 'd Database \<Rightarrow> bool" where
  "pipeline_start b d \<longleftrightarrow> messages b = [] \<and> entriesT d = [] \<and> outboxT d = [] \<and> inboxT d = [] \<and> accountDaysT d = [] \<and> ledgerDaysT d = []"

inductive pipeline_reach :: "('d :: linordered_ab_group_add, 'm) stream_env_scheme \<Rightarrow> broker \<times> 'd Pg \<Rightarrow> bool"
  for env :: "('d, 'm) stream_env_scheme" where
  start: "pipeline_start b (db s) \<Longrightarrow> pipeline_reach env (b, s)"
| more: "pipeline_reach env c \<Longrightarrow> pipeline_step env c c' \<Longrightarrow> pipeline_reach env c'"

inductive_cases pipeline_stepE: "pipeline_step env (b, s) (b', s')"

definition stream_env_ok :: "('d :: linordered_ab_group_add, 'm) stream_env_scheme \<Rightarrow> bool" where
  "stream_env_ok env \<longleftrightarrow> numeric_ok env \<and> parse_inverts env \<and> slice_order env \<and> event_codec env"

lemma pipeline_start_ok: "pipeline_start b d \<Longrightarrow> pipeline_ok env b d"
  by (simp add: pipeline_start_def pipeline_ok_def journal_ok_def outbox_unique_def outbox_known_def entries_known_def
      no_compensation_def days_ok_def aggregates_exact_def dayTotal_def)

lemma pipeline_step_ok:
  assumes env: "stream_env_ok env" and ok: "pipeline_ok env b (db s)" and step: "pipeline_step env (b, s) (b', s')"
  shows "pipeline_ok env b' (db s')"
proof -
  have num: "numeric_ok env" and inv: "parse_inverts env" and ord: "slice_order env" and codec: "event_codec env"
    using env by (simp_all add: stream_env_ok_def)
  from step show ?thesis
  proof (rule pipeline_stepE, goal_cases)
    case (2 x y z)
    then show ?case using journal_pipeline [OF ok keepsD [OF keeps_PgCreateAccount]] by blast
  next
    case (3 w x y z)
    then show ?case using journal_pipeline [OF ok keepsD [OF keeps_PgCreateAccountInLedger]] by blast
  next
    case (4 x y z)
    then show ?case using journal_pipeline [OF ok keepsD [OF keeps_PgCreateTransaction [OF num]]] by blast
  next
    case (5 x y)
    then show ?case using journal_pipeline [OF ok keepsD [OF keeps_CreateTransactionsBatch [OF num]]] by blast
  next
    case (6 x y)
    then show ?case using journal_pipeline [OF ok keepsD [OF keeps_PgCreateTransfer [OF num]]] by blast
  next
    case (7 x y)
    then show ?case using journal_pipeline [OF ok PgProcessOutbox_journal [OF num pipeline_okD(1) [OF ok]]] by blast
  next
    case (8 x y z)
    then show ?case using ProcessCompensationOutbox_idle [OF pipeline_okD(2) [OF ok]] ok by metis
  next
    case (9 x y z)
    then show ?case using claim_pipeline [OF ok] by blast
  next
    case (10 owner evs errs)
    note H = hydrate_Inr [OF 10(1) journal_okD(1) [OF pipeline_okD(1) [OF ok]]]
    obtain rs where rs: "set rs \<subseteq> set (outboxT (db s))" "map Some evs = map (eventOf env (db s)) rs" using H(2) by blast
    show ?case using publish_pipeline(1) [OF ok codec rs 10(2)] H(1) by simp
  next
    case (11 x y z w)
    then show ?case using complete_pipeline [OF ok] by blast
  next
    case (12 x y)
    then show ?case using release_pipeline [OF ok] by blast
  next
    case (13 x y)
    then show ?case using consume_pipeline [OF ok num inv ord] by blast
  next
    case 1
    then show ?case using ok by simp
  qed
qed

lemma pipeline_reach_ok: "pipeline_reach env c \<Longrightarrow> stream_env_ok env \<Longrightarrow> pipeline_ok env (fst c) (db (snd c))"
proof (induction rule: pipeline_reach.induct)
  case (start b s)
  then show ?case by (simp add: pipeline_start_ok)
next
  case (more c c')
  then show ?case using pipeline_step_ok [of env "fst c" "snd c" "fst c'" "snd c'"] by simp
qed

end
