(* ===== verification/Pg_Transfer_Properties.thy ===== *)
theory Pg_Transfer_Properties
  imports Pg_Credit_Books
begin

text \<open>The properties of transfers in the PostgreSQL store, with instances on a concrete database.\<close>

subsection \<open>A concrete database\<close>

text \<open>Ledger 7 with 100 in cash, and an account of ledger 8.\<close>

definition transferStart :: "int Pg" where
  "transferStart = pgStart\<lparr>draws := 30, db := emptyDatabase\<lparr>
     accountsT := [(1, \<lparr>ar_ledger = 7, ar_name = ''cash'', ar_type = AssetType, ar_balance = 100\<rparr>),
       (2, \<lparr>ar_ledger = 7, ar_name = ''capital'', ar_type = EquityType, ar_balance = - 100\<rparr>),
       (3, \<lparr>ar_ledger = 8, ar_name = ''till'', ar_type = AssetType, ar_balance = 0\<rparr>)],
     transactionsT := [5 \<mapsto> \<lparr>tr_ledger = 7, tr_created = 0\<rparr>],
     entriesT := [\<lparr>er_id = 20, er_account = 1, er_transaction = 5, er_credit = 0, er_debit = 100, er_created = 0\<rparr>,
       \<lparr>er_id = 21, er_account = 2, er_transaction = 5, er_credit = 100, er_debit = 0, er_created = 0\<rparr>]\<rparr>\<rparr>"

definition transferReq :: "string \<Rightarrow> int TransferRequest" where
  "transferReq key = \<lparr>SourceLedgerID = ''xxxxxxx'', SourceAccountID = ''x'', DestinationLedgerID = ''xxxxxxxx'',
     DestinationAccountID = ''xxx'', Amount = 40, IdempotencyKey = key\<rparr>"

lemma pgEnv_parse [simp]:
  "uuidParse pgEnv ''xxx'' = Some 3" "uuidParse pgEnv ''xxxxxxx'' = Some 7" "uuidParse pgEnv ''xxxxxxxx'' = Some 8"
  "uuidParse pgEnv ''k'' = None" "uuidParse pgEnv ''xxxxx'' = Some 5"
  by (simp_all add: pgEnv_def)

lemma pgEnv_strings [simp]:
  "uuidString pgEnv 7 = ''xxxxxxx''" "uuidString pgEnv 1 = ''x''" "uuidString pgEnv 8 = ''xxxxxxxx''" "uuidString pgEnv 3 = ''xxx''"
  by (simp_all add: pgEnv_def) (simp_all add: numeral_eq_Suc)

lemma transferStart_books: "pg_books pgEnv (db transferStart)" "pg_sagas pgEnv (db transferStart)"
  by (auto simp: pg_books_def pg_sagas_def outbox_ok_def transferStart_def emptyDatabase_def entryCheck_def row_placed_def)

lemma bindE_optionE [simp]:
  "bindE (optionE m) f s =
     (case m s of (s', Inr x) \<Rightarrow> f (Some x) s' | (s', Inl e) \<Rightarrow> if e = NoRows then f None s' else (s', Inl e))"
  by (simp add: bindE_def optionE_def split: prod.splits sum.splits)

lemmas transfer_eval = PgCreateTransfer_def validateTransfer_def parseE_def transferTransaction_def optionE_def scanSaga_def
  findSaga_def newTransfer_def ensureClearing_def accountByName_def insertAccount_def writeSourceTransfer_def legUpdate_def
  insertSaga_def insertSteps_def sagaEvent_def sagaResponse_def clearingName_def failE_def transferReq_def pg_eval

definition transferOpen :: "string \<Rightarrow> int Pg" where
  "transferOpen key = fst (PgCreateTransfer pgEnv (transferReq key) transferStart)"

lemma transferOpen_eq:
  "\<exists>r. PgCreateTransfer pgEnv (transferReq ''k'') transferStart = (transferOpen ''k'', Inr (r, False)) \<and> r_ID r = uuidString pgEnv 31"
  by (simp add: transferOpen_def transferStart_def pgStart_def transfer_eval)

lemma transferOpen_uuid:
  "\<exists>r row. PgCreateTransfer pgEnv (transferReq ''xxxxx'') transferStart = (transferOpen ''xxxxx'', Inr (r, False)) \<and>
     sagasT (db (transferOpen ''xxxxx'')) = [(31, row)] \<and> sr_key row = ''xxxxx'' \<and>
     distinct (map fst (accountsT (db (transferOpen ''xxxxx''))))"
  by (simp add: transferOpen_def transferStart_def pgStart_def transfer_eval)

lemma pgEnv_clearing: "uuidParse pgEnv (replicate 30 CHR ''x'') = Some 30" "uuidParse pgEnv ''k2'' = None"
  by (simp_all add: pgEnv_def)

subsection \<open>Properties\<close>

text \<open>The request names a source that is not itself a clearing account.\<close>

definition source_ordinary :: "('d, 'm) pg_env_scheme \<Rightarrow> 'd TransferRequest \<Rightarrow> 'd Database \<Rightarrow> bool" where
  "source_ordinary env req d \<longleftrightarrow> (\<forall>src a. uuidParse env (SourceAccountID req) = Some src \<longrightarrow> accountRow d src = Some a \<longrightarrow> ar_name a \<noteq> clearingName)"



text \<open>
  C5: the credit worker completes transfers exactly once. A call of \<open>ProcessOutbox\<close> that fails changes no table. One that
  succeeds takes the transfers that are ready, at most \<open>limit\<close> (100 if it is not positive), credits every
  destination account with exactly the sum of their amounts, marks exactly them as completed, counts
  them, and leaves none of them ready at any later time; books and sagas stay in order.
\<close>

theorem PgProcessOutbox_credits_once:
  assumes "numeric_ok env" and "pg_books env (db s)" and "pg_sagas env (db s)" and "PgProcessOutbox env limit s = (s', res)"
  defines "ready \<equiv> readyCredits (readClock env (ticks s)) (if limit \<le> 0 then 100 else nat limit) (db s)"
  shows "pg_books env (db s') \<and> pg_sagas env (db s') \<and>
    (case res of
       Inl e \<Rightarrow> db s' = db s
     | Inr n \<Rightarrow> n = length ready \<and>
         (\<forall>k a. accountRow (db s) k = Some a \<longrightarrow> ar_name a \<noteq> clearingName \<longrightarrow>
            accountRow (db s') k = Some (a\<lparr>ar_balance := ar_balance a + creditedTo k ready\<rparr>)) \<and>
         (\<forall>sid r. map_of (sagasT (db s)) sid = Some r \<longrightarrow>
            (\<exists>r'. map_of (sagasT (db s')) sid = Some r' \<and>
               sr_status r' = (if sid \<in> (\<lambda>(_, sid, _). sid) ` set ready then TransferCompleted else sr_status r))) \<and>
         (\<forall>t l. (\<lambda>(_, sid, _). sid) ` set ready \<inter> (\<lambda>(_, sid, _). sid) ` set (readyCredits t l (db s')) = {}))"
proof -
  let ?l = "if limit \<le> 0 then 100 else nat limit"
  let ?t = "readClock env (ticks s)"
  have quiet: "quiet (mapE (\<lambda>e. notifyTransfer (uuidString env (de_sagaID e))) es)" for es :: "'a destinationCreditBatchEvent list"
    by (intro quiet_intros)
  obtain s1 r1 where tx: "creditBatchTransaction env ?l s = (s1, r1)" by (cases "creditBatchTransaction env ?l s")
  show ?thesis
  proof (cases r1)
    case (Inl e)
    then have "db s1 = db s" using tx unfolding creditBatchTransaction_def by (auto dest: atomically_Inl)
    moreover have "s' = s1 \<and> res = Inl e"
      using assms(4) tx Inl by (auto simp: PgProcessOutbox_def processDestinationCreditBatch_def bindE_def)
    ultimately show ?thesis using assms(2,3) by simp
  next
    case (Inr es)
    obtain s2 r2 where m: "mapE (\<lambda>e. notifyTransfer (uuidString env (de_sagaID e))) es s1 = (s2, Inr r2)" "s' = s2" "res = Inr (length es)"
      using assms(4) tx Inr mapE_notify [of "\<lambda>e. uuidString env (de_sagaID e)" es s1]
      by (auto simp: PgProcessOutbox_def processDestinationCreditBatch_def bindE_def returnE_def)
    have d: "db s' = db s1" using quietD [OF quiet m(1)] m(2) by simp
    note C = creditBatchTransaction_Inr [OF tx [unfolded Inr], folded ready_def]
    show ?thesis
    proof (cases "es = []")
      case True
      then show ?thesis using C d m(3) assms(2,3) by (auto simp: creditedTo_def)
    next
      case False
      then have cr: "credited env ?t ready es (db s) (db s')" using C d by simp
      note E = credited_effect [OF assms(1-3) cr [unfolded ready_def], folded ready_def]
      note S = credited_sagas [OF cr [unfolded ready_def], folded ready_def]
      show ?thesis
        using E S(2) credited_status [OF cr [unfolded ready_def], folded ready_def] m(3)
        by (simp only: sum.case) (intro conjI allI impI; simp)
    qed
  qed
qed

lemma bindE_calls:
  "bindE (atomically m) f s = (case atomically m s of (s', Inl e) \<Rightarrow> (s', Inl e) | (s', Inr x) \<Rightarrow> f x s')"
  "bindE (notifyTransfer k) g s = g () (s\<lparr>transferWaiters := notified k (transferWaiters s)\<rparr>)"
  by (simp_all add: bindE_def notifyTransfer_def)

lemmas credit_eval = PgProcessOutbox_def processDestinationCreditBatch_def creditBatchTransaction_def readyCredits_def
  readyCredit_def creditEvent_def completeCredits_def sortedUUIDKeys_def insertClearings.simps setClearing.simps
  writeDestinationCreditBatch_def creditVals_def addDelta_def creditDeltas_def deltaUpdate_def setSagas_def
  setCreditSteps_def processedEvents_def bindE_calls

lemma transferOpen_ready:
  "\<exists>ev r. readyCredits (readClock pgEnv (ticks (transferOpen ''k''))) 1 (db (transferOpen ''k'')) = [(ev, 31, r)] \<and>
     sr_destinationAccount r = 3 \<and> sr_amount r = 40"
  by (simp add: transferOpen_def transferStart_def pgStart_def transfer_eval readyCredits_def readyCredit_def)

lemma transferOpen_tables:
  "\<exists>r a. map_of (sagasT (db (transferOpen ''k''))) 31 = Some r \<and> accountRow (db (transferOpen ''k'')) 3 = Some a \<and>
     ar_balance a = 0 \<and> ar_name a \<noteq> clearingName"
  by (simp add: transferOpen_def transferStart_def pgStart_def transfer_eval)

lemma transferOpen_ok: "pg_books pgEnv (db (transferOpen ''k'')) \<and> pg_sagas pgEnv (db (transferOpen ''k''))"
  by (auto simp: pg_books_def pg_sagas_def outbox_ok_def entryCheck_def row_placed_def saga_placed_def
      transferOpen_def transferStart_def pgStart_def transfer_eval)

lemma transferOpen_credited:
  "\<exists>s'. PgProcessOutbox pgEnv 1 (transferOpen ''k'') = (s', Inr 1)"
  by (simp add: transferOpen_def transferStart_def pgStart_def transfer_eval credit_eval)

theorem PgProcessOutbox_credits_once_witness:
  "\<exists>s' r. PgProcessOutbox pgEnv 1 (transferOpen ''k'') = (s', Inr 1) \<and> map_of (sagasT (db s')) 31 = Some r \<and>
     sr_status r = TransferCompleted \<and> (\<exists>a. accountRow (db s') 3 = Some a \<and> ar_balance a = 40)"
proof -
  obtain s' where run: "PgProcessOutbox pgEnv 1 (transferOpen ''k'') = (s', Inr 1)" using transferOpen_credited by blast
  have ok: "pg_books pgEnv (db (transferOpen ''k''))" "pg_sagas pgEnv (db (transferOpen ''k''))"
    using transferOpen_ok by blast+
  obtain r a where start: "map_of (sagasT (db (transferOpen ''k''))) 31 = Some r" "accountRow (db (transferOpen ''k'')) 3 = Some a"
    "ar_balance a = 0" "ar_name a \<noteq> clearingName"
    using transferOpen_tables by blast
  note P = PgProcessOutbox_credits_once [OF pgEnv_ok(1) ok run, simplified]
  obtain ev q where ready: "readyCredits (readClock pgEnv (ticks (transferOpen ''k''))) (Suc 0) (db (transferOpen ''k'')) = [(ev, 31, q)]"
    and q: "sr_destinationAccount q = 3" "sr_amount q = 40"
    using transferOpen_ready by auto
  have "\<exists>r'. map_of (sagasT (db s')) 31 = Some r' \<and> sr_status r' = TransferCompleted"
    using P start(1) ready by fastforce
  moreover have "accountRow (db s') 3 = Some (a\<lparr>ar_balance := ar_balance a + creditedTo 3 [(ev, 31, q)]\<rparr>)"
    using P start(2,4) ready by simp
  ultimately show ?thesis using run start(3) q by (simp add: creditedTo_def)
qed

text \<open>
  C38: a transfer whose key is the text of a UUID cannot be replayed. Once a transfer with such a key is stored, every later call
  with the key fails and changes no table, also when the request is the same: the key is looked up as the
  identifier of a transfer, no transfer is found, and the insertion meets the unique key.
\<close>

theorem PgCreateTransfer_uuid_key:
  assumes "distinct (map fst (accountsT (db s)))" and "uuidParse env (IdempotencyKey req) = Some u"
    and "(sid, row) \<in> set (sagasT (db s))" and "sr_key row = IdempotencyKey req" and "u \<notin> fst ` set (sagasT (db s))"
    and "PgCreateTransfer env req s = (s', res)"
  shows "(\<exists>e. res = Inl e) \<and> db s' = db s"
proof (cases res)
  case (Inl e)
  then show ?thesis using PgCreateTransfer_Inl assms(6) by blast
next
  case (Inr x)
  obtain r existed where run: "PgCreateTransfer env req s = (s', Inr (r, existed))" using assms(6) Inr by (cases x) simp
  have none: "findSaga env (IdempotencyKey req) (db s) = None"
    using assms(2,5) by (force simp: findSaga_def find_None_iff)
  obtain sl dl src dst where "transferOutcome env req sl src dl dst r existed (db s) (db s')"
    by (rule PgCreateTransfer_Inr [OF run assms(1)]) blast
  then obtain sid' v where op: "opened env req sl src dl dst sid' v (db s) (db s')"
    using none by (auto simp: transferOutcome_def split: if_splits)
  then show ?thesis using opened_key_new [OF op assms(3)] assms(4) by simp
qed

theorem PgCreateTransfer_uuid_key_witness:
  "\<exists>r s' e. PgCreateTransfer pgEnv (transferReq ''xxxxx'') transferStart = (transferOpen ''xxxxx'', Inr (r, False)) \<and>
     PgCreateTransfer pgEnv (transferReq ''xxxxx'') (transferOpen ''xxxxx'') = (s', Inl e)"
proof -
  obtain r row where run: "PgCreateTransfer pgEnv (transferReq ''xxxxx'') transferStart = (transferOpen ''xxxxx'', Inr (r, False))"
    and row: "sagasT (db (transferOpen ''xxxxx'')) = [(31, row)]" "sr_key row = ''xxxxx''"
    and d: "distinct (map fst (accountsT (db (transferOpen ''xxxxx''))))"
    using transferOpen_uuid by blast
  obtain s' res where again: "PgCreateTransfer pgEnv (transferReq ''xxxxx'') (transferOpen ''xxxxx'') = (s', res)"
    by (cases "PgCreateTransfer pgEnv (transferReq ''xxxxx'') (transferOpen ''xxxxx'')")
  have parse: "uuidParse pgEnv (IdempotencyKey (transferReq ''xxxxx'')) = Some 5" by (simp add: transferReq_def)
  have "(31, row) \<in> set (sagasT (db (transferOpen ''xxxxx'')))" "sr_key row = IdempotencyKey (transferReq ''xxxxx'')"
    "5 \<notin> fst ` set (sagasT (db (transferOpen ''xxxxx'')))"
    using row by (simp_all add: transferReq_def)
  from PgCreateTransfer_uuid_key [OF d parse this again] show ?thesis using run again by blast
qed

text \<open>
  A transfer out of a clearing account: the statement changes its balance once although both entries are on it, and the balance
  leaves the sum of the entries.
\<close>

definition clearingReq :: "int TransferRequest" where
  "clearingReq = \<lparr>SourceLedgerID = ''xxxxxxx'', SourceAccountID = replicate 30 CHR ''x'', DestinationLedgerID = ''xxxxxxxx'',
     DestinationAccountID = ''xxx'', Amount = 10, IdempotencyKey = ''k2''\<rparr>"

lemma clearing_source_breaks_books:
  "\<exists>s' r. PgCreateTransfer pgEnv clearingReq (transferOpen ''k'') = (s', Inr (r, False)) \<and> \<not> pg_books pgEnv (db s')"
  by (simp add: clearingReq_def pgEnv_clearing transferOpen_def transferStart_def pgStart_def transfer_eval pg_books_def)

end
