(* ===== verification/Pipeline_Properties.thy ===== *)
theory Pipeline_Properties
  imports Pipeline Pg_Transfer_Properties
begin

text \<open>The properties of publication and projection.\<close>

subsection \<open>Publishing, as steps\<close>

lemma pipeline_reach_db: "pipeline_reach env (b, s) \<Longrightarrow> db s' = db s \<Longrightarrow> pipeline_reach env (b, s')"
  by (blast intro: pipeline_reach.more pipeline_step.reads)

lemma ids_stored:
  assumes "parse_inverts env" and "distinct (map or_id (outboxT d))" and "set rs \<subseteq> set (outboxT d)" and "map Some evs = map (eventOf env d) rs"
    and "length errs = length rs" and "\<And>i. i < length rs \<Longrightarrow> errs ! i = None \<Longrightarrow> stored env b d (rs ! i)"
  shows "\<forall>r \<in> set (outboxT d). or_id r \<in> set (succeededIDs env evs errs) \<longrightarrow> stored env b d r"
proof (intro ballI impI)
  fix r assume r: "r \<in> set (outboxT d)" and id: "or_id r \<in> set (succeededIDs env evs errs)"
  have len: "length evs = length rs" using assms(4) by (metis length_map)
  obtain i where i: "i < length rs" "errs ! i = None" "or_id r = eventKey env (evs ! i)"
    using id len assms(5) by (auto simp: succeededIDs_def set_zip eventKey_def)
  have "eventOf env d (rs ! i) = Some (evs ! i)" using i(1) assms(4) len by (metis nth_map)
  then have "or_id r = or_id (rs ! i)" using eventOf_key [OF assms(1)] i(3) by simp
  moreover have "rs ! i \<in> set (outboxT d)" using assms(3) i(1) by (meson nth_mem subsetD)
  ultimately have "r = rs ! i" using same_id [OF assms(2)] r by blast
  then show "stored env b d r" using assms(6) [OF i(1,2)] by simp
qed

text \<open>Each call of a publisher is a sequence of steps.\<close>

lemma PublishCommittedEvents_reach:
  assumes env: "stream_env_ok env" and reach: "pipeline_reach env (b, s)"
    and run: "PublishCommittedEvents env (JetStreamPublisher env) limit (b, s) = ((b', s'), n, e)"
  shows "pipeline_reach env (b', s') \<and> (\<exists>sub. messages b' = messages b @ sub)"
proof -
  let ?owner = "drawUUID env (draws s)" and ?l = "if limit \<le> 0 then 100 else nat limit"
  let ?s0 = "s\<lparr>draws := Suc (draws s)\<rparr>"
  have r0: "pipeline_reach env (b, ?s0)" by (rule pipeline_reach_db [OF reach]) simp
  obtain s1 res1 where c: "claimTransactionOutboxEvents env ?owner ?l ?s0 = (s1, res1)"
    by (cases "claimTransactionOutboxEvents env ?owner ?l ?s0")
  have r1: "pipeline_reach env (b, s1)" by (rule pipeline_reach.more [OF r0 pipeline_step.claim [OF c]])
  obtain s2 res2 where h: "hydrateClaimedTransactionEvents env ?owner s1 = (s2, res2)"
    by (cases "hydrateClaimedTransactionEvents env ?owner s1")
  note run' = run [unfolded PublishCommittedEvents_def newID_def prod.case sum.case, unfolded c prod.case]
  show ?thesis
  proof (cases "\<exists>m. res1 = Inr m \<and> m \<noteq> 0")
    case False
    then have "b' = b \<and> s' = s1" using run' by (auto split: sum.splits if_splits)
    then show ?thesis using r1 by simp
  next
    case True
    then obtain m where m: "res1 = Inr m" "m \<noteq> 0" by blast
    show ?thesis
    proof (cases res2)
      case (Inl x)
      obtain s3 u where rel: "releaseTransactionOutboxClaim env ?owner s2 = (s3, u)"
        by (cases "releaseTransactionOutboxClaim env ?owner s2")
      have q: "quiet (hydrateClaimedTransactionEvents env ?owner)"
        unfolding hydrateClaimedTransactionEvents_def by (intro quiet_intros)
      have r2: "pipeline_reach env (b, s2)" by (rule pipeline_reach_db [OF r1 quietD [OF q h]])
      have "b' = b \<and> s' = s3" using run' m h Inl rel by simp
      then show ?thesis using pipeline_reach.more [OF r2 pipeline_step.release [OF rel]] by simp
    next
      case (Inr evs)
      obtain b2 errs where p: "publishAll (JetStreamPublisher env) (map (preparePublication env) evs) b = (b2, errs)"
        by (cases "publishAll (JetStreamPublisher env) (map (preparePublication env) evs) b")
      have h': "hydrateClaimedTransactionEvents env ?owner s1 = (s2, Inr evs)" using h Inr by simp
      have r2: "pipeline_reach env (b2, s2)" by (rule pipeline_reach.more [OF r1 pipeline_step.publish [OF h' p]])
      let ?ok = "succeededIDs env evs errs" and ?bad = "failedIDs env evs errs"
      obtain s3 u where comp: "completeTransactionOutboxClaim env ?owner ?ok ?bad s2 = (s3, u)"
        by (cases "completeTransactionOutboxClaim env ?owner ?ok ?bad s2")
      have out: "b' = b2 \<and> s' = s3" using run' m h' p comp by (auto split: sum.splits)
      have ok1: "pipeline_ok env b (db s1)" using pipeline_reach_ok [OF r1 env] by simp
      note dist = journal_okD(1) [OF pipeline_okD(1) [OF ok1]]
      note H = hydrate_Inr [OF h' dist]
      obtain rs where rs: "set rs \<subseteq> set (outboxT (db s1))" "map Some evs = map (eventOf env (db s1)) rs" using H(2) by blast
      have codec: "event_codec env" and inv: "parse_inverts env" using env by (simp_all add: stream_env_ok_def)
      note P = publish_pipeline(2,3) [OF ok1 codec rs p]
      have "\<forall>r \<in> set (outboxT (db s2)). or_id r \<in> set ?ok \<longrightarrow> stored env b2 (db s2) r"
        using ids_stored [OF inv dist rs P(1)] P(2) H(1) by simp
      from pipeline_step.complete [OF this comp] have "pipeline_reach env (b2, s3)" by (rule pipeline_reach.more [OF r2])
      then show ?thesis using out publishAll_messages(1) [OF p] by blast
    qed
  qed
qed

subsection \<open>Sums over days\<close>

lemma entryTotal_set:
  assumes "finite S"
  shows "(\<Sum>t\<in>S. entryTotal sd (\<lambda>e. g e = t \<and> Q e) es) = entryTotal sd (\<lambda>e. g e \<in> S \<and> Q e) es"
  using assms
proof (induction S)
  case empty
  show ?case by (simp add: entryTotal_none)
next
  case (insert t S)
  have "entryTotal sd (\<lambda>e. g e \<in> insert t S \<and> Q e) es = entryTotal sd (\<lambda>e. (g e = t \<and> Q e) \<or> (g e \<in> S \<and> Q e)) es"
    by (rule entryTotal_cong) auto
  also have "\<dots> = entryTotal sd (\<lambda>e. g e = t \<and> Q e) es + entryTotal sd (\<lambda>e. g e \<in> S \<and> Q e) es"
    by (rule entryTotal_disjoint) (use insert(2) in auto)
  finally show ?case using insert by simp
qed

lemma dayTotal_rows:
  assumes "distinct (map fst rows)"
  shows "(\<Sum>p\<leftarrow>filter (\<lambda>p. fst (fst p) = a) rows. dayRowSide sd (snd p)) =
    (\<Sum>day\<in>(\<lambda>p. snd (fst p)) ` set (filter (\<lambda>p. fst (fst p) = a) rows). dayTotal sd rows (a, day))"
proof -
  let ?rows = "filter (\<lambda>p. fst (fst p) = a) rows"
  have inj: "inj_on (\<lambda>p. snd (fst p)) (set ?rows)"
    using assms by (intro inj_onI) (auto simp: distinct_map inj_on_def; metis fst_conv snd_conv prod.collapse)
  have "dayRowSide sd (snd p) = dayTotal sd rows (a, snd (fst p))" if "p \<in> set ?rows" for p
  proof -
    obtain k r where p: "p = (k, r)" by (cases p)
    then have "map_of rows k = Some r" using that assms by simp
    moreover have "k = (a, snd k)" using that p by (auto intro!: prod_eqI)
    ultimately show ?thesis using p unfolding dayTotal_def by (metis fst_conv option.case(2) snd_conv)
  qed
  moreover have "distinct ?rows" using assms by (simp add: distinct_map)
  ultimately show ?thesis unfolding sum.reindex [OF inj] comp_def by (simp add: sum_list_distinct_conv_sum_set)
qed

lemma projected_account:
  assumes ok: "pipeline_ok env b d" and all: "\<forall>e \<in> set (entriesT d). er_account e = a \<longrightarrow> er_transaction e \<in> projectedTxs d"
  shows "(\<Sum>p\<leftarrow>filter (\<lambda>p. fst (fst p) = a) (accountDaysT d). dayRowSide sd (snd p)) = entryTotal sd (\<lambda>e. er_account e = a) (entriesT d)"
proof -
  let ?rows = "accountDaysT d" and ?es = "entriesT d"
  let ?D = "(\<lambda>p. snd (fst p)) ` set (filter (\<lambda>p. fst (fst p) = a) ?rows)"
  define day where "day e = dayOf (tr_created (the (transactionsT d (er_transaction e))))" for e :: "'a EntryRow"
  let ?S = "?D \<union> day ` set ?es"
  have dist: "distinct (map fst ?rows)" using pipeline_okD(3) [OF ok] by (simp add: days_ok_def)
  have total: "dayTotal sd ?rows (a, t) = entryTotal sd (\<lambda>e. day e = t \<and> er_account e = a) ?es" for t
  proof -
    have "dayTotal sd ?rows (a, t) = entryTotal sd (\<lambda>e. er_transaction e \<in> projectedTxs d \<and> onAccountDay d (a, t) e) ?es"
      using pipeline_okD(7) [OF ok] by (simp add: aggregates_exact_def)
    also have "\<dots> = entryTotal sd (\<lambda>e. day e = t \<and> er_account e = a) ?es"
    proof (rule entryTotal_cong)
      fix e assume e: "e \<in> set ?es"
      then obtain tx where "transactionsT d (er_transaction e) = Some tx"
        using journal_okD(4) [OF pipeline_okD(1) [OF ok]] by (auto simp: entries_known_def)
      then show "er_transaction e \<in> projectedTxs d \<and> onAccountDay d (a, t) e \<longleftrightarrow> day e = t \<and> er_account e = a"
        using all e by (auto simp: onAccountDay_def day_def)
    qed
    finally show ?thesis .
  qed
  have none: "dayTotal sd ?rows (a, t) = 0" if "t \<notin> ?D" for t
  proof -
    have "(a, t) \<notin> fst ` set ?rows" using that by force
    then show ?thesis by (simp add: dayTotal_def map_of_eq_None_iff [THEN iffD2])
  qed
  have "(\<Sum>p\<leftarrow>filter (\<lambda>p. fst (fst p) = a) ?rows. dayRowSide sd (snd p)) = (\<Sum>t\<in>?D. dayTotal sd ?rows (a, t))"
    by (rule dayTotal_rows [OF dist])
  also have "\<dots> = (\<Sum>t\<in>?S. dayTotal sd ?rows (a, t))"
    by (rule sum.mono_neutral_left) (use none in auto)
  also have "\<dots> = entryTotal sd (\<lambda>e. day e \<in> ?S \<and> er_account e = a) ?es"
    unfolding total by (rule entryTotal_set) simp
  also have "\<dots> = entryTotal sd (\<lambda>e. er_account e = a) ?es" by (rule entryTotal_cong) auto
  finally show ?thesis .
qed

lemma rowNet_totals: "rowNet a es = entryTotal DebitSide (\<lambda>e. er_account e = a) es - entryTotal CreditSide (\<lambda>e. er_account e = a) es"
  by (induction es) (auto simp: algebra_simps)

text \<open>The answer lists the rows of the account by day.\<close>

lemma fold_aggregates:
  "Aggregates (fold (addAggregate env) rows r) =
   Aggregates r @ map (\<lambda>p. \<lparr>da_Day = snd (fst p), da_Debit = dr_debit (snd p), da_Credit = dr_credit (snd p)\<rparr>) rows"
  by (induction rows arbitrary: r) (auto simp: addAggregate_def Let_def split: prod.splits)

lemma GetAccountDailyAggregates_Inr:
  assumes "GetAccountDailyAggregates env accountID s = (s', Inr resp)"
  obtains a where "uuidParse env accountID = Some a"
    "Aggregates resp = map (\<lambda>p. \<lparr>da_Day = snd (fst p), da_Debit = dr_debit (snd p), da_Credit = dr_credit (snd p)\<rparr>)
       (sort_key (\<lambda>((_, day), _). day) (filter (\<lambda>((i, _), _). i = a) (accountDaysT (db s))))"
  using assms by (auto simp: GetAccountDailyAggregates_def getDailyAggregates_def act_then returnE_def fold_aggregates)

subsection \<open>A concrete stream\<close>

text \<open>A posting of 100 in ledger 7, its event, and an encoding that knows this event.\<close>

definition streamEvent :: "int TransactionPostedEvent" where
  "streamEvent = \<lparr>pe_EventID = replicate 13 CHR ''x'', pe_Type = transactionPosted, pe_TransactionID = replicate 10 CHR ''x'',
     pe_LedgerID = ''xxxxxxx'', pe_Timestamp = 0, pe_Entries =
       [\<lparr>e_ID = replicate 11 CHR ''x'', e_AccountID = ''x'', e_TransactionID = replicate 10 CHR ''x'', e_Credit = 0, e_Debit = 100\<rparr>,
        \<lparr>e_ID = replicate 12 CHR ''x'', e_AccountID = ''xx'', e_TransactionID = replicate 10 CHR ''x'', e_Credit = 100, e_Debit = 0\<rparr>]\<rparr>"

definition streamEnv :: "int stream_env" where
  "streamEnv = pg_env.extend pgEnv \<lparr>marshalEvent = (\<lambda>ev. if ev = streamEvent then Some ''event'' else None),
     unmarshalEvent = (\<lambda>payload. if payload = ''event'' then Some streamEvent else None),
     publishOutcome = (\<lambda>_. Acked), sendOutcome = (\<lambda>_. None), sliceOrder = (\<lambda>ks. sort_key ((!) ks) [0..<length ks])\<rparr>"

lemma streamEnv_simps [simp]:
  "fault streamEnv n = None" "numeric streamEnv x = Some x" "drawUUID streamEnv n = of_nat n" "readClock streamEnv n = int n"
  "cents streamEnv x" "mapOrder streamEnv ks = ks" "uuidParse streamEnv = uuidParse pgEnv" "uuidString streamEnv = uuidString pgEnv"
  "marshalEvent streamEnv ev = (if ev = streamEvent then Some ''event'' else None)"
  "unmarshalEvent streamEnv p = (if p = ''event'' then Some streamEvent else None)"
  "publishOutcome streamEnv n = Acked" "sendOutcome streamEnv n = None" "sliceOrder streamEnv ks = sort_key ((!) ks) [0..<length ks]"
  by (simp_all add: streamEnv_def pgEnv_def pg_env.defs)

lemma streamEnv_ok: "stream_env_ok streamEnv"
  by (auto simp: stream_env_ok_def numeric_ok_def parse_inverts_def slice_order_def event_codec_def pgEnv_ok(2) [unfolded parse_inverts_def]
      split: if_splits)

lemma dbCall_streamEnv [simp]: "bindE (dbCall streamEnv w) f s = f () (s\<lparr>calls := Suc (calls s)\<rparr>)"
  by (simp add: bindE_def dbCall_def)

definition streamPosted :: "int Pg" where
  "streamPosted = fst (PgCreateTransaction streamEnv '''' pgRequest pgStart)"

definition emptyBroker :: broker where
  "emptyBroker = \<lparr>messages = [], sent = 0\<rparr>"

lemma streamRequest_prepared: "preparePostgresEntries streamEnv pgRequest =
  Inr [\<lparr>pe_accountID = 1, pe_entry = pgRequest ! 0\<rparr>, \<lparr>pe_accountID = 2, pe_entry = pgRequest ! 1\<rparr>]"
  by (simp add: pgRequest_def)

lemma streamPosted_db:
  "db streamPosted = emptyDatabase\<lparr>
     accountsT := [(1, \<lparr>ar_ledger = 7, ar_name = ''cash'', ar_type = AssetType, ar_balance = 100\<rparr>),
       (2, \<lparr>ar_ledger = 7, ar_name = ''capital'', ar_type = EquityType, ar_balance = - 100\<rparr>)],
     transactionsT := [10 \<mapsto> \<lparr>tr_ledger = 7, tr_created = 0\<rparr>],
     entriesT := [\<lparr>er_id = 11, er_account = 1, er_transaction = 10, er_credit = 0, er_debit = 100, er_created = 0\<rparr>,
       \<lparr>er_id = 12, er_account = 2, er_transaction = 10, er_credit = 100, er_debit = 0, er_created = 0\<rparr>],
     outboxT := [\<lparr>or_id = 13, or_saga = None, or_transaction = Some 10, or_type = transactionPosted, or_status = ''pending'',
       or_attempts = 0, or_available = 0, or_created = 0, or_leaseOwner = None, or_leaseExpires = None\<rparr>]\<rparr>"
  "draws streamPosted = 14" "ticks streamPosted = 2"
  using pgRequest_valid streamRequest_prepared
  by (simp_all add: streamPosted_def pgStart_def pg_eval pgRequest_def transactionPosted_def)

definition streamPublished :: "broker \<times> int Pg" where
  "streamPublished = fst (PublishCommittedEvents streamEnv (JetStreamPublisher streamEnv) 1 (emptyBroker, streamPosted))"

definition streamProjected :: "int Pg" where
  "streamProjected = fst (consumeBatch streamEnv (messages (fst streamPublished)) (snd streamPublished))"

lemmas stream_eval = PublishCommittedEvents_def claimTransactionOutboxEvents_def hydrateClaimedTransactionEvents_def
  completeTransactionOutboxClaim_def expireLeases_def claimCandidates_def leaseEvents_def claimedRows_def rowsOfEvent_def
  completeClaim_def succeededIDs_def failedIDs_def firstError_def publishAll_def JetStreamPublisher_def JetStreamPublishBatch_def
  deliver_def preparePublication_def newEvent_def entryOf_def addEntry_def emptyBroker_def parseOrNil_def
  streamPosted_db newID_def returnE_def modifyDb_def streamEvent_def Let_def List.map_filter_simps emptyDatabase_def transactionPosted_def

lemma pgEnv_replicate [simp]:
  "uuidParse pgEnv (replicate 13 CHR ''x'') = Some 13" "uuidParse pgEnv (replicate 10 CHR ''x'') = Some 10"
  "uuidString pgEnv 13 = replicate 13 CHR ''x''" "uuidString pgEnv 10 = replicate 10 CHR ''x''" "uuidString pgEnv 11 = replicate 11 CHR ''x''"
  "uuidString pgEnv 12 = replicate 12 CHR ''x''" "uuidString pgEnv 2 = ''xx''"
  by (simp_all add: pgEnv_def) (simp_all add: numeral_eq_Suc)

definition streamMessage :: EventPublication where
  "streamMessage = \<lparr>Subject = TransactionPostedSubject, Data = ''event'', EventID = replicate 13 CHR ''x''\<rparr>"

lemma streamPublished_eq:
  "fst streamPublished = \<lparr>messages = [streamMessage], sent = 1\<rparr>"
  "db (snd streamPublished) = (db streamPosted)\<lparr>outboxT := [\<lparr>or_id = 13, or_saga = None, or_transaction = Some 10, or_type = transactionPosted,
     or_status = ''processed'', or_attempts = 1, or_available = 0, or_created = 0, or_leaseOwner = None, or_leaseExpires = None\<rparr>]\<rparr>"
  "snd (PublishCommittedEvents streamEnv (JetStreamPublisher streamEnv) 1 (emptyBroker, streamPosted)) = (1, None)"
  "ticks (snd streamPublished) = 5"
  by (simp_all add: streamPublished_def stream_eval streamMessage_def del: set_filter set_map)

lemma bindE_notifyProjection:
  "bindE (notifyProjection k) g s = g () (s\<lparr>projectionWaiters := notified k (projectionWaiters s)\<rparr>)"
  by (simp add: bindE_def notifyProjection_def)

lemmas projection_eval = consumeBatch_def ApplyTransactionPostedBatch_def preparePosted_def sortPrepared_def projectTransaction_def
  writeProjection_def upsertAggregateDeltas_def upsertDay_def deltaOf_def atomically_def execDb_def notifyProjection_def
  bindE_liftE bindR_def streamMessage_def streamEvent_def Let_def List.map_filter_simps AggregateConsumerName_def dayOf_def
  streamPublished_eq streamPosted_db emptyDatabase_def transactionPosted_def modifyDb_def returnE_def bindE_assoc bindE_calls bindE_notifyProjection

lemma streamProjected_eq:
  "accountDaysT (db streamProjected) =
     [((1, 0), \<lparr>dr_debit = 100, dr_credit = 0, dr_updated = 5, dr_lastEvent = 13\<rparr>),
      ((2, 0), \<lparr>dr_debit = 0, dr_credit = 100, dr_updated = 5, dr_lastEvent = 13\<rparr>)]"
  "entriesT (db streamProjected) = entriesT (db streamPosted)" "inboxT (db streamProjected) = [(AggregateConsumerName, 13)]"
  "outboxT (db streamProjected) = [\<lparr>or_id = 13, or_saga = None, or_transaction = Some 10, or_type = transactionPosted,
     or_status = ''processed'', or_attempts = 1, or_available = 0, or_created = 0, or_leaseOwner = None, or_leaseExpires = None\<rparr>]"
  "accountsT (db streamProjected) = accountsT (db streamPosted)" "transactionsT (db streamProjected) = transactionsT (db streamPosted)"
  by (simp_all add: streamProjected_def projection_eval)

lemma streamTwice:
  "\<exists>s'. ApplyTransactionPostedBatch streamEnv AggregateConsumerName [streamEvent, streamEvent] streamPosted = (s', Inr [True, False])"
  by (simp add: projection_eval)

text \<open>The concrete run: post, publish, project.\<close>

lemma stream_reach:
  "pipeline_reach streamEnv (emptyBroker, streamPosted)" "pipeline_reach streamEnv streamPublished"
  "pipeline_reach streamEnv (fst streamPublished, streamProjected)"
proof -
  have 0: "pipeline_reach streamEnv (emptyBroker, pgStart)"
    by (rule pipeline_reach.start) (simp add: pipeline_start_def emptyBroker_def pgStart_def emptyDatabase_def)
  obtain r where "PgCreateTransaction streamEnv '''' pgRequest pgStart = (streamPosted, r)"
    by (metis prod.collapse streamPosted_def)
  from pipeline_reach.more [OF 0 pipeline_step.createTransaction [OF this]]
  show 1: "pipeline_reach streamEnv (emptyBroker, streamPosted)" .
  have "PublishCommittedEvents streamEnv (JetStreamPublisher streamEnv) 1 (emptyBroker, streamPosted) =
      ((fst streamPublished, snd streamPublished), 1, None)"
    using streamPublished_eq(3) by (simp add: streamPublished_def prod_eq_iff)
  from PublishCommittedEvents_reach [OF streamEnv_ok 1 this]
  show 2: "pipeline_reach streamEnv streamPublished" by simp
  obtain vs where run: "consumeBatch streamEnv (messages (fst streamPublished)) (snd streamPublished) = (streamProjected, vs)"
    by (metis prod.collapse streamProjected_def)
  have "pipeline_reach streamEnv (fst streamPublished, snd streamPublished)" using 2 by simp
  from pipeline_reach.more [OF this pipeline_step.consume [OF subset_refl run]]
  show "pipeline_reach streamEnv (fst streamPublished, streamProjected)" .
qed

subsection \<open>Properties\<close>

text \<open>
  C6: the inbox makes the projection exactly-once, within a batch and across batches and restarts. A call of \<open>ApplyTransactionPostedBatch\<close>
  that fails changes no table. One that succeeds says of exactly one event of each new identifier that it
  was applied, records all the identifiers, and adds to every daily total of an account and of a ledger
  the entries of the applied events, each once; nothing else changes.
\<close>

theorem ApplyTransactionPostedBatch_once:
  assumes "numeric_ok env" and "slice_order env" and "days_ok env (accountDaysT (db s))" and "days_ok env (ledgerDaysT (db s))"
    and "\<forall>ev \<in> set events. event_cents env ev" and "ApplyTransactionPostedBatch env consumer events s = (s', res)"
  shows "case res of
      Inl e \<Rightarrow> db s' = db s
    | Inr applied \<Rightarrow>
        length applied = length events \<and>
        distinct (map (eventKey env) (appliedEvents events applied)) \<and>
        eventKey env ` set (appliedEvents events applied) = {k \<in> eventKey env ` set events. (consumer, k) \<notin> set (inboxT (db s))} \<and>
        set (inboxT (db s')) = set (inboxT (db s)) \<union> Pair consumer ` eventKey env ` set events \<and>
        (\<forall>sd k. dayTotal sd (accountDaysT (db s')) k =
           dayTotal sd (accountDaysT (db s)) k + (\<Sum>ev\<leftarrow>appliedEvents events applied. accountShare env sd k ev)) \<and>
        (\<forall>sd k. dayTotal sd (ledgerDaysT (db s')) k =
           dayTotal sd (ledgerDaysT (db s)) k + (\<Sum>ev\<leftarrow>appliedEvents events applied. ledgerShare env sd k ev)) \<and>
        (\<exists>inbox A L. db s' = (db s)\<lparr>inboxT := inbox, accountDaysT := A, ledgerDaysT := L\<rparr>)"
proof (cases res)
  case (Inl e)
  then show ?thesis using ApplyTransactionPostedBatch_Inl [of env consumer events s s' e] assms(6) by simp
next
  case (Inr applied)
  then have "ApplyTransactionPostedBatch env consumer events s = (s', Inr applied)" using assms(6) by simp
  from ApplyTransactionPostedBatch_Inr [OF this assms(1-5)] show ?thesis
    unfolding projected_def Inr by auto
qed

theorem ApplyTransactionPostedBatch_once_witness:
  "\<exists>s'. ApplyTransactionPostedBatch streamEnv AggregateConsumerName [streamEvent, streamEvent] streamPosted = (s', Inr [True, False]) \<and>
     dayTotal DebitSide (accountDaysT (db s')) (1, 0) = 100"
proof -
  obtain s' where run: "ApplyTransactionPostedBatch streamEnv AggregateConsumerName [streamEvent, streamEvent] streamPosted = (s', Inr [True, False])"
    using streamTwice by blast
  have pre: "numeric_ok streamEnv" "slice_order streamEnv" "days_ok streamEnv (accountDaysT (db streamPosted))"
    "days_ok streamEnv (ledgerDaysT (db streamPosted))" "\<forall>ev \<in> set [streamEvent, streamEvent]. event_cents streamEnv ev"
    using streamEnv_ok by (simp_all add: stream_env_ok_def days_ok_def streamPosted_db emptyDatabase_def event_cents_def)
  from ApplyTransactionPostedBatch_once [OF pre run]
  have "dayTotal DebitSide (accountDaysT (db s')) (1, 0) =
      dayTotal DebitSide (accountDaysT (db streamPosted)) (1, 0) + (\<Sum>ev\<leftarrow>[streamEvent]. accountShare streamEnv DebitSide (1, 0) ev)"
    by (simp add: appliedEvents_def)
  then show ?thesis using run
    by (simp add: accountShare_def streamEvent_def dayOf_def dayTotal_def streamPosted_db emptyDatabase_def)
qed

text \<open>
  C8: the daily aggregates are exact. However the operations of the store, the publishers, the deliveries of the broker (repeated, reordered,
  in any batches) and the consumer interleave, and whatever calls of the database fail: the totals of an
  account and of a ledger on a day are those of the stored entries of that day whose transactions have
  been projected.
\<close>

theorem aggregates_match_journal:
  assumes "stream_env_ok env" and "pipeline_reach env (b, s)"
  shows "dayTotal sd (accountDaysT (db s)) k =
      entryTotal sd (\<lambda>e. er_transaction e \<in> projectedTxs (db s) \<and> onAccountDay (db s) k e) (entriesT (db s)) \<and>
    dayTotal sd (ledgerDaysT (db s)) k =
      entryTotal sd (\<lambda>e. er_transaction e \<in> projectedTxs (db s) \<and> onLedgerDay (db s) k e) (entriesT (db s))"
  using pipeline_okD(7) [OF pipeline_reach_ok [OF assms(2,1)]] unfolding aggregates_exact_def fst_conv snd_conv by blast

theorem aggregates_match_journal_witness:
  "dayTotal CreditSide (accountDaysT (db streamProjected)) (2, 0) = 100"
  using aggregates_match_journal [OF streamEnv_ok stream_reach(3), of CreditSide "(2, 0)"]
  by (simp add: streamProjected_eq streamPosted_db projectedTxs_def onAccountDay_def dayOf_def emptyDatabase_def)







end
