(* ===== verification/Pg_Tables.thy ===== *)
theory Pg_Tables
  imports Pipeline_Properties
begin

text \<open>
  The types of the tables, as the CHECK constraints and the enumeration of the schema state them, and the sagas of the
  transfers, of which only the status and its time ever change. Both are one relation between the tables
  before and after an operation, an interpretation of \<open>table_relation\<close>.
\<close>

subsection \<open>Typed tables\<close>

definition account_type :: "AccountType \<Rightarrow> bool" where
  "account_type ty \<longleftrightarrow> ty \<in> {AssetType, LiabilityType, EquityType, RevenueType, ExpenseType}"

definition accounts_typed :: "(uuid \<times> 'd AccountRow) list \<Rightarrow> bool" where
  "accounts_typed rows \<longleftrightarrow> list_all (\<lambda>p. account_type (ar_type (snd p))) rows"

definition entries_typed :: "'d :: linordered_ab_group_add EntryRow list \<Rightarrow> bool" where
  "entries_typed rows \<longleftrightarrow> list_all entryCheck rows"

definition key_typed :: "KeyRow \<Rightarrow> bool" where
  "key_typed k \<longleftrightarrow> kr_status k = ''processing'' \<or> kr_status k = ''completed'' \<and> kr_transaction k \<noteq> None"

definition keys_typed :: "(string \<rightharpoonup> KeyRow) \<Rightarrow> bool" where
  "keys_typed m \<longleftrightarrow> (\<forall>k \<in> ran m. key_typed k)"

definition event_typed :: "OutboxRow \<Rightarrow> bool" where
  "event_typed r \<longleftrightarrow> or_status r \<in> {''pending'', ''processing'', ''processed''} \<and> (or_saga r \<noteq> None \<or> or_transaction r \<noteq> None)"

definition outbox_typed :: "OutboxRow list \<Rightarrow> bool" where
  "outbox_typed rows \<longleftrightarrow> (\<forall>r \<in> set rows. event_typed r)"

definition steps_typed :: "StepRow list \<Rightarrow> bool" where
  "steps_typed rows \<longleftrightarrow> (\<forall>r \<in> set rows. st_status r \<in> {''pending'', ''completed'', ''failed''})"

definition sagas_typed :: "(uuid \<times> 'd :: linordered_ab_group_add SagaRow) list \<Rightarrow> bool" where
  "sagas_typed rows \<longleftrightarrow> (\<forall>p \<in> set rows. 0 < sr_amount (snd p))"

definition tables_typed :: "'d :: linordered_ab_group_add Database \<Rightarrow> bool" where
  "tables_typed d \<longleftrightarrow> accounts_typed (accountsT d) \<and> entries_typed (entriesT d) \<and> keys_typed (keysT d) \<and>
     outbox_typed (outboxT d) \<and> steps_typed (stepsT d) \<and> sagas_typed (sagasT d)"

subsection \<open>Sagas\<close>

definition same_saga :: "'d SagaRow \<Rightarrow> 'd SagaRow \<Rightarrow> bool" where
  "same_saga r r' \<longleftrightarrow> r'\<lparr>sr_status := sr_status r, sr_updated := sr_updated r\<rparr> = r"

definition sagas_kept :: "(uuid \<times> 'd SagaRow) list \<Rightarrow> (uuid \<times> 'd SagaRow) list \<Rightarrow> bool" where
  "sagas_kept rows rows' \<longleftrightarrow> (\<exists>olds news. rows' = olds @ news \<and> list_all2 (\<lambda>p p'. fst p' = fst p \<and> same_saga (snd p) (snd p')) rows olds)"

lemma same_saga_refl [simp]: "same_saga r r"
  by (simp add: same_saga_def)

lemma same_saga_update [simp]: "same_saga r (r\<lparr>sr_status := st, sr_updated := u\<rparr>)"
  by (simp add: same_saga_def)

lemma same_saga_fields:
  assumes "same_saga r r'"
  shows "sr_key r' = sr_key r" "sr_sourceLedger r' = sr_sourceLedger r" "sr_sourceAccount r' = sr_sourceAccount r"
    "sr_destinationLedger r' = sr_destinationLedger r" "sr_destinationAccount r' = sr_destinationAccount r"
    "sr_amount r' = sr_amount r" "sr_created r' = sr_created r"
  using assms by (cases r; cases r'; simp add: same_saga_def)+

lemma same_saga_trans: "same_saga r r1 \<Longrightarrow> same_saga r1 r2 \<Longrightarrow> same_saga r r2"
  by (cases r; cases r1; cases r2) (simp add: same_saga_def)

lemma sagas_kept_refl [simp]: "sagas_kept rows rows"
  unfolding sagas_kept_def by (rule exI [of _ rows]) (simp add: list_all2_refl)

lemma sagas_kept_append [simp]: "sagas_kept rows (rows @ news)"
  unfolding sagas_kept_def by (rule exI [of _ rows]) (simp add: list_all2_refl)

lemma sagas_kept_trans:
  assumes "sagas_kept rows rows1" and "sagas_kept rows1 rows2"
  shows "sagas_kept rows rows2"
proof -
  let ?P = "\<lambda>p p'. fst p' = fst p \<and> same_saga (snd p) (snd p')"
  obtain olds news where 1: "rows1 = olds @ news" "list_all2 ?P rows olds" using assms(1) by (auto simp: sagas_kept_def)
  obtain olds' news' where 2: "rows2 = olds' @ news'" "list_all2 ?P rows1 olds'" using assms(2) by (auto simp: sagas_kept_def)
  obtain us vs where uv: "olds' = us @ vs" "list_all2 ?P olds us" using 2(2) 1(1) by (auto simp: list_all2_append1)
  have "list_all2 ?P rows us"
    by (rule list_all2_trans [OF _ 1(2) uv(2)]) (auto intro: same_saga_trans)
  then show ?thesis unfolding sagas_kept_def using 2(1) uv(1) by (intro exI [of _ us] exI [of _ "vs @ news'"]) simp
qed

definition tables_kept :: "'d :: linordered_ab_group_add Database \<Rightarrow> 'd Database \<Rightarrow> bool" where
  "tables_kept d d' \<longleftrightarrow> (tables_typed d \<longrightarrow> tables_typed d') \<and> sagas_kept (sagasT d) (sagasT d')"

interpretation kr: table_relation tables_kept
  by unfold_locales (auto simp: tables_kept_def intro: sagas_kept_trans)

text \<open>A saga is found again under its identifier and under its key.\<close>

lemma find_kept:
  assumes "list_all2 (\<lambda>p p'. fst p' = fst p \<and> same_saga (snd p) (snd p')) rows olds" and "find P rows = Some p"
    and "\<And>k r r'. same_saga r r' \<Longrightarrow> P (k, r') \<longleftrightarrow> P (k, r)"
  shows "\<exists>r'. find P (olds @ news) = Some (fst p, r') \<and> same_saga (snd p) r'"
  using assms(1,2)
proof (induction rows olds rule: list_all2_induct)
  case (Cons x xs y ys)
  have "P y \<longleftrightarrow> P x" using Cons.hyps(1) assms(3) [of "snd x" "snd y" "fst x"] by (metis prod.collapse)
  then show ?case using Cons by (cases "P x") (auto simp: prod_eq_iff)
qed simp

lemma findSaga_kept:
  assumes "sagas_kept (sagasT d) (sagasT d')" and "findSaga env key d = Some (sid, row)"
  shows "\<exists>row'. findSaga env key d' = Some (sid, row') \<and> same_saga row row'"
proof -
  obtain olds news where k: "sagasT d' = olds @ news" "list_all2 (\<lambda>p p'. fst p' = fst p \<and> same_saga (snd p) (snd p')) (sagasT d) olds"
    using assms(1) by (auto simp: sagas_kept_def)
  show ?thesis
  proof (cases "uuidParse env key")
    case None
    then show ?thesis using assms(2) find_kept [OF k(2), of "\<lambda>(k, r). sr_key r = key" "(sid, row)" news]
      by (auto simp: findSaga_def k(1) same_saga_fields)
  next
    case (Some u)
    then show ?thesis using assms(2) find_kept [OF k(2), of "\<lambda>(k, r). k = u" "(sid, row)" news]
      by (auto simp: findSaga_def k(1))
  qed
qed

subsection \<open>Statements\<close>

text \<open>A statement that leaves the sagas alone and keeps the other tables typed.\<close>

lemma keptI:
  assumes "sagasT d' = sagasT d" and "accounts_typed (accountsT d) \<Longrightarrow> accounts_typed (accountsT d')"
    and "entries_typed (entriesT d) \<Longrightarrow> entries_typed (entriesT d')" and "keys_typed (keysT d) \<Longrightarrow> keys_typed (keysT d')"
    and "outbox_typed (outboxT d) \<Longrightarrow> outbox_typed (outboxT d')" and "steps_typed (stepsT d) \<Longrightarrow> steps_typed (stepsT d')"
  shows "tables_kept d d'"
  using assms by (simp add: tables_kept_def tables_typed_def)

lemma kept_frame [simp]:
  "tables_kept d (d\<lparr>inboxT := i\<rparr>)" "tables_kept d (d\<lparr>accountDaysT := a\<rparr>)" "tables_kept d (d\<lparr>ledgerDaysT := l\<rparr>)"
  by (rule keptI; simp)+

lemma kept_outbox: "(\<And>r. event_typed r \<Longrightarrow> event_typed (f r)) \<Longrightarrow> tables_kept d (d\<lparr>outboxT := map f (outboxT d)\<rparr>)"
  by (rule keptI) (auto simp: outbox_typed_def)

lemma kept_insertAccount:
  assumes "insertAccount aid l n ty d = Inr d'" and "account_type ty"
  shows "tables_kept d d'"
  using assms by (intro keptI) (auto simp: insertAccount_def accounts_typed_def split: if_splits)

lemma account_type_asset [simp]: "account_type AssetType"
  by (simp add: account_type_def)

lemma kept_insertClearings: "insertClearings ps d = Inr d' \<Longrightarrow> tables_kept d d'"
proof (induction ps arbitrary: d)
  case (Cons p ps)
  obtain aid l where p: "p = (aid, l)" by (cases p)
  show ?case
  proof (cases "accountByName d l clearingName")
    case None
    then obtain d1 where 1: "insertAccount aid l clearingName AssetType d = Inr d1" "insertClearings ps d1 = Inr d'"
      using Cons.prems by (auto simp: p bindR_Inr)
    show ?thesis by (rule kr.trans [OF kept_insertAccount [OF 1(1)] Cons.IH [OF 1(2)]]) simp
  next
    case (Some a)
    then show ?thesis using Cons by (simp add: p)
  qed
qed (simp add: kr.refl)

lemma kept_insertTransactions: "insertTransactions t txs d = Inr d' \<Longrightarrow> tables_kept d d'"
  using insertTransactions_Inr [of t txs d d'] by (auto intro!: keptI)

lemma kept_insertEntries: "insertEntries rows d = Inr d' \<Longrightarrow> tables_kept d d'"
  by (auto simp: insertEntries_def entries_typed_def split: if_splits intro!: keptI)

lemma updateRows_typed: "updateRows env upd rows = Inr rows' \<Longrightarrow> accounts_typed rows \<Longrightarrow> accounts_typed rows'"
  by (induction env upd rows arbitrary: rows' rule: updateRows.induct)
    (auto simp: accounts_typed_def bindR_Inr split: option.splits)

lemma kept_updateBalances: "updateBalances env upd d = Inr d' \<Longrightarrow> tables_kept d d'"
  using updateRows_typed [of env upd "accountsT d"] by (intro keptI) (auto simp: updateBalances_def bindR_Inr)

lemma kept_insertOutbox: "insertOutbox row d = Inr d' \<Longrightarrow> event_typed row \<Longrightarrow> tables_kept d d'"
  by (auto simp: insertOutbox_def outbox_typed_def split: if_splits intro!: keptI)

lemma event_typed_posted [simp]: "event_typed (postedEvent oid t tid)"
  by (simp add: event_typed_def postedEvent_def)

lemma event_typed_saga [simp]: "event_typed (sagaEvent oid t sid ty)"
  by (simp add: event_typed_def sagaEvent_def)

lemma kept_postStatement:
  assumes "postStatement env t txs vals upd oids d = Inr d'"
  shows "tables_kept d d'"
proof -
  from assms obtain d1 rows d2 d3 where d1: "insertTransactions t txs d = Inr d1" and d2: "insertEntries rows d1 = Inr d2"
    and d3: "updateBalances env upd d2 = Inr d3" and d': "insertOutboxes (map (\<lambda>(oid, tid, _). postedEvent oid t tid) (zip oids txs)) d3 = Inr d'"
    by (auto simp: postStatement_def bindR_Inr)
  have "tables_kept d3 d'"
    using insertOutboxes_Inr [OF d'] by (auto simp: outbox_typed_def split: prod.splits intro!: keptI)
  from kr.trans [OF kept_insertTransactions [OF d1] kr.trans [OF kept_insertEntries [OF d2] kr.trans [OF kept_updateBalances [OF d3] this]]]
  show ?thesis .
qed

lemma keys_typed_upd: "keys_typed m \<Longrightarrow> key_typed k \<Longrightarrow> keys_typed (m(key \<mapsto> k))"
  by (auto simp: keys_typed_def ran_def)

lemma kept_completeKey [simp]: "tables_kept d (completeKey key tid d)"
  by (rule keptI) (auto simp: completeKey_def key_typed_def split: option.splits intro!: keys_typed_upd)

lemma kept_claim: "tables_kept d (d\<lparr>keysT := (keysT d)(key \<mapsto> claimRow key c d)\<rparr>)"
proof (rule keptI)
  assume k: "keys_typed (keysT d)"
  have "key_typed (claimRow key c d)"
    using k by (auto simp: claimRow_def keys_typed_def key_typed_def ran_def split: option.splits)
  then show "keys_typed (keysT (d\<lparr>keysT := (keysT d)(key \<mapsto> claimRow key c d)\<rparr>))" using k by (simp add: keys_typed_upd)
qed simp_all

lemma kept_insertSaga: "insertSaga env sid row d = Inr d' \<Longrightarrow> tables_kept d d'"
  by (auto simp: insertSaga_def tables_kept_def tables_typed_def sagas_typed_def split: option.splits if_splits)

lemma kept_insertSteps: "steps_typed rows \<Longrightarrow> tables_kept d (insertSteps rows d)"
  by (rule keptI) (auto simp: insertSteps_def steps_typed_def)

lemma kept_setSagas [simp]: "tables_kept d (setSagas sids st t d)"
proof -
  have "sagas_kept rows (map (\<lambda>(k, r). (k, if k \<in> set sids then r\<lparr>sr_status := st, sr_updated := t\<rparr> else r)) rows)"
    for rows :: "(uuid \<times> 'a SagaRow) list"
    unfolding sagas_kept_def by (rule exI, rule exI [of _ "[]"]) (auto simp: list.rel_map intro!: list.rel_refl_strong)
  then show ?thesis by (fastforce simp: tables_kept_def tables_typed_def setSagas_def sagas_typed_def)
qed

lemma kept_setCreditSteps: "st \<in> {''completed'', ''failed''} \<Longrightarrow> tables_kept d (setCreditSteps sids st d)"
  by (rule keptI) (auto simp: setCreditSteps_def steps_typed_def)

lemma kept_outbox_updates [simp]:
  "tables_kept d (processedEvents eids d)" "tables_kept d (delayedEvent eid t d)" "tables_kept d (expireLeases t d)"
  "tables_kept d (leaseEvents owner t ids d)" "tables_kept d (completeClaim t owner succeeded failed d)"
  unfolding processedEvents_def delayedEvent_def expireLeases_def leaseEvents_def completeClaim_def
  by (rule kept_outbox; simp add: event_typed_def)+

subsection \<open>Operations\<close>

lemmas kept_intros = kr.keeps_rules

lemma ValidateAccount_types: "ValidateAccount name ty = None \<Longrightarrow> account_type ty"
  by (auto simp: ValidateAccount_def account_type_def split: if_splits)

lemma keeps_validated:
  fixes m :: "('d :: linordered_ab_group_add, 'a) act"
  assumes "(ValidateAccount name ty :: 'd err option) = None \<Longrightarrow> keeps tables_kept m"
  shows "keeps tables_kept (bindE (case ValidateAccount name ty of Some e \<Rightarrow> failE e | None \<Rightarrow> returnE ()) (\<lambda>_. m))"
proof (cases "ValidateAccount name ty :: 'd err option")
  case None
  show ?thesis by (rule kr.keeps_bindE) (use None assms in \<open>simp_all add: kr.keeps_prims\<close>)
next
  case (Some e)
  then show ?thesis by (simp add: keeps_def bindE_def failE_def kr.refl)
qed

lemma kept_PgCreateAccount: "keeps tables_kept (PgCreateAccount env name ty)"
  unfolding PgCreateAccount_def
  by (rule keeps_validated) (auto intro!: kept_intros intro: kept_insertAccount dest: ValidateAccount_types)

lemma kept_PgCreateAccountInLedger: "keeps tables_kept (PgCreateAccountInLedger env l name ty)"
  unfolding PgCreateAccountInLedger_def parseE_def
  by (rule keeps_validated) (auto intro!: kept_intros intro: kept_insertAccount dest: ValidateAccount_types split: option.splits)

lemma kept_posting: "postStatement env t txs vals upd oids d = Inr d1 \<Longrightarrow> tables_kept d (completeKey key tid d1)"
  by (rule kr.trans [OF kept_postStatement kept_completeKey])

lemma kept_PgCreateTransaction: "keeps tables_kept (PgCreateTransaction env key es)"
proof -
  have w: "keeps tables_kept (writePosting env tid l k es changes)" for tid l k es changes
    unfolding writePosting_def by (auto simp: bindR_Inr intro!: kept_intros intro: kept_posting)
  have new: "keeps tables_kept (postNew env k es)" for k
    unfolding postNew_def by (auto intro!: kept_intros w kr.keeps_quiet [OF quiet_lock] split: prod.splits)
  have "keeps tables_kept (createTransactionAttempt env key c es)" for c
    unfolding createTransactionAttempt_def ClaimIdempotencyKey_def buildTransaction_def
    by (auto intro!: kept_intros new kept_claim split: option.splits)
  then show ?thesis
    unfolding PgCreateTransaction_def completedIdempotentTransaction_def Let_def
    by (auto intro!: kept_intros split: option.splits)
qed

lemma kept_CreateTransactionsBatch: "keeps tables_kept (CreateTransactionsBatch env ess)"
proof -
  have "keeps tables_kept (writePostingBatch env ps ch rs)" for ps ch rs
    unfolding writePostingBatch_def Let_def by (auto intro!: kept_intros intro: kept_postStatement)
  then show ?thesis
    unfolding CreateTransactionsBatch_def Let_def by (auto intro!: kept_intros split: prod.splits)
qed

lemma kept_ensureClearing: "keeps tables_kept (ensureClearing env l)"
  unfolding ensureClearing_def by (auto intro!: kept_intros intro: kept_insertAccount [OF _ account_type_asset] split: option.splits)

lemma steps_typed_new:
  "steps_typed [\<lparr>st_saga = sid, st_step = ''source_debit'', st_status = ''completed'', st_attempts = Suc 0\<rparr>,
     \<lparr>st_saga = sid, st_step = ''destination_credit'', st_status = ''pending'', st_attempts = 0\<rparr>]"
  by (simp add: steps_typed_def)

lemma kept_source:
  assumes "postStatement env t txs vals upd oids d = Inr d1" and "insertSaga env sid row d1 = Inr d2"
    and "insertOutbox (sagaEvent o2 t sid ty) (insertSteps steps d2) = Inr d3" and "steps_typed steps"
  shows "tables_kept d d3"
  by (rule kr.trans [OF kept_postStatement [OF assms(1)] kr.trans [OF kept_insertSaga [OF assms(2)]
        kr.trans [OF kept_insertSteps [OF assms(4)] kept_insertOutbox [OF assms(3)]]]]) simp

lemma kept_PgCreateTransfer: "keeps tables_kept (PgCreateTransfer env req)"
proof -
  have "keeps tables_kept (writeSourceTransfer env sid key sl src c dl dst amount t)" for sid key sl src c dl dst amount t
    unfolding writeSourceTransfer_def by (auto simp: bindR_Inr intro!: kept_intros intro: kept_source [OF _ _ _ steps_typed_new])
  then have "keeps tables_kept (newTransfer env req sl src dl dst)" for sl src dl dst
    unfolding newTransfer_def by (auto intro!: kept_intros kept_ensureClearing split: option.splits)
  then show ?thesis
    unfolding PgCreateTransfer_def transferTransaction_def scanSaga_def parseE_def
    by (auto intro!: kept_intros split: option.splits)
qed

lemma kept_credits:
  assumes "postStatement env t txs vals upd oids d = Inr d1"
  shows "tables_kept d (processedEvents eids (setCreditSteps sids ''completed'' (setSagas sids' st u d1)))"
  by (rule kr.trans [OF kept_postStatement [OF assms] kr.trans [OF kept_setSagas kr.trans [OF kept_setCreditSteps kept_outbox_updates(1)]]]) simp

lemma kept_PgProcessOutbox: "keeps tables_kept (PgProcessOutbox env limit)"
proof -
  have "keeps tables_kept (writeDestinationCreditBatch env t es)" for t es
    unfolding writeDestinationCreditBatch_def by (auto simp: bindR_Inr intro!: kept_intros intro: kept_credits)
  then have "keeps tables_kept (completeCredits env t es)" for t es
    unfolding completeCredits_def Let_def by (auto intro!: kept_intros intro: kept_insertClearings)
  then show ?thesis
    unfolding PgProcessOutbox_def processDestinationCreditBatch_def creditBatchTransaction_def creditEvent_def
    by (auto intro!: kept_intros split: prod.splits)
qed

lemma kept_claims:
  "keeps tables_kept (claimTransactionOutboxEvents env owner limit)"
  "keeps tables_kept (completeTransactionOutboxClaim env owner succeeded failed)"
  unfolding claimTransactionOutboxEvents_def completeTransactionOutboxClaim_def Let_def by (auto intro!: kept_intros)

lemma kept_release: "keeps tables_kept (releaseTransactionOutboxClaim env owner)"
  unfolding releaseTransactionOutboxClaim_def
  by (auto intro!: kept_intros kept_outbox simp: event_typed_def)

lemma kept_ApplyTransactionPostedBatch: "keeps tables_kept (ApplyTransactionPostedBatch env consumer events)"
proof -
  have "keeps tables_kept (writeProjection env t st)" for t st
    unfolding writeProjection_def by (auto simp: bindR_Inr intro!: kept_intros)
  then have "keeps tables_kept (projectTransaction env consumer n ps)" for n ps
    unfolding projectTransaction_def by (auto intro!: kept_intros split: prod.splits)
  then show ?thesis unfolding ApplyTransactionPostedBatch_def by (auto intro!: kept_intros)
qed

lemma kept_consumeBatch: "consumeBatch env msgs s = (s', vs) \<Longrightarrow> tables_kept (db s) (db s')"
  by (auto simp: consumeBatch_def Let_def kr.refl split: if_splits prod.splits sum.splits
      dest!: keepsD [OF kept_ApplyTransactionPostedBatch])

subsection \<open>The whole system\<close>

lemma pipeline_step_kept:
  assumes "pipeline_ok env b (db s)" and "pipeline_step env (b, s) (b', s')"
  shows "tables_kept (db s) (db s')"
  using assms(2)
proof (rule pipeline_stepE, goal_cases)
  case 8
  then show ?case using ProcessCompensationOutbox_idle [OF pipeline_okD(2) [OF assms(1)]] by (metis kr.refl)
next
  case (10 owner evs errs)
  have "quiet (hydrateClaimedTransactionEvents env owner)" unfolding hydrateClaimedTransactionEvents_def by (intro quiet_intros)
  from quietD [OF this 10(1)] show ?case by (simp add: kr.refl)
qed (auto simp: kr.refl intro: kept_consumeBatch keepsD [OF kept_PgCreateAccount] keepsD [OF kept_PgCreateAccountInLedger]
    keepsD [OF kept_PgCreateTransaction] keepsD [OF kept_CreateTransactionsBatch] keepsD [OF kept_PgCreateTransfer]
    keepsD [OF kept_PgProcessOutbox] keepsD [OF kept_claims(1)] keepsD [OF kept_claims(2)] keepsD [OF kept_release])

lemma pipeline_run_kept:
  assumes "(pipeline_step env)\<^sup>*\<^sup>* c c'" and "stream_env_ok env" and "pipeline_reach env c"
  shows "pipeline_reach env c' \<and> tables_kept (db (snd c)) (db (snd c'))"
  using assms(1)
proof (induction rule: rtranclp_induct)
  case base
  then show ?case using assms(3) by (simp add: kr.refl)
next
  case (step c1 c2)
  have r: "pipeline_reach env c1" using step.IH by blast
  have "tables_kept (db (snd c1)) (db (snd c2))"
    using pipeline_step_kept [of env "fst c1" "snd c1" "fst c2" "snd c2"] pipeline_reach_ok [OF r assms(2)] step.hyps(2) by simp
  then show ?case using step pipeline_reach.more [OF r] kr.trans by blast
qed

end
