(* ===== verification/Pg_Tables_Properties.thy ===== *)
theory Pg_Tables_Properties
  imports Pg_Tables Pg_Transfer_Properties
begin

text \<open>
  What follows for the whole system: the tables stay typed, and a transfer is found again, under its identifier and under its
  key, in every later state.
\<close>

subsection \<open>A new transfer is found\<close>

lemma find_last: "(\<And>x. x \<in> set xs \<Longrightarrow> \<not> P x) \<Longrightarrow> P y \<Longrightarrow> find P (xs @ [y]) = Some y"
  by (induction xs) auto

lemma opened_found:
  assumes "opened env req sl src dl dst sid u d d'" and "parse_inverts env"
  obtains amount where "numeric env (Amount req) = Some amount"
    "\<And>key. key = uuidString env sid \<or> key = IdempotencyKey req \<and> uuidParse env key = None \<Longrightarrow>
      findSaga env key d' = Some (sid, \<lparr>sr_key = IdempotencyKey req, sr_sourceLedger = sl, sr_sourceAccount = src,
        sr_destinationLedger = dl, sr_destinationAccount = dst, sr_amount = amount,
        sr_status = TransferPending, sr_created = u, sr_updated = u\<rparr>)"
proof -
  let ?row = "\<lparr>sr_key = IdempotencyKey req, sr_sourceLedger = sl, sr_sourceAccount = src, sr_destinationLedger = dl,
      sr_destinationAccount = dst, sr_amount = Amount req, sr_status = TransferPending, sr_created = u, sr_updated = u\<rparr>"
  from assms(1) obtain d2 d3 o2 t steps where ins: "insertSaga env sid ?row d2 = Inr d3"
    and out: "insertOutbox (sagaEvent o2 t sid ''destination_credit'') (insertSteps steps d3) = Inr d'"
    unfolding opened_def by blast
  obtain amount where amount: "numeric env (Amount req) = Some amount" and d3: "sagasT d3 = sagasT d2 @ [(sid, ?row\<lparr>sr_amount := amount\<rparr>)]"
    and new: "\<forall>x \<in> set (sagasT d2). \<not> (case x of (k, r) \<Rightarrow> k = sid)"
      "\<forall>x \<in> set (sagasT d2). \<not> (case x of (k, r) \<Rightarrow> sr_key r = IdempotencyKey req)"
    using ins by (auto simp: insertSaga_def list_ex_iff split: option.splits if_splits)
  have d': "sagasT d' = sagasT d2 @ [(sid, ?row\<lparr>sr_amount := amount\<rparr>)]"
    using out d3 by (auto simp: insertOutbox_def insertSteps_def split: if_splits)
  show ?thesis
  proof (rule that [OF amount])
    fix key assume "key = uuidString env sid \<or> key = IdempotencyKey req \<and> uuidParse env key = None"
    then show "findSaga env key d' = Some (sid, \<lparr>sr_key = IdempotencyKey req, sr_sourceLedger = sl, sr_sourceAccount = src,
        sr_destinationLedger = dl, sr_destinationAccount = dst, sr_amount = amount,
        sr_status = TransferPending, sr_created = u, sr_updated = u\<rparr>)"
      unfolding findSaga_def d' using assms(2) new
      by (auto simp: parse_inverts_def intro!: find_last)
  qed
qed

lemma scanSaga_cases:
  assumes "scanSaga env key s = (s', res)"
  shows "db s' = db s \<and> (case res of Inl e \<Rightarrow> (\<exists>w f. e = DbFault w f) \<or> e = NoRows \<and> findSaga env key (db s) = None
    | Inr r \<Rightarrow> \<exists>p. findSaga env key (db s) = Some p \<and> r = sagaResponse env p)"
  using assms by (auto simp: scanSaga_def bindE_def act_defs split: option.splits prod.splits sum.splits if_splits)

text \<open>Reading a transfer whose row is known, and repeating its request.\<close>

lemma PgGetTransfer_found:
  assumes "PgGetTransfer env (uuidString env sid) s = (s', res)" and "parse_inverts env"
    and "findSaga env (uuidString env sid) (db s) = Some p"
  shows "db s' = db s \<and> (case res of Inl e \<Rightarrow> \<exists>w f. e = DbFault w f | Inr r \<Rightarrow> r = sagaResponse env p)"
proof -
  have "scanSaga env (uuidString env sid) s = (s', res)"
    using assms(1,2) by (simp add: PgGetTransfer_def parseE_def parse_inverts_def bindE_def returnE_def)
  from scanSaga_cases [OF this] show ?thesis using assms(3) by (auto split: sum.splits)
qed

lemma PgCreateTransfer_found:
  assumes "PgCreateTransfer env req s = (s', res)" and "validateTransfer req = None"
    and "uuidParse env (SourceLedgerID req) = Some sl" "uuidParse env (DestinationLedgerID req) = Some dl"
    "uuidParse env (SourceAccountID req) = Some src" "uuidParse env (DestinationAccountID req) = Some dst" "sl \<noteq> dl"
    and "findSaga env (IdempotencyKey req) (db s) = Some p" and "sameTransfer (sagaResponse env p) req"
  shows "db s' = db s \<and> (case res of Inl e \<Rightarrow> \<exists>w f. e = DbFault w f | Inr (r, existed) \<Rightarrow> existed \<and> r = sagaResponse env p)"
proof -
  have "transferTransaction env req sl src dl dst s = (s', res)"
    using assms(1-7) by (simp add: PgCreateTransfer_def parseE_def bindE_def returnE_def)
  then show ?thesis
    using assms(8,9) by (auto simp: transferTransaction_def atomically_def scanSaga_def bindE_def act_defs failE_def returnE_def optionE_def
        split: option.splits prod.splits sum.splits if_splits)
qed

definition openedRow :: "'d TransferRequest \<Rightarrow> uuid \<Rightarrow> uuid \<Rightarrow> uuid \<Rightarrow> uuid \<Rightarrow> 'd \<Rightarrow> time \<Rightarrow> 'd SagaRow" where
  "openedRow req sl src dl dst amount u = \<lparr>sr_key = IdempotencyKey req, sr_sourceLedger = sl, sr_sourceAccount = src,
     sr_destinationLedger = dl, sr_destinationAccount = dst, sr_amount = amount, sr_status = TransferPending, sr_created = u, sr_updated = u\<rparr>"

definition openedResponse :: "('d, 'm) pg_env_scheme \<Rightarrow> 'd TransferRequest \<Rightarrow> uuid \<Rightarrow> time \<Rightarrow> 'd TransferResponse" where
  "openedResponse env req sid u = \<lparr>r_ID = uuidString env sid, r_SourceLedgerID = SourceLedgerID req, r_SourceAccountID = SourceAccountID req,
     r_DestinationLedgerID = DestinationLedgerID req, r_DestinationAccountID = DestinationAccountID req, r_Amount = Amount req,
     r_Status = TransferPending, r_CreatedAt = u, r_UpdatedAt = u\<rparr>"

text \<open>A request that names its accounts and ledgers by the texts that the store prints.\<close>

definition canonicalText :: "('d, 'm) pg_env_scheme \<Rightarrow> string \<Rightarrow> bool" where
  "canonicalText env x \<longleftrightarrow> map_option (uuidString env) (uuidParse env x) = Some x"

definition canonicalTransfer :: "('d, 'm) pg_env_scheme \<Rightarrow> 'd TransferRequest \<Rightarrow> bool" where
  "canonicalTransfer env req \<longleftrightarrow> canonicalText env (SourceLedgerID req) \<and> canonicalText env (SourceAccountID req) \<and>
     canonicalText env (DestinationLedgerID req) \<and> canonicalText env (DestinationAccountID req) \<and>
     numeric env (Amount req) = Some (Amount req)"

lemma transfer_later:
  assumes "stream_env_ok env" and "pipeline_reach env (b, s)" and "distinct (map fst (accountsT (db s)))"
    and "PgCreateTransfer env req s = (s1, Inr (r, False))" and "(pipeline_step env)\<^sup>*\<^sup>* (b, s1) (b2, s2)"
  obtains sl dl src dst sid u amount where "validateTransfer req = None" "uuidParse env (SourceLedgerID req) = Some sl"
    "uuidParse env (DestinationLedgerID req) = Some dl" "uuidParse env (SourceAccountID req) = Some src"
    "uuidParse env (DestinationAccountID req) = Some dst" "sl \<noteq> dl" "numeric env (Amount req) = Some amount"
    "r = openedResponse env req sid u"
    "\<forall>key. key = uuidString env sid \<or> key = IdempotencyKey req \<and> uuidParse env key = None \<longrightarrow>
      (\<exists>row. findSaga env key (db s2) = Some (sid, row) \<and> same_saga (openedRow req sl src dl dst amount u) row)"
proof -
  have inv: "parse_inverts env" using assms(1) by (simp add: stream_env_ok_def)
  obtain sl dl src dst where parse: "validateTransfer req = None" "uuidParse env (SourceLedgerID req) = Some sl"
    "uuidParse env (DestinationLedgerID req) = Some dl" "uuidParse env (SourceAccountID req) = Some src"
    "uuidParse env (DestinationAccountID req) = Some dst" "sl \<noteq> dl" and out: "transferOutcome env req sl src dl dst r False (db s) (db s1)"
    by (rule PgCreateTransfer_Inr [OF assms(4,3)])
  obtain sid u where op: "opened env req sl src dl dst sid u (db s) (db s1)" and r: "r = openedResponse env req sid u"
    using out by (auto simp: transferOutcome_def openedResponse_def)
  from opened_found [OF op inv] obtain amount where amount: "numeric env (Amount req) = Some amount"
    and found: "\<forall>key. key = uuidString env sid \<or> key = IdempotencyKey req \<and> uuidParse env key = None \<longrightarrow>
      findSaga env key (db s1) = Some (sid, openedRow req sl src dl dst amount u)"
    unfolding openedRow_def by blast
  have "pipeline_reach env (b, s1)" using pipeline_reach.more [OF assms(2) pipeline_step.createTransfer [OF assms(4)]] .
  from pipeline_run_kept [OF assms(5,1) this] have kept: "sagas_kept (sagasT (db s1)) (sagasT (db s2))" by (simp add: tables_kept_def)
  show ?thesis
    by (rule that [OF parse amount r]) (use findSaga_kept [OF kept] found in blast)
qed

lemma sagaResponse_kept:
  assumes "same_saga (openedRow req sl src dl dst amount u) row"
  shows "sagaResponse env (sid, row) = \<lparr>r_ID = uuidString env sid, r_SourceLedgerID = uuidString env sl, r_SourceAccountID = uuidString env src,
    r_DestinationLedgerID = uuidString env dl, r_DestinationAccountID = uuidString env dst, r_Amount = amount,
    r_Status = sr_status row, r_CreatedAt = u, r_UpdatedAt = sr_updated row\<rparr>"
  using same_saga_fields [OF assms] by (simp add: sagaResponse_def openedRow_def)

subsection \<open>A concrete transfer\<close>

text \<open>A deposit account of ledger 7 and an account of ledger 8; the service starts, and 40 are sent from one to the other.\<close>

definition sagaStart :: "int Pg" where
  "sagaStart = pgStart\<lparr>draws := 30, db := emptyDatabase\<lparr>
     accountsT := [(1, \<lparr>ar_ledger = 7, ar_name = ''deposits'', ar_type = LiabilityType, ar_balance = 0\<rparr>),
       (3, \<lparr>ar_ledger = 8, ar_name = ''till'', ar_type = AssetType, ar_balance = 0\<rparr>)]\<rparr>\<rparr>"

definition sagaOpen :: "int Pg" where
  "sagaOpen = fst (PgCreateTransfer streamEnv (transferReq ''k'') sagaStart)"

lemma sagaOpen_eq:
  "PgCreateTransfer streamEnv (transferReq ''k'') sagaStart = (sagaOpen, Inr (openedResponse streamEnv (transferReq ''k'') 31 0, False))"
  by (simp add: sagaOpen_def sagaStart_def pgStart_def transfer_eval openedResponse_def)

lemma saga_reach:
  "pipeline_reach streamEnv (emptyBroker, sagaStart)" "distinct (map fst (accountsT (db sagaStart)))" "tables_typed (db sagaStart)"
  by (rule pipeline_reach.start)
    (simp_all add: pipeline_start_def emptyBroker_def sagaStart_def emptyDatabase_def tables_typed_def accounts_typed_def account_type_def
      entries_typed_def keys_typed_def outbox_typed_def steps_typed_def sagas_typed_def)

subsection \<open>Properties\<close>



text \<open>
  C28: repeating a transfer is safe. When the key of a transfer is not the text of a UUID and its request names accounts and ledgers
  by their canonical texts and an amount that a \<open>NUMERIC(20,2)\<close> column holds exactly, the same request in any later
  state of the whole system changes no table and answers with the same transfer, marked as existing, or
  meets a fault of the database.
\<close>

theorem PgCreateTransfer_replay:
  assumes "stream_env_ok env" and "pipeline_reach env (b, s)" and "distinct (map fst (accountsT (db s)))"
    and "PgCreateTransfer env req s = (s1, Inr (r, False))" and "(pipeline_step env)\<^sup>*\<^sup>* (b, s1) (b2, s2)"
    and "uuidParse env (IdempotencyKey req) = None" and "canonicalTransfer env req" and "PgCreateTransfer env req s2 = (s3, res)"
  shows "db s3 = db s2 \<and>
    (case res of
       Inl e \<Rightarrow> \<exists>w f. e = DbFault w f
     | Inr (r', existed) \<Rightarrow> existed \<and> r' = r\<lparr>r_Status := r_Status r', r_UpdatedAt := r_UpdatedAt r'\<rparr>)"
proof (rule transfer_later [OF assms(1-5)], goal_cases)
  case (1 sl dl src dst sid u amount)
  from 1(9) assms(6) obtain row where row: "findSaga env (IdempotencyKey req) (db s2) = Some (sid, row)"
    "same_saga (openedRow req sl src dl dst amount u) row" by blast
  have canon: "uuidString env sl = SourceLedgerID req" "uuidString env src = SourceAccountID req"
    "uuidString env dl = DestinationLedgerID req" "uuidString env dst = DestinationAccountID req" "amount = Amount req"
    using assms(7) 1 by (auto simp: canonicalTransfer_def canonicalText_def)
  note R = sagaResponse_kept [OF row(2), of env sid]
  have "sameTransfer (sagaResponse env (sid, row)) req" using R canon by (simp add: sameTransfer_def)
  from PgCreateTransfer_found [OF assms(8) 1(1-6) row(1) this] show ?case
    using R canon 1(8) by (auto simp: openedResponse_def split: sum.splits)
qed

theorem PgCreateTransfer_replay_witness:
  "\<exists>s' r. PgCreateTransfer streamEnv (transferReq ''k'') sagaOpen = (s', Inr (r, True)) \<and> db s' = db sagaOpen \<and> r_Amount r = 40"
proof -
  obtain s' r existed where run: "PgCreateTransfer streamEnv (transferReq ''k'') sagaOpen = (s', Inr (r, existed))"
    by (simp add: sagaOpen_def sagaStart_def pgStart_def transfer_eval sameTransfer_def)
  have k: "uuidParse streamEnv (IdempotencyKey (transferReq ''k'')) = None" by (simp add: transferReq_def)
  have canon: "canonicalTransfer streamEnv (transferReq ''k'')" by (simp add: canonicalTransfer_def canonicalText_def transferReq_def)
  from PgCreateTransfer_replay [OF streamEnv_ok saga_reach(1,2) sagaOpen_eq rtranclp.rtrancl_refl k canon run]
  have "db s' = db sagaOpen" "existed" "r_Amount r = 40"
    by (auto simp: openedResponse_def transferReq_def) (metis TransferResponse.select_convs(6) TransferResponse.surjective TransferResponse.update_convs(7,9))
  then show ?thesis using run by auto
qed

text \<open>
  C24: the tables stay typed. When the accounts, entries, keys, events, steps and sagas of the tables satisfy the CHECK constraints and
  the enumeration of the schema, they do so in every later state of the whole system; no UPDATE of the
  program, none of which the model checks against the constraints, breaks them.
\<close>

theorem system_keeps_types:
  assumes "stream_env_ok env" and "pipeline_reach env (b, s)" and "(pipeline_step env)\<^sup>*\<^sup>* (b, s) (b2, s2)" and "tables_typed (db s)"
  shows "tables_typed (db s2)"
  using pipeline_run_kept [OF assms(3,1,2)] assms(4) by (simp add: tables_kept_def)

theorem system_keeps_types_witness: "tables_typed (db sagaOpen) \<and> length (sagasT (db sagaOpen)) = 1"
proof -
  have "(pipeline_step streamEnv)\<^sup>*\<^sup>* (emptyBroker, sagaStart) (emptyBroker, sagaOpen)"
    using pipeline_step.createTransfer [OF sagaOpen_eq] by (rule r_into_rtranclp)
  from system_keeps_types [OF streamEnv_ok saga_reach(1) this saga_reach(3)] show ?thesis
    by (simp add: sagaOpen_def sagaStart_def pgStart_def transfer_eval)
qed

end
