(* ===== verification/Pg_Locks.thy ===== *)
theory Pg_Locks
  imports Pg_Batch_Books Pg_Properties
begin

text \<open>
  Postings that run at the same time. An attempt of \<open>CreateTransaction\<close> and a \<open>CreateTransactionsBatch\<close> are database
  transactions of several statements under \<open>READ COMMITTED\<close>: they claim their key (the upsert waits for a concurrent
  claim of it), lock their accounts one after another in the order of their identifiers (\<open>ORDER BY id FOR UPDATE\<close>, each
  row read when its lock is granted), and write and commit. Here these are separate steps of several clients over the
  same tables; the write decides on what the client read when it took its locks.

  The locale \<open>locked_code\<close> is what such a transaction keeps to: its outcome is a function of the rows it locked, and it
  changes no others. The postings of the store are interpretations of it.
\<close>

subsection \<open>Runs that differ in the number of database calls\<close>

definition alike :: "'d Pg \<Rightarrow> 'd Pg \<Rightarrow> bool" where
  "alike s s' \<longleftrightarrow> s\<lparr>calls := 0\<rparr> = s'\<lparr>calls := 0\<rparr>"

definition alike_runs :: "'d Pg \<times> 'a \<Rightarrow> 'd Pg \<times> 'a \<Rightarrow> bool" where
  "alike_runs x y \<longleftrightarrow> alike (fst x) (fst y) \<and> snd x = snd y"

text \<open>A database that answers every call.\<close>

definition reliable :: "('d, 'm) pg_env_scheme \<Rightarrow> bool" where
  "reliable env \<longleftrightarrow> fault env = (\<lambda>_. None)"

definition blind :: "('d, 'a) act \<Rightarrow> bool" where
  "blind m \<longleftrightarrow> (\<forall>s s'. alike s s' \<longrightarrow> alike_runs (m s) (m s'))"

lemma alike_refl [simp]: "alike s s" "alike_runs x x"
  by (simp_all add: alike_def alike_runs_def)

lemma alike_trans [trans]: "alike s s1 \<Longrightarrow> alike s1 s2 \<Longrightarrow> alike s s2"
  and alike_sym: "alike s s1 \<Longrightarrow> alike s1 s"
  by (simp_all add: alike_def)

lemma alike_runs_trans [trans]: "alike_runs x y \<Longrightarrow> alike_runs y z \<Longrightarrow> alike_runs x z"
  and alike_runs_sym: "alike_runs x y \<Longrightarrow> alike_runs y x"
  by (auto simp: alike_runs_def alike_def)

lemma alike_iff: "alike s s' \<longleftrightarrow> s' = s\<lparr>calls := calls s'\<rparr>"
  by (cases s; cases s') (auto simp: alike_def)

lemma alike_fields:
  assumes "alike s s'"
  shows "db s' = db s" and "draws s' = draws s" and "ticks s' = ticks s"
  by (subst assms [unfolded alike_iff], simp)+

lemma alike_calls [simp]: "alike (s\<lparr>calls := n\<rparr>) s' \<longleftrightarrow> alike s s'" "alike s (s'\<lparr>calls := n\<rparr>) \<longleftrightarrow> alike s s'"
  by (simp_all add: alike_def)

lemma alike_update:
  assumes "alike s s'"
  shows "alike (s\<lparr>db := d\<rparr>) (s'\<lparr>db := d\<rparr>)" and "alike (s\<lparr>draws := n\<rparr>) (s'\<lparr>draws := n\<rparr>)"
    and "alike (s\<lparr>ticks := n\<rparr>) (s'\<lparr>ticks := n\<rparr>)"
  using assms by (cases s; cases s'; simp add: alike_def)+

lemma alike_advance:
  assumes "alike s s'"
  shows "alike (s\<lparr>db := f (db s)\<rparr>) (s'\<lparr>db := f (db s')\<rparr>)"
    and "alike (s\<lparr>draws := Suc (draws s)\<rparr>) (s'\<lparr>draws := Suc (draws s')\<rparr>)"
    and "alike (s\<lparr>ticks := Suc (ticks s)\<rparr>) (s'\<lparr>ticks := Suc (ticks s')\<rparr>)"
  unfolding alike_fields [OF assms] by (rule alike_update [OF assms])+

named_theorems blind_intros \<open>actions whose outcome does not depend on the number of earlier database calls\<close>

lemma blindD: "blind m \<Longrightarrow> alike s s' \<Longrightarrow> alike_runs (m s) (m s')"
  by (simp add: blind_def)

lemma blind_prims [blind_intros]:
  "blind (returnE x)" "blind (failE e)" "blind (liftE r)" "blind getDb" "blind (modifyDb f)" "blind (newID env)" "blind (timeP env)"
  "reliable env \<Longrightarrow> blind (dbCall env what)"
  by (auto simp: blind_def act_defs alike_runs_def reliable_def alike_advance dest: alike_fields)

lemma blind_bindE [blind_intros]:
  assumes "blind m" and "\<And>x. blind (f x)"
  shows "blind (bindE m f)"
  unfolding blind_def
proof (intro allI impI)
  fix s s' :: "'a Pg" assume "alike s s'"
  note A = blindD [OF assms(1) this]
  obtain s1 r s1' r' where m: "m s = (s1, r)" "m s' = (s1', r')" by fastforce
  with A have a: "alike s1 s1'" and r: "r' = r" by (simp_all add: alike_runs_def)
  show "alike_runs (bindE m f s) (bindE m f s')"
  proof (cases r)
    case (Inl e)
    then show ?thesis using m r a by (simp add: bindE_def alike_runs_def)
  next
    case (Inr x)
    then show ?thesis using m r blindD [OF assms(2) a] by (simp add: bindE_def)
  qed
qed

lemma blind_mapE [blind_intros]: "(\<And>x. blind (f x)) \<Longrightarrow> blind (mapE f xs)"
  by (induction xs) (auto intro!: blind_intros)

lemma blind_atomically [blind_intros]:
  assumes "blind m"
  shows "blind (atomically m)"
  unfolding blind_def
proof (intro allI impI)
  fix s s' :: "'a Pg" assume a: "alike s s'"
  obtain s1 r s1' r' where m: "m s = (s1, r)" "m s' = (s1', r')" by fastforce
  with blindD [OF assms a] have b: "alike s1 s1'" "r' = r" by (simp_all add: alike_runs_def)
  show "alike_runs (atomically m s) (atomically m s')"
    using m b alike_fields(1) [OF a] alike_update(1) [OF b(1), of "db s"]
    by (cases r) (auto simp: atomically_def alike_runs_def)
qed

lemma blind_execDb [blind_intros]: "reliable env \<Longrightarrow> blind (execDb env w f)"
  unfolding execDb_def by (intro blind_intros)

text \<open>A call that is answered can be left out.\<close>

lemma reliable_bindE:
  assumes "reliable env" and "blind (f ())"
  shows "alike_runs (bindE (dbCall env w) f s) (f () s)"
proof -
  have "bindE (dbCall env w) f s = f () (s\<lparr>calls := Suc (calls s)\<rparr>)"
    using assms(1) by (simp add: bindE_def dbCall_def reliable_def)
  then show ?thesis using blindD [OF assms(2), of "s\<lparr>calls := Suc (calls s)\<rparr>" s] by simp
qed

lemma alike_atomically:
  assumes "alike_runs (m s) (m' s)"
  shows "alike_runs (atomically m s) (atomically m' s)"
proof -
  obtain s1 r s1' r' where m: "m s = (s1, r)" "m' s = (s1', r')" by fastforce
  with assms have "alike s1 s1'" "r' = r" by (simp_all add: alike_runs_def)
  then show ?thesis using m alike_update(1) [of s1 s1' "db s"] by (cases r) (auto simp: atomically_def alike_runs_def)
qed

lemma alike_bindE:
  assumes "alike_runs (m s) (m' s)" and "\<And>x. blind (f x)"
  shows "alike_runs (bindE m f s) (bindE m' f s)"
proof -
  obtain s1 r s1' r' where m: "m s = (s1, r)" "m' s = (s1', r')" by fastforce
  with assms(1) have a: "alike s1 s1'" "r' = r" by (simp_all add: alike_runs_def)
  then show ?thesis using m blindD [OF assms(2) a(1)] by (cases r) (auto simp: bindE_def alike_runs_def)
qed

subsection \<open>The clients\<close>

text \<open>
  A client is an attempt with its key and checksum, or a batch.
\<close>

datatype 'd posting =
    Attempt (attemptKey: string) string "'d EntryRequest list"
  | Batch "'d EntryRequest list list"

datatype 'd postingAnswer = Single "'d Transaction" bool | Results "'d BatchPostingResult list"

type_synonym 'd lockedRows = "(uuid \<times> 'd AccountRow) list"

text \<open>The client as one piece of code.\<close>

definition singleAnswer :: "('d, 'd Transaction \<times> bool) act \<Rightarrow> ('d, 'd postingAnswer) act" where
  "singleAnswer m = bindE m (\<lambda>(t, existed). returnE (Single t existed))"

definition batchAnswer :: "('d, 'd BatchPostingResult list) act \<Rightarrow> ('d, 'd postingAnswer) act" where
  "batchAnswer m = bindE m (\<lambda>results. returnE (Results results))"

fun runPosting ::
  "('d :: linordered_ab_group_add, 'm) pg_env_scheme \<Rightarrow> 'd posting \<Rightarrow> ('d, 'd postingAnswer) act" where
  "runPosting env (Attempt key checksum es) = singleAnswer (createTransactionAttempt env key checksum es)"
| "runPosting env (Batch ess) = batchAnswer (CreateTransactionsBatch env ess)"

text \<open>The key it claims, what the claim reads, and the accounts it then locks, in the order it locks them.\<close>

fun claimKey :: "'d posting \<Rightarrow> string" where
  "claimKey (Attempt key checksum es) = key"
| "claimKey (Batch ess) = ''''"

fun claimView :: "'d posting \<Rightarrow> 'd Database \<Rightarrow> KeyRow option" where
  "claimView (Attempt key checksum es) d = (if key = '''' then None else Some (claimRow key checksum d))"
| "claimView (Batch ess) d = None"

definition claimStops :: "string \<Rightarrow> KeyRow option \<Rightarrow> bool" where
  "claimStops checksum claim \<longleftrightarrow>
     (case claim of None \<Rightarrow> False | Some k \<Rightarrow> kr_checksum k \<noteq> checksum \<or> kr_transaction k \<noteq> None)"

fun postingAccounts ::
  "('d :: linordered_ab_group_add, 'm) pg_env_scheme \<Rightarrow> 'd posting \<Rightarrow> KeyRow option \<Rightarrow> uuid list" where
  "postingAccounts env (Attempt key checksum es) claim =
     (if claimStops checksum claim then []
      else case preparePostgresEntries env es of Inl _ \<Rightarrow> [] | Inr ps \<Rightarrow> changeIDs ps)"
| "postingAccounts env (Batch ess) claim =
     (if ess = [] \<or> maxPostingBatchSize < length ess then [] else batchAccountIDs (snd (prepareBatch env 0 ess)))"

text \<open>What is left of the client's code when it has its locks, run on the rows it read.\<close>

definition checkLocked ::
  "('d :: linordered_ab_group_add, 'm) pg_env_scheme \<Rightarrow> 'd lockedRows \<Rightarrow> 'd postgresEntry list
     \<Rightarrow> ('d, uuid \<times> 'd postingAccountChange list) act" where
  "checkLocked env rows entries =
     (let changes = sortedChanges entries
      in bindE (liftE (scanPostingRows env (changesByID entries) rows uuidNil 0)) (\<lambda>(ledgerID, found).
         if found \<noteq> length changes
         then bindE getDb (\<lambda>d. bindE (verifyPostingAccounts env d changes) (\<lambda>_. failE PostingAccountsNotFound))
         else returnE (ledgerID, changes)))"

definition postLocked ::
  "('d :: linordered_ab_group_add, 'm) pg_env_scheme \<Rightarrow> string \<Rightarrow> 'd EntryRequest list \<Rightarrow> 'd lockedRows
     \<Rightarrow> ('d, 'd Transaction \<times> bool) act" where
  "postLocked env idempotencyKey entries rows =
     bindE (liftE (preparePostgresEntries env entries)) (\<lambda>preparedEntries.
     bindE (checkLocked env rows preparedEntries) (\<lambda>(ledgerID, accountChanges).
     bindE (newID env) (\<lambda>txID.
     bindE (writePosting env txID ledgerID idempotencyKey preparedEntries accountChanges) (\<lambda>ledgerEntries.
     bindE (dbCall env ''commit'') (\<lambda>_.
     bindE (timeP env) (\<lambda>t.
     returnE (\<lparr>t_ID = uuidString env txID, t_LedgerID = '''', t_Entries = ledgerEntries, t_Timestamp = t\<rparr>, False)))))))"

definition attemptLocked ::
  "('d :: linordered_ab_group_add, 'm) pg_env_scheme \<Rightarrow> string \<Rightarrow> string \<Rightarrow> 'd EntryRequest list \<Rightarrow> KeyRow option
     \<Rightarrow> 'd lockedRows \<Rightarrow> ('d, 'd Transaction \<times> bool) act" where
  "attemptLocked env idempotencyKey checksum entries claim rows =
     atomically (case claim of
       None \<Rightarrow> postLocked env idempotencyKey entries rows
     | Some k \<Rightarrow>
         bindE (modifyDb (\<lambda>d. d\<lparr>keysT := (keysT d)(idempotencyKey \<mapsto> k)\<rparr>)) (\<lambda>_.
         if kr_checksum k \<noteq> checksum then failE IdempotencyKeyConflict
         else (case kr_transaction k of
             Some tid \<Rightarrow> bindE (buildTransaction env tid) (\<lambda>existing. returnE (existing, True))
           | None \<Rightarrow> postLocked env idempotencyKey entries rows)))"

definition batchLocked ::
  "('d :: linordered_ab_group_add, 'm) pg_env_scheme \<Rightarrow> 'd EntryRequest list list \<Rightarrow> 'd lockedRows
     \<Rightarrow> ('d, 'd BatchPostingResult list) act" where
  "batchLocked env entrySets rows =
     (if entrySets = [] \<or> maxPostingBatchSize < length entrySets then failE (InvalidBatchSize maxPostingBatchSize)
      else let (results, prepared) = prepareBatch env 0 entrySets
      in if prepared = [] then returnE results
      else
        atomically (
        let (accepted, totals, results) = acceptPostings env prepared (batchStates rows, Map.empty) results
        in bindE (if accepted \<noteq> [] then writePostingBatch env accepted totals results else returnE results) (\<lambda>results.
        bindE (dbCall env ''commit posting batch'') (\<lambda>_.
        bindE (timeP env) (\<lambda>committedAt.
        returnE (map (stampResult committedAt) results))))))"

fun finishPosting ::
  "('d :: linordered_ab_group_add, 'm) pg_env_scheme \<Rightarrow> 'd posting \<Rightarrow> KeyRow option \<Rightarrow> 'd lockedRows
     \<Rightarrow> ('d, 'd postingAnswer) act" where
  "finishPosting env (Attempt key checksum es) claim rows = singleAnswer (attemptLocked env key checksum es claim rows)"
| "finishPosting env (Batch ess) claim rows = batchAnswer (batchLocked env ess rows)"

subsection \<open>The contract\<close>

lemma selectAccounts_simps [simp]:
  "selectAccounts d [] = []"
  "selectAccounts d (ks @ ks') = selectAccounts d ks @ selectAccounts d ks'"
  "selectAccounts d [k] = (case accountRow d k of None \<Rightarrow> [] | Some a \<Rightarrow> [(k, a)])"
  by (simp_all add: selectAccounts_def List.map_filter_def split: option.splits)

lemma fst_selectAccounts: "k \<in> fst ` set (selectAccounts d ks) \<longleftrightarrow> k \<in> set ks \<and> accountRow d k \<noteq> None"
  by (auto simp: selectAccounts_set image_iff)

lemma selectAccounts_cong:
  "(\<And>k. k \<in> set ks \<Longrightarrow> accountRow d k = accountRow d' k) \<Longrightarrow> selectAccounts d ks = selectAccounts d' ks"
  by (induction ks) (auto simp: selectAccounts_def List.map_filter_simps split: option.splits)

text \<open>
  \<open>code\<close> claims \<open>key\<close> and locks the accounts \<open>ids\<close>; \<open>view\<close> is what its claim reads, and \<open>locked\<close> what is left of it. The
  contract is that of a database that serves its clients (\<open>serving\<close>).
\<close>

locale locked_code =
  fixes serving :: bool and code :: "('d, 'a) act" and key :: string and view :: "'d Database \<Rightarrow> KeyRow option"
    and ids :: "KeyRow option \<Rightarrow> uuid list" and locked :: "KeyRow option \<Rightarrow> 'd lockedRows \<Rightarrow> ('d, 'a) act"
  assumes on_view: "serving \<Longrightarrow> alike_runs (code s) (locked (view (db s)) (selectAccounts (db s) (ids (view (db s)))) s)"
    and blind_code: "serving \<Longrightarrow> blind code"
    and view_key: "keysT d key = keysT d' key \<Longrightarrow> view d = view d'"
    and ids_sorted: "sorted_wrt (<) (ids c)"
    and frame_accounts: "serving \<Longrightarrow> code s = (s', r) \<Longrightarrow> k \<notin> set (ids (view (db s))) \<Longrightarrow> accountRow (db s') k = accountRow (db s) k"
    and frame_dom: "serving \<Longrightarrow> code s = (s', r) \<Longrightarrow> map fst (accountsT (db s')) = map fst (accountsT (db s))"
    and frame_keys: "serving \<Longrightarrow> code s = (s', r) \<Longrightarrow> x \<noteq> key \<or> key = '''' \<Longrightarrow> keysT (db s') x = keysT (db s) x"
begin

text \<open>The locked part has the outcome of the code, and keeps to its locks, when what was read is still true.\<close>

lemma finishes:
  assumes serving and "c = view (db s)" and "rows = selectAccounts (db s) (ids c)" and "locked c rows s = (s', r)"
  obtains s2 where "code s = (s2, r)" and "alike s2 s'"
proof -
  obtain s2 r2 where c: "code s = (s2, r2)" by fastforce
  then show ?thesis using on_view [OF assms(1), of s] assms(2-) that by (simp add: alike_runs_def)
qed

lemma keeps_to_locks:
  assumes serving and "c = view (db s)" and "rows = selectAccounts (db s) (ids c)" and "locked c rows s = (s', r)"
  shows "k \<notin> fst ` set rows \<Longrightarrow> accountRow (db s') k = accountRow (db s) k"
    and "map fst (accountsT (db s')) = map fst (accountsT (db s))"
    and "x \<noteq> key \<or> key = '''' \<Longrightarrow> keysT (db s') x = keysT (db s) x"
proof -
  obtain s2 where c: "code s = (s2, r)" and a: "alike s2 s'" by (rule finishes [OF assms])
  note d = alike_fields(1) [OF a]
  show dom: "map fst (accountsT (db s')) = map fst (accountsT (db s))" using frame_dom [OF assms(1) c] d by simp
  show "keysT (db s') x = keysT (db s) x" if "x \<noteq> key \<or> key = ''''" using frame_keys [OF assms(1) c that] d by simp
  show "accountRow (db s') k = accountRow (db s) k" if k: "k \<notin> fst ` set rows"
  proof (cases "k \<in> set (ids c)")
    case True
    then have "accountRow (db s) k = None"
      using k assms(3) by (simp add: fst_selectAccounts)
    moreover from this have "accountRow (db s') k = None" using dom by (metis list.set_map map_of_eq_None_iff)
    ultimately show ?thesis by simp
  next
    case False
    then show ?thesis using frame_accounts [OF assms(1) c] assms(2) d by simp
  qed
qed

end

subsection \<open>Attempts keep the contract\<close>

lemma blind_codes [blind_intros]:
  assumes "reliable env"
  shows "blind (writePosting env tid ledger key ps changes)" and "blind (buildTransaction env tid)"
    and "blind (ClaimIdempotencyKey env key checksum)" and "blind (verifyPostingAccounts env d chs)"
proof -
  note [blind_intros] = assms
  show "blind (writePosting env tid ledger key ps changes)" "blind (buildTransaction env tid)"
    "blind (ClaimIdempotencyKey env key checksum)"
    unfolding writePosting_def buildTransaction_def ClaimIdempotencyKey_def by (intro blind_intros)+
  show "blind (verifyPostingAccounts env d chs)"
    by (induction chs) (auto intro!: blind_intros)
qed

lemma blind_lock [blind_intros]:
  assumes "reliable env"
  shows "blind (checkLocked env rows ps)" and "blind (lockPostingAccounts env ps)"
  unfolding checkLocked_def lockPostingAccounts_def Let_def
  using assms by (auto intro!: blind_intros split: prod.split)

lemma blind_postNew [blind_intros]:
  assumes "reliable env"
  shows "blind (postNew env key es)"
  unfolding postNew_def using assms by (auto intro!: blind_intros split: prod.split)

lemma blind_attempt [blind_intros]:
  assumes "reliable env"
  shows "blind (createTransactionAttempt env key checksum es)"
  unfolding createTransactionAttempt_def using assms by (auto intro!: blind_intros split: option.split)

lemma lock_checkLocked:
  assumes "reliable env"
  shows "alike_runs (lockPostingAccounts env ps s) (checkLocked env (selectAccounts (db s) (changeIDs ps)) ps s)"
proof -
  let ?f = "\<lambda>_. bindE getDb (\<lambda>d.
         bindE (liftE (scanPostingRows env (changesByID ps)
                  (selectAccounts d (map ch_accountID (sortedChanges ps))) uuidNil 0)) (\<lambda>(ledgerID, found).
         if found \<noteq> length (sortedChanges ps)
         then bindE (verifyPostingAccounts env d (sortedChanges ps)) (\<lambda>_. failE PostingAccountsNotFound)
         else returnE (ledgerID, sortedChanges ps)))"
  have "blind (?f ())" using assms by (auto intro!: blind_intros split: prod.split)
  note R = reliable_bindE [where f = ?f, OF assms this, of "''lock posting accounts''" s]
  have "?f () s = checkLocked env (selectAccounts (db s) (changeIDs ps)) ps s"
    by (simp add: checkLocked_def Let_def bindE_liftE split: sum.split prod.split)
  with R show ?thesis unfolding lockPostingAccounts_def Let_def by (rule back_subst [of "alike_runs _"])
qed

lemma postNew_postLocked:
  assumes "reliable env"
  shows "alike_runs (postNew env key es s)
    (postLocked env key es (selectAccounts (db s) (case preparePostgresEntries env es of Inl _ \<Rightarrow> [] | Inr ps \<Rightarrow> changeIDs ps)) s)"
proof (cases "preparePostgresEntries env es")
  case (Inr ps)
  show ?thesis
    unfolding postNew_def postLocked_def bindE_liftE Inr sum.case
    by (rule alike_bindE [OF lock_checkLocked [OF assms]]) (use assms in \<open>auto intro!: blind_intros split: prod.split\<close>)
qed (simp add: postNew_def postLocked_def bindE_liftE)

lemma attempt_attemptLocked:
  fixes es :: "'d :: linordered_ab_group_add EntryRequest list" and key checksum :: string
  assumes "reliable env"
  defines "p \<equiv> Attempt key checksum es"
  shows "alike_runs (createTransactionAttempt env key checksum es s)
    (attemptLocked env key checksum es (claimView p (db s)) (selectAccounts (db s) (postingAccounts env p (claimView p (db s)))) s)"
  unfolding createTransactionAttempt_def attemptLocked_def
proof (rule alike_atomically, cases "key = ''''")
  case True
  have "alike_runs (bindE (dbCall env ''begin transaction'') (\<lambda>_. postNew env key es) s) (postNew env key es s)"
    by (rule reliable_bindE [where f = "\<lambda>_. postNew env key es"]) (intro blind_intros assms(1))+
  also note postNew_postLocked [OF assms(1)]
  finally show "alike_runs (bindE (dbCall env ''begin transaction'') (\<lambda>_.
     if key = '''' then postNew env key es
     else bindE (ClaimIdempotencyKey env key checksum) (\<lambda>claim.
       if kr_checksum claim \<noteq> checksum then failE IdempotencyKeyConflict
       else (case kr_transaction claim of
           Some tid \<Rightarrow> bindE (buildTransaction env tid) (\<lambda>existing. returnE (existing, True))
         | None \<Rightarrow> postNew env key es))) s)
    ((case claimView p (db s) of
       None \<Rightarrow> postLocked env key es (selectAccounts (db s) (postingAccounts env p (claimView p (db s))))
     | Some k \<Rightarrow>
         bindE (modifyDb (\<lambda>d. d\<lparr>keysT := (keysT d)(key \<mapsto> k)\<rparr>)) (\<lambda>_.
         if kr_checksum k \<noteq> checksum then failE IdempotencyKeyConflict
         else (case kr_transaction k of
             Some tid \<Rightarrow> bindE (buildTransaction env tid) (\<lambda>existing. returnE (existing, True))
           | None \<Rightarrow> postLocked env key es (selectAccounts (db s) (postingAccounts env p (claimView p (db s))))))) s)"
    using True by (simp add: p_def claimStops_def)
next
  case False
  let ?rest = "\<lambda>claim. if kr_checksum claim \<noteq> checksum then failE IdempotencyKeyConflict
       else (case kr_transaction claim of
           Some tid \<Rightarrow> bindE (buildTransaction env tid) (\<lambda>existing. returnE (existing, True))
         | None \<Rightarrow> postNew env key es)"
  let ?claim = "\<lambda>_::unit. bindE getDb (\<lambda>d.
     bindE (modifyDb (\<lambda>d. d\<lparr>keysT := (keysT d)(key \<mapsto> claimRow key checksum d)\<rparr>)) (\<lambda>_. returnE (claimRow key checksum d)))"
  let ?k = "claimRow key checksum (db s)" and ?rows = "selectAccounts (db s) (postingAccounts env p (claimView p (db s)))"
  let ?s = "s\<lparr>db := (db s)\<lparr>keysT := (keysT (db s))(key \<mapsto> claimRow key checksum (db s))\<rparr>\<rparr>"
  have rest: "blind (?rest c)" for c using assms(1) by (auto intro!: blind_intros split: option.split)
  have "alike_runs (bindE (dbCall env ''begin transaction'') (\<lambda>_. bindE (ClaimIdempotencyKey env key checksum) ?rest) s)
    (bindE (ClaimIdempotencyKey env key checksum) ?rest s)"
    by (rule reliable_bindE [where f = "\<lambda>_. bindE (ClaimIdempotencyKey env key checksum) ?rest"]) (intro blind_intros assms(1) rest)+
  also have "alike_runs (bindE (ClaimIdempotencyKey env key checksum) ?rest s) (bindE (?claim ()) ?rest s)"
    unfolding ClaimIdempotencyKey_def
    by (intro alike_bindE reliable_bindE [where f = ?claim] blind_intros assms(1) rest)
  also have "bindE (?claim ()) ?rest s = ?rest ?k ?s" by (simp add: bindE_assoc)
  also have "alike_runs (?rest ?k ?s) ((if kr_checksum ?k \<noteq> checksum then failE IdempotencyKeyConflict
       else (case kr_transaction ?k of
           Some tid \<Rightarrow> bindE (buildTransaction env tid) (\<lambda>existing. returnE (existing, True))
         | None \<Rightarrow> postLocked env key es ?rows)) ?s)"
  proof (cases "kr_checksum ?k = checksum \<and> kr_transaction ?k = None")
    case True
    have "selectAccounts (db ?s) ks = selectAccounts (db s) ks" for ks by (rule selectAccounts_cong) simp
    then show ?thesis
      using postNew_postLocked [OF assms(1), of key es ?s] True False by (simp add: p_def claimStops_def)
  qed (auto split: option.split)
  finally show "alike_runs (bindE (dbCall env ''begin transaction'') (\<lambda>_.
     if key = '''' then postNew env key es else bindE (ClaimIdempotencyKey env key checksum) ?rest) s)
    ((case claimView p (db s) of
       None \<Rightarrow> postLocked env key es ?rows
     | Some k \<Rightarrow>
         bindE (modifyDb (\<lambda>d. d\<lparr>keysT := (keysT d)(key \<mapsto> k)\<rparr>)) (\<lambda>_.
         if kr_checksum k \<noteq> checksum then failE IdempotencyKeyConflict
         else (case kr_transaction k of
             Some tid \<Rightarrow> bindE (buildTransaction env tid) (\<lambda>existing. returnE (existing, True))
           | None \<Rightarrow> postLocked env key es ?rows))) s)"
    using False by (simp add: p_def)
qed

lemma postStatement_accounts:
  assumes "postStatement env t txs vals upd oids d = Inr d'"
  shows "updateRows env upd (accountsT d) = Inr (accountsT d')"
proof -
  from assms obtain d1 rows d2 d3 where d1: "insertTransactions t txs d = Inr d1"
    and d2: "insertEntries rows d1 = Inr d2" and d3: "updateBalances env upd d2 = Inr d3"
    and d': "insertOutboxes (map (\<lambda>(oid, tid, _). postedEvent oid t tid) (zip oids txs)) d3 = Inr d'"
    by (auto simp: postStatement_def bindR_Inr)
  have "accountsT d1 = accountsT d" using insertTransactions_Inr [OF d1] by auto
  moreover have "accountsT d2 = accountsT d1" using d2 by (auto simp: insertEntries_def split: if_splits)
  moreover have "updateRows env upd (accountsT d2) = Inr (accountsT d3)" using d3 by (auto simp: updateBalances_def bindR_Inr)
  ultimately show ?thesis using insertOutboxes_Inr [OF d'] by simp
qed

lemma postStatement_untouched:
  assumes "postStatement env t txs vals upd oids d = Inr d'"
  shows "map fst (accountsT d') = map fst (accountsT d)" and "upd k = None \<Longrightarrow> accountRow d' k = accountRow d k"
  using updateRows_Inr(1,2) [OF postStatement_accounts [OF assms]] by (auto split: option.split)

lemma attempt_frame:
  assumes "createTransactionAttempt env key checksum es s = (s', r)"
  shows "k \<notin> set (postingAccounts env (Attempt key checksum es) (claimView (Attempt key checksum es) (db s))) \<Longrightarrow>
      accountRow (db s') k = accountRow (db s) k"
    and "map fst (accountsT (db s')) = map fst (accountsT (db s))"
    and "x \<noteq> key \<or> key = '''' \<Longrightarrow> keysT (db s') x = keysT (db s) x"
proof -
  let ?ids = "postingAccounts env (Attempt key checksum es) (claimView (Attempt key checksum es) (db s))"
  have "(k \<notin> set ?ids \<longrightarrow> accountRow (db s') k = accountRow (db s) k) \<and>
    map fst (accountsT (db s')) = map fst (accountsT (db s)) \<and> (x \<noteq> key \<or> key = '''' \<longrightarrow> keysT (db s') x = keysT (db s) x)" for k x
  proof (cases r)
    case (Inl e)
    then show ?thesis using rolls_backD [OF rolls_back_attempt] assms by metis
  next
    case (Inr a)
    then obtain t existed where "createTransactionAttempt env key checksum es s = (s', Inr (t, existed))"
      using assms by (cases a) auto
    note A = createTransactionAttempt_Inr [OF this]
    show ?thesis
    proof (cases existed)
      case True
      then show ?thesis using A by simp
    next
      case False
      then obtain tid where claim: "key \<noteq> '''' \<Longrightarrow> kr_transaction (claimRow key checksum (db s)) = None \<and>
          kr_checksum (claimRow key checksum (db s)) = checksum"
        and posted: "posted env key es tid (claimed key checksum (db s)) (db s')" using A by auto
      then obtain ps ledger ids t oid d1 where prep: "preparePostgresEntries env es = Inr ps"
        and post: "postStatement env t [(tid, ledger)] (postingVals ids tid ps) (changeUpdate (sortedChanges ps)) [oid]
          (claimed key checksum (db s)) = Inr d1" and d': "db s' = completeKey key tid d1"
        unfolding posted_def by blast
      have ids: "set ?ids = pe_accountID ` set ps" using claim prep by (simp add: claimStops_def changeIDs_def)
      note F = postStatement_untouched [OF post, simplified]
      have "accountRow (db s') k = accountRow (db s) k" if "k \<notin> set ?ids"
        using F(2) [of k] that d' ids by (simp add: changeUpdate_sorted)
      moreover have "map fst (accountsT (db s')) = map fst (accountsT (db s))" using F(1) d' by simp
      moreover have "keysT (db s') x = keysT (db s) x" if "x \<noteq> key \<or> key = ''''"
        using postStatement_keys [OF post] that d' by (auto simp: completeKey_def claimed_def split: option.split)
      ultimately show ?thesis by blast
    qed
  qed
  then show "k \<notin> set ?ids \<Longrightarrow> accountRow (db s') k = accountRow (db s) k"
    and "map fst (accountsT (db s')) = map fst (accountsT (db s))"
    and "x \<noteq> key \<or> key = '''' \<Longrightarrow> keysT (db s') x = keysT (db s) x" by blast+
qed

lemma strict_sort: "sorted_wrt (<) (sort (remdups ks))"
  by (simp add: strict_sorted_iff)

lemma singleAnswer_fst: "fst (singleAnswer m s) = fst (m s)"
  by (auto simp: singleAnswer_def bindE_def returnE_def split: prod.split sum.split)

lemma batchAnswer_fst: "fst (batchAnswer m s) = fst (m s)"
  by (auto simp: batchAnswer_def bindE_def returnE_def split: prod.split sum.split)

lemma answer_alike:
  "alike_runs (m s) (m' s') \<Longrightarrow> alike_runs (singleAnswer m s) (singleAnswer m' s')"
  "alike_runs (b s) (b' s') \<Longrightarrow> alike_runs (batchAnswer b s) (batchAnswer b' s')"
  by (auto simp: singleAnswer_def batchAnswer_def bindE_def returnE_def alike_runs_def split: prod.splits sum.splits)

lemma blind_answer [blind_intros]: "blind m \<Longrightarrow> blind (singleAnswer m)" "blind b \<Longrightarrow> blind (batchAnswer b)"
  unfolding singleAnswer_def batchAnswer_def by (auto intro!: blind_intros split: prod.split)

lemma claimView_key: "keysT d (claimKey p) = keysT d' (claimKey p) \<Longrightarrow> claimView p d = claimView p d'"
  by (cases p) (simp_all add: claimRow_def)

lemma postingAccounts_sorted: "sorted_wrt (<) (postingAccounts env p c)"
  by (cases p) (auto simp: changeIDs_def batchAccountIDs_def strict_sort split: sum.split)

subsection \<open>Batches keep the contract\<close>

lemma scanBatchEntries_keys:
  assumes "scanBatchEntries env states es ledger changes = Inr (ledger', changes')"
  shows "\<forall>k. changes k \<noteq> None \<longrightarrow> changes' k \<noteq> None"
    and "\<forall>e \<in> set es. states (pe_accountID e) \<noteq> None \<and> changes' (pe_accountID e) \<noteq> None"
  using assms
  by (induction env states es ledger changes rule: scanBatchEntries.induct)
    (auto simp: addChange_def Let_def split: option.splits if_splits)

definition named_totals :: "(uuid \<rightharpoonup> 'd postingAccountChange) \<Rightarrow> bool" where
  "named_totals tot \<longleftrightarrow> (\<forall>k ch. tot k = Some ch \<longrightarrow> ch_accountID ch = k)"

lemma applyBatchChanges_totals:
  assumes "applyBatchChanges changes ks (states, tot) = (states', tot')" and "named_totals tot"
  shows "named_totals tot'" and "dom tot \<subseteq> dom tot'"
    and "\<forall>k. (states' k = None) = (states k = None)"
    and "\<forall>k \<in> set ks. states k \<noteq> None \<and> changes k \<noteq> None \<longrightarrow> tot' k \<noteq> None"
proof -
  have "named_totals tot' \<and> dom tot \<subseteq> dom tot' \<and> (\<forall>k. (states' k = None) = (states k = None)) \<and>
    (\<forall>k \<in> set ks. states k \<noteq> None \<and> changes k \<noteq> None \<longrightarrow> tot' k \<noteq> None)"
    using assms
  proof (induction ks arbitrary: states tot)
    case (Cons k ks)
    show ?case
    proof (cases "states k = None \<or> changes k = None")
      case True
      then have "applyBatchChanges changes ks (states, tot) = (states', tot')" using Cons.prems(1) by (auto split: option.splits)
      from Cons.IH [OF this Cons.prems(2)] True show ?thesis by auto
    next
      case False
      then obtain state change where sc: "states k = Some state" "changes k = Some change" by auto
      let ?tot = "tot(k \<mapsto> addToTotal k change (map_get zeroChange tot k))"
      have "named_totals ?tot" using Cons.prems(2) by (simp add: named_totals_def addToTotal_def)
      moreover have "applyBatchChanges changes ks (states(k \<mapsto> addToState change state), ?tot) = (states', tot')"
        using Cons.prems(1) sc by simp
      ultimately have "named_totals tot' \<and> dom ?tot \<subseteq> dom tot' \<and> (\<forall>x. (states' x = None) = ((states(k \<mapsto> addToState change state)) x = None)) \<and>
        (\<forall>x \<in> set ks. (states(k \<mapsto> addToState change state)) x \<noteq> None \<and> changes x \<noteq> None \<longrightarrow> tot' x \<noteq> None)"
        using Cons.IH by blast
      then show ?thesis using sc by (auto split: if_splits)
    qed
  qed simp
  then show "named_totals tot'" "dom tot \<subseteq> dom tot'" "\<forall>k. (states' k = None) = (states k = None)"
    "\<forall>k \<in> set ks. states k \<noteq> None \<and> changes k \<noteq> None \<longrightarrow> tot' k \<noteq> None" by blast+
qed

lemma acceptPostings_totals:
  assumes "range_order env" and "acceptPostings env ps (states, tot) results = (acc, tot', results')" and "named_totals tot"
  shows "named_totals tot' \<and> dom tot \<subseteq> dom tot' \<and>
    (\<forall>p \<in> set acc. pe_accountID ` set (bp_entries p) \<subseteq> dom tot' \<and> (\<exists>q \<in> set ps. bp_entries q = bp_entries p))"
  using assms(2,3)
proof (induction ps arbitrary: states tot results acc results')
  case (Cons p ps)
  show ?case
  proof (cases "decidePosting env (bp_entries p) (states, tot)")
    case (Inl e)
    then have "acceptPostings env ps (states, tot) (results[bp_index p := (results ! bp_index p)\<lparr>br_Err := Some e\<rparr>]) = (acc, tot', results')"
      using Cons.prems(1) by simp
    from Cons.IH [OF this Cons.prems(2)] show ?thesis by auto
  next
    case (Inr x)
    obtain ledger states1 tot1 where x: "x = (ledger, states1, tot1)" by (cases x)
    obtain acc1 where rest: "acceptPostings env ps (states1, tot1) results = (acc1, tot', results')"
      and acc: "acc = p\<lparr>bp_ledgerID := ledger\<rparr> # acc1"
      using Cons.prems(1) Inr x by (auto split: prod.splits)
    let ?keys = "mapOrder env (remdups (map pe_accountID (bp_entries p)))"
    obtain changes where scan: "scanBatchEntries env states (bp_entries p) uuidNil Map.empty = Inr (ledger, changes)"
      and app: "applyBatchChanges changes ?keys (states, tot) = (states1, tot1)"
      using Inr x by (auto simp: decidePosting_def bindR_Inr Let_def split: option.splits)
    note A = applyBatchChanges_totals [OF app Cons.prems(2)]
    have "set ?keys = pe_accountID ` set (bp_entries p)"
      using assms(1) unfolding range_order_def by (metis mset_eq_setD set_remdups list.set_map)
    then have "pe_accountID ` set (bp_entries p) \<subseteq> dom tot1" using A(4) scanBatchEntries_keys(2) [OF scan] by auto
    note keys = this and I = Cons.IH [OF rest A(1)]
    have up: "dom tot1 \<subseteq> dom tot'" using I by (elim conjE)
    show ?thesis
      unfolding acc list.set(2) ball_simps
      using I subset_trans [OF keys up] subset_trans [OF A(2) up] by simp
  qed
qed simp

lemma batchChangeList_ids:
  assumes "named_totals tot" and "\<forall>p \<in> set acc. pe_accountID ` set (bp_entries p) \<subseteq> dom tot"
    and "changeUpdate (batchChangeList acc tot) k \<noteq> None"
  shows "k \<in> set (batchAccountIDs acc)"
proof -
  obtain ch where ch: "ch \<in> set (batchChangeList acc tot)" "ch_accountID ch = k"
    using assms(3) by (auto simp: changeUpdate_def find_Some_iff intro: nth_mem)
  then obtain k' where k': "k' \<in> set (batchAccountIDs acc)" "ch = map_get zeroChange tot k'" by (auto simp: batchChangeList_def)
  then have "k' \<in> dom tot" using assms(2) by (auto simp: set_batchAccountIDs)
  then have "ch_accountID ch = k'" using assms(1) k'(2) by (auto simp: named_totals_def map_get_def)
  then show ?thesis using ch(2) k'(1) by simp
qed

lemma blind_batch [blind_intros]:
  assumes "reliable env"
  shows "blind (writePostingBatch env acc tot results)" and "blind (CreateTransactionsBatch env ess)"
proof -
  show w: "blind (writePostingBatch env acc tot results)" for acc tot results
    unfolding writePostingBatch_def Let_def using assms by (intro blind_intros)
  show "blind (CreateTransactionsBatch env ess)"
    unfolding CreateTransactionsBatch_def Let_def
    using assms by (auto intro!: blind_intros w split: prod.split)
qed

lemma batch_batchLocked:
  fixes ess :: "'d :: linordered_ab_group_add EntryRequest list list"
  assumes "reliable env"
  shows "alike_runs (CreateTransactionsBatch env ess s)
    (batchLocked env ess (selectAccounts (db s) (postingAccounts env (Batch ess) c)) s)"
proof (cases "ess = [] \<or> maxPostingBatchSize < length ess")
  case False
  obtain results prepared where prep: "prepareBatch env 0 ess = (results, prepared)" by fastforce
  show ?thesis
  proof (cases "prepared = []")
    case True
    then show ?thesis using False prep by (simp add: CreateTransactionsBatch_def batchLocked_def)
  next
    case ne: False
    let ?rest = "\<lambda>d. let states = batchStates (selectAccounts d (batchAccountIDs prepared));
            (accepted, totals, results) = acceptPostings env prepared (states, Map.empty) results
        in bindE (if accepted \<noteq> [] then writePostingBatch env accepted totals results else returnE results) (\<lambda>results.
        bindE (dbCall env ''commit posting batch'') (\<lambda>_.
        bindE (timeP env) (\<lambda>committedAt.
        returnE (map (stampResult committedAt) results))))"
    let ?lock = "\<lambda>_::unit. bindE getDb ?rest"
    let ?start = "\<lambda>_::unit. bindE (dbCall env ''lock posting batch accounts'') ?lock"
    have rest: "blind (?lock ())" "blind (?start ())"
      using assms by (auto simp: Let_def intro!: blind_intros split: prod.split)
    have "alike_runs (bindE (dbCall env ''begin posting batch'') ?start s) (?start () s)"
      by (rule reliable_bindE [OF assms rest(2)])
    also have "alike_runs (?start () s) (?lock () s)" by (rule reliable_bindE [OF assms rest(1)])
    also have "?lock () s = ?rest (db s) s" by simp
    finally have "alike_runs (bindE (dbCall env ''begin posting batch'') ?start s) (?rest (db s) s)" .
    from alike_atomically [where m = "bindE (dbCall env ''begin posting batch'') ?start" and m' = "?rest (db s)", OF this] show ?thesis
      using False ne prep unfolding CreateTransactionsBatch_def batchLocked_def Let_def by simp
  qed
qed (simp add: CreateTransactionsBatch_def batchLocked_def)

lemma batch_frame:
  assumes "range_order env" and "CreateTransactionsBatch env ess s = (s', r)"
  shows "k \<notin> set (postingAccounts env (Batch ess) c) \<Longrightarrow> accountRow (db s') k = accountRow (db s) k"
    and "map fst (accountsT (db s')) = map fst (accountsT (db s))"
    and "keysT (db s') x = keysT (db s) x"
proof -
  let ?prepared = "snd (prepareBatch env 0 ess)"
  have "db s' = db s \<or> (\<exists>t txs vals upd oids. postStatement env t txs vals upd oids (db s) = Inr (db s') \<and>
      (\<forall>k. upd k \<noteq> None \<longrightarrow> k \<in> set (postingAccounts env (Batch ess) c)))"
  proof (cases "(\<exists>e. r = Inl e) \<or> ess = [] \<or> maxPostingBatchSize < length ess \<or> ?prepared = []")
    case True
    then show ?thesis
      using assms(2) CreateTransactionsBatch_Inl [of env ess s s']
      by (auto simp: CreateTransactionsBatch_def failE_def returnE_def Let_def split: if_splits prod.splits)
  next
    case False
    obtain acc tot res1 where ap: "acceptPostings env ?prepared (batchStates (selectAccounts (db s) (batchAccountIDs ?prepared)), Map.empty)
        (fst (prepareBatch env 0 ess)) = (acc, tot, res1)" by (metis prod_cases3)
    note T = acceptPostings_totals [OF assms(1) ap, unfolded named_totals_def, simplified]
    let ?s1 = "s\<lparr>calls := Suc (Suc (calls s))\<rparr>"
    from False assms(2) obtain s2 res2 s3 where
      w: "(if acc \<noteq> [] then writePostingBatch env acc tot res1 else returnE res1) ?s1 = (s2, Inr res2)"
      and c: "dbCall env ''commit posting batch'' s2 = (s3, Inr ())" and s': "s' = s3\<lparr>ticks := Suc (ticks s3)\<rparr>"
      using ap unfolding CreateTransactionsBatch_def
      by (cases r) (auto simp: failE_def returnE_def Let_def bindE_Inr getDb_def dbCall_def timeP_def
        split: if_splits prod.splits option.splits)
    have d: "db s' = db s2" using c s' by (auto simp: dbCall_def split: option.splits)
    show ?thesis
    proof (cases "acc = []")
      case True
      then show ?thesis using w d by (auto simp: returnE_def)
    next
      case ne: False
      then have "writePostingBatch env acc tot res1 ?s1 = (s2, Inr res2)" using w by simp
      then obtain writes t oids where "postStatement env t (map (\<lambda>(tid, posting, _). (tid, bp_ledgerID posting)) writes)
          (writeVals writes) (changeUpdate (batchChangeList acc tot)) oids (db s) = Inr (db s')"
        by (rule writePostingBatch_Inr) (use d that in auto)
      moreover have "k \<in> set (postingAccounts env (Batch ess) c)" if "changeUpdate (batchChangeList acc tot) k \<noteq> None" for k
      proof -
        have "k \<in> set (batchAccountIDs acc)" by (rule batchChangeList_ids [OF _ _ that]) (use T in \<open>auto simp: named_totals_def\<close>)
        then obtain p where "p \<in> set acc" "k \<in> pe_accountID ` set (bp_entries p)" by (auto simp: set_batchAccountIDs)
        moreover from this obtain q where "q \<in> set ?prepared" "bp_entries q = bp_entries p" using T by blast
        ultimately have "k \<in> set (batchAccountIDs ?prepared)" unfolding set_batchAccountIDs by (metis UN_I)
        then show ?thesis using False by simp
      qed
      ultimately show ?thesis by blast
    qed
  qed
  then show "k \<notin> set (postingAccounts env (Batch ess) c) \<Longrightarrow> accountRow (db s') k = accountRow (db s) k"
    and "map fst (accountsT (db s')) = map fst (accountsT (db s))" and "keysT (db s') x = keysT (db s) x"
    using postStatement_untouched postStatement_keys by metis+
qed

subsection \<open>The postings of the store\<close>

definition serves :: "('d, 'm) pg_env_scheme \<Rightarrow> bool" where
  "serves env \<longleftrightarrow> reliable env \<and> range_order env"

lemma posting_on_view:
  assumes "serves env"
  shows "alike_runs (runPosting env p s)
    (finishPosting env p (claimView p (db s)) (selectAccounts (db s) (postingAccounts env p (claimView p (db s)))) s)"
proof (cases p)
  case (Attempt key checksum es)
  show ?thesis
    unfolding Attempt runPosting.simps finishPosting.simps
    by (rule answer_alike(1) [where m = "createTransactionAttempt env key checksum es"], rule attempt_attemptLocked)
      (use assms in \<open>simp add: serves_def\<close>)
next
  case (Batch ess)
  show ?thesis
    unfolding Batch runPosting.simps finishPosting.simps
    by (rule answer_alike(2) [where b = "CreateTransactionsBatch env ess"], rule batch_batchLocked)
      (use assms in \<open>simp add: serves_def\<close>)
qed

lemma posting_blind: "serves env \<Longrightarrow> blind (runPosting env p)"
  by (cases p) (auto simp: serves_def intro!: blind_intros)

lemma posting_frame:
  assumes "serves env" and "runPosting env p s = (s', r)"
  shows "k \<notin> set (postingAccounts env p (claimView p (db s))) \<Longrightarrow> accountRow (db s') k = accountRow (db s) k"
    and "map fst (accountsT (db s')) = map fst (accountsT (db s))"
    and "x \<noteq> claimKey p \<or> claimKey p = '''' \<Longrightarrow> keysT (db s') x = keysT (db s) x"
proof -
  have "(k \<notin> set (postingAccounts env p (claimView p (db s))) \<longrightarrow> accountRow (db s') k = accountRow (db s) k) \<and>
    map fst (accountsT (db s')) = map fst (accountsT (db s)) \<and>
    (x \<noteq> claimKey p \<or> claimKey p = '''' \<longrightarrow> keysT (db s') x = keysT (db s) x)"
  proof (cases p)
    case (Attempt key checksum es)
    obtain s1 r' where run: "createTransactionAttempt env key checksum es s = (s1, r')" by fastforce
    then have "s1 = s'" using assms(2) singleAnswer_fst [of "createTransactionAttempt env key checksum es" s] by (simp add: Attempt)
    then show ?thesis using attempt_frame [OF run] unfolding Attempt claimKey.simps by blast
  next
    case (Batch ess)
    have range: "range_order env" using assms(1) by (simp add: serves_def)
    obtain s1 r' where run: "CreateTransactionsBatch env ess s = (s1, r')" by fastforce
    then have "s1 = s'" using assms(2) batchAnswer_fst [of "CreateTransactionsBatch env ess" s] by (simp add: Batch)
    then show ?thesis using batch_frame [OF range run] unfolding Batch by blast
  qed
  then show "k \<notin> set (postingAccounts env p (claimView p (db s))) \<Longrightarrow> accountRow (db s') k = accountRow (db s) k"
    and "map fst (accountsT (db s')) = map fst (accountsT (db s))"
    and "x \<noteq> claimKey p \<or> claimKey p = '''' \<Longrightarrow> keysT (db s') x = keysT (db s) x" by blast+
qed

interpretation posting: locked_code "serves env" "runPosting env p" "claimKey p" "claimView p" "postingAccounts env p"
    "finishPosting env p" for env p
  by unfold_locales
    (auto intro: posting_on_view posting_blind claimView_key simp: postingAccounts_sorted posting_frame(2) dest: posting_frame(1,3))

end
