(* ===== verification/Pg_Race.thy ===== *)
theory Pg_Race
  imports Pg_Locks
begin

text \<open>
  Clients that post at the same time, step by step: what a reachable state is, that the clients that finish have the
  outcome of running one after another, and that some client can always go on.
\<close>

subsection \<open>Steps\<close>

text \<open>
  A client has not begun; or it has claimed its key (if it has one), knows the rows of the accounts it locked and has
  more to lock; or its database transaction is over.
\<close>

datatype 'd clientStatus = Begun | Locking "KeyRow option" "'d lockedRows" "uuid list" | Ended

record 'd race =
  shared :: "'d Pg"
  status :: "'d clientStatus list"
  finished :: "(nat \<times> ('d err, 'd postingAnswer) res) list"

definition raceStart :: "'d posting list \<Rightarrow> 'd Pg \<Rightarrow> 'd race" where
  "raceStart ps s = \<lparr>shared = s, status = replicate (length ps) Begun, finished = []\<rparr>"

text \<open>
  A claim locks the row of its key, also when it inserts it. A row that does not exist is not locked.
\<close>

fun holdsKey :: "string \<Rightarrow> 'd posting \<Rightarrow> 'd clientStatus \<Rightarrow> bool" where
  "holdsKey key p (Locking v rows ks) \<longleftrightarrow> key \<noteq> '''' \<and> claimKey p = key"
| "holdsKey key p Begun \<longleftrightarrow> False"
| "holdsKey key p Ended \<longleftrightarrow> False"

fun holdsAccount :: "uuid \<Rightarrow> 'd clientStatus \<Rightarrow> bool" where
  "holdsAccount k (Locking v rows ks) \<longleftrightarrow> k \<in> set (map fst rows)"
| "holdsAccount k Begun \<longleftrightarrow> False"
| "holdsAccount k Ended \<longleftrightarrow> False"

definition keyFree :: "'d posting list \<Rightarrow> 'd race \<Rightarrow> nat \<Rightarrow> bool" where
  "keyFree ps c i \<longleftrightarrow>
     list_all (\<lambda>j. j = i \<or> \<not> holdsKey (claimKey (ps ! i)) (ps ! j) (status c ! j)) [0..<length ps]"

definition accountFree :: "'d posting list \<Rightarrow> 'd race \<Rightarrow> nat \<Rightarrow> uuid \<Rightarrow> bool" where
  "accountFree ps c i k \<longleftrightarrow> list_all (\<lambda>j. j = i \<or> \<not> holdsAccount k (status c ! j)) [0..<length ps]"

definition setStatus :: "nat \<Rightarrow> 'd clientStatus \<Rightarrow> 'd race \<Rightarrow> 'd race" where
  "setStatus i st c = c\<lparr>status := (status c)[i := st]\<rparr>"

text \<open>
  The steps of the clients. Writing and committing is one step: what is written is seen by no one before the commit.
\<close>

inductive client_step ::
  "('d :: linordered_ab_group_add, 'm) pg_env_scheme \<Rightarrow> 'd posting list \<Rightarrow> 'd race \<Rightarrow> 'd race \<Rightarrow> bool"
  for env :: "('d, 'm) pg_env_scheme" and ps :: "'d posting list" where
  claim: "i < length ps \<Longrightarrow> status c ! i = Begun \<Longrightarrow> keyFree ps c i \<Longrightarrow> v = claimView (ps ! i) (db (shared c)) \<Longrightarrow>
    client_step env ps c (setStatus i (Locking v [] (postingAccounts env (ps ! i) v)) c)"
| lock: "i < length ps \<Longrightarrow> status c ! i = Locking v rows (k # ks) \<Longrightarrow> accountFree ps c i k \<Longrightarrow>
    client_step env ps c (setStatus i (Locking v (rows @ selectAccounts (db (shared c)) [k]) ks) c)"
| finish: "i < length ps \<Longrightarrow> status c ! i = Locking v rows [] \<Longrightarrow> finishPosting env (ps ! i) v rows (shared c) = (s', r) \<Longrightarrow>
    client_step env ps c (setStatus i Ended (c\<lparr>shared := s', finished := finished c @ [(i, r)]\<rparr>))"

text \<open>
  A client may also fail before its commit, for whatever reason (a fault of the database, a deadline, a crash): the
  database drops its locks and its writes.
\<close>

inductive race_step ::
  "('d :: linordered_ab_group_add, 'm) pg_env_scheme \<Rightarrow> 'd posting list \<Rightarrow> 'd race \<Rightarrow> 'd race \<Rightarrow> bool"
  for env :: "('d, 'm) pg_env_scheme" and ps :: "'d posting list" where
  work: "client_step env ps c c' \<Longrightarrow> race_step env ps c c'"
| abort: "i < length ps \<Longrightarrow> status c ! i \<noteq> Ended \<Longrightarrow> race_step env ps c (setStatus i Ended c)"

inductive race_reach ::
  "('d :: linordered_ab_group_add, 'm) pg_env_scheme \<Rightarrow> 'd posting list \<Rightarrow> 'd Pg \<Rightarrow> 'd race \<Rightarrow> bool"
  for env :: "('d, 'm) pg_env_scheme" and ps :: "'d posting list" and s :: "'d Pg" where
  start: "race_reach env ps s (raceStart ps s)"
| step: "race_reach env ps s c \<Longrightarrow> race_step env ps c c' \<Longrightarrow> race_reach env ps s c'"

text \<open>The clients of a list, each run to its end before the next begins.\<close>

fun inTurn ::
  "('d :: linordered_ab_group_add, 'm) pg_env_scheme \<Rightarrow> 'd posting list \<Rightarrow> nat list \<Rightarrow> 'd Pg
     \<Rightarrow> 'd Pg \<times> ('d err, 'd postingAnswer) res list" where
  "inTurn env ps [] s = (s, [])"
| "inTurn env ps (i # is) s =
     (let (s1, r) = runPosting env (ps ! i) s;
          (s2, rs) = inTurn env ps is s1
      in (s2, r # rs))"

lemma inTurn_append:
  "inTurn env ps (is @ [i]) s =
     (let (s1, rs) = inTurn env ps is s; (s2, r) = runPosting env (ps ! i) s1 in (s2, rs @ [r]))"
  by (induction "is" arbitrary: s) (auto simp: Let_def split: prod.splits)

subsection \<open>Locks are exclusive, and what was read under them stays true\<close>

lemma keyFreeD: "keyFree ps c i \<Longrightarrow> j < length ps \<Longrightarrow> j \<noteq> i \<Longrightarrow> \<not> holdsKey (claimKey (ps ! i)) (ps ! j) (status c ! j)"
  and accountFreeD: "accountFree ps c i k \<Longrightarrow> j < length ps \<Longrightarrow> j \<noteq> i \<Longrightarrow> \<not> holdsAccount k (status c ! j)"
  by (auto simp: keyFree_def accountFree_def list_all_iff)

definition exclusive :: "'d posting list \<Rightarrow> 'd race \<Rightarrow> bool" where
  "exclusive ps c \<longleftrightarrow> (\<forall>i < length ps. \<forall>j < length ps. i \<noteq> j \<longrightarrow>
     (\<forall>key. \<not> (holdsKey key (ps ! i) (status c ! i) \<and> holdsKey key (ps ! j) (status c ! j))) \<and>
     (\<forall>k. \<not> (holdsAccount k (status c ! i) \<and> holdsAccount k (status c ! j))))"

text \<open>The client's claim and rows are those of the tables, and it locked its accounts in their order.\<close>

fun upToDate :: "('d :: linordered_ab_group_add, 'm) pg_env_scheme \<Rightarrow> 'd Database \<Rightarrow> 'd posting \<Rightarrow> 'd clientStatus \<Rightarrow> bool" where
  "upToDate env d p (Locking v rows ks) \<longleftrightarrow>
     v = claimView p d \<and> (\<exists>before. before @ ks = postingAccounts env p v \<and> rows = selectAccounts d before)"
| "upToDate env d p Begun \<longleftrightarrow> True"
| "upToDate env d p Ended \<longleftrightarrow> True"

definition race_inv :: "('d :: linordered_ab_group_add, 'm) pg_env_scheme \<Rightarrow> 'd posting list \<Rightarrow> 'd race \<Rightarrow> bool" where
  "race_inv env ps c \<longleftrightarrow> length (status c) = length ps \<and> exclusive ps c \<and>
     (\<forall>i < length ps. upToDate env (db (shared c)) (ps ! i) (status c ! i)) \<and>
     distinct (map fst (finished c)) \<and> (\<forall>i \<in> fst ` set (finished c). i < length ps \<and> status c ! i = Ended)"

lemma race_invD:
  assumes "race_inv env ps c"
  shows "length (status c) = length ps" and "exclusive ps c"
    and "i < length ps \<Longrightarrow> upToDate env (db (shared c)) (ps ! i) (status c ! i)"
    and "distinct (map fst (finished c))" and "i \<in> fst ` set (finished c) \<Longrightarrow> i < length ps \<and> status c ! i = Ended"
  using assms by (auto simp: race_inv_def)

lemma exclusiveD:
  assumes "exclusive ps c" and "i < length ps" and "j < length ps" and "i \<noteq> j"
  shows "holdsKey key (ps ! i) (status c ! i) \<Longrightarrow> \<not> holdsKey key (ps ! j) (status c ! j)"
    and "holdsAccount k (status c ! i) \<Longrightarrow> \<not> holdsAccount k (status c ! j)"
  using assms by (auto simp: exclusive_def)

lemma setStatus_simps [simp]:
  "shared (setStatus i st c) = shared c" "finished (setStatus i st c) = finished c"
  "length (status (setStatus i st c)) = length (status c)" "status (setStatus i st c) = (status c)[i := st]"
  by (simp_all add: setStatus_def)

text \<open>A client that changes state keeps the locks exclusive when no other client holds what it takes.\<close>

lemma exclusive_set:
  assumes "exclusive ps c" and "i < length ps" and "length (status c) = length ps"
    and "\<And>key j. holdsKey key (ps ! i) st \<Longrightarrow> j < length ps \<Longrightarrow> j \<noteq> i \<Longrightarrow> \<not> holdsKey key (ps ! j) (status c ! j)"
    and "\<And>k j. holdsAccount k st \<Longrightarrow> j < length ps \<Longrightarrow> j \<noteq> i \<Longrightarrow> \<not> holdsAccount k (status c ! j)"
  shows "exclusive ps (setStatus i st c)"
  unfolding exclusive_def setStatus_simps
proof (intro allI impI)
  fix a b :: nat assume ab: "a < length ps" "b < length ps" "a \<noteq> b"
  show "(\<forall>key. \<not> (holdsKey key (ps ! a) ((status c)[i := st] ! a) \<and> holdsKey key (ps ! b) ((status c)[i := st] ! b))) \<and>
    (\<forall>k. \<not> (holdsAccount k ((status c)[i := st] ! a) \<and> holdsAccount k ((status c)[i := st] ! b)))"
    using ab assms(3-5) exclusiveD [OF assms(1) ab]
    by (cases "a = i"; cases "b = i") auto
qed

lemma race_inv_set:
  assumes "race_inv env ps c" and "i < length ps" and "status c ! i \<noteq> Ended"
    and "upToDate env (db (shared c)) (ps ! i) st" and "exclusive ps (setStatus i st c)"
  shows "race_inv env ps (setStatus i st c)"
proof -
  note I = race_invD [OF assms(1)]
  have "upToDate env (db (shared c)) (ps ! j) ((status c)[i := st] ! j)" if "j < length ps" for j
    using I(1) I(3) [OF that] assms(2,4) that by (cases "j = i") auto
  moreover have "j < length ps \<and> (status c)[i := st] ! j = Ended" if "j \<in> fst ` set (finished c)" for j
    using I(5) [OF that] assms(3) by (cases "j = i") auto
  ultimately show ?thesis using I(1,4) assms(5) unfolding race_inv_def by simp
qed

lemma race_inv_start: "race_inv env ps (raceStart ps s)"
  by (auto simp: race_inv_def raceStart_def exclusive_def)

subsection \<open>Every step keeps the invariant\<close>

lemma race_inv_claim:
  assumes "race_inv env ps c" and "i < length ps" and "status c ! i = Begun" and "keyFree ps c i"
    and v: "v = claimView (ps ! i) (db (shared c))"
  shows "race_inv env ps (setStatus i (Locking v [] (postingAccounts env (ps ! i) v)) c)"
proof (rule race_inv_set [OF assms(1,2)])
  note I = race_invD [OF assms(1)]
  show "exclusive ps (setStatus i (Locking v [] (postingAccounts env (ps ! i) v)) c)"
    using keyFreeD [OF assms(4)] by (intro exclusive_set [OF I(2) assms(2) I(1)]) auto
qed (use assms in auto)

lemma race_inv_lock:
  assumes "race_inv env ps c" and "i < length ps" and "status c ! i = Locking v rows (k # ks)" and "accountFree ps c i k"
  shows "race_inv env ps (setStatus i (Locking v (rows @ selectAccounts (db (shared c)) [k]) ks) c)"
proof (rule race_inv_set [OF assms(1,2)])
  note I = race_invD [OF assms(1)]
  let ?st = "Locking v (rows @ selectAccounts (db (shared c)) [k]) ks"
  obtain before where v: "v = claimView (ps ! i) (db (shared c))" and b: "before @ k # ks = postingAccounts env (ps ! i) v"
    "rows = selectAccounts (db (shared c)) before"
    using I(3) [OF assms(2)] assms(3) by auto
  have "(before @ [k]) @ ks = postingAccounts env (ps ! i) v"
    "rows @ selectAccounts (db (shared c)) [k] = selectAccounts (db (shared c)) (before @ [k])"
    using b by (simp_all only: selectAccounts_simps append.assoc append_Cons append_Nil)
  then show "upToDate env (db (shared c)) (ps ! i) ?st" unfolding upToDate.simps using v by blast
  show "exclusive ps (setStatus i ?st c)"
  proof (rule exclusive_set [OF I(2) assms(2) I(1)])
    fix key j assume h: "holdsKey key (ps ! i) ?st" and j: "j < length ps" "j \<noteq> i"
    then have "holdsKey key (ps ! i) (status c ! i)" using assms(3) by simp
    from exclusiveD(1) [OF I(2) assms(2) j(1) _ this] j(2)
    show "\<not> holdsKey key (ps ! j) (status c ! j)" by simp
  next
    fix x j assume h: "holdsAccount x ?st" and j: "j < length ps" "j \<noteq> i"
    then have "x = k \<or> holdsAccount x (status c ! i)" using assms(3) by (auto split: option.splits)
    then show "\<not> holdsAccount x (status c ! j)"
      using accountFreeD [OF assms(4) j] exclusiveD(2) [OF I(2) assms(2) j(1), of x] j(2) by auto
  qed
qed (use assms in auto)

text \<open>The commit of a client leaves what the others read as it was.\<close>

lemma upToDate_commit:
  assumes "serves env" and I: "race_inv env ps c" and i: "i < length ps" and j: "j < length ps" and ne: "i \<noteq> j"
    and st: "status c ! i = Locking v rows []" and fin: "finishPosting env (ps ! i) v rows (shared c) = (s', r)"
  shows "upToDate env (db s') (ps ! j) (status c ! j)"
proof (cases "status c ! j")
  case (Locking w rows' ks)
  note X = exclusiveD [OF race_invD(2) [OF I] i j ne]
  have v: "v = claimView (ps ! i) (db (shared c))" and rows: "rows = selectAccounts (db (shared c)) (postingAccounts env (ps ! i) v)"
    using race_invD(3) [OF I i] st by auto
  note K = posting.keeps_to_locks [OF assms(1) v rows fin]
  obtain before where w: "w = claimView (ps ! j) (db (shared c))" and b: "before @ ks = postingAccounts env (ps ! j) w"
    and rows': "rows' = selectAccounts (db (shared c)) before"
    using race_invD(3) [OF I j] Locking by auto
  have "keysT (db s') (claimKey (ps ! j)) = keysT (db (shared c)) (claimKey (ps ! j))"
    using X(1) [of "claimKey (ps ! j)"] by (intro K(3)) (metis holdsKey.simps(1) st Locking)
  then have "w = claimView (ps ! j) (db s')" unfolding w by (intro claimView_key) simp
  moreover have "accountRow (db s') k = accountRow (db (shared c)) k" if "k \<in> set before" for k
  proof (cases "accountRow (db (shared c)) k")
    case None
    then show ?thesis using K(2) by (metis list.set_map map_of_eq_None_iff)
  next
    case (Some a)
    then have "k \<in> set (map fst rows')" using that rows' by (simp add: fst_selectAccounts)
    then have "k \<notin> fst ` set rows" using X(2) [of k] st Locking by auto
    then show ?thesis by (rule K(1))
  qed
  then have "rows' = selectAccounts (db s') before" unfolding rows' by (intro selectAccounts_cong) simp
  ultimately show ?thesis using b Locking by auto
qed simp_all

lemma race_inv_finish:
  assumes "serves env" and I: "race_inv env ps c" and i: "i < length ps"
    and st: "status c ! i = Locking v rows []" and fin: "finishPosting env (ps ! i) v rows (shared c) = (s', r)"
  shows "race_inv env ps (setStatus i Ended (c\<lparr>shared := s', finished := finished c @ [(i, r)]\<rparr>))"
proof -
  note J = race_invD [OF I]
  have "exclusive ps (setStatus i Ended c)" by (rule exclusive_set [OF J(2) i J(1)]) auto
  then have "exclusive ps (setStatus i Ended (c\<lparr>shared := s', finished := finished c @ [(i, r)]\<rparr>))"
    by (simp add: exclusive_def)
  moreover have "upToDate env (db s') (ps ! j) ((status c)[i := Ended] ! j)" if "j < length ps" for j
    using upToDate_commit [OF assms(1) I i that _ st fin] J(1) i by (cases "j = i") auto
  moreover have "i \<notin> fst ` set (finished c)" using J(5) [of i] st by auto
  ultimately show ?thesis using J(1,4,5) i by (auto simp: race_inv_def nth_list_update)
qed

lemma race_inv_step:
  assumes "serves env" and "race_inv env ps c" and "race_step env ps c c'"
  shows "race_inv env ps c'"
  using assms(3)
proof cases
  case work
  then show ?thesis
    by cases (auto intro: race_inv_claim [OF assms(2)] race_inv_lock [OF assms(2)] race_inv_finish [OF assms(1,2)] simp del: selectAccounts_simps)
next
  case (abort i)
  then show ?thesis
    using race_invD(1,2) [OF assms(2)] by (auto intro!: race_inv_set [OF assms(2)] exclusive_set)
qed

lemma race_inv_reach: "serves env \<Longrightarrow> race_reach env ps s c \<Longrightarrow> race_inv env ps c"
  by (rotate_tac, induction rule: race_reach.induct) (auto intro: race_inv_start race_inv_step)

subsection \<open>In turn\<close>

lemma race_in_turn:
  assumes "serves env" and "race_reach env ps s c"
  shows "alike (fst (inTurn env ps (map fst (finished c)) s)) (shared c) \<and>
    snd (inTurn env ps (map fst (finished c)) s) = map snd (finished c)"
  using assms(2)
proof induction
  case start
  then show ?case by (simp add: raceStart_def)
next
  case (step c c')
  from step.hyps(2) show ?case
  proof cases
    case work
    then show ?thesis
    proof cases
      case (finish i v rows s' r)
      have I: "race_inv env ps c" by (rule race_inv_reach [OF assms(1) step.hyps(1)])
      have v: "v = claimView (ps ! i) (db (shared c))" and rows: "rows = selectAccounts (db (shared c)) (postingAccounts env (ps ! i) v)"
        using race_invD(3) [OF I finish(2)] finish(3) by auto
      obtain s2 where run: "runPosting env (ps ! i) (shared c) = (s2, r)" and a2: "alike s2 s'"
        by (rule posting.finishes [OF assms(1) v rows finish(4)])
      obtain s1 rs where turn: "inTurn env ps (map fst (finished c)) s = (s1, rs)" by fastforce
      then have s1: "alike s1 (shared c)" "rs = map snd (finished c)" using step.IH by simp_all
      obtain s3 r3 where run1: "runPosting env (ps ! i) s1 = (s3, r3)" by fastforce
      have "alike s3 s2" "r3 = r"
        using blindD [OF posting_blind [OF assms(1)] s1(1), of "ps ! i"] run run1 by (simp_all add: alike_runs_def)
      then show ?thesis
        using finish(1) turn run1 s1(2) alike_trans [OF _ a2] by (simp add: inTurn_append)
    qed (use step.IH in simp_all)
  qed (use step.IH in simp)
qed

subsection \<open>Some client can always go on\<close>

text \<open>
  The accounts a client holds come before the one it waits for, so the client that waits for the greatest account is
  not kept from it.
\<close>

lemma held_before:
  assumes "upToDate env d p (Locking v rows (k # ks))" and "x \<in> set (map fst rows)"
  shows "x < k"
proof -
  obtain before where b: "before @ k # ks = postingAccounts env p v" and "rows = selectAccounts d before"
    using assms(1) by auto
  then have "x \<in> set before" using assms(2) by (simp add: fst_selectAccounts)
  moreover have "sorted_wrt (<) (before @ k # ks)" unfolding b by (rule posting.ids_sorted)
  ultimately show ?thesis by (auto simp: sorted_wrt_append)
qed

definition awaited :: "'d posting list \<Rightarrow> 'd race \<Rightarrow> uuid set" where
  "awaited ps c = {k. \<exists>i < length ps. \<exists>v rows ks. status c ! i = Locking v rows (k # ks)}"

lemma finite_awaited: "finite (awaited ps c)"
proof (rule finite_subset)
  show "awaited ps c \<subseteq> (\<lambda>i. case status c ! i of Locking v rows ks \<Rightarrow> hd ks | _ \<Rightarrow> 0) ` {..<length ps}"
    by (force simp: awaited_def image_iff)
qed simp

lemma race_progress:
  assumes I: "race_inv env ps c" and i: "i < length ps" and st: "status c ! i \<noteq> Ended"
  shows "\<exists>c'. client_step env ps c c'"
proof (cases "\<exists>j < length ps. \<exists>v rows. status c ! j = Locking v rows []")
  case True
  then obtain j v rows where j: "j < length ps" "status c ! j = Locking v rows []" by blast
  obtain s' r where "finishPosting env (ps ! j) v rows (shared c) = (s', r)" by fastforce
  then show ?thesis using finish [OF j] by blast
next
  case waiting: False
  have Locking: "\<exists>k ks'. ks = k # ks' \<and> k \<in> awaited ps c" if "j < length ps" "status c ! j = Locking v rows ks" for j v rows ks
    using that waiting by (cases ks) (auto simp: awaited_def)
  show ?thesis
  proof (cases "awaited ps c = {}")
    case True
    then have none: "status c ! j \<noteq> Locking v rows ks" if "j < length ps" for j v rows ks
      using Locking that by blast
    then have free: "\<not> holdsKey key (ps ! j) (status c ! j)" if "j < length ps" for key j
      using that by (cases "status c ! j") auto
    have "status c ! i = Begun" using none i st by (cases "status c ! i") auto
    moreover have "keyFree ps c i" using free by (simp add: keyFree_def list_all_iff)
    ultimately show ?thesis using claim [OF i] by blast
  next
    case False
    define k where "k = Max (awaited ps c)"
    have "k \<in> awaited ps c" unfolding k_def by (rule Max_in [OF finite_awaited False])
    then obtain j v rows ks where j: "j < length ps" "status c ! j = Locking v rows (k # ks)" by (auto simp: awaited_def)
    have "\<not> holdsAccount k (status c ! l)" if l: "l < length ps" for l
    proof
      assume "holdsAccount k (status c ! l)"
      then obtain w rows' ks' where st': "status c ! l = Locking w rows' ks'" and held: "k \<in> set (map fst rows')"
        by (cases "status c ! l") auto
      obtain x xs where x: "ks' = x # xs" "x \<in> awaited ps c" using Locking [OF l st'] by blast
      have "k < x" by (rule held_before [OF _ held]) (use race_invD(3) [OF I l] in \<open>simp add: st' x(1)\<close>)
      moreover have "x \<le> k" unfolding k_def by (rule Max_ge [OF finite_awaited x(2)])
      ultimately show False by simp
    qed
    then have "accountFree ps c j k" by (simp add: accountFree_def list_all_iff)
    then show ?thesis using lock [OF j] by blast
  qed
qed

text \<open>How many steps the clients have left at most.\<close>

fun stepsLeft :: "('d :: linordered_ab_group_add, 'm) pg_env_scheme \<Rightarrow> 'd posting \<Rightarrow> 'd clientStatus \<Rightarrow> nat" where
  "stepsLeft env p Begun = 2 + length (postingAccounts env p None)"
| "stepsLeft env p (Locking v rows ks) = 1 + length ks"
| "stepsLeft env p Ended = 0"

definition raceSteps :: "('d :: linordered_ab_group_add, 'm) pg_env_scheme \<Rightarrow> 'd posting list \<Rightarrow> 'd race \<Rightarrow> nat" where
  "raceSteps env ps c = (\<Sum>i < length ps. stepsLeft env (ps ! i) (status c ! i))"

lemma raceSteps_set:
  assumes "i < length ps" and "length (status c) = length ps" and "stepsLeft env (ps ! i) st < stepsLeft env (ps ! i) (status c ! i)"
    and "status c' = (status c)[i := st]"
  shows "raceSteps env ps c' < raceSteps env ps c"
  unfolding raceSteps_def assms(4)
  by (rule sum_strict_mono_ex1) (use assms in \<open>auto simp: nth_list_update\<close>)

lemma postingAccounts_most: "length (postingAccounts env p v) \<le> length (postingAccounts env p None)"
  by (cases p) (auto simp: claimStops_def)

lemma race_step_less:
  assumes "length (status c) = length ps" and "race_step env ps c c'"
  shows "raceSteps env ps c' < raceSteps env ps c"
  using assms(2)
proof cases
  case work
  then show ?thesis
  proof cases
    case (claim i v)
    then show ?thesis
      using postingAccounts_most [of env "ps ! i" v]
      by (intro raceSteps_set [OF claim(2) assms(1), where st = "Locking v [] (postingAccounts env (ps ! i) v)"]) auto
  next
    case (lock i v rows k ks)
    then show ?thesis
      by (intro raceSteps_set [OF lock(2) assms(1), where st = "Locking v (rows @ selectAccounts (db (shared c)) [k]) ks"]) auto
  next
    case (finish i v rows s' r)
    then show ?thesis by (intro raceSteps_set [OF finish(2) assms(1), where st = Ended]) auto
  qed
next
  case (abort i)
  then show ?thesis by (intro raceSteps_set [OF abort(2) assms(1), where st = Ended]) (cases "status c ! i"; auto)+
qed

lemma race_completes:
  assumes "serves env" and "race_inv env ps c"
  shows "\<exists>c'. (client_step env ps)\<^sup>*\<^sup>* c c' \<and> (\<forall>i < length ps. status c' ! i = Ended)"
  using assms(2)
proof (induction "raceSteps env ps c" arbitrary: c rule: less_induct)
  case less
  show ?case
  proof (cases "\<forall>i < length ps. status c ! i = Ended")
    case False
    then obtain c1 where step: "client_step env ps c c1" using race_progress [OF less.prems] by blast
    have "raceSteps env ps c1 < raceSteps env ps c"
      by (rule race_step_less [OF race_invD(1) [OF less.prems] race_step.work [OF step]])
    from less.hyps [OF this race_inv_step [OF assms(1) less.prems race_step.work [OF step]]]
    show ?thesis using converse_rtranclp_into_rtranclp [of "client_step env ps", OF step] by blast
  qed blast
qed

lemma race_reach_work: "race_reach env ps s c \<Longrightarrow> (client_step env ps)\<^sup>*\<^sup>* c c' \<Longrightarrow> race_reach env ps s c'"
  by (rotate_tac, induction rule: rtranclp_induct) (auto intro: race_reach.step race_step.work)

end
