(* ===== verification/Posting_Batcher.thy ===== *)
theory Posting_Batcher
  imports Pg_Batch_Properties Table_Relation
begin

text \<open>
  \<open>BatchingPostgresStore\<close> of \<open>internal/ledger/posting_batch.go\<close>: requests without a key wait in a channel, workers
  collect them into batches, post each batch in one transaction and answer every request of it.

  The goroutines are a step relation. The channel is the list of the requests in its buffer, and a worker is what
  it holds: nothing, the batch it collects, or nothing more since the channel is closed. A request is
  known by its ticket, which stands for the response channel it is answered on; how long a worker goes on
  collecting is up to its timer, so it may stop at any time.
\<close>

subsection \<open>The store and its workers\<close>

record 'd postingBatchRequest =
  pr_ticket :: nat
  pr_entries :: "'d EntryRequest list"

record 'd postingBatchResponse =
  ps_ticket :: nat
  ps_transaction :: "'d Transaction option"
  ps_err :: "'d err option"

datatype 'd batchWorker = Waiting | Collecting "'d postingBatchRequest list" | Finished

record 'd BatchingPostgresStore =
  bt_store :: "'d Pg"
  bt_requests :: "'d postingBatchRequest list"
  bt_closed :: bool
  bt_maxBatch :: nat
  bt_capacity :: nat
  bt_workers :: "'d batchWorker list"
  bt_tickets :: nat
  bt_responses :: "'d postingBatchResponse list"

definition NewBatchingPostgresStore ::
  "'d Pg \<Rightarrow> int \<Rightarrow> int \<Rightarrow> int \<Rightarrow> ('d err, 'd BatchingPostgresStore) res" where
  "NewBatchingPostgresStore store maxBatch maxWait workers =
     (if \<not> validBatchConfiguration maxBatch maxWait workers then Inl InvalidBatchConfiguration
      else Inr \<lparr>bt_store = store, bt_requests = [], bt_closed = False, bt_maxBatch = nat maxBatch,
        bt_capacity = nat (maxBatch * workers), bt_workers = replicate (nat workers) Waiting,
        bt_tickets = 0, bt_responses = []\<rparr>)"

text \<open>Sending a request blocks while the buffer is full, and panics when the channel is closed: \<open>None\<close> for both.\<close>

definition submitRequest :: "'d EntryRequest list \<Rightarrow> 'd BatchingPostgresStore \<Rightarrow> 'd BatchingPostgresStore option" where
  "submitRequest entries s =
     (if bt_closed s \<or> bt_capacity s \<le> length (bt_requests s) then None
      else Some (s\<lparr>bt_requests := bt_requests s @ [\<lparr>pr_ticket = bt_tickets s, pr_entries = entries\<rparr>],
        bt_tickets := Suc (bt_tickets s)\<rparr>))"

definition CloseBatching :: "'d BatchingPostgresStore \<Rightarrow> 'd BatchingPostgresStore" where
  "CloseBatching s = s\<lparr>bt_closed := True\<rparr>"

text \<open>The parts of \<open>run\<close>: a worker receives its first request, then further ones, then posts the batch; it ends with the channel.\<close>

definition receiveFirst :: "nat \<Rightarrow> 'd BatchingPostgresStore \<Rightarrow> 'd BatchingPostgresStore option" where
  "receiveFirst i s =
     (case bt_workers s ! i of
        Waiting \<Rightarrow>
          (case bt_requests s of
             [] \<Rightarrow> if bt_closed s then Some (s\<lparr>bt_workers := (bt_workers s)[i := Finished]\<rparr>) else None
           | first # rest \<Rightarrow> Some (s\<lparr>bt_requests := rest, bt_workers := (bt_workers s)[i := Collecting [first]]\<rparr>))
      | _ \<Rightarrow> None)"

definition collectNext :: "nat \<Rightarrow> 'd BatchingPostgresStore \<Rightarrow> 'd BatchingPostgresStore option" where
  "collectNext i s =
     (case (bt_workers s ! i, bt_requests s) of
        (Collecting batch, request # rest) \<Rightarrow>
          if length batch < bt_maxBatch s
          then Some (s\<lparr>bt_requests := rest, bt_workers := (bt_workers s)[i := Collecting (batch @ [request])]\<rparr>) else None
      | _ \<Rightarrow> None)"

definition batchResponse :: "'d postingBatchRequest \<times> 'd Transaction option \<times> 'd err option \<Rightarrow> 'd postingBatchResponse" where
  "batchResponse p = (case p of (request, tx, e) \<Rightarrow> \<lparr>ps_ticket = pr_ticket request, ps_transaction = tx, ps_err = e\<rparr>)"

definition flushBatch ::
  "('d :: linordered_ab_group_add, 'm) pg_env_scheme \<Rightarrow> nat \<Rightarrow> 'd BatchingPostgresStore \<Rightarrow> 'd BatchingPostgresStore option" where
  "flushBatch env i s =
     (case bt_workers s ! i of
        Collecting batch \<Rightarrow>
          (case runBatch env (map pr_entries batch) (bt_store s) of
             (store, answers) \<Rightarrow>
               Some (s\<lparr>bt_store := store, bt_workers := (bt_workers s)[i := Waiting],
                 bt_responses := bt_responses s @ map batchResponse (zip batch answers)\<rparr>))
      | _ \<Rightarrow> None)"

text \<open>
  \<open>CreateTransaction\<close>: a request with a key goes to the store. \<open>others1\<close> is what the workers do while the buffer is full, and
  \<open>others2\<close> what they do until the answer is there.
\<close>

definition answerOf :: "nat \<Rightarrow> 'd BatchingPostgresStore \<Rightarrow> 'd postingBatchResponse option" where
  "answerOf ticket s = find (\<lambda>r. ps_ticket r = ticket) (bt_responses s)"

definition BatchingCreateTransaction ::
  "('d :: linordered_ab_group_add, 'm) pg_env_scheme \<Rightarrow> ('d BatchingPostgresStore \<Rightarrow> 'd BatchingPostgresStore)
     \<Rightarrow> ('d BatchingPostgresStore \<Rightarrow> 'd BatchingPostgresStore) \<Rightarrow> string \<Rightarrow> 'd EntryRequest list \<Rightarrow> 'd BatchingPostgresStore
     \<Rightarrow> 'd BatchingPostgresStore \<times> ('d Transaction option \<times> bool \<times> 'd err option) option" where
  "BatchingCreateTransaction env others1 others2 idempotencyKey entries s =
     (if idempotencyKey \<noteq> ''''
      then case PgCreateTransaction env idempotencyKey entries (bt_store s) of
          (store, Inl e) \<Rightarrow> (s\<lparr>bt_store := store\<rparr>, Some (None, False, Some e))
        | (store, Inr (t, existed)) \<Rightarrow> (s\<lparr>bt_store := store\<rparr>, Some (Some t, existed, None))
      else case ValidateTransaction entries of
          Some e \<Rightarrow> (s, Some (None, False, Some e))
        | None \<Rightarrow>
            let s = others1 s; ticket = bt_tickets s
            in case submitRequest entries s of
                None \<Rightarrow> (s, None)
              | Some s \<Rightarrow>
                  let s = others2 s
                  in (s, map_option (\<lambda>r. (ps_transaction r, False, ps_err r)) (answerOf ticket s)))"

text \<open>The other operations are those of the store.\<close>

definition onStore :: "('d Pg \<Rightarrow> 'd Pg \<times> 'r) \<Rightarrow> 'd BatchingPostgresStore \<Rightarrow> 'd BatchingPostgresStore \<times> 'r" where
  "onStore f s = (case f (bt_store s) of (store, r) \<Rightarrow> (s\<lparr>bt_store := store\<rparr>, r))"

definition BatchingCreateAccount ::
  "('d :: linordered_ab_group_add, 'm) pg_env_scheme \<Rightarrow> string \<Rightarrow> AccountType \<Rightarrow> 'd BatchingPostgresStore
     \<Rightarrow> 'd BatchingPostgresStore \<times> ('d err, 'd Account) res" where
  "BatchingCreateAccount env name typ' = onStore (PgCreateAccount env name typ')"

definition BatchingGetBalance ::
  "('d :: linordered_ab_group_add, 'm) pg_env_scheme \<Rightarrow> string \<Rightarrow> 'd BatchingPostgresStore \<Rightarrow> 'd BatchingPostgresStore \<times> ('d err, 'd) res" where
  "BatchingGetBalance env accountID = onStore (PgGetBalance env accountID)"

definition BatchingGetAccountEntries ::
  "('d :: linordered_ab_group_add, 'm) pg_env_scheme \<Rightarrow> string \<Rightarrow> GetAccountEntriesParams \<Rightarrow> 'd BatchingPostgresStore
     \<Rightarrow> 'd BatchingPostgresStore \<times> ('d err, 'd GetAccountEntriesResponse) res" where
  "BatchingGetAccountEntries env accountID params = onStore (PgGetAccountEntries env accountID params)"

subsection \<open>Interleavings\<close>

inductive worker_step ::
  "('d :: linordered_ab_group_add, 'm) pg_env_scheme \<Rightarrow> 'd BatchingPostgresStore \<Rightarrow> 'd BatchingPostgresStore \<Rightarrow> bool" for env where
  receives: "i < length (bt_workers s) \<Longrightarrow> receiveFirst i s = Some s' \<Longrightarrow> worker_step env s s'"
| collects: "i < length (bt_workers s) \<Longrightarrow> collectNext i s = Some s' \<Longrightarrow> worker_step env s s'"
| flushes: "i < length (bt_workers s) \<Longrightarrow> flushBatch env i s = Some s' \<Longrightarrow> worker_step env s s'"

inductive batcher_step ::
  "('d :: linordered_ab_group_add, 'm) pg_env_scheme \<Rightarrow> 'd BatchingPostgresStore \<Rightarrow> 'd BatchingPostgresStore \<Rightarrow> bool" for env where
  worker: "worker_step env s s' \<Longrightarrow> batcher_step env s s'"
| submit: "ValidateTransaction entries = None \<Longrightarrow> request_cents env entries \<Longrightarrow> submitRequest entries s = Some s' \<Longrightarrow> batcher_step env s s'"
| keyed: "key \<noteq> '''' \<Longrightarrow> request_cents env entries \<Longrightarrow> PgCreateTransaction env key entries (bt_store s) = (store, r)
    \<Longrightarrow> batcher_step env s (s\<lparr>bt_store := store\<rparr>)"
| close: "batcher_step env s (CloseBatching s)"

inductive batcher_reach ::
  "('d :: linordered_ab_group_add, 'm) pg_env_scheme \<Rightarrow> 'd Pg \<Rightarrow> 'd BatchingPostgresStore \<Rightarrow> bool" for env store where
  new: "NewBatchingPostgresStore store maxBatch maxWait workers = Inr s \<Longrightarrow> batcher_reach env store s"
| step: "batcher_reach env store s \<Longrightarrow> batcher_step env s s' \<Longrightarrow> batcher_reach env store s'"

inductive_cases worker_stepE: "worker_step env s s'"
inductive_cases batcher_stepE: "batcher_step env s s'"

subsection \<open>Every request is in one place\<close>

fun inFlight :: "'d batchWorker \<Rightarrow> 'd postingBatchRequest list" where
  "inFlight (Collecting batch) = batch"
| "inFlight _ = []"

definition ticketsInFlight :: "'d batchWorker list \<Rightarrow> nat list" where
  "ticketsInFlight ws = concat (map (\<lambda>w. map pr_ticket (inFlight w)) ws)"

text \<open>The tickets that are queued, collected or answered.\<close>

definition placedTickets :: "'d BatchingPostgresStore \<Rightarrow> nat list" where
  "placedTickets s = map pr_ticket (bt_requests s) @ ticketsInFlight (bt_workers s) @ map ps_ticket (bt_responses s)"

fun worker_ok :: "nat \<Rightarrow> 'd batchWorker \<Rightarrow> bool" where
  "worker_ok maxBatch (Collecting batch) \<longleftrightarrow> batch \<noteq> [] \<and> length batch \<le> maxBatch"
| "worker_ok maxBatch _ \<longleftrightarrow> True"

definition workers_ok :: "'d BatchingPostgresStore \<Rightarrow> bool" where
  "workers_ok s \<longleftrightarrow> bt_workers s \<noteq> [] \<and> (\<forall>w \<in> set (bt_workers s). worker_ok (bt_maxBatch s) w) \<and>
     (Finished \<in> set (bt_workers s) \<longrightarrow> bt_closed s \<and> bt_requests s = [])"

definition requests_cents :: "('d, 'm) pg_env_scheme \<Rightarrow> 'd BatchingPostgresStore \<Rightarrow> bool" where
  "requests_cents env s \<longleftrightarrow> (\<forall>r \<in> set (bt_requests s). request_cents env (pr_entries r)) \<and>
     (\<forall>w \<in> set (bt_workers s). \<forall>r \<in> set (inFlight w). request_cents env (pr_entries r))"

definition batcher_ok :: "('d, 'm) pg_env_scheme \<Rightarrow> 'd BatchingPostgresStore \<Rightarrow> bool" where
  "batcher_ok env s \<longleftrightarrow> mset (placedTickets s) = mset [0..<bt_tickets s] \<and>
     0 < bt_maxBatch s \<and> bt_maxBatch s \<le> maxPostingBatchSize \<and> length (bt_requests s) \<le> bt_capacity s \<and> workers_ok s \<and> requests_cents env s"

lemma batcher_okD:
  assumes "batcher_ok env s"
  shows "mset (placedTickets s) = mset [0..<bt_tickets s]" and "0 < bt_maxBatch s \<and> bt_maxBatch s \<le> maxPostingBatchSize"
    and "length (bt_requests s) \<le> bt_capacity s" and "workers_ok s" and "requests_cents env s"
  using assms by (simp_all add: batcher_ok_def)

lemma workers_okD:
  assumes "workers_ok s"
  shows "bt_workers s \<noteq> []" and "\<forall>w \<in> set (bt_workers s). worker_ok (bt_maxBatch s) w"
    and "Finished \<in> set (bt_workers s) \<longrightarrow> bt_closed s \<and> bt_requests s = []"
  using assms by (simp_all add: workers_ok_def)

lemma ticketsInFlight_update:
  "i < length ws \<Longrightarrow> mset (ticketsInFlight (ws[i := w])) + mset (map pr_ticket (inFlight (ws ! i))) =
     mset (ticketsInFlight ws) + mset (map pr_ticket (inFlight w))"
proof (induction ws arbitrary: i)
  case (Cons x ws)
  show ?case
  proof (cases i)
    case (Suc j)
    then show ?thesis using Cons.IH [of j] Cons.prems by (simp add: ticketsInFlight_def)
  qed (simp add: ticketsInFlight_def)
qed simp

lemma Ball_list_update: "i < length xs \<Longrightarrow> \<forall>x \<in> set xs. P x \<Longrightarrow> P y \<Longrightarrow> \<forall>x \<in> set (xs[i := y]). P x"
  using set_update_subset_insert [of xs i y] by blast

lemma runBatch_length: "length (snd (runBatch env batch s)) = length batch"
  by (simp add: runBatch_def split: prod.splits sum.splits)

lemma batchResponse_tickets: "length answers = length batch \<Longrightarrow> map ps_ticket (map batchResponse (zip batch answers)) = map pr_ticket batch"
proof (induction batch arbitrary: answers)
  case (Cons r batch)
  then show ?case by (cases answers) (auto simp: batchResponse_def split: prod.splits)
qed simp

text \<open>What a worker does, case by case.\<close>

lemma receiveFirst_Some:
  assumes "receiveFirst i s = Some s'"
  shows "bt_workers s ! i = Waiting \<and>
    ((bt_requests s = [] \<and> bt_closed s \<and> s' = s\<lparr>bt_workers := (bt_workers s)[i := Finished]\<rparr>) \<or>
     (\<exists>r rest. bt_requests s = r # rest \<and> s' = s\<lparr>bt_requests := rest, bt_workers := (bt_workers s)[i := Collecting [r]]\<rparr>))"
  using assms by (auto simp: receiveFirst_def split: batchWorker.splits list.splits if_splits)

lemma collectNext_Some:
  assumes "collectNext i s = Some s'"
  shows "\<exists>batch r rest. bt_workers s ! i = Collecting batch \<and> length batch < bt_maxBatch s \<and> bt_requests s = r # rest \<and>
    s' = s\<lparr>bt_requests := rest, bt_workers := (bt_workers s)[i := Collecting (batch @ [r])]\<rparr>"
  using assms by (auto simp: collectNext_def split: batchWorker.splits list.splits if_splits)

lemma flushBatch_Some:
  assumes "flushBatch env i s = Some s'"
  shows "\<exists>batch store answers. bt_workers s ! i = Collecting batch \<and> runBatch env (map pr_entries batch) (bt_store s) = (store, answers) \<and>
    length answers = length batch \<and>
    s' = s\<lparr>bt_store := store, bt_workers := (bt_workers s)[i := Waiting], bt_responses := bt_responses s @ map batchResponse (zip batch answers)\<rparr>"
proof -
  obtain batch where b: "bt_workers s ! i = Collecting batch"
    using assms by (auto simp: flushBatch_def split: batchWorker.splits)
  obtain store answers where r: "runBatch env (map pr_entries batch) (bt_store s) = (store, answers)" by fastforce
  have "length answers = length batch" using runBatch_length [of env "map pr_entries batch" "bt_store s"] r by simp
  then show ?thesis using b r assms by (simp add: flushBatch_def)
qed

subsection \<open>Steps keep the workers in order\<close>

lemma workers_ok_receive:
  assumes "workers_ok s" and "i < length (bt_workers s)" and "bt_requests s = r # rest" and "worker_ok (bt_maxBatch s) w" and "w \<noteq> Finished"
  shows "workers_ok (s\<lparr>bt_requests := rest, bt_workers := (bt_workers s)[i := w]\<rparr>)"
proof -
  note W = workers_okD [OF assms(1)]
  have "Finished \<notin> set ((bt_workers s)[i := w])" using W(3) assms(3,5) set_update_subset_insert [of "bt_workers s" i w] by auto
  moreover have "\<forall>x \<in> set ((bt_workers s)[i := w]). worker_ok (bt_maxBatch s) x" by (rule Ball_list_update [OF assms(2) W(2) assms(4)])
  ultimately show ?thesis using W(1) by (simp add: workers_ok_def)
qed

lemma placed_receive:
  assumes "i < length (bt_workers s)" and "bt_requests s = r # rest"
    and "map pr_ticket (inFlight w) = map pr_ticket (inFlight (bt_workers s ! i)) @ [pr_ticket r]"
  shows "mset (placedTickets (s\<lparr>bt_requests := rest, bt_workers := (bt_workers s)[i := w]\<rparr>)) = mset (placedTickets s)"
  using ticketsInFlight_update [OF assms(1), of w] assms(2,3) by (simp add: placedTickets_def)

lemma cents_receive:
  assumes "requests_cents env s" and "i < length (bt_workers s)" and "bt_requests s = r # rest"
    and "inFlight w = inFlight (bt_workers s ! i) @ [r]"
  shows "requests_cents env (s\<lparr>bt_requests := rest, bt_workers := (bt_workers s)[i := w]\<rparr>)"
proof -
  have "\<forall>x \<in> set ((bt_workers s)[i := w]). \<forall>r \<in> set (inFlight x). request_cents env (pr_entries r)"
    using assms by (intro Ball_list_update) (auto simp: requests_cents_def)
  then show ?thesis using assms(1,3) by (simp add: requests_cents_def)
qed

lemma receive_batcher_ok:
  assumes "batcher_ok env s" and "i < length (bt_workers s)" and "bt_requests s = r # rest" and "worker_ok (bt_maxBatch s) w"
    and "w \<noteq> Finished" and "inFlight w = inFlight (bt_workers s ! i) @ [r]"
  shows "batcher_ok env (s\<lparr>bt_requests := rest, bt_workers := (bt_workers s)[i := w]\<rparr>)"
proof -
  note B = batcher_okD [OF assms(1)]
  have t: "map pr_ticket (inFlight w) = map pr_ticket (inFlight (bt_workers s ! i)) @ [pr_ticket r]" using assms(6) by simp
  show ?thesis
    unfolding batcher_ok_def placed_receive [OF assms(2,3) t]
    using B(1-3) assms(3) workers_ok_receive [OF B(4) assms(2-5)] cents_receive [OF B(5) assms(2,3,6)] by simp
qed

lemma worker_step_batcher_ok:
  assumes "batcher_ok env s" and "worker_step env s s'"
  shows "batcher_ok env s'"
  using assms(2)
proof (rule worker_stepE, goal_cases)
  case (1 i)
  note B = batcher_okD [OF assms(1)]
  note R = receiveFirst_Some [OF 1(2)]
  show ?case
  proof (cases "bt_requests s")
    case Nil
    then have s': "s' = s\<lparr>bt_workers := (bt_workers s)[i := Finished]\<rparr>" "bt_closed s" using R by auto
    have "\<forall>x \<in> set ((bt_workers s)[i := Finished]). worker_ok (bt_maxBatch s) x"
      using workers_okD(2) [OF B(4)] by (intro Ball_list_update [OF 1(1)]) simp_all
    moreover have "\<forall>x \<in> set ((bt_workers s)[i := Finished]). \<forall>r \<in> set (inFlight x). request_cents env (pr_entries r)"
      using B(5) by (intro Ball_list_update [OF 1(1)]) (simp_all add: requests_cents_def)
    moreover have "mset (placedTickets s') = mset (placedTickets s)"
      using ticketsInFlight_update [OF 1(1), of Finished] R by (simp add: s' placedTickets_def)
    ultimately show ?thesis
      using B workers_okD(1) [OF B(4)] Nil s' by (simp add: batcher_ok_def workers_ok_def requests_cents_def)
  next
    case (Cons r rest)
    then show ?thesis using R B(2) receive_batcher_ok [OF assms(1) 1(1) Cons, of "Collecting [r]"] by auto
  qed
next
  case (2 i)
  from collectNext_Some [OF 2(2)] obtain batch r rest where w: "bt_workers s ! i = Collecting batch" "length batch < bt_maxBatch s"
    "bt_requests s = r # rest" and s': "s' = s\<lparr>bt_requests := rest, bt_workers := (bt_workers s)[i := Collecting (batch @ [r])]\<rparr>" by blast
  show ?case unfolding s' by (rule receive_batcher_ok [OF assms(1) 2(1) w(3)]) (use w in simp_all)
next
  case (3 i)
  note B = batcher_okD [OF assms(1)]
  from flushBatch_Some [OF 3(2)] obtain batch store answers where w: "bt_workers s ! i = Collecting batch" "length answers = length batch"
    and s': "s' = s\<lparr>bt_store := store, bt_workers := (bt_workers s)[i := Waiting], bt_responses := bt_responses s @ map batchResponse (zip batch answers)\<rparr>"
    by blast
  have "\<forall>x \<in> set ((bt_workers s)[i := Waiting]). worker_ok (bt_maxBatch s) x"
    using workers_okD(2) [OF B(4)] by (intro Ball_list_update [OF 3(1)]) simp_all
  moreover have "\<forall>x \<in> set ((bt_workers s)[i := Waiting]). \<forall>r \<in> set (inFlight x). request_cents env (pr_entries r)"
    using B(5) by (intro Ball_list_update [OF 3(1)]) (simp_all add: requests_cents_def)
  moreover have "Finished \<in> set ((bt_workers s)[i := Waiting]) \<longrightarrow> Finished \<in> set (bt_workers s)"
    using set_update_subset_insert [of "bt_workers s" i Waiting] by auto
  moreover have "mset (placedTickets s') = mset (placedTickets s)"
    using ticketsInFlight_update [OF 3(1), of Waiting] w batchResponse_tickets [OF w(2)] by (simp add: s' placedTickets_def)
  ultimately show ?case
    using B workers_okD(1,3) [OF B(4)] s' by (simp add: batcher_ok_def workers_ok_def requests_cents_def)
qed

subsection \<open>The ledgers of the accounts\<close>

definition same_ledgers :: "'d Database \<Rightarrow> 'd Database \<Rightarrow> bool" where
  "same_ledgers d d' \<longleftrightarrow> (\<forall>k. map_option ar_ledger (accountRow d' k) = map_option ar_ledger (accountRow d k))"

interpretation lr: table_relation same_ledgers
  by unfold_locales (simp_all add: same_ledgers_def)

lemma same_ledgers_frame [simp]: "same_ledgers d (d\<lparr>keysT := k\<rparr>)" "same_ledgers d (completeKey key tid d)"
  by (simp_all add: same_ledgers_def completeKey_def split: option.splits)

lemma same_ledgers_postStatement:
  assumes "postStatement env t txs vals upd oids d = Inr d'"
  shows "same_ledgers d d'"
proof -
  from assms obtain d1 rows d2 d3 where d1: "insertTransactions t txs d = Inr d1" and d2: "insertEntries rows d1 = Inr d2"
    and d3: "updateBalances env upd d2 = Inr d3" and d': "insertOutboxes (map (\<lambda>(oid, tid, _). postedEvent oid t tid) (zip oids txs)) d3 = Inr d'"
    by (auto simp: postStatement_def bindR_Inr)
  have a2: "accountsT d2 = accountsT d"
    using insertTransactions_Inr [OF d1] d2 by (auto simp: insertEntries_def split: if_splits)
  have a': "accountsT d' = accountsT d3" using insertOutboxes_Inr [OF d'] by simp
  obtain rows3 where 3: "updateRows env upd (accountsT d2) = Inr rows3" "accountsT d3 = rows3"
    using d3 by (auto simp: updateBalances_def bindR_Inr)
  have "map_option ar_ledger (map_of rows3 k) = map_option ar_ledger (accountRow d k)" for k
  proof (cases "accountRow d k")
    case None
    then show ?thesis using updateRows_Inr(2) [OF 3(1), of k] a2 by simp
  next
    case (Some a)
    have "\<exists>y. numeric env (f (ar_balance a)) = Some y" if "upd k = Some f" for f
      using updateRows_Inr(3) [OF 3(1) _ that] Some a2 by auto
    then show ?thesis using updateRows_Inr(2) [OF 3(1), of k] Some a2 by (cases "upd k") auto
  qed
  then show ?thesis unfolding same_ledgers_def a' 3(2) by blast
qed

lemma same_ledgers_posting:
  "postStatement env t txs vals upd oids d = Inr d1 \<Longrightarrow> same_ledgers d (completeKey key tid d1)"
  by (rule lr.trans [OF same_ledgers_postStatement same_ledgers_frame(2)])

lemma keeps_ledgers_posting: "keeps same_ledgers (PgCreateTransaction env key es)"
proof -
  have w: "keeps same_ledgers (writePosting env tid l k es changes)" for tid l k es changes
    unfolding writePosting_def by (auto simp: bindR_Inr intro!: lr.keeps_rules intro: same_ledgers_posting)
  have new: "keeps same_ledgers (postNew env k es)" for k
    unfolding postNew_def by (auto intro!: lr.keeps_rules w lr.keeps_quiet [OF quiet_lock] split: prod.splits)
  have "keeps same_ledgers (createTransactionAttempt env key c es)" for c
    unfolding createTransactionAttempt_def ClaimIdempotencyKey_def buildTransaction_def
    by (auto intro!: lr.keeps_rules new split: option.splits)
  then show ?thesis
    unfolding PgCreateTransaction_def completedIdempotentTransaction_def Let_def
    by (auto intro!: lr.keeps_rules split: option.splits)
qed

lemma keeps_ledgers_batch: "keeps same_ledgers (CreateTransactionsBatch env ess)"
proof -
  have "keeps same_ledgers (writePostingBatch env ps ch rs)" for ps ch rs
    unfolding writePostingBatch_def Let_def by (auto intro!: lr.keeps_rules intro: same_ledgers_postStatement)
  then show ?thesis
    unfolding CreateTransactionsBatch_def Let_def by (auto intro!: lr.keeps_rules split: prod.splits)
qed

lemma same_ledgers_unmixed: "same_ledgers d d' \<Longrightarrow> db_unmixed d \<Longrightarrow> db_unmixed d'"
proof -
  assume s: "same_ledgers d d'" and u: "db_unmixed d"
  have "\<exists>a. accountRow d k = Some a \<and> ar_ledger a = ar_ledger a'" if "accountRow d' k = Some a'" for k a'
    using s [unfolded same_ledgers_def, rule_format, of k] that by (cases "accountRow d k") auto
  then show "db_unmixed d'" using u unfolding db_unmixed_def by fastforce
qed

subsection \<open>Reachable states\<close>

definition store_ok :: "('d :: linordered_ab_group_add, 'm) pg_env_scheme \<Rightarrow> 'd Database \<Rightarrow> bool" where
  "store_ok env d \<longleftrightarrow> pg_books env d \<and> db_unmixed d"

lemma runBatch_store: "runBatch env ess s = (s', answers) \<Longrightarrow> s' = fst (CreateTransactionsBatch env ess s)"
  by (auto simp: runBatch_def split: prod.splits sum.splits)

lemma batch_store_ok:
  assumes "numeric_ok env" and "range_order env" and "store_ok env (db s)" and "\<forall>es \<in> set ess. request_cents env es"
    and "runBatch env ess s = (s', answers)"
  shows "store_ok env (db s')"
proof -
  obtain s1 r where run: "CreateTransactionsBatch env ess s = (s1, r)" by fastforce
  then have s': "s' = s1" using runBatch_store [OF assms(5)] by simp
  have ok: "pg_books env (db s)" "db_unmixed (db s)" using assms(3) by (simp_all add: store_ok_def)
  have "pg_books env (db s1)"
  proof (cases r)
    case (Inl e)
    then show ?thesis using CreateTransactionsBatch_Inl [OF run [unfolded Inl]] ok(1) by simp
  next
    case (Inr results)
    show ?thesis by (rule CreateTransactionsBatch_balances(1) [OF assms(1,2) ok assms(4) run [unfolded Inr]])
  qed
  moreover have "same_ledgers (db s) (db s1)" using keepsD [OF keeps_ledgers_batch, where s = s] run by blast
  then have "db_unmixed (db s1)" using same_ledgers_unmixed ok(2) by blast
  ultimately show ?thesis by (simp add: store_ok_def s')
qed

lemma batcher_step_ok:
  assumes "batcher_ok env s" and "batcher_step env s s'"
  shows "batcher_ok env s'"
  using assms(2)
proof (rule batcher_stepE, goal_cases)
  case 1
  then show ?case by (rule worker_step_batcher_ok [OF assms(1)])
next
  case (2 entries)
  note B = batcher_okD [OF assms(1)]
  have s': "s' = s\<lparr>bt_requests := bt_requests s @ [\<lparr>pr_ticket = bt_tickets s, pr_entries = entries\<rparr>], bt_tickets := Suc (bt_tickets s)\<rparr>"
    "\<not> bt_closed s" "length (bt_requests s) < bt_capacity s"
    using 2(3) by (auto simp: submitRequest_def split: if_splits)
  have "mset (placedTickets s') = mset (placedTickets s) + {#bt_tickets s#}" by (simp add: s'(1) placedTickets_def)
  moreover have "workers_ok s'" using workers_okD [OF B(4)] s'(2) unfolding s'(1) by (auto simp: workers_ok_def)
  moreover have "requests_cents env s'" using B(5) 2(2) unfolding s'(1) by (auto simp: requests_cents_def)
  ultimately show ?case using B(1,2) s'(1,3) by (simp add: batcher_ok_def)
next
  case 3
  then show ?case using assms(1) by (simp add: batcher_ok_def placedTickets_def workers_ok_def requests_cents_def)
next
  case 4
  then show ?case using assms(1) by (simp add: batcher_ok_def placedTickets_def workers_ok_def requests_cents_def CloseBatching_def)
qed

lemma batcher_step_store:
  assumes "numeric_ok env" and "range_order env" and "batcher_ok env s" and "store_ok env (db (bt_store s))" and "batcher_step env s s'"
  shows "store_ok env (db (bt_store s'))"
  using assms(5)
proof (rule batcher_stepE, goal_cases)
  case 1
  then show ?case
  proof (rule worker_stepE, goal_cases)
    case (1 i)
    then have "bt_store s' = bt_store s" using receiveFirst_Some [OF 1(2)] by auto
    then show ?case using assms(4) by simp
  next
    case (2 i)
    then have "bt_store s' = bt_store s" using collectNext_Some [OF 2(2)] by auto
    then show ?case using assms(4) by simp
  next
    case (3 i)
    from flushBatch_Some [OF 3(2)] obtain batch store answers where w: "bt_workers s ! i = Collecting batch"
      "runBatch env (map pr_entries batch) (bt_store s) = (store, answers)" and s': "bt_store s' = store" by auto
    have "bt_workers s ! i \<in> set (bt_workers s)" using 3(1) by simp
    then have "\<forall>es \<in> set (map pr_entries batch). request_cents env es"
      using batcher_okD(5) [OF assms(3)] w(1) unfolding requests_cents_def by (metis (no_types, lifting) imageE inFlight.simps(1) list.set_map)
    from batch_store_ok [OF assms(1,2,4) this w(2)] show ?case unfolding s' .
  qed
next
  case (2 entries)
  then show ?case using assms(4) by (auto simp: submitRequest_def split: if_splits)
next
  case (3 key entries store r)
  have ok: "pg_books env (db (bt_store s))" "db_unmixed (db (bt_store s))" using assms(4) by (simp_all add: store_ok_def)
  have "pg_books env (db store)" using PgCreateTransaction_books [OF assms(1) ok(1) 3(3,4)] by simp
  moreover have "same_ledgers (db (bt_store s)) (db store)" using keepsD [OF keeps_ledgers_posting 3(4)] .
  then have "db_unmixed (db store)" using same_ledgers_unmixed ok(2) by blast
  ultimately show ?case using 3(1) by (simp add: store_ok_def)
next
  case 4
  then show ?case using assms(4) by (simp add: CloseBatching_def)
qed

lemma new_batcher_ok:
  assumes "NewBatchingPostgresStore store maxBatch maxWait workers = Inr s"
  shows "batcher_ok env s" and "bt_store s = store"
proof -
  have c: "0 < maxBatch" "maxBatch \<le> int maxPostingBatchSize" "0 < workers"
    and s: "s = \<lparr>bt_store = store, bt_requests = [], bt_closed = False, bt_maxBatch = nat maxBatch,
        bt_capacity = nat (maxBatch * workers), bt_workers = replicate (nat workers) Waiting, bt_tickets = 0, bt_responses = []\<rparr>"
    using assms by (auto simp: NewBatchingPostgresStore_def validBatchConfiguration_def split: if_splits)
  have "ticketsInFlight (bt_workers s) = []" by (simp add: s ticketsInFlight_def)
  then show "batcher_ok env s" using c by (simp add: s batcher_ok_def placedTickets_def workers_ok_def requests_cents_def nat_le_iff)
  show "bt_store s = store" by (simp add: s)
qed

lemma batcher_reach_ok: "batcher_reach env store s \<Longrightarrow> batcher_ok env s"
  by (induction rule: batcher_reach.induct) (auto intro: new_batcher_ok batcher_step_ok)

lemma batcher_reach_store:
  assumes "batcher_reach env store s" and "numeric_ok env" and "range_order env" and "store_ok env (db store)"
  shows "store_ok env (db (bt_store s))"
  using assms(1)
proof (induction rule: batcher_reach.induct)
  case (new maxBatch maxWait workers s)
  then show ?case using new_batcher_ok(2) [OF new] assms(4) by simp
next
  case (step s s')
  then show ?case using batcher_step_store [OF assms(2,3) batcher_reach_ok [OF step(1)]] by blast
qed

subsection \<open>The work of the workers ends\<close>

fun workerWork :: "'d batchWorker \<Rightarrow> nat" where
  "workerWork (Collecting batch) = 2"
| "workerWork Waiting = 1"
| "workerWork Finished = 0"

definition batcherWork :: "'d BatchingPostgresStore \<Rightarrow> nat" where
  "batcherWork s = 2 * length (bt_requests s) + (\<Sum>w\<leftarrow>bt_workers s. workerWork w)"

lemma batcher_work_update: "i < length ws \<Longrightarrow> (\<Sum>w\<leftarrow>ws[i := w']. workerWork w) + workerWork (ws ! i) = (\<Sum>w\<leftarrow>ws. workerWork w) + workerWork w'"
proof (induction ws arbitrary: i)
  case (Cons x ws)
  show ?case
  proof (cases i)
    case (Suc j)
    then show ?thesis using Cons.IH [of j] Cons.prems by simp
  qed simp
qed simp

lemma worker_step_work:
  assumes "worker_step env s s'"
  shows "batcherWork s' < batcherWork s"
  using assms
proof (rule worker_stepE, goal_cases)
  case (1 i)
  then show ?case
    using receiveFirst_Some [OF 1(2)] batcher_work_update [OF 1(1), of Finished] batcher_work_update [OF 1(1), of "Collecting [r]" for r]
    by (auto simp: batcherWork_def)
next
  case (2 i)
  from collectNext_Some [OF 2(2)] obtain batch r rest where c: "bt_workers s ! i = Collecting batch" "bt_requests s = r # rest"
    "s' = s\<lparr>bt_requests := rest, bt_workers := (bt_workers s)[i := Collecting (batch @ [r])]\<rparr>" by blast
  then show ?case using batcher_work_update [OF 2(1), of "Collecting (batch @ [r])"] by (simp add: batcherWork_def)
next
  case (3 i)
  from flushBatch_Some [OF 3(2)] obtain batch where "bt_workers s ! i = Collecting batch"
    "bt_workers s' = (bt_workers s)[i := Waiting]" "bt_requests s' = bt_requests s" by auto
  then show ?case using batcher_work_update [OF 3(1), of Waiting] by (simp add: batcherWork_def)
qed

text \<open>While a request is queued or collected some worker can go on.\<close>

lemma worker_progress:
  assumes "batcher_ok env s" and "\<not> (\<exists>s'. worker_step env s s')"
  shows "bt_requests s = [] \<and> ticketsInFlight (bt_workers s) = []"
proof -
  note W = workers_okD [OF batcher_okD(4) [OF assms(1)]]
  have idle: "\<forall>w \<in> set (bt_workers s). w = Waiting \<or> w = Finished"
  proof
    fix w assume "w \<in> set (bt_workers s)"
    then obtain i where i: "i < length (bt_workers s)" "bt_workers s ! i = w" by (metis in_set_conv_nth)
    show "w = Waiting \<or> w = Finished"
    proof (cases w)
      case (Collecting batch)
      then have "flushBatch env i s \<noteq> None" using i(2) by (simp add: flushBatch_def split: prod.splits)
      then show ?thesis using assms(2) i(1) worker_step.flushes by blast
    qed simp_all
  qed
  then have "\<forall>w \<in> set (bt_workers s). inFlight w = []" by auto
  then have "ticketsInFlight (bt_workers s) = []" by (simp add: ticketsInFlight_def)
  moreover have "bt_requests s = []"
  proof (rule ccontr)
    assume q: "bt_requests s \<noteq> []"
    obtain i where i: "i < length (bt_workers s)" using W(1) by blast
    then have "bt_workers s ! i = Waiting" using idle W(3) q by (metis nth_mem)
    then have "receiveFirst i s \<noteq> None" using q by (simp add: receiveFirst_def split: list.splits)
    then show False using assms(2) i worker_step.receives by blast
  qed
  ultimately show ?thesis by blast
qed

lemma answered_all:
  assumes "batcher_ok env s" and "bt_requests s = []" and "ticketsInFlight (bt_workers s) = []"
  shows "mset (map ps_ticket (bt_responses s)) = mset [0..<bt_tickets s]"
  using batcher_okD(1) [OF assms(1)] assms(2,3) by (simp add: placedTickets_def)

lemma finished_all:
  assumes "batcher_ok env s" and "\<forall>w \<in> set (bt_workers s). w = Finished"
  shows "bt_requests s = [] \<and> ticketsInFlight (bt_workers s) = []"
proof -
  note W = workers_okD [OF batcher_okD(4) [OF assms(1)]]
  have "Finished \<in> set (bt_workers s)" using W(1) assms(2) by (metis last_in_set)
  moreover have "\<forall>w \<in> set (bt_workers s). inFlight w = []" using assms(2) by auto
  ultimately show ?thesis using W(3) by (simp add: ticketsInFlight_def)
qed

subsection \<open>A run\<close>

text \<open>One worker, batches of at most two: a posting is queued, collected, posted and answered; then the channel is closed.\<close>

definition batcherStart :: "int BatchingPostgresStore" where
  "batcherStart = \<lparr>bt_store = pgStart, bt_requests = [], bt_closed = False, bt_maxBatch = 2, bt_capacity = 2,
     bt_workers = [Waiting], bt_tickets = 0, bt_responses = []\<rparr>"

definition batcherQueued :: "int BatchingPostgresStore" where
  "batcherQueued = batcherStart\<lparr>bt_requests := [\<lparr>pr_ticket = 0, pr_entries = pgRequest\<rparr>], bt_tickets := 1\<rparr>"

definition batcherCollected :: "int BatchingPostgresStore" where
  "batcherCollected = batcherQueued\<lparr>bt_requests := [], bt_workers := [Collecting [\<lparr>pr_ticket = 0, pr_entries = pgRequest\<rparr>]]\<rparr>"

definition batcherAnswered :: "int BatchingPostgresStore" where
  "batcherAnswered = the (flushBatch pgEnv 0 batcherCollected)"

definition batcherDone :: "int BatchingPostgresStore" where
  "batcherDone = (CloseBatching batcherAnswered)\<lparr>bt_workers := [Finished]\<rparr>"

lemmas batcher_defs = batcherStart_def batcherQueued_def batcherCollected_def

lemma batcherStart_new: "NewBatchingPostgresStore pgStart 2 0 1 = Inr batcherStart"
  by (simp add: NewBatchingPostgresStore_def validBatchConfiguration_def maxPostingBatchSize_def batcherStart_def)

lemma batcherAnswered_Some: "flushBatch pgEnv 0 batcherCollected = Some batcherAnswered"
  and batcherAnswered_fields: "bt_workers batcherAnswered = [Waiting]" "bt_requests batcherAnswered = []" "bt_tickets batcherAnswered = 1"
  by (simp_all add: batcherAnswered_def flushBatch_def batcher_defs split: prod.splits)

lemma batcher_run:
  "batcher_reach pgEnv pgStart batcherQueued" "batcher_reach pgEnv pgStart batcherCollected"
  "batcher_reach pgEnv pgStart batcherAnswered" "batcher_reach pgEnv pgStart batcherDone"
proof -
  have 0: "batcher_reach pgEnv pgStart batcherStart" by (rule batcher_reach.new [OF batcherStart_new])
  have c: "request_cents pgEnv pgRequest" by (simp add: request_cents_def)
  have "batcher_step pgEnv batcherStart batcherQueued"
    by (rule batcher_step.submit [of pgRequest]) (use pgRequest_valid c in \<open>simp_all add: submitRequest_def batcher_defs\<close>)
  from batcher_reach.step [OF 0 this] show 1: "batcher_reach pgEnv pgStart batcherQueued" .
  have "receiveFirst 0 batcherQueued = Some batcherCollected" by (simp add: receiveFirst_def batcher_defs)
  then have "worker_step pgEnv batcherQueued batcherCollected" by (rule worker_step.receives [rotated]) (simp add: batcher_defs)
  from batcher_reach.step [OF 1 batcher_step.worker [OF this]] show 2: "batcher_reach pgEnv pgStart batcherCollected" .
  have "worker_step pgEnv batcherCollected batcherAnswered" by (rule worker_step.flushes [OF _ batcherAnswered_Some]) (simp add: batcher_defs)
  from batcher_reach.step [OF 2 batcher_step.worker [OF this]] show 3: "batcher_reach pgEnv pgStart batcherAnswered" .
  have "receiveFirst 0 (CloseBatching batcherAnswered) = Some batcherDone"
    by (simp add: receiveFirst_def CloseBatching_def batcherAnswered_fields batcherDone_def)
  then have "worker_step pgEnv (CloseBatching batcherAnswered) batcherDone"
    by (rule worker_step.receives [rotated]) (simp add: CloseBatching_def batcherAnswered_fields)
  from batcher_reach.step [OF batcher_reach.step [OF 3 batcher_step.close] batcher_step.worker [OF this]]
  show "batcher_reach pgEnv pgStart batcherDone" .
qed

subsection \<open>Properties\<close>







end
