(* ===== verification/Pg_Race_Properties.thy ===== *)
theory Pg_Race_Properties
  imports Pg_Race Posting_Batcher
begin

text \<open>
  The properties of concurrent postings: they are serializable, they overdraw no account, and they never wait for each
  other forever.
\<close>

subsection \<open>What every client keeps\<close>

definition race_safe :: "('d :: linordered_ab_group_add, 'm) pg_env_scheme \<Rightarrow> 'd Database \<Rightarrow> bool" where
  "race_safe env d \<longleftrightarrow> store_ok env d \<and> (\<forall>k a. accountRow d k = Some a \<longrightarrow> 0 \<le> displayed a)"

fun client_ok :: "('d :: linordered_ab_group_add, 'm) pg_env_scheme \<Rightarrow> 'd posting \<Rightarrow> bool" where
  "client_ok env (Attempt key checksum es) \<longleftrightarrow> valid_request es \<and> request_cents env es"
| "client_ok env (Batch ess) \<longleftrightarrow> (\<forall>es \<in> set ess. request_cents env es)"

lemma requestNet_unnamed:
  "\<forall>e \<in> set es. uuidParse env (AccountID e) \<noteq> Some k \<Longrightarrow> requestNet env k es = 0"
  unfolding requestNet_def by (induction es) auto

text \<open>A posting that leaves the accounts it does not name alone, and those it names with a balance that is not negative.\<close>

lemma displayed_after_posting:
  assumes "map fst (accountsT d') = map fst (accountsT d)" and "\<forall>k a. accountRow d k = Some a \<longrightarrow> 0 \<le> displayed a"
    and "\<And>k a. accountRow d k = Some a \<Longrightarrow> accountRow d' k = Some (a\<lparr>ar_balance := ar_balance a + n k\<rparr>) \<and>
      (n k = 0 \<or> 0 \<le> displayed (a\<lparr>ar_balance := ar_balance a + n k\<rparr>))"
  shows "\<forall>k a. accountRow d' k = Some a \<longrightarrow> 0 \<le> displayed a"
proof (intro allI impI)
  fix k a' assume a': "accountRow d' k = Some a'"
  then obtain a where a: "accountRow d k = Some a" using assms(1) by (metis list.set_map map_of_eq_None_iff not_None_eq)
  then show "0 \<le> displayed a'" using assms(3) [OF a] assms(2) a' by (cases "n k = 0") auto
qed

lemma attempt_safe:
  assumes "numeric_ok env" and safe: "race_safe env (db s)" and "valid_request es" and "request_cents env es"
    and run: "createTransactionAttempt env key checksum es s = (s', r)"
  shows "race_safe env (db s')"
proof (cases r)
  case (Inl e)
  then show ?thesis using rolls_backD [OF rolls_back_attempt] run safe by metis
next
  case (Inr a)
  then obtain t existed where "createTransactionAttempt env key checksum es s = (s', Inr (t, existed))"
    using run by (cases a) auto
  note A = createTransactionAttempt_Inr [OF this]
  show ?thesis
  proof (cases existed)
    case True
    then show ?thesis using A safe by simp
  next
    case False
    then obtain tid where posted: "posted env key es tid (claimed key checksum (db s)) (db s')" using A by auto
    have books: "pg_books env (claimed key checksum (db s))" using safe by (simp add: race_safe_def store_ok_def)
    note P = posted_books [OF assms(1) books assms(3,4) posted, simplified]
    obtain ledger where L: "\<forall>e \<in> set es. \<exists>k a. uuidParse env (AccountID e) = Some k \<and> accountRow (db s) k = Some a \<and>
        ar_ledger a = ledger \<and> 0 \<le> displayed (a\<lparr>ar_balance := ar_balance a + requestNet env k es\<rparr>)" using P(4) by blast
    have "\<forall>k a. accountRow (db s') k = Some a \<longrightarrow> 0 \<le> displayed a"
    proof (rule displayed_after_posting [OF P(3)])
      show "\<forall>k a. accountRow (db s) k = Some a \<longrightarrow> 0 \<le> displayed a" using safe by (simp add: race_safe_def)
      fix k a assume a: "accountRow (db s) k = Some a"
      have "0 \<le> displayed (a\<lparr>ar_balance := ar_balance a + requestNet env k es\<rparr>)" if ne: "requestNet env k es \<noteq> 0"
      proof -
        obtain e where "e \<in> set es" "uuidParse env (AccountID e) = Some k" using ne requestNet_unnamed [of es env k] by blast
        then show ?thesis using L a by fastforce
      qed
      then show "accountRow (db s') k = Some (a\<lparr>ar_balance := ar_balance a + requestNet env k es\<rparr>) \<and>
          (requestNet env k es = 0 \<or> 0 \<le> displayed (a\<lparr>ar_balance := ar_balance a + requestNet env k es\<rparr>))"
        using P(2) [OF a] by blast
    qed
    moreover have "same_ledgers (claimed key checksum (db s)) (db s')"
      using posted same_ledgers_posting unfolding posted_def by metis
    then have "same_ledgers (db s) (db s')" by (simp add: same_ledgers_def)
    then have "db_unmixed (db s')" using same_ledgers_unmixed safe unfolding race_safe_def store_ok_def by metis
    ultimately show ?thesis using P(1) unfolding race_safe_def store_ok_def by (intro conjI)
  qed
qed

lemma batch_safe:
  assumes "numeric_ok env" and range: "range_order env" and safe: "race_safe env (db s)" and cents: "\<forall>es \<in> set ess. request_cents env es"
    and run: "CreateTransactionsBatch env ess s = (s', r)"
  shows "race_safe env (db s')"
proof (cases r)
  case (Inl e)
  then show ?thesis using CreateTransactionsBatch_Inl [of env ess s s' e] run safe by simp
next
  case (Inr results)
  have ok: "pg_books env (db s)" "db_unmixed (db s)" using safe by (simp_all add: race_safe_def store_ok_def)
  note B = CreateTransactionsBatch_balances [OF assms(1) range ok cents run [unfolded Inr]]
  let ?acc = "batchAccepted env ess (db s)"
  have "\<forall>k a. accountRow (db s') k = Some a \<longrightarrow> 0 \<le> displayed a"
  proof (rule displayed_after_posting [where n = "\<lambda>k. postingsNet k ?acc"])
    show "map fst (accountsT (db s')) = map fst (accountsT (db s))" by (rule batch_frame(2) [OF range run])
    show "\<forall>k a. accountRow (db s) k = Some a \<longrightarrow> 0 \<le> displayed a" using safe by (simp add: race_safe_def)
    fix k a assume a: "accountRow (db s) k = Some a"
    have "0 \<le> displayed (a\<lparr>ar_balance := ar_balance a + postingsNet k ?acc\<rparr>)" if ne: "postingsNet k ?acc \<noteq> 0"
    proof -
      obtain p where "p \<in> set ?acc" "k \<in> pe_accountID ` set (bp_entries p)" using ne postingsNet_notin [of ?acc k] by blast
      then show ?thesis by (rule batchAccepted_covered [OF _ _ a])
    qed
    then show "accountRow (db s') k = Some (a\<lparr>ar_balance := ar_balance a + postingsNet k ?acc\<rparr>) \<and>
        (postingsNet k ?acc = 0 \<or> 0 \<le> displayed (a\<lparr>ar_balance := ar_balance a + postingsNet k ?acc\<rparr>))"
      using B(2) [OF a] by blast
  qed
  moreover have "db_unmixed (db s')"
    using same_ledgers_unmixed [OF keepsD [OF keeps_ledgers_batch run] ok(2)] .
  ultimately show ?thesis using B(1) unfolding race_safe_def store_ok_def by (intro conjI)
qed

lemma posting_safe:
  assumes "numeric_ok env" and "range_order env" and "race_safe env (db s)" and "client_ok env p" and "runPosting env p s = (s', r)"
  shows "race_safe env (db s')"
proof (cases p)
  case (Attempt key checksum es)
  obtain s1 r1 where run: "createTransactionAttempt env key checksum es s = (s1, r1)" by fastforce
  then have "s' = s1" using assms(5) singleAnswer_fst [of "createTransactionAttempt env key checksum es" s] by (simp add: Attempt)
  then show ?thesis using attempt_safe [OF assms(1,3) _ _ run] assms(4) by (simp add: Attempt)
next
  case (Batch ess)
  obtain s1 r1 where run: "CreateTransactionsBatch env ess s = (s1, r1)" by fastforce
  then have "s' = s1" using assms(5) batchAnswer_fst [of "CreateTransactionsBatch env ess" s] by (simp add: Batch)
  then show ?thesis using batch_safe [OF assms(1,2,3) _ run] assms(4) by (simp add: Batch)
qed

lemma inTurn_safe:
  assumes "numeric_ok env" and "range_order env" and "\<forall>p \<in> set ps. client_ok env p" and "race_safe env (db s)" and "\<forall>i \<in> set is. i < length ps"
  shows "race_safe env (db (fst (inTurn env ps is s)))"
  using assms(4,5)
proof (induction "is" arbitrary: s)
  case (Cons i "is")
  obtain s1 r where run: "runPosting env (ps ! i) s = (s1, r)" by fastforce
  have "race_safe env (db s1)" by (rule posting_safe [OF assms(1,2) Cons.prems(1) _ run]) (use assms(3) Cons.prems(2) in auto)
  then show ?case using Cons.IH [of s1] Cons.prems(2) run by (cases "inTurn env ps is s1") simp
qed simp

subsection \<open>A concrete race\<close>

text \<open>When no client is aborted, every client that is done has an answer.\<close>

lemma work_answers:
  "(client_step env ps)\<^sup>*\<^sup>* (raceStart ps s) c \<Longrightarrow>
     length (status c) = length ps \<and> (\<forall>i < length ps. status c ! i = Ended \<longrightarrow> i \<in> fst ` set (finished c))"
proof (induction rule: rtranclp_induct)
  case (step c c')
  from step.hyps(2) show ?case
    by cases (use step.IH in \<open>auto simp: nth_list_update\<close>)
qed (simp add: raceStart_def)

text \<open>Two clients post the same request under the same key.\<close>

definition raceClients :: "int posting list" where
  "raceClients = [Attempt ''k'' ''c'' pgRequest, Attempt ''k'' ''c'' pgRequest]"

lemma pgEnv_serves: "serves pgEnv"
  using pgEnv_ok(3) by (simp add: serves_def reliable_def) (simp add: pgEnv_def)

lemma raceClients_ok: "\<forall>p \<in> set raceClients. client_ok pgEnv p"
  using pgRequest_valid by (simp add: raceClients_def request_cents_def ValidateTransaction_None_iff)

lemma pgStart_safe: "race_safe pgEnv (db pgStart)"
  using pgStart_books pgStart_unmixed
  by (auto simp: race_safe_def store_ok_def pgStart_def displayed_def displayedBalanceAfter_def split: if_splits)

lemma race_runs:
  obtains c where "race_reach pgEnv raceClients pgStart c"
    and "map fst (finished c) = [0, 1] \<or> map fst (finished c) = [1, 0]"
proof -
  let ?c0 = "raceStart raceClients pgStart"
  obtain c where steps: "(client_step pgEnv raceClients)\<^sup>*\<^sup>* ?c0 c" and ended: "\<forall>i < length raceClients. status c ! i = Ended"
    using race_completes [OF pgEnv_serves race_inv_start] by blast
  have reach: "race_reach pgEnv raceClients pgStart c" by (rule race_reach_work [OF race_reach.start steps])
  note I = race_invD [OF race_inv_reach [OF pgEnv_serves reach]]
  have "fst ` set (finished c) = {0, 1}"
    using work_answers [OF steps] ended I(5) by (force simp: raceClients_def less_Suc_eq numeral_2_eq_2)
  then have "distinct (map fst (finished c)) \<and> set (map fst (finished c)) = {0, 1}" using I(4) by simp
  then have "length (map fst (finished c)) = 2" by (metis distinct_card card_2_iff zero_neq_one)
  then obtain a b where ab: "map fst (finished c) = [a, b]" by (auto simp: numeral_2_eq_2 length_Suc_conv)
  have "{a, b} = {0, 1}" using \<open>fst ` set (finished c) = {0, 1}\<close> arg_cong [OF ab, of set] by simp
  then have "map fst (finished c) = [0, 1] \<or> map fst (finished c) = [1, 0]"
    unfolding ab by (simp add: doubleton_eq_iff)
  with reach show ?thesis by (rule that)
qed

definition racePosted :: "int Pg" where
  "racePosted = fst (createTransactionAttempt pgEnv ''k'' ''c'' pgRequest pgStart)"

lemma racePosted_eq:
  "\<exists>t. createTransactionAttempt pgEnv ''k'' ''c'' pgRequest pgStart = (racePosted, Inr (t, False)) \<and> t_ID t = uuidString pgEnv 10"
  "map (\<lambda>(k, a). (k, ar_balance a)) (accountsT (db racePosted)) = [(1, 100), (2, -100)]"
  "keysT (db racePosted) ''k'' = Some \<lparr>kr_transaction = Some 10, kr_checksum = ''c'', kr_status = ''completed''\<rparr>"
  using pgRequest_prepared by (simp_all add: racePosted_def pgStart_def pgRequest_def pg_eval)

lemma racePosted_again:
  "\<exists>s t. createTransactionAttempt pgEnv ''k'' ''c'' pgRequest racePosted = (s, Inr (t, True)) \<and> t_ID t = uuidString pgEnv 10 \<and>
     accountsT (db s) = accountsT (db racePosted)"
  using racePosted_eq(3)
  by (simp add: createTransactionAttempt_def atomically_def bindE_assoc ClaimIdempotencyKey_def claimRow_def buildTransaction_def
      returnE_def)

lemma race_in_turn_eq:
  assumes "is = [0, 1] \<or> is = [1, 0]"
  shows "\<exists>s t t'. inTurn pgEnv raceClients is pgStart = (s, [Inr (Single t False), Inr (Single t' True)]) \<and> t_ID t' = t_ID t \<and>
    map (\<lambda>(k, a). (k, ar_balance a)) (accountsT (db s)) = [(1, 100), (2, -100)]"
proof -
  obtain t where 1: "createTransactionAttempt pgEnv ''k'' ''c'' pgRequest pgStart = (racePosted, Inr (t, False))" "t_ID t = uuidString pgEnv 10"
    using racePosted_eq(1) by blast
  obtain s t' where 2: "createTransactionAttempt pgEnv ''k'' ''c'' pgRequest racePosted = (s, Inr (t', True))" "t_ID t' = uuidString pgEnv 10"
    "accountsT (db s) = accountsT (db racePosted)"
    using racePosted_again by blast
  have "inTurn pgEnv raceClients is pgStart = (s, [Inr (Single t False), Inr (Single t' True)])"
    using assms 1(1) 2(1) by (auto simp: raceClients_def singleAnswer_def bindE_def returnE_def)
  then show ?thesis using 1(2) 2(2,3) racePosted_eq(2) by simp
qed

subsection \<open>Properties\<close>

text \<open>
  C3: concurrent postings are serializable. However the claims, row locks, commits and failures of clients that post
  singly (with or without keys) and in batches are interleaved, the tables and the answers of those that finished are
  those of \<open>createTransactionAttempt\<close> and \<open>CreateTransactionsBatch\<close> run whole, one after another, in the order in which
  they committed; no client finishes twice. What a client decided on when it took its locks is what it would read at
  its commit.
\<close>

theorem postings_serializable:
  assumes "serves env" and "race_reach env ps s c"
  shows "distinct (map fst (finished c)) \<and> (\<forall>i \<in> set (map fst (finished c)). i < length ps) \<and>
    (let (s', answers) = inTurn env ps (map fst (finished c)) s
     in answers = map snd (finished c) \<and> db s' = db (shared c))"
proof -
  note I = race_invD [OF race_inv_reach [OF assms]]
  have "db (fst (inTurn env ps (map fst (finished c)) s)) = db (shared c)" "snd (inTurn env ps (map fst (finished c)) s) = map snd (finished c)"
    using race_in_turn [OF assms] alike_fields(1) by force+
  then show ?thesis using I(4,5) by (simp add: case_prod_beta)
qed

theorem postings_serializable_witness:
  "\<exists>c. race_reach pgEnv raceClients pgStart c \<and>
     (\<exists>t t'. map snd (finished c) = [Inr (Single t False), Inr (Single t' True)] \<and> t_ID t' = t_ID t) \<and>
     map (\<lambda>(k, a). (k, ar_balance a)) (accountsT (db (shared c))) = [(1, 100), (2, -100)]"
proof -
  obtain c where c: "race_reach pgEnv raceClients pgStart c" "map fst (finished c) = [0, 1] \<or> map fst (finished c) = [1, 0]"
    by (rule race_runs)
  obtain s t t' where turn: "inTurn pgEnv raceClients (map fst (finished c)) pgStart = (s, [Inr (Single t False), Inr (Single t' True)])"
    and eq: "t_ID t' = t_ID t" "map (\<lambda>(k, a). (k, ar_balance a)) (accountsT (db s)) = [(1, 100), (2, -100)]"
    using race_in_turn_eq [OF c(2)] by (elim exE conjE) (rule that)
  have ans: "map snd (finished c) = [Inr (Single t False), Inr (Single t' True)]" and d: "db s = db (shared c)"
    using postings_serializable [OF pgEnv_serves c(1)] unfolding turn by simp_all
  show ?thesis
    by (intro exI [of _ c] conjI exI [of _ t] exI [of _ t'] c(1) ans eq(1) eq(2) [unfolded d])
qed



text \<open>
  C12: concurrent postings never wait for each other forever. Since every client locks its accounts in the order of their
  identifiers, after its key, in every reachable state with a client that is not done some client can claim, lock
  or commit; every step brings the clients nearer to their end, so all of them end, without anyone being aborted.
\<close>

theorem postings_never_deadlock:
  assumes "serves env" and "race_reach env ps s c"
  shows "((\<exists>i < length ps. status c ! i \<noteq> Ended) \<longrightarrow> (\<exists>c'. client_step env ps c c')) \<and>
    (\<forall>c'. race_step env ps c c' \<longrightarrow> raceSteps env ps c' < raceSteps env ps c) \<and>
    (\<exists>c'. (client_step env ps)\<^sup>*\<^sup>* c c' \<and> (\<forall>i < length ps. status c' ! i = Ended))"
proof -
  have I: "race_inv env ps c" by (rule race_inv_reach [OF assms])
  show ?thesis
    using race_progress [OF I] race_step_less [OF race_invD(1) [OF I]] race_completes [OF assms(1) I] by blast
qed

theorem postings_never_deadlock_witness:
  "\<exists>c'. (client_step pgEnv raceClients)\<^sup>*\<^sup>* (raceStart raceClients pgStart) c' \<and> status c' ! 0 = Ended \<and> status c' ! 1 = Ended"
proof -
  obtain c' where "(client_step pgEnv raceClients)\<^sup>*\<^sup>* (raceStart raceClients pgStart) c'"
    and "\<forall>i < length raceClients. status c' ! i = Ended"
    using postings_never_deadlock [OF pgEnv_serves race_reach.start, of raceClients pgStart] by (elim conjE exE) (rule that)
  then show ?thesis by (intro exI [of _ c']) (simp add: raceClients_def)
qed

end
