(* ===== verification/Pg_Lock_Order.thy ===== *)
theory Pg_Lock_Order
  imports Pg_Race Pg_Transfer_Properties
begin

text \<open>
  The order in which the database transactions of the store lock accounts: postings and destination credits lock them
  sorted (\<open>ORDER BY id FOR UPDATE\<close>), \<open>CreateTransfer\<close> locks the source account first (\<open>FOR UPDATE OF source\<close>) and the
  clearing account with the \<open>UPDATE\<close> of its write, whatever their identifiers.
\<close>

subsection \<open>Waiting for locks\<close>

text \<open>A database transaction that holds some accounts and has others to lock; a commit releases what it holds.\<close>

record waiter =
  held :: "uuid list"
  wanted :: "uuid list"

definition lockStart :: "uuid list list \<Rightarrow> waiter list" where
  "lockStart plans = map (\<lambda>ks. \<lparr>held = [], wanted = ks\<rparr>) plans"

definition grantable :: "waiter list \<Rightarrow> nat \<Rightarrow> uuid \<Rightarrow> bool" where
  "grantable ws i k \<longleftrightarrow> list_all (\<lambda>j. j = i \<or> k \<notin> set (held (ws ! j))) [0..<length ws]"

inductive lock_step :: "waiter list \<Rightarrow> waiter list \<Rightarrow> bool" where
  grant: "i < length ws \<Longrightarrow> wanted (ws ! i) = k # ks \<Longrightarrow> grantable ws i k \<Longrightarrow>
    lock_step ws (ws[i := \<lparr>held = held (ws ! i) @ [k], wanted = ks\<rparr>])"
| commit: "i < length ws \<Longrightarrow> wanted (ws ! i) = [] \<Longrightarrow> held (ws ! i) \<noteq> [] \<Longrightarrow>
    lock_step ws (ws[i := \<lparr>held = [], wanted = []\<rparr>])"

text \<open>No transaction can go on, and one is not done.\<close>

definition stuck :: "waiter list \<Rightarrow> bool" where
  "stuck ws \<longleftrightarrow> list_ex (\<lambda>w. wanted w \<noteq> []) ws \<and>
     list_all (\<lambda>i. case wanted (ws ! i) of [] \<Rightarrow> held (ws ! i) = [] | k # ks \<Rightarrow> \<not> grantable ws i k) [0..<length ws]"

inductive_cases lock_stepE: "lock_step ws ws'"

lemma stuckD:
  assumes "stuck ws" and "i < length ws"
  shows "wanted (ws ! i) = [] \<Longrightarrow> held (ws ! i) = []"
    and "wanted (ws ! i) = k # ks \<Longrightarrow> \<exists>j < length ws. j \<noteq> i \<and> k \<in> set (held (ws ! j))"
proof -
  have "case wanted (ws ! i) of [] \<Rightarrow> held (ws ! i) = [] | k # ks \<Rightarrow> \<not> grantable ws i k"
    using assms by (simp add: stuck_def list_all_iff)
  then show "wanted (ws ! i) = [] \<Longrightarrow> held (ws ! i) = []"
    and "wanted (ws ! i) = k # ks \<Longrightarrow> \<exists>j < length ws. j \<noteq> i \<and> k \<in> set (held (ws ! j))"
    by (auto simp: grantable_def list_all_iff)
qed

lemma stuck_no_step: "stuck ws \<Longrightarrow> \<not> lock_step ws ws'"
proof (rule notI, erule lock_stepE)
  fix i k ks assume "stuck ws" "i < length ws" "wanted (ws ! i) = k # ks" "grantable ws i k"
  then show False using stuckD(2) [of ws i k ks] by (auto simp: grantable_def list_all_iff)
qed (use stuckD(1) in blast)

lemma sorted_lock_step:
  assumes "lock_step ws ws'" and "\<forall>w \<in> set ws. sorted_wrt (<) (held w @ wanted w)"
  shows "\<forall>w \<in> set ws'. sorted_wrt (<) (held w @ wanted w)"
  using assms(1)
proof cases
  case (grant i k ks)
  have "sorted_wrt (<) (held (ws ! i) @ wanted (ws ! i))" using assms(2) grant(2) by simp
  then show ?thesis using assms(2) grant by (auto dest!: set_update_subset_insert [THEN subsetD])
next
  case (commit i)
  then show ?thesis using assms(2) by (auto dest!: set_update_subset_insert [THEN subsetD])
qed

lemma sorted_plans_steps:
  assumes "\<forall>ks \<in> set plans. sorted_wrt (<) ks" and "lock_step\<^sup>*\<^sup>* (lockStart plans) ws"
  shows "\<forall>w \<in> set ws. sorted_wrt (<) (held w @ wanted w)"
  using assms(2) by (induction rule: rtranclp_induct) (use assms(1) sorted_lock_step in \<open>auto simp: lockStart_def\<close>)

text \<open>Transactions that lock in the order of the identifiers are never stuck.\<close>

lemma sorted_plans_not_stuck:
  assumes "\<forall>ks \<in> set plans. sorted_wrt (<) ks" and "lock_step\<^sup>*\<^sup>* (lockStart plans) ws"
  shows "\<not> stuck ws"
proof
  assume stuck: "stuck ws"
  note S = sorted_plans_steps [OF assms]
  let ?A = "(\<lambda>w. hd (wanted w)) ` {w \<in> set ws. wanted w \<noteq> []}"
  have fin: "finite ?A" "?A \<noteq> {}" using stuck by (auto simp: stuck_def list_ex_iff)
  then have "Max ?A \<in> ?A" by (rule Max_in)
  then obtain w where w: "w \<in> set ws" "wanted w \<noteq> []" "hd (wanted w) = Max ?A" by force
  then obtain i ks where i: "i < length ws" "wanted (ws ! i) = Max ?A # ks" by (metis in_set_conv_nth list.collapse)
  then obtain j where j: "j < length ws" "Max ?A \<in> set (held (ws ! j))"
    using stuckD(2) [OF stuck i] by blast
  show False
  proof (cases "wanted (ws ! j)")
    case Nil
    then show ?thesis using stuckD(1) [OF stuck j(1)] j(2) by simp
  next
    case (Cons x xs)
    then have "Max ?A < x" using S j by (fastforce simp: sorted_wrt_append)
    moreover have "x \<in> ?A" using Cons j(1) by (intro image_eqI [of _ _ "ws ! j"]) simp_all
    then have "x \<le> Max ?A" using fin(1) by (rule Max_ge [rotated])
    ultimately show False by simp
  qed
qed

subsection \<open>What the operations lock\<close>

text \<open>
  \<open>CreateTransfer\<close>: the source account, then the clearing account of its ledger. A clearing account that does not exist
  is inserted by the transaction, and no other one sees it.
\<close>

definition transferLocks :: "'d Database \<Rightarrow> uuid \<Rightarrow> uuid \<Rightarrow> uuid list" where
  "transferLocks d sourceLedger source =
     source # (case accountByName d sourceLedger clearingName of None \<Rightarrow> [] | Some clearing \<Rightarrow> [clearing])"

text \<open>\<open>processDestinationCreditBatch\<close>: the destinations and clearing accounts of the ready credits, sorted.\<close>

definition creditLocks :: "time \<Rightarrow> nat \<Rightarrow> 'd Database \<Rightarrow> uuid list" where
  "creditLocks t limit d =
     sortedUUIDKeys (concat (map (\<lambda>(ev, sid, r). sr_destinationAccount r #
       (case accountByName d (sr_destinationLedger r) clearingName of None \<Rightarrow> [] | Some clearing \<Rightarrow> [clearing]))
       (readyCredits t limit d)))"

lemma creditLocks_sorted: "sorted_wrt (<) (creditLocks t limit d)"
  by (simp add: creditLocks_def sortedUUIDKeys_def strict_sort)

text \<open>Postings of any kind and destination credits are never stuck together.\<close>

lemma postings_and_credits_not_stuck:
  assumes "\<forall>ks \<in> set plans. (\<exists>p. ks = postingAccounts env p None) \<or> (\<exists>t limit. ks = creditLocks t limit d)"
    and "lock_step\<^sup>*\<^sup>* (lockStart plans) ws"
  shows "\<not> stuck ws"
  by (rule sorted_plans_not_stuck [OF _ assms(2)]) (use assms(1) in \<open>auto simp: postingAccounts_sorted creditLocks_sorted\<close>)

subsection \<open>A deadlock\<close>

text \<open>
  Ledger 8 has a clearing account \<open>2\<close> and an account \<open>3\<close>. A transfer to account \<open>3\<close> waits to be credited while a transfer
  from account \<open>3\<close> is created.
\<close>

definition lockAccounts :: "int Pg" where
  "lockAccounts = pgStart\<lparr>draws := 30, db := emptyDatabase\<lparr>
     accountsT := [(1, \<lparr>ar_ledger = 7, ar_name = ''deposits'', ar_type = LiabilityType, ar_balance = 0\<rparr>),
       (2, \<lparr>ar_ledger = 8, ar_name = clearingName, ar_type = AssetType, ar_balance = 0\<rparr>),
       (3, \<lparr>ar_ledger = 8, ar_name = ''savings'', ar_type = LiabilityType, ar_balance = 0\<rparr>)]\<rparr>\<rparr>"

definition lockOpen :: "int Pg" where
  "lockOpen = fst (PgCreateTransfer pgEnv (transferReq ''k'') lockAccounts)"

definition backReq :: "int TransferRequest" where
  "backReq = \<lparr>SourceLedgerID = ''xxxxxxxx'', SourceAccountID = ''xxx'', DestinationLedgerID = ''xxxxxxx'',
     DestinationAccountID = ''x'', Amount = 10, IdempotencyKey = ''l''\<rparr>"

lemma lockOpen_eq:
  "\<exists>r. PgCreateTransfer pgEnv (transferReq ''k'') lockAccounts = (lockOpen, Inr (r, False))"
  by (simp add: lockOpen_def lockAccounts_def pgStart_def transfer_eval)

lemma lockOpen_runs:
  "\<exists>s r. PgCreateTransfer pgEnv backReq lockOpen = (s, Inr (r, False))"
  "\<exists>s. PgProcessOutbox pgEnv 100 lockOpen = (s, Inr 1)"
proof -
  have "uuidParse pgEnv ''l'' = None" by (simp add: pgEnv_def)
  then show "\<exists>s r. PgCreateTransfer pgEnv backReq lockOpen = (s, Inr (r, False))"
    by (simp add: backReq_def lockOpen_def lockAccounts_def pgStart_def transfer_eval)
  show "\<exists>s. PgProcessOutbox pgEnv 100 lockOpen = (s, Inr 1)"
    by (simp add: lockOpen_def lockAccounts_def pgStart_def transfer_eval credit_eval)
qed

lemma lockOpen_plans:
  "transferLocks (db lockOpen) 8 3 = [3, 2]" "creditLocks 100 100 (db lockOpen) = [2, 3]"
  by (simp_all add: transferLocks_def creditLocks_def lockOpen_def lockAccounts_def pgStart_def transfer_eval credit_eval)

text \<open>
  C20: the locks of \<open>CreateTransfer\<close> are out of order. There are tables, reachable by a transfer, on which a transfer out of
  an account and the worker that credits that account both succeed alone, and on which, run together, each may end up
  waiting for the account the other holds: the transfer locks the source before the clearing account whose
  identifier is smaller, the batch locks them sorted.
\<close>

theorem transfer_and_credits_deadlock:
  "(\<exists>r. PgCreateTransfer pgEnv (transferReq ''k'') lockAccounts = (lockOpen, Inr (r, False))) \<and>
   (\<exists>s r. PgCreateTransfer pgEnv backReq lockOpen = (s, Inr (r, False))) \<and>
   (\<exists>s. PgProcessOutbox pgEnv 100 lockOpen = (s, Inr 1)) \<and>
   (\<exists>ws. lock_step\<^sup>*\<^sup>* (lockStart [transferLocks (db lockOpen) 8 3, creditLocks 100 100 (db lockOpen)]) ws \<and>
      stuck ws \<and> \<not> (\<exists>ws'. lock_step ws ws'))"
proof -
  let ?ws0 = "lockStart [transferLocks (db lockOpen) 8 3, creditLocks 100 100 (db lockOpen)]"
  let ?ws1 = "[\<lparr>held = [3], wanted = [2]\<rparr>, \<lparr>held = [], wanted = [2, 3]\<rparr>]"
  let ?ws2 = "[\<lparr>held = [3], wanted = [2]\<rparr>, \<lparr>held = [2], wanted = [3]\<rparr>]"
  have "lock_step ?ws0 ?ws1"
    using lock_step.grant [of 0 ?ws0 3 "[2]"] by (simp add: lockStart_def grantable_def lockOpen_plans)
  moreover have "lock_step ?ws1 ?ws2"
    using lock_step.grant [of 1 ?ws1 2 "[3]"] by (simp add: grantable_def)
  ultimately have "lock_step\<^sup>*\<^sup>* ?ws0 ?ws2" by auto
  moreover have "stuck ?ws2" by (simp add: stuck_def grantable_def)
  ultimately show ?thesis using lockOpen_eq lockOpen_runs stuck_no_step by blast
qed

end
