(* ===== verification/Db_Queries.thy ===== *)
theory Db_Queries
  imports Pg_Locks Pg_Transfer
begin

text \<open>
  \<open>internal/db/queries.sql.go\<close>, the generated queries, with \<open>models.go\<close>, and the helpers of \<open>postgres_store.go\<close> and
  \<open>postgres_transfer.go\<close> that run one statement each (\<open>insertPostingEntries\<close>, \<open>updatePostingBalances\<close>,
  \<open>ensureSufficientBalance\<close>, \<open>verifyAccountBoundary\<close>).

  The posting path has collapsed these statements: \<open>lockPostingAccounts\<close> checks all accounts with one query and
  \<open>writePosting\<close> writes everything with one command. Here they are run one by one, as the reference for both. An amount
  is passed to a query as the text \<open>Decimal.String\<close> writes, which the column reads back as the same number, so it is
  the number here.
\<close>

subsection \<open>The models\<close>

text \<open>
  \<open>AccountType\<close> and \<open>NullAccountType\<close> of \<open>internal/db/models.go\<close> as a driver sees them: \<open>Scan\<close> reads a value of the driver into
  the variable (\<open>None\<close> is the error, which leaves the type as it was) and \<open>Value\<close> gives one to it.
\<close>

datatype driverValue = NilValue | BytesValue string | StringValue string | OtherValue

fun scanAccountType :: "driverValue \<Rightarrow> string option" where
  "scanAccountType (BytesValue s) = Some s"
| "scanAccountType (StringValue s) = Some s"
| "scanAccountType _ = None"

record NullAccountType =
  na_AccountType :: string
  na_Valid :: bool

definition scanNullAccountType :: "driverValue \<Rightarrow> NullAccountType \<Rightarrow> NullAccountType \<times> bool" where
  "scanNullAccountType src ns =
     (if src = NilValue then (ns\<lparr>na_AccountType := '''', na_Valid := False\<rparr>, True)
      else case scanAccountType src of
          None \<Rightarrow> (ns\<lparr>na_Valid := True\<rparr>, False)
        | Some t \<Rightarrow> (ns\<lparr>na_AccountType := t, na_Valid := True\<rparr>, True))"

definition nullAccountTypeValue :: "NullAccountType \<Rightarrow> driverValue" where
  "nullAccountTypeValue ns = (if na_Valid ns then StringValue (na_AccountType ns) else NilValue)"

text \<open>What was given to the driver is read back: the type when it is valid, and no type otherwise, whatever the variable held.\<close>

lemma scan_value:
  "\<exists>ns'. scanNullAccountType (nullAccountTypeValue ns) old = (ns', True) \<and> na_Valid ns' = na_Valid ns \<and>
     (na_Valid ns \<longrightarrow> ns' = ns) \<and> nullAccountTypeValue ns' = nullAccountTypeValue ns"
  by (cases ns) (simp add: scanNullAccountType_def nullAccountTypeValue_def)

subsection \<open>The queries\<close>

text \<open>\<open>UPDATE idempotency_keys SET transaction_id = $2, status = 'completed' WHERE key = $1\<close>.\<close>

definition completedKey :: "string \<Rightarrow> uuid option \<Rightarrow> 'd Database \<Rightarrow> 'd Database" where
  "completedKey key tid d =
     (case keysT d key of
        None \<Rightarrow> d
      | Some k \<Rightarrow> d\<lparr>keysT := (keysT d)(key \<mapsto> k\<lparr>kr_transaction := tid, kr_status := ''completed''\<rparr>)\<rparr>)"

definition q_CompleteIdempotencyKey :: "('d, 'm) pg_env_scheme \<Rightarrow> string \<Rightarrow> uuid option \<Rightarrow> ('d, unit) act" where
  "q_CompleteIdempotencyKey env key tid =
     bindE (dbCall env ''complete idempotency key'') (\<lambda>_. modifyDb (completedKey key tid))"

definition q_CreateAccount ::
  "('d :: linordered_ab_group_add, 'm) pg_env_scheme \<Rightarrow> string \<Rightarrow> AccountType \<Rightarrow> ('d, uuid) act" where
  "q_CreateAccount env name typ =
     bindE (newID env) (\<lambda>aid. bindE (execDb env ''create account'' (insertAccount aid uuidNil name typ)) (\<lambda>_. returnE aid))"

definition q_CreateEntry ::
  "('d :: linordered_ab_group_add, 'm) pg_env_scheme \<Rightarrow> uuid \<Rightarrow> uuid \<Rightarrow> 'd \<Rightarrow> 'd \<Rightarrow> ('d, uuid) act" where
  "q_CreateEntry env accountID transactionID credit debit =
     bindE (newID env) (\<lambda>aid.
     bindE (timeP env) (\<lambda>t.
     bindE (execDb env ''create entry'' (\<lambda>d.
       bindR (entryRows env t [(aid, accountID, transactionID, credit, debit)]) (\<lambda>rows. insertEntries rows d))) (\<lambda>_.
     returnE aid)))"

text \<open>\<open>INSERT INTO transactions DEFAULT VALUES\<close>: the transaction is one of the default ledger.\<close>

definition q_CreateTransaction :: "('d, 'm) pg_env_scheme \<Rightarrow> ('d, uuid) act" where
  "q_CreateTransaction env =
     bindE (newID env) (\<lambda>aid.
     bindE (timeP env) (\<lambda>t.
     bindE (execDb env ''create transaction'' (insertTransactions t [(aid, uuidNil)])) (\<lambda>_. returnE aid)))"

definition q_GetAccountBalance :: "('d :: linordered_ab_group_add, 'm) pg_env_scheme \<Rightarrow> uuid \<Rightarrow> ('d, 'd) act" where
  "q_GetAccountBalance env aid =
     bindE (dbCall env ''get balance'') (\<lambda>_.
     bindE getDb (\<lambda>d.
     case accountRow d aid of
       None \<Rightarrow> failE NoRows
     | Some a \<Rightarrow> returnE (if ar_type a = AssetType \<or> ar_type a = ExpenseType then ar_balance a else - ar_balance a)))"

definition q_GetAccountEntries :: "('d, 'm) pg_env_scheme \<Rightarrow> uuid \<Rightarrow> time \<Rightarrow> time \<Rightarrow> ('d, 'd EntryRow list) act" where
  "q_GetAccountEntries env accountID from to =
     bindE (dbCall env ''get account entries'') (\<lambda>_. bindE getDb (\<lambda>d. returnE (selectEntries accountID from to d)))"

definition q_GetEntriesByTransactionID :: "('d, 'm) pg_env_scheme \<Rightarrow> uuid \<Rightarrow> ('d, 'd EntryRow list) act" where
  "q_GetEntriesByTransactionID env transactionID =
     bindE (dbCall env ''fetch entries'') (\<lambda>_.
     bindE getDb (\<lambda>d. returnE (filter (\<lambda>r. er_transaction r = transactionID) (entriesT d))))"

definition q_UpdateAccountBalance ::
  "('d :: linordered_ab_group_add, 'm) pg_env_scheme \<Rightarrow> uuid \<Rightarrow> 'd \<Rightarrow> 'd \<Rightarrow> ('d, 'd) act" where
  "q_UpdateAccountBalance env aid x y =
     bindE (execDb env ''update account balance'' (updateBalances env (\<lambda>k. if k = aid then Some (\<lambda>b. b + x - y) else None))) (\<lambda>_.
     bindE getDb (\<lambda>d.
     case accountRow d aid of None \<Rightarrow> failE NoRows | Some a \<Rightarrow> returnE (ar_balance a)))"

text \<open>The methods of the store are what they make of the queries.\<close>

definition mapNoRows :: "'d err \<Rightarrow> ('d, 'a) act \<Rightarrow> ('d, 'a) act" where
  "mapNoRows e m s = (case m s of (s', Inl NoRows) \<Rightarrow> (s', Inl e) | x \<Rightarrow> x)"

lemma store_by_queries:
  "PgCreateAccount env name typ =
     bindE (case ValidateAccount name typ of Some e \<Rightarrow> failE e | None \<Rightarrow> returnE ()) (\<lambda>_.
     bindE (q_CreateAccount env name typ) (\<lambda>aid.
     returnE \<lparr>a_ID = uuidString env aid, a_LedgerID = DefaultLedgerID, a_Name = name, a_Type = typ, a_Balance = 0\<rparr>))"
  "PgGetBalance env accountID =
     (case uuidParse env accountID of
        None \<Rightarrow> failE (InvalidID ''account'' accountID)
      | Some aid \<Rightarrow> mapNoRows (AccountNotFound accountID) (q_GetAccountBalance env aid))"
  "buildTransaction env txID =
     bindE (q_GetEntriesByTransactionID env txID) (\<lambda>rows.
     bindE (timeP env) (\<lambda>t.
     returnE \<lparr>t_ID = uuidString env txID, t_LedgerID = '''', t_Entries = map (entryOfRow env) rows, t_Timestamp = t\<rparr>))"
  "PgGetAccountEntries env accountID params =
     (case uuidParse env accountID of
        None \<Rightarrow> failE (InvalidID ''account'' accountID)
      | Some aid \<Rightarrow>
          bindE (q_GetAccountEntries env aid (From params) (To params)) (\<lambda>rows.
          let (entries, runningBalance) = sumRows env rows 0
          in returnE \<lparr>Entries = entries, RunningBalance = runningBalance\<rparr>))"
  by (rule ext, simp add: PgCreateAccount_def q_CreateAccount_def PgGetBalance_def q_GetAccountBalance_def mapNoRows_def
      buildTransaction_def q_GetEntriesByTransactionID_def PgGetAccountEntries_def q_GetAccountEntries_def bindE_def act_defs
      split: prod.split sum.split option.split)+

subsection \<open>Helpers of one statement\<close>

text \<open>
  The lists of entries and of changes are those of a valid posting, so they are not empty. \<open>t\<close> is the time of the enclosing
  transaction, the default of \<open>created_at\<close>.
\<close>

definition insertPostingEntries ::
  "('d :: linordered_ab_group_add, 'm) pg_env_scheme \<Rightarrow> time \<Rightarrow> uuid \<Rightarrow> 'd postgresEntry list \<Rightarrow> ('d, 'd Entry list) act" where
  "insertPostingEntries env t transactionID entries =
     bindE (mapE (\<lambda>_. newID env) entries) (\<lambda>entryIDs.
     bindE (execDb env ''create entries'' (\<lambda>d.
       bindR (entryRows env t (map (\<lambda>(eid, e). (eid, pe_accountID e, transactionID, Credit (pe_entry e), Debit (pe_entry e))) (zip entryIDs entries)))
         (\<lambda>rows. insertEntries rows d))) (\<lambda>_.
     returnE (map (\<lambda>(eid, e). \<lparr>e_ID = uuidString env eid, e_AccountID = AccountID (pe_entry e),
       e_TransactionID = uuidString env transactionID, e_Credit = Credit (pe_entry e), e_Debit = Debit (pe_entry e)\<rparr>)
       (zip entryIDs entries))))"

definition updatedAccounts :: "'d :: linordered_ab_group_add postingAccountChange list \<Rightarrow> 'd Database \<Rightarrow> nat" where
  "updatedAccounts changes d = length (filter (\<lambda>(k, a). changeUpdate changes k \<noteq> None) (accountsT d))"

definition updatePostingBalances ::
  "('d :: linordered_ab_group_add, 'm) pg_env_scheme \<Rightarrow> 'd postingAccountChange list \<Rightarrow> ('d, unit) act" where
  "updatePostingBalances env changes =
     bindE (execDb env ''update account balances'' (updateBalances env (changeUpdate changes))) (\<lambda>_.
     bindE getDb (\<lambda>d.
     let updated = updatedAccounts changes d
     in if updated \<noteq> length changes then failE (BalancesUpdated updated (length changes)) else returnE ()))"

definition ensureSufficientBalance ::
  "('d :: linordered_ab_group_add, 'm) pg_env_scheme \<Rightarrow> uuid \<Rightarrow> 'd EntryRequest \<Rightarrow> ('d, unit) act" where
  "ensureSufficientBalance env accountID entry =
     bindE (dbCall env ''get account balance for posting'') (\<lambda>_.
     bindE getDb (\<lambda>d.
     case accountRow d accountID of
       None \<Rightarrow> failE (PostingAccountNotFound (uuidString env accountID))
     | Some a \<Rightarrow>
         if displayedBalanceAfter (ar_type a) (ar_balance a) (Debit entry) (Credit entry) < 0
         then failE (InsufficientFundsFor (uuidString env accountID))
         else returnE ()))"

definition verifyAccountBoundary :: "('d, 'm) pg_env_scheme \<Rightarrow> uuid \<Rightarrow> uuid \<Rightarrow> ('d, unit) act" where
  "verifyAccountBoundary env account ledger =
     bindE (dbCall env ''verify account boundary'') (\<lambda>_.
     bindE getDb (\<lambda>d.
     case accountRow d account of
       None \<Rightarrow> failE NoRows
     | Some a \<Rightarrow> if ar_ledger a \<noteq> ledger then failE AccountOutsideLedger else returnE ()))"

subsection \<open>A posting, statement by statement\<close>

text \<open>The checks of \<open>lockPostingAccounts\<close>, account by account.\<close>

definition checkEach ::
  "('d :: linordered_ab_group_add, 'm) pg_env_scheme \<Rightarrow> uuid \<Rightarrow> 'd postingAccountChange list \<Rightarrow> ('d, unit list) act" where
  "checkEach env ledger changes =
     mapE (\<lambda>ch. bindE (verifyAccountBoundary env (ch_accountID ch) ledger) (\<lambda>_.
       ensureSufficientBalance env (ch_accountID ch)
         \<lparr>AccountID = uuidString env (ch_accountID ch), Credit = ch_credit ch, Debit = ch_debit ch\<rparr>)) changes"

text \<open>The writes of \<open>writePosting\<close>, one by one.\<close>

definition writeEach ::
  "('d :: linordered_ab_group_add, 'm) pg_env_scheme \<Rightarrow> uuid \<Rightarrow> uuid \<Rightarrow> string \<Rightarrow> 'd postgresEntry list
     \<Rightarrow> 'd postingAccountChange list \<Rightarrow> ('d, 'd Entry list) act" where
  "writeEach env transactionID ledgerID idempotencyKey entries changes =
     bindE (timeP env) (\<lambda>t.
     bindE (execDb env ''create transaction'' (insertTransactions t [(transactionID, ledgerID)])) (\<lambda>_.
     bindE (insertPostingEntries env t transactionID entries) (\<lambda>ledgerEntries.
     bindE (updatePostingBalances env changes) (\<lambda>_.
     bindE (if idempotencyKey = '''' then returnE () else q_CompleteIdempotencyKey env idempotencyKey (Some transactionID)) (\<lambda>_.
     bindE (newID env) (\<lambda>oid.
     bindE (execDb env ''insert outbox event'' (insertOutbox (postedEvent oid t transactionID))) (\<lambda>_.
     returnE ledgerEntries)))))))"

text \<open>The balance updates of a posting, entry by entry.\<close>

definition updateEach ::
  "('d :: linordered_ab_group_add, 'm) pg_env_scheme \<Rightarrow> 'd postgresEntry list \<Rightarrow> ('d, 'd list) act" where
  "updateEach env entries =
     mapE (\<lambda>e. q_UpdateAccountBalance env (pe_accountID e) (Debit (pe_entry e)) (Credit (pe_entry e))) entries"

subsection \<open>One command for all writes\<close>

lemma execDb_reliable:
  assumes "reliable env"
  shows "execDb env w f s = (case f (db s) of Inl e \<Rightarrow> (s\<lparr>calls := Suc (calls s)\<rparr>, Inl e)
    | Inr d \<Rightarrow> (s\<lparr>calls := Suc (calls s), db := d\<rparr>, Inr ()))"
  using assms by (simp add: execDb_def bindE_def act_defs reliable_def split: sum.split)

lemma mapE_newID:
  "mapE (\<lambda>_. newID env) xs s =
     (s\<lparr>draws := draws s + length xs\<rparr>, Inr (map (drawUUID env) [draws s..<draws s + length xs]))"
proof (induction xs arbitrary: s)
  case (Cons x xs)
  show ?case by (simp add: Cons.IH bindE_def [of "mapE _ _"] returnE_def upt_conv_Cons del: upt_Suc)
qed (simp add: returnE_def)

lemma insertOutbox_keys:
  "insertOutbox row (d\<lparr>keysT := m\<rparr>) = map_sum id (\<lambda>d'. d'\<lparr>keysT := m\<rparr>) (insertOutbox row d)"
  by (simp add: insertOutbox_def)

lemma insertOutbox_completedKey:
  "insertOutbox row (completedKey key tid d) = bindR (insertOutbox row d) (\<lambda>d'. Inr (completedKey key tid d'))"
  by (cases "keysT d key") (simp_all add: completedKey_def insertOutbox_def)

text \<open>An \<open>UPDATE\<close> of distinct accounts that all exist changes as many rows as there are changes.\<close>

lemma updatedAccounts_all:
  assumes "distinct (map fst (accountsT d))" and "distinct (map ch_accountID changes)"
    and "\<forall>ch \<in> set changes. accountRow d (ch_accountID ch) \<noteq> None"
  shows "updatedAccounts changes d = length changes"
proof -
  let ?rows = "filter (\<lambda>(k, a). changeUpdate changes k \<noteq> None) (accountsT d)"
  have "set (map fst ?rows) = ch_accountID ` set changes"
  proof (intro equalityI subsetI)
    fix k assume "k \<in> set (map fst ?rows)"
    then show "k \<in> ch_accountID ` set changes" by (auto simp: changeUpdate_def find_Some_iff)
  next
    fix k assume "k \<in> ch_accountID ` set changes"
    then obtain ch where ch: "ch \<in> set changes" "ch_accountID ch = k" by auto
    then obtain a where "(k, a) \<in> set (accountsT d)" using assms(3) by (force dest: map_of_SomeD)
    moreover have "changeUpdate changes k \<noteq> None" using ch by (auto simp: changeUpdate_def find_None_iff)
    ultimately show "k \<in> set (map fst ?rows)" by force
  qed
  moreover have "distinct (map fst ?rows)" using assms(1) by (rule distinct_map_filter)
  ultimately have "length (map fst ?rows) = card (ch_accountID ` set changes)" by (metis distinct_card)
  also have "\<dots> = length (map ch_accountID changes)" using assms(2) by (metis distinct_card list.set_map)
  finally show ?thesis by (simp add: updatedAccounts_def)
qed

lemma bindR_assoc: "bindR (bindR r f) g = bindR r (\<lambda>x. bindR (f x) g)"
  by (cases r) simp_all

lemma completeKey_completedKey: "key \<noteq> '''' \<Longrightarrow> completeKey key tid d = completedKey key (Some tid) d"
  by (simp add: completeKey_def completedKey_def)

lemma completeKey_empty [simp]: "completeKey '''' tid d = d"
  by (simp add: completeKey_def)

text \<open>What a posting writes, as a statement; \<open>oid\<close> and \<open>ids\<close> are the identifiers of the event and of the entries.\<close>

definition postingWrites ::
  "('d :: linordered_ab_group_add, 'm) pg_env_scheme \<Rightarrow> time \<Rightarrow> uuid list \<Rightarrow> uuid \<Rightarrow> uuid \<Rightarrow> uuid \<Rightarrow> string \<Rightarrow> 'd postgresEntry list
     \<Rightarrow> 'd postingAccountChange list \<Rightarrow> 'd statement" where
  "postingWrites env t ids oid tid ledger key ps changes d =
     bindR (postStatement env t [(tid, ledger)] (postingVals ids tid ps) (changeUpdate changes) [oid] d) (\<lambda>d. Inr (completeKey key tid d))"

lemma writePosting_run:
  assumes "reliable env"
  defines "ids \<equiv> \<lambda>s ps. map (drawUUID env) [draws s..<draws s + length ps]"
  shows "snd (writePosting env tid ledger key ps changes s) =
      bindR (postingWrites env (readClock env (ticks s)) (ids s ps) (drawUUID env (draws s + length ps)) tid ledger key ps changes (db s))
        (\<lambda>_. Inr (map (batchEntry env tid) (zip (ids s ps) ps)))"
    and "snd (writePosting env tid ledger key ps changes s) = Inr les \<Longrightarrow>
      postingWrites env (readClock env (ticks s)) (ids s ps) (drawUUID env (draws s + length ps)) tid ledger key ps changes (db s)
        = Inr (db (fst (writePosting env tid ledger key ps changes s)))"
  unfolding writePosting_def ids_def
  by (auto simp: bindE_def [of "mapE _ _"] bindE_def [of "execDb _ _ _"] mapE_newID execDb_reliable [OF assms(1)] postingWrites_def
      postingVals_def batchEntry_def returnE_def bindR_def split: sum.splits)

lemma postingWrites_each:
  assumes "distinct (map fst (accountsT d))" and "distinct (map ch_accountID changes)"
    and "\<forall>ch \<in> set changes. accountRow d (ch_accountID ch) \<noteq> None"
  shows "postingWrites env t ids oid tid ledger key ps changes d =
    bindR (insertTransactions t [(tid, ledger)] d) (\<lambda>d1.
    bindR (bindR (entryRows env t (postingVals ids tid ps)) (\<lambda>rows. insertEntries rows d1)) (\<lambda>d2.
    bindR (updateBalances env (changeUpdate changes) d2) (\<lambda>d3.
    bindR (if updatedAccounts changes d3 \<noteq> length changes then Inl (BalancesUpdated (updatedAccounts changes d3) (length changes)) else Inr ()) (\<lambda>_.
    insertOutbox (postedEvent oid t tid) (if key = '''' then d3 else completedKey key (Some tid) d3)))))"
proof -
  have upd: "updatedAccounts changes d3 = length changes"
    if 1: "insertTransactions t [(tid, ledger)] d = Inr d1" and 2: "insertEntries rows d1 = Inr d2"
      and 3: "updateBalances env (changeUpdate changes) d2 = Inr d3" for d1 rows d2 d3
  proof -
    have "accountsT d2 = accountsT d"
      using 1 2 by (auto simp: insertEntries_def split: if_splits)
    then have "map fst (accountsT d3) = map fst (accountsT d)"
      using 3 updateRows_Inr(1) by (fastforce simp: updateBalances_def bindR_Inr)
    moreover from this have "accountRow d3 k \<noteq> None" if "accountRow d k \<noteq> None" for k
      using that by (metis list.set_map map_of_eq_None_iff)
    ultimately show ?thesis using assms by (intro updatedAccounts_all) auto
  qed
  have key: "bindR (insertOutbox row d3) (\<lambda>d. Inr (completeKey key tid d)) =
      insertOutbox row (if key = '''' then d3 else completedKey key (Some tid) d3)" for row d3
  proof (cases "key = ''''")
    case True
    then show ?thesis by (cases "insertOutbox row d3") simp_all
  qed (simp add: insertOutbox_completedKey completeKey_completedKey)
  show ?thesis
  proof (cases "insertTransactions t [(tid, ledger)] d")
    case t: (Inr d1)
    show ?thesis
    proof (cases "bindR (entryRows env t (postingVals ids tid ps)) (\<lambda>rows. insertEntries rows d1)")
      case Inl
      then show ?thesis using t by (auto simp: postingWrites_def postStatement_def bindR_def split: sum.splits)
    next
      case e: (Inr d2)
      then obtain rows where rows: "entryRows env t (postingVals ids tid ps) = Inr rows" "insertEntries rows d1 = Inr d2"
        by (auto simp: bindR_Inr)
      show ?thesis
      proof (cases "updateBalances env (changeUpdate changes) d2")
        case u: (Inr d3)
        have "insertOutboxes [postedEvent oid t tid] d3 = insertOutbox (postedEvent oid t tid) d3"
          by (cases "insertOutbox (postedEvent oid t tid) d3") simp_all
        then show ?thesis
          using t rows u upd [OF t rows(2) u] key [of "postedEvent oid t tid" d3]
          by (simp add: postingWrites_def postStatement_def del: insertTransactions.simps insertOutboxes.simps)
      qed (use t rows in \<open>simp add: postingWrites_def postStatement_def del: insertTransactions.simps\<close>)
    qed
  qed (simp add: postingWrites_def postStatement_def del: insertTransactions.simps)
qed

text \<open>The entries as \<open>insertPostingEntries\<close> answers them: with the account as the client wrote it.\<close>

definition echoedEntry :: "('d, 'm) pg_env_scheme \<Rightarrow> uuid \<Rightarrow> uuid \<times> 'd postgresEntry \<Rightarrow> 'd Entry" where
  "echoedEntry env tid p = (batchEntry env tid p)\<lparr>e_AccountID := AccountID (pe_entry (snd p))\<rparr>"

definition canonicalAccounts :: "('d, 'm) pg_env_scheme \<Rightarrow> 'd postgresEntry list \<Rightarrow> 'd Entry list \<Rightarrow> 'd Entry list" where
  "canonicalAccounts env ps les = map (\<lambda>(p, e). e\<lparr>e_AccountID := uuidString env (pe_accountID p)\<rparr>) (zip ps les)"

lemma canonicalAccounts_echoed:
  "length ids = length ps \<Longrightarrow> canonicalAccounts env ps (map (echoedEntry env tid) (zip ids ps)) = map (batchEntry env tid) (zip ids ps)"
  by (rule nth_equalityI) (auto simp: canonicalAccounts_def echoedEntry_def batchEntry_def split: prod.split)

lemma map_sum_bindR: "map_sum id f (bindR r g) = bindR r (\<lambda>x. map_sum id f (g x))"
  by (cases r) simp_all

lemma writeEach_run:
  assumes "reliable env"
  defines "ids \<equiv> \<lambda>s ps. map (drawUUID env) [draws s..<draws s + length ps]"
  shows "snd (writeEach env tid ledger key ps changes s) =
    bindR (insertTransactions (readClock env (ticks s)) [(tid, ledger)] (db s)) (\<lambda>d1.
    bindR (bindR (entryRows env (readClock env (ticks s)) (postingVals (ids s ps) tid ps)) (\<lambda>rows. insertEntries rows d1)) (\<lambda>d2.
    bindR (updateBalances env (changeUpdate changes) d2) (\<lambda>d3.
    bindR (if updatedAccounts changes d3 \<noteq> length changes then Inl (BalancesUpdated (updatedAccounts changes d3) (length changes)) else Inr ()) (\<lambda>_.
    bindR (insertOutbox (postedEvent (drawUUID env (draws s + length ps)) (readClock env (ticks s)) tid)
      (if key = '''' then d3 else completedKey key (Some tid) d3)) (\<lambda>_.
    Inr (map (echoedEntry env tid) (zip (ids s ps) ps)))))))"
    and "snd (writeEach env tid ledger key ps changes s) = Inr les \<Longrightarrow>
    bindR (insertTransactions (readClock env (ticks s)) [(tid, ledger)] (db s)) (\<lambda>d1.
    bindR (bindR (entryRows env (readClock env (ticks s)) (postingVals (ids s ps) tid ps)) (\<lambda>rows. insertEntries rows d1)) (\<lambda>d2.
    bindR (updateBalances env (changeUpdate changes) d2) (\<lambda>d3.
    bindR (if updatedAccounts changes d3 \<noteq> length changes then Inl (BalancesUpdated (updatedAccounts changes d3) (length changes)) else Inr ()) (\<lambda>_.
    insertOutbox (postedEvent (drawUUID env (draws s + length ps)) (readClock env (ticks s)) tid)
      (if key = '''' then d3 else completedKey key (Some tid) d3)))))
    = Inr (db (fst (writeEach env tid ledger key ps changes s)))"
  unfolding writeEach_def insertPostingEntries_def updatePostingBalances_def q_CompleteIdempotencyKey_def ids_def
  using assms(1)
  by (auto simp: bindE_assoc bindE_def mapE_newID execDb_reliable [OF assms(1)] dbCall_def modifyDb_def newID_def timeP_def getDb_def failE_def reliable_def
      postingVals_def echoedEntry_def batchEntry_def returnE_def bindR_def simp del: insertTransactions.simps split: sum.splits if_splits)

subsection \<open>One query for all checks\<close>

lemma scanPostingRows_accepts:
  "\<forall>(k, a) \<in> set rows. \<exists>ch. changes k = Some ch \<and>
      0 \<le> displayedBalanceAfter (ar_type a) (ar_balance a) (ch_debit ch) (ch_credit ch) \<and> ar_ledger a = ledger \<Longrightarrow>
    found = 0 \<or> l = ledger \<Longrightarrow>
    scanPostingRows env changes rows l found = Inr (if rows = [] then l else ledger, found + length rows)"
  by (induction env changes rows l found rule: scanPostingRows.induct) (auto simp: not_less)

lemma lockPostingAccounts_accepts:
  assumes "reliable env" and "ps \<noteq> []" and cov: "coverable (db s) ledger ps"
  shows "\<exists>s1. lockPostingAccounts env ps s = (s1, Inr (ledger, sortedChanges ps))"
proof -
  let ?rows = "selectAccounts (db s) (changeIDs ps)"
  have len: "length ?rows = length (changeIDs ps)" using cov by (force simp: length_selectAccounts(2) coverable_def)
  have ne: "?rows \<noteq> []" using len assms(2) by (auto simp: changeIDs_def)
  have "scanPostingRows env (changesByID ps) ?rows uuidNil 0 = Inr (if ?rows = [] then uuidNil else ledger, 0 + length ?rows)"
    by (rule scanPostingRows_accepts) (use cov in \<open>force simp: selectAccounts_set coverable_def changesByID_eq\<close>)+
  then show ?thesis
    using assms(1) ne len
    by (simp add: lockPostingAccounts_def Let_def bindE_def dbCall_def reliable_def getDb_def liftE_def returnE_def)
qed

text \<open>Checking account by account.\<close>

lemma checkEach_accepts:
  assumes "reliable env"
  shows "(\<exists>s1 us. checkEach env ledger chs s = (s1, Inr us)) \<longleftrightarrow>
    (\<forall>ch \<in> set chs. \<exists>a. accountRow (db s) (ch_accountID ch) = Some a \<and> ar_ledger a = ledger \<and>
      0 \<le> displayedBalanceAfter (ar_type a) (ar_balance a) (ch_debit ch) (ch_credit ch))"
proof (induction chs arbitrary: s)
  case Nil
  then show ?case by (simp add: checkEach_def returnE_def)
next
  case (Cons ch chs)
  let ?check = "\<lambda>ch. bindE (verifyAccountBoundary env (ch_accountID ch) ledger) (\<lambda>_.
       ensureSufficientBalance env (ch_accountID ch)
         \<lparr>AccountID = uuidString env (ch_accountID ch), Credit = ch_credit ch, Debit = ch_debit ch\<rparr>)"
  let ?ok = "\<exists>a. accountRow (db s) (ch_accountID ch) = Some a \<and> ar_ledger a = ledger \<and>
      0 \<le> displayedBalanceAfter (ar_type a) (ar_balance a) (ch_debit ch) (ch_credit ch)"
  let ?s = "s\<lparr>calls := Suc (Suc (calls s))\<rparr>"
  have yes: "?check ch s = (?s, Inr ())" if ?ok
    using that assms by (auto simp: verifyAccountBoundary_def ensureSufficientBalance_def bindE_def act_defs reliable_def not_less)
  have no: "\<exists>s1 e. ?check ch s = (s1, Inl e)" if "\<not> ?ok"
    using that assms by (auto simp: verifyAccountBoundary_def ensureSufficientBalance_def bindE_def act_defs reliable_def not_less
        split: option.splits)
  show ?case
  proof (cases ?ok)
    case True
    have go: "(\<exists>s1 us. mapE f (ch # chs) s = (s1, Inr us)) \<longleftrightarrow> (\<exists>s1 us. mapE f chs ?s = (s1, Inr us))" if "f ch s = (?s, Inr ())" for f
      using that by (auto simp: bindE_Inr returnE_def)
    have "(\<exists>s1 us. checkEach env ledger (ch # chs) s = (s1, Inr us)) \<longleftrightarrow> (\<exists>s1 us. checkEach env ledger chs ?s = (s1, Inr us))"
      unfolding checkEach_def by (rule go) (rule yes [OF True])
    then show ?thesis using Cons.IH [of ?s] True by simp
  next
    case False
    then obtain s1 e where e: "?check ch s = (s1, Inl e)" using no by blast
    have stop: "\<not> (\<exists>s1 us. mapE f (ch # chs) s = (s1, Inr us))" if "f ch s = (s1, Inl e)" for f :: "'a postingAccountChange \<Rightarrow> ('a, unit) act"
      using that by (auto simp: bindE_Inr)
    have "\<not> (\<exists>s1 us. checkEach env ledger (ch # chs) s = (s1, Inr us))"
      unfolding checkEach_def by (rule stop) (rule e)
    then show ?thesis using False by simp
  qed
qed

lemma checkEach_coverable:
  "reliable env \<Longrightarrow> (\<exists>s1 us. checkEach env ledger (sortedChanges ps) s = (s1, Inr us)) \<longleftrightarrow> coverable (db s) ledger ps"
  by (subst checkEach_accepts) (auto simp: sortedChanges_eq changeIDs_def coverable_def)

text \<open>What updating entry by entry does.\<close>

lemma q_UpdateAccountBalance_Inr:
  assumes "q_UpdateAccountBalance env k x y s = (s', Inr b)"
  shows "updateRows env (\<lambda>k'. if k' = k then Some (\<lambda>b. b + x - y) else None) (accountsT (db s)) = Inr (accountsT (db s'))"
    and "db s' = (db s)\<lparr>accountsT := accountsT (db s')\<rparr>" and "\<exists>a. accountRow (db s) k = Some a"
proof -
  let ?upd = "\<lambda>k'. if k' = k then Some (\<lambda>b. b + x - y) else None"
  obtain d rows where "updateRows env ?upd (accountsT (db s)) = Inr rows" "db s' = (db s)\<lparr>accountsT := rows\<rparr>" "accountRow (db s') k \<noteq> None"
    using assms unfolding q_UpdateAccountBalance_def
    by (auto simp: bindE_Inr execDb_Inr updateBalances_def bindR_Inr getDb_def failE_def returnE_def split: option.splits)
  then show "updateRows env ?upd (accountsT (db s)) = Inr (accountsT (db s'))" "db s' = (db s)\<lparr>accountsT := accountsT (db s')\<rparr>"
    "\<exists>a. accountRow (db s) k = Some a"
    using updateRows_Inr(2) [of env ?upd "accountsT (db s)" rows k] by (auto split: option.splits)
qed

lemma updateEach_rows:
  assumes "numeric_ok env" and "updateEach env ps s = (s', Inr bs)" and "request_cents env (map pe_entry ps)"
    and "\<forall>k a. accountRow (db s) k = Some a \<longrightarrow> cents env (ar_balance a)"
  shows "map fst (accountsT (db s')) = map fst (accountsT (db s)) \<and> db s' = (db s)\<lparr>accountsT := accountsT (db s')\<rparr> \<and>
    (\<forall>k \<in> pe_accountID ` set ps. accountRow (db s) k \<noteq> None) \<and>
    (\<forall>k a. accountRow (db s) k = Some a \<longrightarrow>
      accountRow (db s') k = Some (a\<lparr>ar_balance := ar_balance a + (entriesDebit k ps - entriesCredit k ps)\<rparr>) \<and>
      (k \<in> pe_accountID ` set ps \<longrightarrow> numeric env (ar_balance a + (entriesDebit k ps - entriesCredit k ps)) \<noteq> None))"
  using assms(2-)
proof (induction ps arbitrary: s bs)
  case Nil
  then show ?case by (simp add: updateEach_def returnE_def)
next
  case (Cons p ps)
  let ?k = "pe_accountID p" and ?x = "Debit (pe_entry p)" and ?y = "Credit (pe_entry p)"
  let ?upd = "\<lambda>k'. if k' = ?k then Some (\<lambda>b. b + ?x - ?y) else None"
  from Cons.prems(1) obtain s1 b bs1 where q: "q_UpdateAccountBalance env ?k ?x ?y s = (s1, Inr b)"
    and rest: "updateEach env ps s1 = (s', Inr bs1)"
    by (auto simp: updateEach_def bindE_Inr returnE_def)
  note Q = q_UpdateAccountBalance_Inr [OF q]
  have cents: "cents env ?x" "cents env ?y" "request_cents env (map pe_entry ps)"
    using Cons.prems(2) by (auto simp: request_cents_def)
  have row: "accountRow (db s1) k = Some (a\<lparr>ar_balance := ar_balance a + (if k = ?k then ?x - ?y else 0)\<rparr>) \<and>
      (k = ?k \<longrightarrow> numeric env (ar_balance a + (?x - ?y)) \<noteq> None) \<and> cents env (ar_balance a + (if k = ?k then ?x - ?y else 0))"
    if a: "accountRow (db s) k = Some a" for k a
  proof (cases "k = ?k")
    case True
    have c: "cents env (ar_balance a + ?x - ?y)"
      using Cons.prems(3) a cents numeric_okD(2,3) [OF assms(1)] by blast
    obtain y where y: "numeric env (ar_balance a + ?x - ?y) = Some y"
      using updateRows_Inr(3) [OF Q(1) a, of "\<lambda>b. b + ?x - ?y"] True by auto
    then have "y = ar_balance a + ?x - ?y" using numeric_okD(5) [OF assms(1) y c] by simp
    then show ?thesis using updateRows_Inr(2) [OF Q(1), of k] a True y c by (simp add: algebra_simps)
  next
    case False
    then show ?thesis using updateRows_Inr(2) [OF Q(1), of k] a Cons.prems(3) by simp
  qed
  have fst1: "map fst (accountsT (db s1)) = map fst (accountsT (db s))" by (rule updateRows_Inr(1) [OF Q(1)])
  have known: "\<exists>a. accountRow (db s) k = Some a" if "accountRow (db s1) k = Some a1" for k a1
    using that fst1 by (metis list.set_map map_of_eq_None_iff not_None_eq)
  have "\<forall>k a. accountRow (db s1) k = Some a \<longrightarrow> cents env (ar_balance a)"
  proof (intro allI impI)
    fix k a1 assume a1: "accountRow (db s1) k = Some a1"
    obtain a where "accountRow (db s) k = Some a" using known [OF a1] by blast
    from row [OF this] a1 show "cents env (ar_balance a1)" by auto
  qed
  note I = Cons.IH [OF rest cents(3) this]
  show ?case
  proof (intro conjI)
    show "map fst (accountsT (db s')) = map fst (accountsT (db s))" using I fst1 by simp
    have d1: "db s1 = (db s)\<lparr>accountsT := accountsT (db s1)\<rparr>" "db s' = (db s1)\<lparr>accountsT := accountsT (db s')\<rparr>"
      using Q(2) I by blast+
    show "db s' = (db s)\<lparr>accountsT := accountsT (db s')\<rparr>" by (subst d1(2), subst d1(1)) simp
    show "\<forall>k \<in> pe_accountID ` set (p # ps). accountRow (db s) k \<noteq> None"
      using Q(3) I known by fastforce
    show "\<forall>k a. accountRow (db s) k = Some a \<longrightarrow>
      accountRow (db s') k = Some (a\<lparr>ar_balance := ar_balance a + (entriesDebit k (p # ps) - entriesCredit k (p # ps))\<rparr>) \<and>
      (k \<in> pe_accountID ` set (p # ps) \<longrightarrow> numeric env (ar_balance a + (entriesDebit k (p # ps) - entriesCredit k (p # ps))) \<noteq> None)"
    proof (intro allI impI)
      fix k a assume a: "accountRow (db s) k = Some a"
      note R = row [OF a]
      have I4: "accountRow (db s') k = Some (a1\<lparr>ar_balance := ar_balance a1 + (entriesDebit k ps - entriesCredit k ps)\<rparr>) \<and>
          (k \<in> pe_accountID ` set ps \<longrightarrow> numeric env (ar_balance a1 + (entriesDebit k ps - entriesCredit k ps)) \<noteq> None)"
        if "accountRow (db s1) k = Some a1" for a1 using I that by blast
      let ?n = "entriesDebit k ps - entriesCredit k ps" and ?m = "if k = ?k then ?x - ?y else 0"
      have eq: "ar_balance a + (entriesDebit k (p # ps) - entriesCredit k (p # ps)) = ar_balance a + ?m + ?n"
        by (simp add: algebra_simps)
      have J: "accountRow (db s') k = Some (a\<lparr>ar_balance := ar_balance a + ?m + ?n\<rparr>)"
        "k \<in> pe_accountID ` set ps \<longrightarrow> numeric env (ar_balance a + ?m + ?n) \<noteq> None"
        using I4 [OF R [THEN conjunct1]] by simp_all
      moreover have "numeric env (ar_balance a + ?m + ?n) \<noteq> None" if "k = ?k" "k \<notin> pe_accountID ` set ps"
        using R that by (simp add: entriesSums_notin)
      ultimately show "accountRow (db s') k = Some (a\<lparr>ar_balance := ar_balance a + (entriesDebit k (p # ps) - entriesCredit k (p # ps))\<rparr>) \<and>
        (k \<in> pe_accountID ` set (p # ps) \<longrightarrow> numeric env (ar_balance a + (entriesDebit k (p # ps) - entriesCredit k (p # ps))) \<noteq> None)"
        unfolding eq by auto
    qed
  qed
qed

lemma same_rows:
  assumes "map fst xs = map fst ys" and "distinct (map fst xs)" and "\<And>k. map_of xs k = map_of ys k"
  shows "xs = ys"
proof (rule nth_equalityI)
  show len: "length xs = length ys" using assms(1) by (metis length_map)
  fix i assume i: "i < length xs"
  then have "fst (xs ! i) = fst (ys ! i)" using len assms(1) by (metis nth_map)
  moreover have "map_of xs (fst (xs ! i)) = Some (snd (xs ! i))" "map_of ys (fst (ys ! i)) = Some (snd (ys ! i))"
    using assms(1,2) i len by (auto intro!: map_of_is_SomeI)
  ultimately show "xs ! i = ys ! i" using assms(3) by (metis option.inject prod.collapse)
qed

lemma updateRows_total:
  "(\<And>k a f. (k, a) \<in> set rows \<Longrightarrow> upd k = Some f \<Longrightarrow> numeric env (f (ar_balance a)) \<noteq> None) \<Longrightarrow> \<exists>rows'. updateRows env upd rows = Inr rows'"
proof (induction env upd rows rule: updateRows.induct)
  case (2 env upd k a rows)
  show ?case
  proof (cases "upd k")
    case None
    then show ?thesis using 2 by fastforce
  next
    case (Some f)
    then obtain b where "numeric env (f (ar_balance a)) = Some b" using 2(3) by fastforce
    then show ?thesis using 2(2) [OF Some] 2(3) Some by fastforce
  qed
qed simp

lemma updateEach_aggregated:
  assumes "numeric_ok env" and books: "pg_books env (db s)" and "request_cents env (map pe_entry ps)"
    and "updateEach env ps s = (s', Inr bs)"
  shows "updateBalances env (changeUpdate (sortedChanges ps)) (db s) = Inr (db s')"
proof -
  have c: "\<forall>k a. accountRow (db s) k = Some a \<longrightarrow> cents env (ar_balance a)" using pg_booksD(2) [OF books] by blast
  note U = updateEach_rows [OF assms(1,4,3) c]
  have dist: "distinct (map fst (accountsT (db s)))" using books by (simp add: pg_books_def)
  let ?upd = "changeUpdate (sortedChanges ps)"
  have row: "accountRow (db s) k = Some a" if "(k, a) \<in> set (accountsT (db s))" for k a
    using that dist by (rule map_of_is_SomeI [rotated])
  have "\<exists>rows'. updateRows env ?upd (accountsT (db s)) = Inr rows'"
  proof (rule updateRows_total)
    fix k a f assume "(k, a) \<in> set (accountsT (db s))" "?upd k = Some f"
    then show "numeric env (f (ar_balance a)) \<noteq> None"
      using U row by (auto simp: changeUpdate_sorted algebra_simps split: if_splits)
  qed
  then obtain rows where rows: "updateRows env ?upd (accountsT (db s)) = Inr rows" by blast
  have "map_of rows k = accountRow (db s') k" for k
  proof (cases "accountRow (db s) k")
    case None
    then have "accountRow (db s') k = None" using U by (metis list.set_map map_of_eq_None_iff)
    then show ?thesis using updateRows_Inr(2) [OF rows, of k] None by simp
  next
    case (Some a)
    let ?b = "ar_balance a + (entriesDebit k ps - entriesCredit k ps)"
    have s': "accountRow (db s') k = Some (a\<lparr>ar_balance := ?b\<rparr>)" and num: "k \<in> pe_accountID ` set ps \<Longrightarrow> numeric env ?b \<noteq> None"
      using U Some by blast+
    show ?thesis
    proof (cases "k \<in> pe_accountID ` set ps")
      case True
      have "cents env (entriesDebit k ps - entriesCredit k ps)"
        unfolding entriesDebit_def entriesCredit_def
        by (intro numeric_okD(3) [OF assms(1)] cents_sum_list [OF assms(1)])
          (use assms(3) numeric_okD(1) [OF assms(1)] in \<open>auto simp: request_cents_def\<close>)
      then have "cents env ?b" using c Some numeric_okD(2) [OF assms(1)] by blast
      then have "numeric env ?b = Some ?b" using num [OF True] numeric_okD(5) [OF assms(1)] by fastforce
      then show ?thesis using updateRows_Inr(2) [OF rows, of k] Some True s' by (simp add: changeUpdate_sorted algebra_simps)
    next
      case False
      then show ?thesis using updateRows_Inr(2) [OF rows, of k] Some s' by (simp add: changeUpdate_sorted entriesSums_notin)
    qed
  qed
  moreover have "map fst rows = map fst (accountsT (db s'))" using updateRows_Inr(1) [OF rows] U by simp
  ultimately have "rows = accountsT (db s')"
    using dist updateRows_Inr(1) [OF rows] by (intro same_rows) simp_all
  moreover have "db s' = (db s)\<lparr>accountsT := accountsT (db s')\<rparr>" using U by blast
  ultimately show ?thesis using rows by (simp add: updateBalances_def)
qed

subsection \<open>Properties\<close>

text \<open>
  C18: \<open>writePosting\<close>, which collapses the writes of a posting into one command, has the result of the single statements:
  insert the transaction, insert its entries (\<open>insertPostingEntries\<close>), update the balances
  (\<open>updatePostingBalances\<close>), complete the key (\<open>CompleteIdempotencyKey\<close>), insert the event. With accounts that all
  exist, both succeed or break the same constraint, and leave the same tables; the entries in the answer are the same but that
  \<open>writePosting\<close> writes the identifier of an account in its canonical form where the older helper echoes the text of the client.
\<close>

theorem writePosting_collapses:
  assumes "reliable env" and "distinct (map fst (accountsT (db s)))" and "distinct (map ch_accountID changes)"
    and "\<forall>ch \<in> set changes. accountRow (db s) (ch_accountID ch) \<noteq> None"
  shows "snd (writePosting env tid ledger key ps changes s) = map_sum id (canonicalAccounts env ps) (snd (writeEach env tid ledger key ps changes s)) \<and>
    (case snd (writePosting env tid ledger key ps changes s) of
       Inl e \<Rightarrow> True
     | Inr les \<Rightarrow> db (fst (writePosting env tid ledger key ps changes s)) = db (fst (writeEach env tid ledger key ps changes s)))"
proof -
  note W = writePosting_run [OF assms(1), of tid ledger key ps changes s] and E = writeEach_run [OF assms(1), of tid ledger key ps changes s]
  note P = postingWrites_each [OF assms(2-4)]
  have same: "snd (writePosting env tid ledger key ps changes s) =
      map_sum id (canonicalAccounts env ps) (snd (writeEach env tid ledger key ps changes s))"
    unfolding W(1) E(1) P bindR_assoc map_sum_bindR by (simp add: canonicalAccounts_echoed)
  show ?thesis
  proof (cases "snd (writeEach env tid ledger key ps changes s)")
    case (Inr les)
    then have w: "snd (writePosting env tid ledger key ps changes s) = Inr (canonicalAccounts env ps les)" using same by simp
    have "db (fst (writePosting env tid ledger key ps changes s)) = db (fst (writeEach env tid ledger key ps changes s))"
      using trans [OF W(2) [OF w, symmetric, unfolded P] E(2) [OF Inr]] by (rule sum.inject(2) [THEN iffD1])
    then show ?thesis by (intro conjI same) (simp add: w)
  qed (simp add: same)
qed

definition pgPrepared :: "int postgresEntry list" where
  "pgPrepared = [\<lparr>pe_accountID = 1, pe_entry = pgRequest ! 0\<rparr>, \<lparr>pe_accountID = 2, pe_entry = pgRequest ! 1\<rparr>]"

lemma pgPrepared_changes:
  "sortedChanges pgPrepared = [\<lparr>ch_accountID = 1, ch_debit = 100, ch_credit = 0\<rparr>, \<lparr>ch_accountID = 2, ch_debit = 0, ch_credit = 100\<rparr>]"
  by (simp add: sortedChanges_eq changeIDs_def pgPrepared_def pgRequest_def)

lemma pgEnv_reliable: "reliable pgEnv"
  by (simp add: reliable_def pgEnv_def)

theorem writePosting_collapses_witness:
  "\<exists>les. snd (writeEach pgEnv 99 7 ''k'' pgPrepared (sortedChanges pgPrepared) pgStart) = Inr les \<and>
     length (canonicalAccounts pgEnv pgPrepared les) = 2 \<and>
     map (\<lambda>(k, a). (k, ar_balance a)) (accountsT (db (fst (writeEach pgEnv 99 7 ''k'' pgPrepared (sortedChanges pgPrepared) pgStart))))
       = [(1, 100), (2, -100)]"
proof -
  let ?w = "writePosting pgEnv 99 7 ''k'' pgPrepared (sortedChanges pgPrepared) pgStart"
  have w: "\<exists>les. snd ?w = Inr les \<and> length les = 2"
    "map (\<lambda>(k, a). (k, ar_balance a)) (accountsT (db (fst ?w))) = [(1, 100), (2, -100)]"
    by (simp_all add: pgPrepared_changes) (simp_all add: pgPrepared_def pgStart_def pgRequest_def pg_eval)
  have "distinct (map fst (accountsT (db pgStart)))" "distinct (map ch_accountID (sortedChanges pgPrepared))"
    "\<forall>ch \<in> set (sortedChanges pgPrepared). accountRow (db pgStart) (ch_accountID ch) \<noteq> None"
    by (simp_all add: pgPrepared_changes pgStart_def)
  note C = writePosting_collapses [OF pgEnv_reliable this, of 99 7 "''k''" pgPrepared]
  obtain les where les: "snd ?w = Inr les" "length les = 2" using w(1) by blast
  then have d: "db (fst ?w) = db (fst (writeEach pgEnv 99 7 ''k'' pgPrepared (sortedChanges pgPrepared) pgStart))"
    using C [THEN conjunct2, unfolded les(1)] by simp
  obtain es where es: "snd (writeEach pgEnv 99 7 ''k'' pgPrepared (sortedChanges pgPrepared) pgStart) = Inr es"
    "canonicalAccounts pgEnv pgPrepared es = les"
    using C [THEN conjunct1] les(1) by (auto simp: map_sum_def split: sum.splits)
  have "canonicalAccounts pgEnv pgPrepared es = les \<and> length les = 2" using es(2) les(2) by simp
  then show ?thesis using es(1) w(2) unfolding d by (intro exI [of _ es]) simp
qed



end
