(* ===== verification/Split_Projection.thy ===== *)
theory Split_Projection
  imports Pipeline_Properties
begin

text \<open>
  The service with a database of its own for the projection (\<open>PROJECTION_DATABASE_URL\<close> in \<open>cmd/ledger/main.go\<close>): postings,
  transfers and publishers work on the database of the ledger, the consumer on the other one, and
  \<open>ProjectionStatusStore\<close> reads both. The tables of the two databases that matter to the pipeline are put side by side
  (\<open>joined\<close>), where the invariant of the pipeline holds.
\<close>

subsection \<open>Steps\<close>

text \<open>
  The calls of the second database have their own faults and clock; its schema (\<open>projection-migrations/\<close>) has no table of
  accounts to refer to.
\<close>

definition projectionEnv ::
  "(nat \<Rightarrow> dbfault option) \<Rightarrow> (nat \<Rightarrow> time) \<Rightarrow> ('d, 'm) stream_env_scheme \<Rightarrow> ('d, 'm) stream_env_scheme" where
  "projectionEnv f c env = env\<lparr>fault := f, readClock := c, accountsReferenced := False\<rparr>"

text \<open>The broker, the ledger's store and the projection's. \<open>reads\<close> leaves the tables of both alone.\<close>

inductive split_step ::
  "(nat \<Rightarrow> dbfault option) \<Rightarrow> (nat \<Rightarrow> time) \<Rightarrow> ('d :: linordered_ab_group_add, 'm) stream_env_scheme
     \<Rightarrow> broker \<times> 'd Pg \<times> 'd Pg \<Rightarrow> broker \<times> 'd Pg \<times> 'd Pg \<Rightarrow> bool"
  for f c and env :: "('d, 'm) stream_env_scheme" where
  reads: "db s' = db s \<Longrightarrow> db p' = db p \<Longrightarrow> split_step f c env (b, s, p) (b, s', p')"
| createAccount: "PgCreateAccount env name ty s = (s', res1) \<Longrightarrow> split_step f c env (b, s, p) (b, s', p)"
| createAccountInLedger: "PgCreateAccountInLedger env l name ty s = (s', res1) \<Longrightarrow> split_step f c env (b, s, p) (b, s', p)"
| createTransaction: "PgCreateTransaction env key es s = (s', res2) \<Longrightarrow> split_step f c env (b, s, p) (b, s', p)"
| createBatch: "CreateTransactionsBatch env ess s = (s', res3) \<Longrightarrow> split_step f c env (b, s, p) (b, s', p)"
| createTransfer: "PgCreateTransfer env req s = (s', res4) \<Longrightarrow> split_step f c env (b, s, p) (b, s', p)"
| processOutbox: "PgProcessOutbox env limit s = (s', res5) \<Longrightarrow> split_step f c env (b, s, p) (b, s', p)"
| compensate: "ProcessCompensationOutbox env limit s = (s', n, e) \<Longrightarrow> split_step f c env (b, s, p) (b, s', p)"
| claim: "claimTransactionOutboxEvents env owner m s = (s', res5) \<Longrightarrow> split_step f c env (b, s, p) (b, s', p)"
| publish: "hydrateClaimedTransactionEvents env owner s = (s', Inr evs) \<Longrightarrow>
    publishAll (JetStreamPublisher env) (map (preparePublication env) evs) b = (b', errs) \<Longrightarrow> split_step f c env (b, s, p) (b', s', p)"
| complete: "\<forall>r \<in> set (outboxT (db s)). or_id r \<in> set succeeded \<longrightarrow> stored env b (db s) r \<Longrightarrow>
    completeTransactionOutboxClaim env owner succeeded failed s = (s', res6) \<Longrightarrow> split_step f c env (b, s, p) (b, s', p)"
| release: "releaseTransactionOutboxClaim env owner s = (s', res6) \<Longrightarrow> split_step f c env (b, s, p) (b, s', p)"
| consume: "set msgs \<subseteq> set (messages b) \<Longrightarrow> consumeBatch (projectionEnv f c env) msgs p = (p', vs) \<Longrightarrow>
    split_step f c env (b, s, p) (b, s, p')"

definition split_start :: "broker \<Rightarrow> 'd Database \<Rightarrow> 'd Database \<Rightarrow> bool" where
  "split_start b d e \<longleftrightarrow> pipeline_start b d \<and> inboxT e = [] \<and> accountDaysT e = [] \<and> ledgerDaysT e = []"

inductive split_reach ::
  "(nat \<Rightarrow> dbfault option) \<Rightarrow> (nat \<Rightarrow> time) \<Rightarrow> ('d :: linordered_ab_group_add, 'm) stream_env_scheme \<Rightarrow> broker \<times> 'd Pg \<times> 'd Pg \<Rightarrow> bool"
  for f c and env :: "('d, 'm) stream_env_scheme" where
  start: "split_start b (db s) (db p) \<Longrightarrow> split_reach f c env (b, s, p)"
| more: "split_reach f c env x \<Longrightarrow> split_step f c env x y \<Longrightarrow> split_reach f c env y"

inductive_cases split_stepE: "split_step f c env (b, s, p) (b', s', p')"

subsection \<open>The two databases side by side\<close>

definition joined :: "'d Database \<Rightarrow> 'd Database \<Rightarrow> 'd Database" where
  "joined d e = d\<lparr>inboxT := inboxT e, accountDaysT := accountDaysT e, ledgerDaysT := ledgerDaysT e\<rparr>"

lemma joined_simps [simp]:
  "outboxT (joined d e) = outboxT d" "entriesT (joined d e) = entriesT d" "transactionsT (joined d e) = transactionsT d"
  "inboxT (joined d e) = inboxT e" "accountDaysT (joined d e) = accountDaysT e" "ledgerDaysT (joined d e) = ledgerDaysT e"
  "joined (d\<lparr>outboxT := rows\<rparr>) e = (joined d e)\<lparr>outboxT := rows\<rparr>"
  by (simp_all add: joined_def)

lemma eventOf_joined [simp]: "eventOf env (joined d e) r = eventOf env d r"
  by (cases "or_transaction r") (simp_all add: eventOf_def)

lemma stored_joined [simp]: "stored env b (joined d e) r = stored env b d r"
  by (simp add: stored_def)

definition split_ok :: "('d :: linordered_ab_group_add, 'm) stream_env_scheme \<Rightarrow> broker \<Rightarrow> 'd Database \<Rightarrow> 'd Database \<Rightarrow> bool" where
  "split_ok env b d e \<longleftrightarrow> journal_ok env d \<and> pipeline_ok env b (joined d e)"

lemma split_start_ok: "split_start b d e \<Longrightarrow> split_ok env b d e"
  by (simp add: split_start_def split_ok_def pipeline_start_def pipeline_ok_def journal_ok_def outbox_unique_def outbox_known_def
      entries_known_def no_compensation_def days_ok_def aggregates_exact_def dayTotal_def)

text \<open>An operation that only extends the journal extends it beside the other database, too.\<close>

lemma journal_split:
  assumes "split_ok env b d e" and "journal env d d'"
  shows "split_ok env b d' e"
proof -
  have ok: "journal_ok env d" "pipeline_ok env b (joined d e)" and ex: "extends d d'" and ok': "journal_ok env d'"
    using assms by (auto simp: split_ok_def journal_def)
  have "extends (joined d e) (joined d' e)" using ex by (simp add: extends_def)
  moreover have "journal_ok env (joined d' e)"
  proof -
    have "snd ` set (inboxT e) \<subseteq> or_id ` set (outboxT d)" using journal_okD(5) [OF pipeline_okD(1) [OF ok(2)]] by simp
    also have "\<dots> \<subseteq> or_id ` set (outboxT d')"
    proof -
      obtain f outs where f: "outboxT d' = map f (outboxT d) @ outs" "\<forall>r \<in> set (outboxT d). same_event r (f r)"
        using ex by (auto simp: extends_def)
      have "or_id ` set (map f (outboxT d)) = or_id ` set (outboxT d)" using f(2) by (force simp: same_event_def image_iff)
      then show ?thesis unfolding f(1) by auto
    qed
    finally show ?thesis using ok' by (simp add: journal_ok_def)
  qed
  ultimately have "journal env (joined d e) (joined d' e)" by (simp add: journal_def)
  from journal_pipeline [OF ok(2) this] show ?thesis using ok' by (simp add: split_ok_def)
qed

text \<open>The steps of the publisher.\<close>

lemma relabel_split:
  assumes "split_ok env b d e" and same: "\<And>r. or_id (f r) = or_id r \<and> or_transaction (f r) = or_transaction r \<and> or_type (f r) = or_type r"
    and acked: "\<And>r. r \<in> set (outboxT d) \<Longrightarrow> or_type r = transactionPosted \<Longrightarrow> or_status (f r) = ''processed'' \<Longrightarrow>
      or_status r = ''processed'' \<or> stored env b d r"
  shows "split_ok env b (d\<lparr>outboxT := map f (outboxT d)\<rparr>) e"
proof -
  have ok: "journal_ok env d" "pipeline_ok env b (joined d e)" using assms(1) by (simp_all add: split_ok_def)
  have "pipeline_ok env b ((joined d e)\<lparr>outboxT := map f (outboxT (joined d e))\<rparr>)"
    by (rule relabel_pipeline [OF ok(2) same]) (use acked in simp)
  then show ?thesis using journal_ok_map [OF ok(1) same] by (simp add: split_ok_def)
qed

lemma claims_split:
  assumes ok: "split_ok env b (db s) e"
  shows "claimTransactionOutboxEvents env owner limit s = (s', res) \<Longrightarrow> split_ok env b (db s') e"
    and "releaseTransactionOutboxClaim env owner s = (s', res') \<Longrightarrow> split_ok env b (db s') e"
    and "\<forall>r \<in> set (outboxT (db s)). or_id r \<in> set succeeded \<longrightarrow> stored env b (db s) r \<Longrightarrow>
      completeTransactionOutboxClaim env owner succeeded failed s = (s', res') \<Longrightarrow> split_ok env b (db s') e"
proof -
  have 1: "split_ok env b (expireLeases t d) e" if "split_ok env b d e" for t d
    unfolding expireLeases_def by (rule relabel_split [OF that]) (auto split: if_splits)
  have 2: "split_ok env b (leaseEvents owner t ids d) e" if "split_ok env b d e" for t ids d
    unfolding leaseEvents_def by (rule relabel_split [OF that]) (auto split: if_splits)
  show "split_ok env b (db s') e" if "claimTransactionOutboxEvents env owner limit s = (s', res)"
    using that ok 1 2 by (auto simp: claimTransactionOutboxEvents_def bindE_def act_defs Let_def split: option.splits)
  have 3: "split_ok env b (d\<lparr>outboxT := map (\<lambda>r. if or_leaseOwner r = Some owner
      then r\<lparr>or_status := ''pending'', or_leaseOwner := None, or_leaseExpires := None\<rparr> else r) (outboxT d)\<rparr>) e" if "split_ok env b d e" for d
    by (rule relabel_split [OF that]) (auto split: if_splits)
  show "split_ok env b (db s') e" if "releaseTransactionOutboxClaim env owner s = (s', res')"
    using that ok 3 by (auto simp: releaseTransactionOutboxClaim_def bindE_def act_defs split: option.splits)
  show "split_ok env b (db s') e"
    if st: "\<forall>r \<in> set (outboxT (db s)). or_id r \<in> set succeeded \<longrightarrow> stored env b (db s) r"
      and run: "completeTransactionOutboxClaim env owner succeeded failed s = (s', res')"
  proof -
    have "split_ok env b (completeClaim t owner succeeded failed (db s)) e" for t
      unfolding completeClaim_def by (rule relabel_split [OF ok]) (use st in \<open>auto split: if_splits\<close>)
    then show ?thesis using run ok by (auto simp: completeTransactionOutboxClaim_def bindE_def act_defs split: option.splits)
  qed
qed


subsection \<open>The consumer\<close>

lemma projectionEnv_simps [simp]:
  "uuidParse (projectionEnv f c env) = uuidParse env" "unmarshalEvent (projectionEnv f c env) = unmarshalEvent env"
  "cents (projectionEnv f c env) = cents env" "numeric (projectionEnv f c env) = numeric env" "sliceOrder (projectionEnv f c env) = sliceOrder env"
  by (simp_all add: projectionEnv_def)

lemma projectionEnv_same [simp]:
  "eventKey (projectionEnv f c env) = eventKey env" "accountShare (projectionEnv f c env) = accountShare env"
  "ledgerShare (projectionEnv f c env) = ledgerShare env" "days_ok (projectionEnv f c env) = days_ok env"
  "event_cents (projectionEnv f c env) = event_cents env" "numeric_ok (projectionEnv f c env) = numeric_ok env"
  "slice_order (projectionEnv f c env) = slice_order env"
  by (simp_all add: fun_eq_iff eventKey_def parseOrNil_def accountShare_def ledgerShare_def days_ok_def event_cents_def numeric_ok_def slice_order_def)

lemma projected_joined:
  assumes "projected (projectionEnv f c env) consumer events applied e e'"
  shows "projected env consumer events applied (joined d e) (joined d e')"
proof -
  let ?env = "projectionEnv f c env"
  obtain inbox A L where e': "e' = e\<lparr>inboxT := inbox, accountDaysT := A, ledgerDaysT := L\<rparr>"
    and inbox: "set inbox = set (inboxT e) \<union> Pair consumer ` eventKey ?env ` set events" and days: "days_ok ?env A" "days_ok ?env L"
    and A: "\<forall>sd k. dayTotal sd A k = dayTotal sd (accountDaysT e) k + (\<Sum>ev\<leftarrow>appliedEvents events applied. accountShare ?env sd k ev)"
    and L: "\<forall>sd k. dayTotal sd L k = dayTotal sd (ledgerDaysT e) k + (\<Sum>ev\<leftarrow>appliedEvents events applied. ledgerShare ?env sd k ev)"
    using assms unfolding projected_def by blast
  have "joined d e' = (joined d e)\<lparr>inboxT := inbox, accountDaysT := A, ledgerDaysT := L\<rparr>" by (simp add: e' joined_def)
  moreover have "length applied = length events" "distinct (map (eventKey env) (appliedEvents events applied))"
    "eventKey env ` set (appliedEvents events applied) = {k \<in> eventKey env ` set events. (consumer, k) \<notin> set (inboxT (joined d e))}"
    using assms by (simp_all add: projected_def)
  ultimately show ?thesis
    using inbox days A L unfolding projected_def projectionEnv_same joined_simps by blast
qed

lemma consume_split:
  assumes ok: "split_ok env b d (db p)" and env: "stream_env_ok env" and msgs: "set msgs \<subseteq> set (messages b)"
    and run: "consumeBatch (projectionEnv f c env) msgs p = (p', vs)"
  shows "split_ok env b d (db p')"
proof -
  let ?events = "List.map_filter (\<lambda>x. x) (map (\<lambda>m. unmarshalEvent env (Data m)) msgs)"
  have num: "numeric_ok env" and inv: "parse_inverts env" and ord: "slice_order env" using env by (simp_all add: stream_env_ok_def)
  have J: "journal_ok env d" and P: "pipeline_ok env b (joined d (db p))" using ok by (simp_all add: split_ok_def)
  have evs: "\<forall>ev \<in> set ?events. \<exists>r \<in> set (outboxT (joined d (db p))). eventOf env (joined d (db p)) r = Some ev"
    using msgs pipeline_okD(5) [OF P] by (fastforce simp: List.map_filter_def)
  have cts: "\<forall>ev \<in> set ?events. event_cents env ev"
    using evs eventOf_cents [OF pipeline_okD(1) [OF P]] by blast
  obtain p1 res where ap: "ApplyTransactionPostedBatch (projectionEnv f c env) AggregateConsumerName ?events p = (p1, res)"
    by (cases "ApplyTransactionPostedBatch (projectionEnv f c env) AggregateConsumerName ?events p")
  have p': "p' = (if ?events = [] then p else p1)"
    using run ap by (auto simp: consumeBatch_def Let_def split: sum.splits if_splits)
  have "split_ok env b d (db p1)"
  proof (cases res)
    case (Inl e)
    from ApplyTransactionPostedBatch_Inl [OF ap [unfolded Inl]] show ?thesis using ok by simp
  next
    case (Inr applied)
    have "projected (projectionEnv f c env) AggregateConsumerName ?events applied (db p) (db p1)"
      by (rule ApplyTransactionPostedBatch_Inr [OF ap [unfolded Inr]]) (use num ord cts pipeline_okD(3,4) [OF P] in simp_all)
    from projected_pipeline [OF P inv evs projected_joined [OF this]] show ?thesis using J by (simp add: split_ok_def)
  qed
  then show ?thesis using ok p' by (simp split: if_splits)
qed

subsection \<open>Reachable states\<close>

lemma split_step_ok:
  assumes env: "stream_env_ok env" and ok: "split_ok env b (db s) (db p)" and step: "split_step f c env (b, s, p) (b', s', p')"
  shows "split_ok env b' (db s') (db p')"
proof -
  have num: "numeric_ok env" and codec: "event_codec env" using env by (simp_all add: stream_env_ok_def)
  have J: "journal_ok env (db s)" and P: "pipeline_ok env b (joined (db s) (db p))" using ok by (simp_all add: split_ok_def)
  note journal = journal_split [OF ok]
  from step show ?thesis
  proof (rule split_stepE, goal_cases)
    case 1
    then show ?case using ok by simp
  next
    case 2
    then show ?case using journal [OF keepsD [OF keeps_PgCreateAccount]] by blast
  next
    case 3
    then show ?case using journal [OF keepsD [OF keeps_PgCreateAccountInLedger]] by blast
  next
    case 4
    then show ?case using journal [OF keepsD [OF keeps_PgCreateTransaction [OF num]]] by blast
  next
    case 5
    then show ?case using journal [OF keepsD [OF keeps_CreateTransactionsBatch [OF num]]] by blast
  next
    case 6
    then show ?case using journal [OF keepsD [OF keeps_PgCreateTransfer [OF num]]] by blast
  next
    case 7
    then show ?case using journal [OF PgProcessOutbox_journal [OF num J]] by blast
  next
    case 8
    have "no_compensation (db s)" using pipeline_okD(2) [OF P] by (simp add: no_compensation_def)
    then show ?case using ProcessCompensationOutbox_idle 8 ok by metis
  next
    case 9
    then show ?case using claims_split(1) [OF ok] by blast
  next
    case (10 owner evs errs)
    note H = hydrate_Inr [OF 10(2) journal_okD(1) [OF J]]
    obtain rs where rs: "set rs \<subseteq> set (outboxT (joined (db s) (db p)))" "map Some evs = map (eventOf env (joined (db s) (db p))) rs"
      using H(2) by auto
    show ?case using publish_pipeline(1) [OF P codec rs 10(3)] H(1) J 10 by (simp add: split_ok_def)
  next
    case 11
    then show ?case using claims_split(3) [OF ok] by blast
  next
    case 12
    then show ?case using claims_split(2) [OF ok] by blast
  next
    case 13
    then show ?case using consume_split [OF ok env] by blast
  qed
qed

lemma split_reach_ok: "split_reach f c env x \<Longrightarrow> stream_env_ok env \<Longrightarrow> split_ok env (fst x) (db (fst (snd x))) (db (snd (snd x)))"
proof (induction rule: split_reach.induct)
  case (start b s p)
  then show ?case by (simp add: split_start_ok)
next
  case (more x y)
  then show ?case using split_step_ok [of env "fst x" "fst (snd x)" "snd (snd x)" f c "fst y" "fst (snd y)" "snd (snd y)"] by simp
qed


subsection \<open>Properties\<close>

text \<open>The transactions whose event the second database has in its inbox.\<close>

lemma posted_event_unique:
  assumes "outbox_unique rows" and "outbox_known m rows" and "r \<in> set rows" and "x \<in> set rows"
    and "or_transaction r = Some tid" and "or_transaction x = Some tid"
  shows "x = r"
proof -
  let ?rows = "filter (\<lambda>r. or_transaction r \<noteq> None) rows"
  have "inj_on eventTarget (set ?rows)" using assms(1) by (simp add: outbox_unique_def distinct_map)
  moreover have "eventTarget x = eventTarget r" using assms(2-6) by (simp add: eventTarget_def outbox_known_def)
  moreover have "x \<in> set ?rows" "r \<in> set ?rows" using assms(3-6) by simp_all
  ultimately show ?thesis by (rule inj_onD)
qed

lemma find_Some_prop: "find P xs = Some x \<Longrightarrow> x \<in> set xs \<and> P x"
  by (induction xs) (auto split: if_splits)

lemma postedEventOf_projected:
  assumes "journal_ok env d" and "postedEventOf tid d = Some eid"
  shows "(AggregateConsumerName, eid) \<in> set (inboxT e) \<longleftrightarrow> tid \<in> projectedTxs (joined d e)"
proof -
  obtain r where f: "find (\<lambda>r. or_transaction r = Some tid \<and> or_type r = transactionPosted) (outboxT d) = Some r" "eid = or_id r"
    using assms(2) by (auto simp: postedEventOf_def)
  have r: "r \<in> set (outboxT d)" "or_transaction r = Some tid" "or_id r = eid"
    using find_Some_prop [OF f(1)] f(2) by simp_all
  show ?thesis
  proof
    assume "(AggregateConsumerName, eid) \<in> set (inboxT e)"
    then show "tid \<in> projectedTxs (joined d e)" using r by (auto simp: projectedTxs_def)
  next
    assume "tid \<in> projectedTxs (joined d e)"
    then obtain x where x: "x \<in> set (outboxT d)" "or_transaction x = Some tid" "(AggregateConsumerName, or_id x) \<in> set (inboxT e)"
      by (auto simp: projectedTxs_def)
    have "x = r" by (rule posted_event_unique [OF journal_okD(2,3) [OF assms(1)] r(1) x(1) r(2) x(2)])
    then show "(AggregateConsumerName, eid) \<in> set (inboxT e)" using x(3) r(3) by simp
  qed
qed

lemma ProjectionStatus_Inr:
  assumes "ProjectionStatus env transactionID consumer q = (q', Inr st)"
  obtains tid eid where "uuidParse env transactionID = Some tid" and "postedEventOf tid (db (oltp q)) = Some eid"
    and "ps_Projected st \<longleftrightarrow> (consumer, eid) \<in> set (inboxT (db (projectionDB q)))"
  using assms by (auto simp: ProjectionStatus_def bindE_def act_defs split: if_splits option.splits prod.splits sum.splits)

text \<open>
  C10: the projection may live in a database of its own. However postings, transfers, publishers and the consumer
  interleave, and whatever calls of either database fail: the daily totals of an account and of a ledger in the projection's database
  are those of the entries in the ledger's database whose transactions have been projected; and
  \<open>ProjectionStatusStore\<close>, which asks both, says that a transaction is projected exactly if it is counted in these totals.
\<close>

theorem split_aggregates_match:
  assumes "stream_env_ok env" and "split_reach f c env (b, s, p)"
  defines "counted \<equiv> projectedTxs (joined (db s) (db p))"
  shows "dayTotal sd (accountDaysT (db p)) k =
      entryTotal sd (\<lambda>e. er_transaction e \<in> counted \<and> onAccountDay (db s) k e) (entriesT (db s)) \<and>
    dayTotal sd (ledgerDaysT (db p)) k =
      entryTotal sd (\<lambda>e. er_transaction e \<in> counted \<and> onLedgerDay (db s) k e) (entriesT (db s)) \<and>
    (case ProjectionStatus env transactionID AggregateConsumerName \<lparr>oltp = s, projectionDB = p\<rparr> of
       (q, Inl e) \<Rightarrow> True
     | (q, Inr st) \<Rightarrow> \<exists>tid. uuidParse env transactionID = Some tid \<and> (ps_Projected st \<longleftrightarrow> tid \<in> counted))"
proof -
  have J: "journal_ok env (db s)" and P: "pipeline_ok env b (joined (db s) (db p))"
    using split_reach_ok [OF assms(2,1)] by (simp_all add: split_ok_def)
  have on: "onAccountDay (joined (db s) (db p)) = onAccountDay (db s)" "onLedgerDay (joined (db s) (db p)) = onLedgerDay (db s)"
    by (simp_all add: fun_eq_iff onAccountDay_def onLedgerDay_def)
  have agg: "dayTotal sd (accountDaysT (db p)) k =
      entryTotal sd (\<lambda>e. er_transaction e \<in> counted \<and> onAccountDay (db s) k e) (entriesT (db s)) \<and>
    dayTotal sd (ledgerDaysT (db p)) k =
      entryTotal sd (\<lambda>e. er_transaction e \<in> counted \<and> onLedgerDay (db s) k e) (entriesT (db s))"
    using pipeline_okD(7) [OF P] unfolding aggregates_exact_def joined_simps on counted_def by blast
  have "\<exists>tid. uuidParse env transactionID = Some tid \<and> (ps_Projected st \<longleftrightarrow> tid \<in> counted)"
    if "ProjectionStatus env transactionID AggregateConsumerName \<lparr>oltp = s, projectionDB = p\<rparr> = (q, Inr st)" for q st
    using ProjectionStatus_Inr [OF that] postedEventOf_projected [OF J, where e = "db p"] unfolding counted_def
    by (metis ProjectionStatusStore.select_convs)
  then show ?thesis using agg by (auto split: prod.split sum.split)
qed

definition splitClaimed :: "int Pg" where
  "splitClaimed = fst (claimTransactionOutboxEvents streamEnv 14 1 streamPosted)"

definition splitEnv :: "int stream_env" where
  "splitEnv = projectionEnv (\<lambda>_. None) int streamEnv"

lemma splitEnv_simps [simp]:
  "fault splitEnv n = None" "numeric splitEnv x = Some x" "readClock splitEnv n = int n" "uuidParse splitEnv = uuidParse pgEnv"
  "unmarshalEvent splitEnv p = (if p = ''event'' then Some streamEvent else None)" "accountsReferenced splitEnv = False"
  "sliceOrder splitEnv ks = sort_key ((!) ks) [0..<length ks]" "uuidString splitEnv = uuidString pgEnv"
  by (simp_all add: splitEnv_def) (simp_all add: projectionEnv_def)

lemma dbCall_splitEnv [simp]: "bindE (dbCall splitEnv w) f s = f () (s\<lparr>calls := Suc (calls s)\<rparr>)"
  by (simp add: bindE_def dbCall_def)

definition splitProjected :: "int Pg" where
  "splitProjected = fst (consumeBatch splitEnv [streamMessage] (pgStart\<lparr>db := emptyDatabase\<rparr>))"

lemma splitClaimed_eq:
  "claimTransactionOutboxEvents streamEnv 14 1 streamPosted = (splitClaimed, Inr 1)"
  "\<exists>s. hydrateClaimedTransactionEvents streamEnv 14 splitClaimed = (s, Inr [streamEvent]) \<and> db s = db splitClaimed"
  "entriesT (db splitClaimed) = entriesT (db streamPosted)" "transactionsT (db splitClaimed) = transactionsT (db streamPosted)"
  "map (\<lambda>r. (or_id r, or_transaction r)) (outboxT (db splitClaimed)) = [(13, Some 10)]"
  by (simp_all add: splitClaimed_def stream_eval del: set_filter set_map)


lemma splitPublished:
  "publishAll (JetStreamPublisher streamEnv) (map (preparePublication streamEnv) [streamEvent]) emptyBroker =
     (\<lparr>messages = [streamMessage], sent = 1\<rparr>, [None])"
  by (simp add: stream_eval streamMessage_def)

lemma splitProjected_eq:
  "accountDaysT (db splitProjected) =
     [((1, 0), \<lparr>dr_debit = 100, dr_credit = 0, dr_updated = 0, dr_lastEvent = 13\<rparr>),
      ((2, 0), \<lparr>dr_debit = 0, dr_credit = 100, dr_updated = 0, dr_lastEvent = 13\<rparr>)]"
  "inboxT (db splitProjected) = [(AggregateConsumerName, 13)]"
  by (simp_all add: splitProjected_def projection_eval pgStart_def)


text \<open>Post, claim, publish, project.\<close>

lemma split_run:
  "split_reach (\<lambda>_. None) int streamEnv (\<lparr>messages = [streamMessage], sent = 1\<rparr>, splitClaimed, splitProjected)"
proof -
  let ?p = "pgStart\<lparr>db := emptyDatabase\<rparr>" and ?b = "\<lparr>messages = [streamMessage], sent = 1\<rparr>"
  have 0: "split_reach (\<lambda>_. None) int streamEnv (emptyBroker, pgStart, ?p)"
    by (rule split_reach.start) (simp add: split_start_def pipeline_start_def emptyBroker_def pgStart_def emptyDatabase_def)
  obtain r where "PgCreateTransaction streamEnv '''' pgRequest pgStart = (streamPosted, r)"
    by (metis prod.collapse streamPosted_def)
  note 1 = split_reach.more [OF 0 split_step.createTransaction [OF this]]
  note 2 = split_reach.more [OF 1 split_step.claim [OF splitClaimed_eq(1)]]
  obtain s where s: "hydrateClaimedTransactionEvents streamEnv 14 splitClaimed = (s, Inr [streamEvent])" "db s = db splitClaimed"
    using splitClaimed_eq(2) by blast
  note 3 = split_reach.more [OF 2 split_step.publish [OF s(1) splitPublished]]
  have 4: "split_reach (\<lambda>_. None) int streamEnv (?b, splitClaimed, ?p)"
    by (rule split_reach.more [OF 3 split_step.reads]) (simp_all add: s(2))
  obtain vs where "consumeBatch (projectionEnv (\<lambda>_. None) int streamEnv) [streamMessage] ?p = (splitProjected, vs)"
    unfolding splitEnv_def [symmetric] by (metis prod.collapse splitProjected_def)
  from split_reach.more [OF 4 split_step.consume [OF _ this]] show ?thesis by simp
qed

lemma splitProjected_counted: "10 \<in> projectedTxs (joined (db splitClaimed) (db splitProjected))"
proof -
  obtain r where "outboxT (db splitClaimed) = [r]" "or_id r = 13" "or_transaction r = Some 10"
    using splitClaimed_eq(5) by (auto simp: map_eq_Cons_conv)
  then show ?thesis by (simp add: projectedTxs_def splitProjected_eq)
qed

theorem split_aggregates_match_witness:
  "dayTotal CreditSide (accountDaysT (db splitProjected)) (2, 0) = 100 \<and>
   (\<exists>q st. ProjectionStatus streamEnv (replicate 10 CHR ''x'') AggregateConsumerName \<lparr>oltp = splitClaimed, projectionDB = splitProjected\<rparr> = (q, Inr st) \<and>
     ps_Projected st)"
proof -
  note M = split_aggregates_match [OF streamEnv_ok split_run, of CreditSide "(2, 0)" "replicate 10 CHR ''x''"]
  have "dayTotal CreditSide (accountDaysT (db splitProjected)) (2, 0) = 100"
    using M splitProjected_counted by (simp add: splitClaimed_eq streamPosted_db onAccountDay_def dayOf_def emptyDatabase_def)
  moreover obtain q st where st: "ProjectionStatus streamEnv (replicate 10 CHR ''x'') AggregateConsumerName
      \<lparr>oltp = splitClaimed, projectionDB = splitProjected\<rparr> = (q, Inr st)"
    by (simp add: ProjectionStatus_def splitClaimed_def stream_eval postedEventOf_def AggregateConsumerName_def getDb_def del: set_filter set_map)
  moreover have "ps_Projected st"
    using M splitProjected_counted unfolding st by simp
  ultimately show ?thesis by blast
qed

end
