(* ===== verification/Pg_Used_Keys.thy ===== *)
theory Pg_Used_Keys
  imports Pg_Locks Pg_Tables_Properties
begin

text \<open>
  An idempotency key that has its transaction keeps it: no operation of the PostgreSQL store changes the row of a key once
  a transaction is recorded in it. Shown statement by statement with the rules of the locale \<open>table_relation\<close>.
\<close>

subsection \<open>A used key stays as it is\<close>

definition used_keys_kept :: "'d Database \<Rightarrow> 'd Database \<Rightarrow> bool" where
  "used_keys_kept d d' \<longleftrightarrow> (\<forall>key k. keysT d key = Some k \<longrightarrow> kr_transaction k \<noteq> None \<longrightarrow> keysT d' key = Some k)"

interpretation uk: table_relation used_keys_kept
  by unfold_locales (auto simp: used_keys_kept_def)

lemma same_keys: "keysT d' = keysT d \<Longrightarrow> used_keys_kept d d'"
  by (simp add: used_keys_kept_def)

lemma insertClearings_keys: "insertClearings ps d = Inr d' \<Longrightarrow> keysT d' = keysT d"
  by (induction ps d rule: insertClearings.induct) (auto simp: bindR_Inr insertAccount_def split: if_splits)

lemma uk_statements [intro]:
  "insertAccount aid l name ty d = Inr d' \<Longrightarrow> used_keys_kept d d'"
  "insertClearings ps d = Inr d' \<Longrightarrow> used_keys_kept d d'"
  "postStatement env t txs vals upd oids d = Inr d' \<Longrightarrow> used_keys_kept d d'"
  "insertSaga env sid row d = Inr d' \<Longrightarrow> used_keys_kept d d'"
  "insertOutbox orow d = Inr d' \<Longrightarrow> used_keys_kept d d'"
  using postStatement_keys [of env t txs vals upd oids d d'] insertClearings_keys [of ps d d']
  by (auto simp: insertAccount_def insertSaga_def insertOutbox_def split: if_splits option.splits intro!: same_keys)

lemma uk_updates [simp]:
  "used_keys_kept d (insertSteps rows d)" "used_keys_kept d (setSagas sids st t d)" "used_keys_kept d (setCreditSteps sids cst d)"
  "used_keys_kept d (processedEvents eids d)" "used_keys_kept d (expireLeases t d)" "used_keys_kept d (leaseEvents owner t eids d)"
  "used_keys_kept d (completeClaim t owner succeeded failed d)" "used_keys_kept d (d\<lparr>outboxT := outs\<rparr>)"
  by (rule same_keys; simp add: insertSteps_def setSagas_def setCreditSteps_def processedEvents_def expireLeases_def leaseEvents_def
      completeClaim_def)+

lemma uk_attempt: "keeps used_keys_kept (createTransactionAttempt env key c es)"
  unfolding keeps_def
proof
  fix s
  obtain s' r where run: "createTransactionAttempt env key c es s = (s', r)" by fastforce
  have "used_keys_kept (db s) (db s')"
  proof (cases r)
    case (Inl e)
    then show ?thesis using rolls_backD [OF rolls_back_attempt, of env key c es s s' e] run by (simp add: uk.refl)
  next
    case (Inr a)
    obtain t existed where a: "a = (t, existed)" by (cases a)
    note A = createTransactionAttempt_Inr [OF run [unfolded Inr a]]
    show ?thesis
    proof (cases existed)
      case True
      then show ?thesis using A by (simp add: uk.refl)
    next
      case False
      show ?thesis
        unfolding used_keys_kept_def
      proof (intro allI impI)
        fix x k assume k: "keysT (db s) x = Some k" "kr_transaction k \<noteq> None"
        then have "x \<noteq> key \<or> key = ''''" using A False by (auto simp: claimRow_def)
        then show "keysT (db s') x = Some k" using attempt_frame(3) [OF run] k(1) by simp
      qed
    qed
  qed
  then show "used_keys_kept (db s) (db (fst (createTransactionAttempt env key c es s)))" using run by simp
qed

lemma uk_PgCreateTransaction: "keeps used_keys_kept (PgCreateTransaction env key es)"
  unfolding PgCreateTransaction_def completedIdempotentTransaction_def Let_def
  by (auto intro!: uk.keeps_rules uk_attempt split: option.splits)

lemma uk_CreateTransactionsBatch: "keeps used_keys_kept (CreateTransactionsBatch env ess)"
proof -
  have "keeps used_keys_kept (writePostingBatch env ps ch rs)" for ps ch rs
    unfolding writePostingBatch_def Let_def by (auto intro!: uk.keeps_rules)
  then show ?thesis
    unfolding CreateTransactionsBatch_def Let_def by (auto intro!: uk.keeps_rules split: prod.splits)
qed

lemma uk_accounts: "keeps used_keys_kept (PgCreateAccount env name ty)" "keeps used_keys_kept (PgCreateAccountInLedger env l name ty)"
  unfolding PgCreateAccount_def PgCreateAccountInLedger_def parseE_def
  by (auto intro!: uk.keeps_rules split: option.splits)

lemma uk_source:
  assumes "postStatement env t txs vals upd oids d = Inr d1" and "insertSaga env sid row d1 = Inr d2"
    and "insertOutbox orow (insertSteps steps d2) = Inr d3"
  shows "used_keys_kept d d3"
  by (rule uk.trans [OF uk_statements(3) [OF assms(1)] uk.trans [OF uk_statements(4) [OF assms(2)]
        uk.trans [OF uk_updates(1) uk_statements(5) [OF assms(3)]]]])

lemma uk_PgCreateTransfer: "keeps used_keys_kept (PgCreateTransfer env req)"
proof -
  have c: "keeps used_keys_kept (ensureClearing env l)" for l
    unfolding ensureClearing_def by (auto intro!: uk.keeps_rules split: option.splits)
  have "keeps used_keys_kept (writeSourceTransfer env sid key sl src c dl dst amount t)" for sid key sl src c dl dst amount t
    unfolding writeSourceTransfer_def by (auto simp: bindR_Inr intro!: uk.keeps_rules intro: uk_source)
  then have "keeps used_keys_kept (newTransfer env req sl src dl dst)" for sl src dl dst
    unfolding newTransfer_def by (auto intro!: uk.keeps_rules c split: option.splits)
  then show ?thesis
    unfolding PgCreateTransfer_def transferTransaction_def scanSaga_def parseE_def
    by (auto intro!: uk.keeps_rules split: option.splits)
qed

lemma uk_credits:
  assumes "postStatement env t txs vals upd oids d = Inr d1"
  shows "used_keys_kept d (processedEvents eids (setCreditSteps sids st (setSagas sids' sst u d1)))"
  by (rule uk.trans [OF uk_statements(3) [OF assms] uk.trans [OF uk_updates(2) uk.trans [OF uk_updates(3) uk_updates(4)]]])

lemma uk_PgProcessOutbox: "keeps used_keys_kept (PgProcessOutbox env limit)"
proof -
  have "keeps used_keys_kept (writeDestinationCreditBatch env t es)" for t es
    unfolding writeDestinationCreditBatch_def by (auto simp: bindR_Inr intro!: uk.keeps_rules intro: uk_credits)
  then have "keeps used_keys_kept (completeCredits env t es)" for t es
    unfolding completeCredits_def Let_def by (auto intro!: uk.keeps_rules)
  then show ?thesis
    unfolding PgProcessOutbox_def processDestinationCreditBatch_def creditBatchTransaction_def creditEvent_def
    by (auto intro!: uk.keeps_rules split: prod.splits)
qed

lemma uk_claims:
  fixes env :: "('d :: linordered_ab_group_add, 'm) pg_env_scheme"
  shows "keeps used_keys_kept (claimTransactionOutboxEvents env owner limit)"
  "keeps used_keys_kept (completeTransactionOutboxClaim env owner succeeded failed)"
  "keeps used_keys_kept (releaseTransactionOutboxClaim env owner)"
  unfolding claimTransactionOutboxEvents_def completeTransactionOutboxClaim_def releaseTransactionOutboxClaim_def Let_def
  by (auto intro!: uk.keeps_rules)

lemma uk_ApplyTransactionPostedBatch: "keeps used_keys_kept (ApplyTransactionPostedBatch env consumer events)"
proof -
  have "keeps used_keys_kept (writeProjection env t st)" for t st
    unfolding writeProjection_def by (auto simp: bindR_Inr intro!: uk.keeps_rules same_keys)
  then have "keeps used_keys_kept (projectTransaction env consumer n ps)" for n ps
    unfolding projectTransaction_def by (auto intro!: uk.keeps_rules same_keys split: prod.splits)
  then show ?thesis unfolding ApplyTransactionPostedBatch_def by (auto intro!: uk.keeps_rules)
qed

lemma uk_consumeBatch: "consumeBatch env msgs s = (s', vs) \<Longrightarrow> used_keys_kept (db s) (db s')"
  by (auto simp: consumeBatch_def Let_def uk.refl split: if_splits prod.splits sum.splits
      dest!: keepsD [OF uk_ApplyTransactionPostedBatch])

lemma pipeline_step_keys:
  assumes "pipeline_ok env b (db s)" and "pipeline_step env (b, s) (b', s')"
  shows "used_keys_kept (db s) (db s')"
  using assms(2)
proof (rule pipeline_stepE, goal_cases)
  case 8
  then show ?case using ProcessCompensationOutbox_idle [OF pipeline_okD(2) [OF assms(1)]] by (metis uk.refl)
next
  case (10 owner evs errs)
  have "quiet (hydrateClaimedTransactionEvents env owner)" unfolding hydrateClaimedTransactionEvents_def by (intro quiet_intros)
  from quietD [OF this 10(1)] show ?case by (simp add: uk.refl)
qed (auto simp: uk.refl intro: uk_consumeBatch keepsD [OF uk_accounts(1)] keepsD [OF uk_accounts(2)]
    keepsD [OF uk_PgCreateTransaction] keepsD [OF uk_CreateTransactionsBatch] keepsD [OF uk_PgCreateTransfer]
    keepsD [OF uk_PgProcessOutbox] keepsD [OF uk_claims(1)] keepsD [OF uk_claims(2)] keepsD [OF uk_claims(3)])

end
