(* ===== verification/Go_Strconv.thy ===== *)
theory Go_Strconv
  imports Ledger_Prelude
begin

text \<open>
  What the program uses of \<open>strconv\<close>: \<open>Atoi\<close> on a machine with 64-bit integers and \<open>ParseBool\<close>, and the decimal text of a number,
  which \<open>Atoi\<close> reads back.
\<close>

definition digitOf :: "char \<Rightarrow> nat option" where
  "digitOf c = (let n = of_char c :: nat in if 48 \<le> n \<and> n \<le> 57 then Some (n - 48) else None)"

fun readDigits :: "nat \<Rightarrow> string \<Rightarrow> nat option" where
  "readDigits n [] = Some n"
| "readDigits n (c # cs) = (case digitOf c of None \<Rightarrow> None | Some d \<Rightarrow> readDigits (10 * n + d) cs)"

definition maxInt :: int where "maxInt = 2 ^ 63 - 1"
definition minInt :: int where "minInt = - (2 ^ 63)"

definition Atoi :: "string \<Rightarrow> int option" where
  "Atoi s =
     (let negative = (s \<noteq> [] \<and> hd s = CHR ''-''); digits = (if s \<noteq> [] \<and> (hd s = CHR ''-'' \<or> hd s = CHR ''+'') then tl s else s)
      in if digits = [] then None
         else case readDigits 0 digits of
             None \<Rightarrow> None
           | Some n \<Rightarrow>
               let v = (if negative then - int n else int n) in if minInt \<le> v \<and> v \<le> maxInt then Some v else None)"

definition ParseBool :: "string \<Rightarrow> bool option" where
  "ParseBool s =
     (if s \<in> {''1'', ''t'', ''T'', ''true'', ''TRUE'', ''True''} then Some True
      else if s \<in> {''0'', ''f'', ''F'', ''false'', ''FALSE'', ''False''} then Some False else None)"

subsection \<open>Numbers and their texts\<close>

lemma Atoi_range: "Atoi s = Some v \<Longrightarrow> minInt \<le> v \<and> v \<le> maxInt"
  by (auto simp: Atoi_def Let_def split: if_splits option.splits)

lemma Atoi_empty [simp]: "Atoi [] = None"
  by (simp add: Atoi_def)

function decimalText :: "nat \<Rightarrow> string" where
  "decimalText n = (if n < 10 then [char_of (48 + n)] else decimalText (n div 10) @ [char_of (48 + n mod 10)])"
  by pat_completeness auto
termination by (relation "measure (\<lambda>n. n)") auto

declare decimalText.simps [simp del]

lemma readDigits_append: "readDigits n (xs @ ys) = (case readDigits n xs of None \<Rightarrow> None | Some m \<Rightarrow> readDigits m ys)"
  by (induction xs arbitrary: n) (simp_all split: option.split)

lemma digitOf_char: "d < 10 \<Longrightarrow> digitOf (char_of (48 + d)) = Some d"
  by (simp add: digitOf_def Let_def)

lemma readDigits_decimal: "readDigits 0 (decimalText n) = Some n"
proof (induction n rule: decimalText.induct)
  case (1 n)
  show ?case
  proof (cases "n < 10")
    case True
    then show ?thesis by (subst decimalText.simps) (simp add: digitOf_char)
  next
    case False
    have "readDigits (n div 10) [char_of (48 + n mod 10)] = Some n" by (simp add: digitOf_char)
    then show ?thesis using 1 False by (subst decimalText.simps) (simp add: readDigits_append)
  qed
qed

lemma decimalText_hd: "decimalText n \<noteq> [] \<and> digitOf (hd (decimalText n)) \<noteq> None"
proof (induction n rule: decimalText.induct)
  case (1 n)
  show ?case
  proof (cases "n < 10")
    case True
    then show ?thesis by (subst (1 2) decimalText.simps) (simp add: digitOf_char)
  next
    case False
    then show ?thesis using 1 by (subst (1 2) decimalText.simps) simp
  qed
qed

lemma Atoi_decimal: "int n \<le> maxInt \<Longrightarrow> Atoi (decimalText n) = Some (int n)"
proof -
  assume n: "int n \<le> maxInt"
  have "hd (decimalText n) \<noteq> CHR ''-''" "hd (decimalText n) \<noteq> CHR ''+''"
    using decimalText_hd [of n] by (auto simp: digitOf_def)
  then show ?thesis
    using decimalText_hd [of n] n by (simp add: Atoi_def Let_def readDigits_decimal minInt_def)
qed

end
