(* ===== verification/Http_Handlers.thy ===== *)
theory Http_Handlers
  imports Go_Strconv Pg_Transfer Streaming Posting_Batcher
begin

text \<open>
  \<open>internal/http/handlers.go\<close>: the handlers over the interfaces of the stores, and the stores of this development as
  such interfaces.

  A request is its body, headers, query and path parameters. Decoding JSON bodies and RFC 3339 times is a parameter; an answer is
  the status, the content type and what is encoded as its body. A handler that writes no status
  answers 200.
\<close>

subsection \<open>Requests and answers\<close>

record httpRequest =
  rq_body :: string
  rq_header :: "string \<Rightarrow> string"
  rq_query :: "string \<Rightarrow> string"
  rq_param :: "string \<Rightarrow> string"

record 'd http_env =
  decodeAccount :: "string \<Rightarrow> CreateAccountRequest option"
  decodeTransfer :: "string \<Rightarrow> 'd TransferRequest option"
  decodeTransaction :: "string \<Rightarrow> 'd CreateTransactionRequest option"
  parseTime :: "string \<Rightarrow> time option"

text \<open>The message of an \<open>ErrorResponse\<close>: a text, or the text of an error.\<close>

datatype 'd message = Text string | ErrorOf "'d err"

datatype 'd body =
    ErrorBody "'d message"
  | AccountBody "'d Account"
  | TransferBody "'d TransferResponse"
  | EntriesBody "'d GetAccountEntriesResponse"
  | BalanceBody 'd
  | AggregatesBody "'d AggregateResponse"
  | ProjectionBody TransactionProjectionStatus
  | TransactionBody "'d Transaction"

record 'd httpResponse =
  hr_status :: nat
  hr_contentType :: string
  hr_body :: "'d body"

definition answer :: "nat \<Rightarrow> 'd body \<Rightarrow> 'd httpResponse" where
  "answer st b = \<lparr>hr_status = st, hr_contentType = ''application/json'', hr_body = b\<rparr>"

definition writeError :: "nat \<Rightarrow> 'd message \<Rightarrow> 'd httpResponse" where
  "writeError st msg = answer st (ErrorBody msg)"

subsection \<open>Interfaces\<close>

record ('s, 'd) StoreOps =
  opCreateAccount :: "string \<Rightarrow> AccountType \<Rightarrow> 's \<Rightarrow> 's \<times> ('d err, 'd Account) res"
  opCreateAccountInLedger :: "(string \<Rightarrow> string \<Rightarrow> AccountType \<Rightarrow> 's \<Rightarrow> 's \<times> ('d err, 'd Account) res) option"
  opCreateTransaction :: "string \<Rightarrow> 'd EntryRequest list \<Rightarrow> 's \<Rightarrow> 's \<times> ('d err, 'd Transaction \<times> bool) res"
  opGetBalance :: "string \<Rightarrow> 's \<Rightarrow> 's \<times> ('d err, 'd) res"
  opGetAccountEntries :: "string \<Rightarrow> GetAccountEntriesParams \<Rightarrow> 's \<Rightarrow> 's \<times> ('d err, 'd GetAccountEntriesResponse) res"

record ('s, 'd) TransferOps =
  opCreateTransfer :: "'d TransferRequest \<Rightarrow> 's \<Rightarrow> 's \<times> ('d err, 'd TransferResponse \<times> bool) res"
  opGetTransfer :: "string \<Rightarrow> 's \<Rightarrow> 's \<times> ('d err, 'd TransferResponse) res"
  opWaitForTransfer :: "(string \<Rightarrow> int \<Rightarrow> 's \<Rightarrow> 's \<times> ('d err, 'd TransferResponse) res) option"

record ('s, 'd) aggregateReader =
  opAccountAggregates :: "string \<Rightarrow> 's \<Rightarrow> 's \<times> ('d err, 'd AggregateResponse) res"
  opLedgerAggregates :: "string \<Rightarrow> 's \<Rightarrow> 's \<times> ('d err, 'd AggregateResponse) res"

record ('s, 'd) projectionReader =
  opProjectionStatus :: "string \<Rightarrow> string \<Rightarrow> 's \<Rightarrow> 's \<times> ('d err, TransactionProjectionStatus) res"
  opWaitForProjection :: "(string \<Rightarrow> string \<Rightarrow> int \<Rightarrow> 's \<Rightarrow> 's \<times> ('d err, TransactionProjectionStatus) res) option"

subsection \<open>Handlers\<close>

definition answerBadRequest :: "('b \<Rightarrow> 'd body) \<Rightarrow> 's \<times> ('d err, 'b) res \<Rightarrow> 's \<times> 'd httpResponse" where
  "answerBadRequest encode r =
     (case r of (s, Inl e) \<Rightarrow> (s, writeError 400 (ErrorOf e)) | (s, Inr x) \<Rightarrow> (s, answer 200 (encode x)))"

definition CreateAccountHandler ::
  "'d http_env \<Rightarrow> ('s, 'd) StoreOps \<Rightarrow> httpRequest \<Rightarrow> 's \<Rightarrow> 's \<times> 'd httpResponse" where
  "CreateAccountHandler henv store r s =
     (case decodeAccount henv (rq_body r) of
        None \<Rightarrow> (s, writeError 400 (Text ''Invalid request body''))
      | Some req \<Rightarrow>
          let create = (if car_LedgerID req \<noteq> '''' then map_option (\<lambda>f. f (car_LedgerID req) (car_Name req) (car_Type req)) (opCreateAccountInLedger store)
                else Some (opCreateAccount store (car_Name req) (car_Type req)))
          in (case create of
              None \<Rightarrow> (s, writeError 501 (Text ''ledger-scoped accounts are not supported''))
            | Some f \<Rightarrow>
                (case f s of
                   (s, Inl e) \<Rightarrow> (s, writeError 400 (ErrorOf e))
                 | (s, Inr account) \<Rightarrow> (s, answer 201 (AccountBody account)))))"

definition CreateTransferHandler ::
  "'d http_env \<Rightarrow> ('s, 'd) TransferOps \<Rightarrow> httpRequest \<Rightarrow> 's \<Rightarrow> 's \<times> 'd httpResponse" where
  "CreateTransferHandler henv store r s =
     (case decodeTransfer henv (rq_body r) of
        None \<Rightarrow> (s, writeError 400 (Text ''Invalid request body''))
      | Some req \<Rightarrow>
          let req = (if IdempotencyKey req = '''' then req\<lparr>IdempotencyKey := rq_header r ''Idempotency-Key''\<rparr> else req)
          in (case opCreateTransfer store req s of
              (s, Inl e) \<Rightarrow> (s, writeError (if e = TransferIdempotencyConflict then 409 else 400) (ErrorOf e))
            | (s, Inr (transfer, existed)) \<Rightarrow> (s, answer (if existed then 200 else 202) (TransferBody transfer))))"

text \<open>\<open>wait_ms\<close> in nanoseconds; \<open>None\<close> is the error.\<close>

definition requestedWait :: "httpRequest \<Rightarrow> int option" where
  "requestedWait r =
     (let raw = rq_query r ''wait_ms''
      in if raw = '''' then Some 0
         else (case Atoi raw of
             None \<Rightarrow> None
           | Some milliseconds \<Rightarrow> if milliseconds < 0 \<or> milliseconds > 30000 then None else Some (milliseconds * 1000000)))"

definition waitError :: "'d message" where
  "waitError = Text ''wait_ms must be an integer from 0 through 30000''"

definition GetTransferHandler :: "('s, 'd) TransferOps \<Rightarrow> httpRequest \<Rightarrow> 's \<Rightarrow> 's \<times> 'd httpResponse" where
  "GetTransferHandler store r s =
     (let transferID = rq_param r ''transfer_id''
      in (case requestedWait r of
          None \<Rightarrow> (s, writeError 400 waitError)
        | Some wait \<Rightarrow>
            (case (case opWaitForTransfer store of
                    Some waiter \<Rightarrow> if 0 < wait then waiter transferID wait s else opGetTransfer store transferID s
                  | None \<Rightarrow> opGetTransfer store transferID s) of
              (s, Inl e) \<Rightarrow> (s, writeError 404 (ErrorOf e))
            | (s, Inr transfer) \<Rightarrow> (s, answer 200 (TransferBody transfer)))))"

text \<open>\<open>t\<close> is what \<open>time.Now\<close> reads.\<close>

definition GetAccountEntriesHandler ::
  "'d http_env \<Rightarrow> ('s, 'd) StoreOps \<Rightarrow> time \<Rightarrow> httpRequest \<Rightarrow> 's \<Rightarrow> 's \<times> 'd httpResponse" where
  "GetAccountEntriesHandler henv store t r s =
     (let accountID = rq_param r ''account_id''; fromStr = rq_query r ''from''; toStr = rq_query r ''to''
      in if accountID = '''' then (s, writeError 400 (Text ''account_id path parameter is required''))
         else (case (if fromStr = '''' then Some 0 else parseTime henv fromStr) of
             None \<Rightarrow> (s, writeError 400 (Text ''invalid 'from' timestamp, expected RFC3339''))
           | Some from \<Rightarrow>
             (case (if toStr = '''' then Some t else parseTime henv toStr) of
                None \<Rightarrow> (s, writeError 400 (Text ''invalid 'to' timestamp, expected RFC3339''))
              | Some to \<Rightarrow> answerBadRequest EntriesBody (opGetAccountEntries store accountID \<lparr>From = from, To = to\<rparr> s))))"

definition GetBalanceHandler :: "('s, 'd) StoreOps \<Rightarrow> httpRequest \<Rightarrow> 's \<Rightarrow> 's \<times> 'd httpResponse" where
  "GetBalanceHandler store r s =
     (let accountID = rq_query r ''account_id''
      in if accountID = '''' then (s, writeError 400 (Text ''account_id query parameter is required''))
         else answerBadRequest BalanceBody (opGetBalance store accountID s))"

definition GetAccountAggregatesHandler :: "('s, 'd) aggregateReader \<Rightarrow> httpRequest \<Rightarrow> 's \<Rightarrow> 's \<times> 'd httpResponse" where
  "GetAccountAggregatesHandler store r s = answerBadRequest AggregatesBody (opAccountAggregates store (rq_param r ''account_id'') s)"

definition GetLedgerDailyAggregatesHandler :: "('s, 'd) aggregateReader \<Rightarrow> httpRequest \<Rightarrow> 's \<Rightarrow> 's \<times> 'd httpResponse" where
  "GetLedgerDailyAggregatesHandler store r s = answerBadRequest AggregatesBody (opLedgerAggregates store (rq_param r ''ledger_id'') s)"

fun isProjectionNotFound :: "'d err \<Rightarrow> bool" where
  "isProjectionNotFound (ProjectionNotFound _) \<longleftrightarrow> True"
| "isProjectionNotFound _ \<longleftrightarrow> False"

definition GetTransactionProjectionStatusHandler ::
  "('d, 'm) pg_env_scheme \<Rightarrow> ('s, 'd) projectionReader \<Rightarrow> httpRequest \<Rightarrow> 's \<Rightarrow> 's \<times> 'd httpResponse" where
  "GetTransactionProjectionStatusHandler env store r s =
     (let transactionID = rq_param r ''transaction_id''
      in if uuidParse env transactionID = None then (s, writeError 400 (Text ''transaction_id path parameter must be a UUID''))
         else (case requestedWait r of
             None \<Rightarrow> (s, writeError 400 waitError)
           | Some wait \<Rightarrow>
               (case (case opWaitForProjection store of
                       Some waiter \<Rightarrow> if 0 < wait then waiter transactionID AggregateConsumerName wait s
                           else opProjectionStatus store transactionID AggregateConsumerName s
                     | None \<Rightarrow> opProjectionStatus store transactionID AggregateConsumerName s) of
                 (s, Inl e) \<Rightarrow>
                   (s, if isProjectionNotFound e then writeError 404 (ErrorOf e)
                       else writeError 500 (Text ''failed to read transaction projection status''))
               | (s, Inr st) \<Rightarrow> (s, answer 200 (ProjectionBody st)))))"

definition postingKey :: "httpRequest \<Rightarrow> 'd CreateTransactionRequest \<Rightarrow> string" where
  "postingKey r req = (let header = rq_header r ''Idempotency-Key'' in if header = '''' then ctr_IdempotencyKey req else header)"

definition CreateTransactionHandler ::
  "'d http_env \<Rightarrow> ('s, 'd) StoreOps \<Rightarrow> httpRequest \<Rightarrow> 's \<Rightarrow> 's \<times> 'd httpResponse" where
  "CreateTransactionHandler henv store r s =
     (case decodeTransaction henv (rq_body r) of
        None \<Rightarrow> (s, writeError 400 (Text ''Invalid request body''))
      | Some req \<Rightarrow>
          (case opCreateTransaction store (postingKey r req) (ctr_Entries req) s of
              (s, Inl e) \<Rightarrow>
                (s, writeError (if e = IdempotencyKeyConflict then 409 else if e = TransactionRetryExhausted then 503 else 400) (ErrorOf e))
            | (s, Inr (transaction, existed)) \<Rightarrow> (s, answer (if existed then 200 else 201) (TransactionBody transaction))))"

end
