(* ===== verification/Http_Stores.thy ===== *)
theory Http_Stores
  imports Http_Handlers Memory_Properties Pg_Properties
begin

text \<open>
  The stores as the interfaces of the handlers, and what a client of the service may rely on.

  The contract that makes a retry safe is stated as a locale over any store: \<open>keyed_posting\<close> for one whose calls may meet
  faults, \<open>durable_posting\<close> for one that always answers. The client's lemma is proved once in it; the
  PostgreSQL store is an instance of the first and the in-memory store of both.
\<close>

subsection \<open>The stores\<close>

definition memoryStore :: "'d :: linordered_ab_group_add go_env \<Rightarrow> ('d MemoryStore, 'd) StoreOps" where
  "memoryStore env = \<lparr>opCreateAccount = CreateAccount env, opCreateAccountInLedger = Some (CreateAccountInLedger env),
     opCreateTransaction = CreateTransaction env, opGetBalance = (\<lambda>a s. (s, GetBalance a s)),
     opGetAccountEntries = (\<lambda>a params s. (s, GetAccountEntries a params s))\<rparr>"

definition memoryTransfers :: "'d :: linordered_ab_group_add go_env \<Rightarrow> ('d MemoryStore, 'd) TransferOps" where
  "memoryTransfers env = \<lparr>opCreateTransfer = CreateTransfer env, opGetTransfer = (\<lambda>i s. (s, GetTransfer i s)), opWaitForTransfer = None\<rparr>"

definition postgresStore :: "('d :: linordered_ab_group_add, 'm) pg_env_scheme \<Rightarrow> ('d Pg, 'd) StoreOps" where
  "postgresStore env = \<lparr>opCreateAccount = PgCreateAccount env, opCreateAccountInLedger = Some (PgCreateAccountInLedger env),
     opCreateTransaction = PgCreateTransaction env, opGetBalance = PgGetBalance env, opGetAccountEntries = PgGetAccountEntries env\<rparr>"

text \<open>\<open>others1\<close> and \<open>others2\<close> are what other goroutines do while a call waits.\<close>

definition postgresTransfers ::
  "('d :: linordered_ab_group_add, 'm) pg_env_scheme \<Rightarrow> ('d Pg \<Rightarrow> 'd Pg) \<Rightarrow> ('d Pg \<Rightarrow> 'd Pg) \<Rightarrow> ('d Pg, 'd) TransferOps" where
  "postgresTransfers env others1 others2 = \<lparr>opCreateTransfer = PgCreateTransfer env, opGetTransfer = PgGetTransfer env,
     opWaitForTransfer = Some (WaitForTransfer env others1 others2)\<rparr>"

definition postgresAggregates :: "('d, 'm) pg_env_scheme \<Rightarrow> ('d Pg, 'd) aggregateReader" where
  "postgresAggregates env = \<lparr>opAccountAggregates = GetAccountDailyAggregates env, opLedgerAggregates = GetLedgerDailyAggregates env\<rparr>"

definition postgresProjection ::
  "('d, 'm) pg_env_scheme \<Rightarrow> ('d Pg \<Rightarrow> 'd Pg) \<Rightarrow> ('d Pg \<Rightarrow> 'd Pg) \<Rightarrow> ('d Pg, 'd) projectionReader" where
  "postgresProjection env others1 others2 = \<lparr>opProjectionStatus = GetTransactionProjectionStatus env,
     opWaitForProjection = Some (WaitForTransactionProjection env others1 others2)\<rparr>"

definition splitProjection ::
  "('d, 'm) pg_env_scheme \<Rightarrow> ('d ProjectionStatusStore \<Rightarrow> 'd ProjectionStatusStore) \<Rightarrow> ('d ProjectionStatusStore \<Rightarrow> 'd ProjectionStatusStore)
     \<Rightarrow> ('d ProjectionStatusStore, 'd) projectionReader" where
  "splitProjection env others1 others2 = \<lparr>opProjectionStatus = ProjectionStatus env,
     opWaitForProjection = Some (WaitForProjectionStatus env others1 others2)\<rparr>"

subsection \<open>The contract of a keyed posting\<close>

locale keyed_posting =
  fixes create :: "string \<Rightarrow> 'd EntryRequest list \<Rightarrow> 's \<Rightarrow> 's \<times> ('d err, 'd Transaction \<times> bool) res"
    and ok :: "'s \<Rightarrow> bool" and later :: "string \<Rightarrow> 's \<Rightarrow> 's \<Rightarrow> bool"
    and unchanged :: "'s \<Rightarrow> 's \<Rightarrow> bool" and same :: "'d Transaction \<Rightarrow> 'd Transaction \<Rightarrow> bool" and unavailable :: "'d err \<Rightarrow> bool"
  assumes replay: "ok s \<Longrightarrow> key \<noteq> '''' \<Longrightarrow> create key es s = (s1, Inr (t, False)) \<Longrightarrow> later key s1 s2 \<Longrightarrow> mset es' = mset es \<Longrightarrow>
      create key es' s2 = (s3, r) \<Longrightarrow>
      unchanged s2 s3 \<and> (case r of Inl e \<Rightarrow> unavailable e | Inr (t', existed) \<Rightarrow> existed \<and> same t t')"
begin

text \<open>The second answer to a request that was answered with \<open>201 Created\<close>; the retry may permute the entries.\<close>

lemma retry:
  assumes "opCreateTransaction store = create" and "ok s"
    and "decodeTransaction henv (rq_body r) = Some req" and "decodeTransaction henv (rq_body r') = Some req'"
    and "postingKey r req \<noteq> ''''" and "postingKey r' req' = postingKey r req" and "mset (ctr_Entries req') = mset (ctr_Entries req)"
    and "CreateTransactionHandler henv store r s = (s1, a)" and "hr_status a = 201" and "later (postingKey r req) s1 s2"
    and "CreateTransactionHandler henv store r' s2 = (s3, b)"
  shows "unchanged s2 s3 \<and>
    ((\<exists>t t'. a = answer 201 (TransactionBody t) \<and> b = answer 200 (TransactionBody t') \<and> same t t') \<or>
     (\<exists>e. unavailable e \<and> hr_body b = ErrorBody (ErrorOf e)))"
proof -
  obtain t where 1: "create (postingKey r req) (ctr_Entries req) s = (s1, Inr (t, False))" "a = answer 201 (TransactionBody t)"
    using assms(1,3,8,9) by (auto simp: CreateTransactionHandler_def answer_def writeError_def split: prod.splits sum.splits if_splits)
  obtain res where 2: "create (postingKey r req) (ctr_Entries req') s2 = (s3, res)"
    using assms(1,4,6,11) by (auto simp: CreateTransactionHandler_def split: prod.splits sum.splits)
  note R = replay [OF assms(2,5) 1(1) assms(10,7) 2]
  show ?thesis
    using R 1(2) 2 assms(1,4,6,11)
    by (auto simp: CreateTransactionHandler_def answer_def writeError_def split: sum.splits prod.splits)
qed

end

text \<open>A store whose calls always answer: the retry gets the same transaction and leaves the store as it was.\<close>

locale durable_posting = keyed_posting create ok later unchanged same unavailable
  for create :: "string \<Rightarrow> 'd EntryRequest list \<Rightarrow> 's \<Rightarrow> 's \<times> ('d err, 'd Transaction \<times> bool) res"
    and ok later unchanged same unavailable +
  assumes available: "\<not> unavailable e" and unchanged_eq: "unchanged s s' \<Longrightarrow> s' = s" and same_eq: "same t t' \<Longrightarrow> t' = t"
begin

lemma retry_exact:
  assumes "opCreateTransaction store = create" and "ok s"
    and "decodeTransaction henv (rq_body r) = Some req" and "decodeTransaction henv (rq_body r') = Some req'"
    and "postingKey r req \<noteq> ''''" and "postingKey r' req' = postingKey r req" and "mset (ctr_Entries req') = mset (ctr_Entries req)"
    and "CreateTransactionHandler henv store r s = (s1, a)" and "hr_status a = 201" and "later (postingKey r req) s1 s2"
    and "CreateTransactionHandler henv store r' s2 = (s3, b)"
  shows "s3 = s2 \<and> (\<exists>t. a = answer 201 (TransactionBody t) \<and> b = answer 200 (TransactionBody t))"
  using retry [OF assms] available unchanged_eq same_eq by blast

end

interpretation pg: keyed_posting "PgCreateTransaction env" "\<lambda>_. True" "\<lambda>key s1 s2. keysT (db s2) key = keysT (db s1) key"
  "\<lambda>s s'. db s' = db s" "\<lambda>t t'. t_ID t' = t_ID t" "\<lambda>e. \<exists>w f. e = DbFault w f" for env
  by unfold_locales (rule PgCreateTransaction_again)

interpretation mem: durable_posting "CreateTransaction env" "\<lambda>s. fresh_ids env \<and> reachable env s" "\<lambda>_. (mem_step env)\<^sup>*\<^sup>*" "\<lambda>s s'. s' = s"
  "\<lambda>t t'. t' = t" "\<lambda>_. False" for env
  by unfold_locales (auto dest: CreateTransaction_again)

end
