(* ===== verification/Http_Properties.thy ===== *)
theory Http_Properties
  imports Http_Stores
begin

text \<open>
  What a client of the service may rely on: repeating a posting is safe, and a bounded wait is bounded.

  The first property is the client's lemma of the locale \<open>keyed_posting\<close> on the PostgreSQL store; the in-memory store, an
  instance of \<open>durable_posting\<close>, gives the exact answer.
\<close>

subsection \<open>Repeating a posting\<close>

text \<open>
  A client that posts with an idempotency key (in the header or the body), was answered 201 Created, and repeats the request
  later, its entries in any order, changes no table of the PostgreSQL store. It is answered 200 with the transaction of the first
  answer, or with the error of a database call that failed.
\<close>

theorem http_posting_retry:
  assumes "decodeTransaction henv (rq_body r) = Some req" and "decodeTransaction henv (rq_body r') = Some req'"
    and "postingKey r req \<noteq> ''''" and "postingKey r' req' = postingKey r req" and "mset (ctr_Entries req') = mset (ctr_Entries req)"
    and "CreateTransactionHandler henv (postgresStore env) r s = (s1, a)" and "hr_status a = 201"
    and "keysT (db s2) (postingKey r req) = keysT (db s1) (postingKey r req)"
    and "CreateTransactionHandler henv (postgresStore env) r' s2 = (s3, b)"
  shows "db s3 = db s2 \<and>
    ((\<exists>t t'. a = answer 201 (TransactionBody t) \<and> b = answer 200 (TransactionBody t') \<and> t_ID t' = t_ID t) \<or>
     (\<exists>w f. hr_body b = ErrorBody (ErrorOf (DbFault w f))))"
proof -
  have "opCreateTransaction (postgresStore env) = PgCreateTransaction env" by (simp add: postgresStore_def)
  from pg.retry [OF this TrueI assms] show ?thesis by blast
qed

definition httpEnv :: "int http_env" where
  "httpEnv = \<lparr>decodeAccount = (\<lambda>_. None), decodeTransfer = (\<lambda>_. None),
     decodeTransaction = (\<lambda>body. if body = ''one'' then Some \<lparr>ctr_Entries = pgRequest, ctr_IdempotencyKey = ''k''\<rparr>
       else if body = ''two'' then Some \<lparr>ctr_Entries = rev pgRequest, ctr_IdempotencyKey = ''ignored''\<rparr> else None),
     parseTime = (\<lambda>_. None)\<rparr>"

definition keyedRequest :: "string \<Rightarrow> string \<Rightarrow> httpRequest" where
  "keyedRequest body key = \<lparr>rq_body = body, rq_header = (\<lambda>name. if name = ''Idempotency-Key'' then key else []),
     rq_query = (\<lambda>_. []), rq_param = (\<lambda>_. [])\<rparr>"

text \<open>The first request has its key in the body, the second in the header, and its entries in the other order.\<close>

theorem http_posting_retry_witness:
  "\<exists>s3 b. CreateTransactionHandler httpEnv (postgresStore pgEnv) (keyedRequest ''two'' ''k'') pgPosted = (s3, b) \<and> db s3 = db pgPosted \<and>
    ((\<exists>t. b = answer 200 (TransactionBody t) \<and> t_ID t = uuidString pgEnv 10) \<or> (\<exists>w f. hr_body b = ErrorBody (ErrorOf (DbFault w f))))"
proof -
  obtain t where t: "PgCreateTransaction pgEnv ''k'' pgRequest pgStart = (pgPosted, Inr (t, False))" "t_ID t = uuidString pgEnv 10"
    using pgPosted_eq(1) by blast
  have first: "CreateTransactionHandler httpEnv (postgresStore pgEnv) (keyedRequest ''one'' []) pgStart = (pgPosted, answer 201 (TransactionBody t))"
    using t(1) by (simp add: CreateTransactionHandler_def httpEnv_def keyedRequest_def postgresStore_def postingKey_def)
  obtain s3 b where b: "CreateTransactionHandler httpEnv (postgresStore pgEnv) (keyedRequest ''two'' ''k'') pgPosted = (s3, b)"
    by (cases "CreateTransactionHandler httpEnv (postgresStore pgEnv) (keyedRequest ''two'' ''k'') pgPosted")
  have "db s3 = db pgPosted \<and>
    ((\<exists>u u'. answer 201 (TransactionBody t) = answer 201 (TransactionBody u) \<and> b = answer 200 (TransactionBody u') \<and> t_ID u' = t_ID u) \<or>
     (\<exists>w f. hr_body b = ErrorBody (ErrorOf (DbFault w f))))"
    by (rule http_posting_retry [where req = "\<lparr>ctr_Entries = pgRequest, ctr_IdempotencyKey = ''k''\<rparr>"
        and req' = "\<lparr>ctr_Entries = rev pgRequest, ctr_IdempotencyKey = ''ignored''\<rparr>", OF _ _ _ _ _ first _ refl b])
      (simp_all add: httpEnv_def keyedRequest_def postingKey_def answer_def)
  then show ?thesis using b t(2) by (auto simp: answer_def)
qed

text \<open>The in-memory store answers the repetition with exactly the transaction of the first answer, and is left as it was.\<close>

lemma http_memory_retry:
  assumes "fresh_ids env \<and> reachable env s"
    and "decodeTransaction henv (rq_body r) = Some req" and "decodeTransaction henv (rq_body r') = Some req'"
    and "postingKey r req \<noteq> ''''" and "postingKey r' req' = postingKey r req" and "mset (ctr_Entries req') = mset (ctr_Entries req)"
    and "CreateTransactionHandler henv (memoryStore env) r s = (s1, a)" and "hr_status a = 201" and "(mem_step env)\<^sup>*\<^sup>* s1 s2"
    and "CreateTransactionHandler henv (memoryStore env) r' s2 = (s3, b)"
  shows "s3 = s2 \<and> (\<exists>t. a = answer 201 (TransactionBody t) \<and> b = answer 200 (TransactionBody t))"
proof -
  have "opCreateTransaction (memoryStore env) = CreateTransaction env" by (simp add: memoryStore_def)
  from mem.retry_exact [OF this assms] show ?thesis .
qed

subsection \<open>Bounded waits\<close>

lemma requestedWait_Some:
  "requestedWait r = Some w \<longleftrightarrow> (rq_query r ''wait_ms'' = '''' \<and> w = 0 \<or>
     (\<exists>ms. Atoi (rq_query r ''wait_ms'') = Some ms \<and> 0 \<le> ms \<and> ms \<le> 30000 \<and> w = ms * 1000000))"
  by (cases "Atoi (rq_query r ''wait_ms'')") (auto simp: requestedWait_def Let_def)

text \<open>
  The \<open>wait_ms\<close> parameter of a transfer query on the PostgreSQL store. A number of milliseconds in decimal is accepted
  exactly up to 30000 and read as that many milliseconds: the store is asked to wait that long, or just asked when the wait is zero; a
  greater number is answered with 400, and the store is not asked. Whatever text is accepted, no wait is below zero or above thirty seconds.
\<close>

theorem requested_wait_bounded:
  assumes "rq_query r ''wait_ms'' = decimalText n" and "int n \<le> maxInt"
  shows "GetTransferHandler (postgresTransfers env others1 others2) r s =
     (if 30000 < n then (s, writeError 400 waitError)
      else case (if n = 0 then PgGetTransfer env (rq_param r ''transfer_id'') s
          else WaitForTransfer env others1 others2 (rq_param r ''transfer_id'') (int n * 1000000) s) of
          (s', Inl e) \<Rightarrow> (s', writeError 404 (ErrorOf e))
        | (s', Inr t) \<Rightarrow> (s', answer 200 (TransferBody t))) \<and>
    (\<forall>r' w. requestedWait r' = Some w \<longrightarrow> 0 \<le> w \<and> w \<le> 30 * 1000000000)"
proof -
  have "requestedWait r = (if n \<le> 30000 then Some (int n * 1000000) else None)"
    using assms decimalText_hd [of n] by (simp add: requestedWait_def Atoi_decimal Let_def)
  then show ?thesis
    by (auto simp: GetTransferHandler_def postgresTransfers_def Let_def requestedWait_Some split: prod.splits sum.splits)
qed

theorem requested_wait_bounded_witness:
  "GetTransferHandler (postgresTransfers pgEnv (\<lambda>s. s) (\<lambda>s. s)) (keyedRequest [] []\<lparr>rq_query := (\<lambda>_. decimalText 30001)\<rparr>) pgStart =
     (pgStart, writeError 400 waitError)"
  using requested_wait_bounded [of "keyedRequest [] []\<lparr>rq_query := (\<lambda>_. decimalText 30001)\<rparr>" 30001 pgEnv "\<lambda>s. s" "\<lambda>s. s" pgStart]
  by (simp add: maxInt_def)

end
