(* ===== verification/Server_Config.thy ===== *)
theory Server_Config
  imports Go_Strconv Posting_Batcher
begin

text \<open>
  \<open>cmd/ledger/main.go\<close>: the environment variables of the server, the connection pools it divides its budget into, its
  background workers and its statistics endpoint.

  Integers are those of the machine, \<open>64 word\<close>; \<open>sint\<close> reads them. \<open>time.ParseDuration\<close> is a parameter (nanoseconds), as it computes
  with floating point. What \<open>main\<close> does between reading two variables, such as opening connections, is input and output.
\<close>

type_synonym goInt = "64 word"

record server_env =
  Getenv :: "string \<Rightarrow> string"
  ParseDuration :: "string \<Rightarrow> int option"

subsection \<open>Variables\<close>

definition envInt :: "server_env \<Rightarrow> string \<Rightarrow> goInt \<Rightarrow> ('d err, goInt) res" where
  "envInt env name fallback =
     (let raw = Getenv env name
      in if raw = '''' then Inr fallback
         else (case Atoi raw of
             None \<Rightarrow> Inl (NotNonNegativeInteger name raw)
           | Some v \<Rightarrow> if v < 0 then Inl (NotNonNegativeInteger name raw) else Inr (word_of_int v)))"

definition positiveEnvInt :: "server_env \<Rightarrow> string \<Rightarrow> goInt \<Rightarrow> ('d err, goInt) res" where
  "positiveEnvInt env name fallback =
     bindR (envInt env name fallback) (\<lambda>v. if v = 0 then Inl (NotPositive name) else Inr v)"

definition envDuration :: "server_env \<Rightarrow> string \<Rightarrow> int \<Rightarrow> ('d err, int) res" where
  "envDuration env name fallback =
     (let raw = Getenv env name
      in if raw = '''' then Inr fallback
         else (case ParseDuration env raw of
             None \<Rightarrow> Inl (NotDuration name raw)
           | Some v \<Rightarrow> if v < 0 then Inl (NotDuration name raw) else Inr v))"

definition envBool :: "server_env \<Rightarrow> string \<Rightarrow> bool \<Rightarrow> ('d err, bool) res" where
  "envBool env name fallback =
     (let raw = Getenv env name
      in if raw = '''' then Inr fallback
         else (case ParseBool raw of None \<Rightarrow> Inl (NotBoolean name raw) | Some v \<Rightarrow> Inr v))"

subsection \<open>Connection pools\<close>

record dbPoolConfig =
  maxOpen :: goInt
  maxIdle :: goInt
  maxLifetime :: int
  maxIdleTime :: int

record dedicatedPoolConfig =
  foreground :: goInt
  transfer :: goInt
  publisher :: goInt
  aggregate :: goInt

definition dedicatedEnabled :: "dedicatedPoolConfig \<Rightarrow> bool" where
  "dedicatedEnabled c \<longleftrightarrow> 0 < sint (transfer c + publisher c + aggregate c)"

definition loadDBPoolConfig :: "server_env \<Rightarrow> ('d err, dbPoolConfig) res" where
  "loadDBPoolConfig env =
     bindR (envInt env ''DB_MAX_OPEN_CONNS'' 0) (\<lambda>maxOpen.
     bindR (envInt env ''DB_MAX_IDLE_CONNS'' 2) (\<lambda>maxIdle.
     bindR (envDuration env ''DB_CONN_MAX_LIFETIME'' 0) (\<lambda>maxLifetime.
     bindR (envDuration env ''DB_CONN_MAX_IDLE_TIME'' 0) (\<lambda>maxIdleTime.
     Inr \<lparr>maxOpen = maxOpen, maxIdle = maxIdle, maxLifetime = maxLifetime, maxIdleTime = maxIdleTime\<rparr>))))"

definition loadDedicatedPoolConfig :: "server_env \<Rightarrow> goInt \<Rightarrow> ('d err, dedicatedPoolConfig) res" where
  "loadDedicatedPoolConfig env budget =
     bindR (envInt env ''DB_TRANSFER_POOL_CONNS'' 0) (\<lambda>transfer.
     bindR (envInt env ''DB_PUBLISHER_POOL_CONNS'' 0) (\<lambda>publisher.
     bindR (envInt env ''DB_AGGREGATE_POOL_CONNS'' 0) (\<lambda>aggregate.
     let background = transfer + publisher + aggregate
     in if background = 0 then Inr \<lparr>foreground = budget, transfer = 0, publisher = 0, aggregate = 0\<rparr>
        else if transfer = 0 \<or> publisher = 0 \<or> aggregate = 0 then Inl DedicatedPoolsNotPositive
        else if budget = 0 \<or> sint budget \<le> sint background then Inl (DedicatedPoolsTooLarge (sint background))
        else Inr \<lparr>foreground = budget - background, transfer = transfer, publisher = publisher, aggregate = aggregate\<rparr>)))"

text \<open>With a database of its own the projection needs no share of the budget.\<close>

definition projectionBudget :: "string \<Rightarrow> dedicatedPoolConfig \<Rightarrow> dedicatedPoolConfig" where
  "projectionBudget projectionDSN c =
     (if projectionDSN \<noteq> '''' \<and> 0 < sint (aggregate c) then c\<lparr>foreground := foreground c + aggregate c, aggregate := 0\<rparr> else c)"

text \<open>The settings of one pool, as \<open>database/sql\<close> is given them.\<close>

record dbPool =
  po_maxOpen :: goInt
  po_maxIdle :: goInt
  po_maxLifetime :: int
  po_maxIdleTime :: int

definition configureDBPool :: "goInt \<Rightarrow> dbPoolConfig \<Rightarrow> dbPool" where
  "configureDBPool limit config =
     \<lparr>po_maxOpen = limit,
      po_maxIdle = (if limit = 0 then maxIdle config else if sint (maxIdle config) \<le> sint limit then maxIdle config else limit),
      po_maxLifetime = maxLifetime config, po_maxIdleTime = maxIdleTime config\<rparr>"

text \<open>The pools of the main database, as \<open>main\<close> opens them.\<close>

definition oltpPools :: "dedicatedPoolConfig \<Rightarrow> dbPoolConfig \<Rightarrow> (string \<times> dbPool) list" where
  "oltpPools c config =
     (''foreground'', configureDBPool (foreground c) config) #
     (if dedicatedEnabled c
      then [(''transfer'', configureDBPool (transfer c) config), (''publisher'', configureDBPool (publisher c) config)] @
        (if 0 < sint (aggregate c) then [(''aggregate'', configureDBPool (aggregate c) config)] else [])
      else [])"

subsection \<open>The configuration of the server\<close>

record serverConfig =
  sc_pool :: dbPoolConfig
  sc_dedicated :: dedicatedPoolConfig
  sc_projectionMaxOpen :: "goInt option"
  sc_postingBatchSize :: goInt
  sc_postingBatchWait :: int
  sc_postingBatchWorkers :: goInt
  sc_publishAsyncMaxPending :: goInt
  sc_workerBatch :: goInt
  sc_workerIdleDelay :: int
  sc_transferWorkers :: goInt
  sc_publisherWorkers :: goInt
  sc_aggregateWorkers :: goInt
  sc_aggregateFetchBatch :: goInt
  sc_requestLog :: bool

definition loadServerConfig :: "server_env \<Rightarrow> ('d err, serverConfig) res" where
  "loadServerConfig env =
     bindR (loadDBPoolConfig env) (\<lambda>pool.
     bindR (loadDedicatedPoolConfig env (maxOpen pool)) (\<lambda>dedicated.
     let projectionDSN = Getenv env ''PROJECTION_DATABASE_URL'' in
     bindR (if projectionDSN \<noteq> '''' then bindR (positiveEnvInt env ''PROJECTION_DB_MAX_OPEN_CONNS'' 20) (\<lambda>n. Inr (Some n)) else Inr None) (\<lambda>projection.
     bindR (positiveEnvInt env ''POSTING_BATCH_SIZE'' 64) (\<lambda>postingBatchSize.
     bindR (envDuration env ''POSTING_BATCH_WAIT'' 500000) (\<lambda>postingBatchWait.
     bindR (positiveEnvInt env ''POSTING_BATCH_WORKERS'' 4) (\<lambda>postingBatchWorkers.
     bindR (if validBatchConfiguration (sint postingBatchSize) postingBatchWait (sint postingBatchWorkers) then Inr () else Inl InvalidBatchConfiguration) (\<lambda>_.
     bindR (positiveEnvInt env ''PUBLISH_ASYNC_MAX_PENDING'' 256) (\<lambda>publishAsyncMaxPending.
     bindR (case (envInt env ''WORKER_BATCH_SIZE'' 100 :: ('d err, goInt) res) of
         Inl _ \<Rightarrow> Inl (NotPositive ''WORKER_BATCH_SIZE'')
       | Inr n \<Rightarrow> if n = 0 then Inl (NotPositive ''WORKER_BATCH_SIZE'') else Inr n) (\<lambda>workerBatch.
     bindR (envDuration env ''WORKER_IDLE_DELAY'' 10000000) (\<lambda>workerIdleDelay.
     bindR (positiveEnvInt env ''TRANSFER_WORKERS'' 1) (\<lambda>transferWorkers.
     bindR (positiveEnvInt env ''PUBLISHER_WORKERS'' 16) (\<lambda>publisherWorkers.
     bindR (positiveEnvInt env ''AGGREGATE_WORKERS'' 4) (\<lambda>aggregateWorkers.
     bindR (positiveEnvInt env ''AGGREGATE_FETCH_BATCH'' 64) (\<lambda>aggregateFetchBatch.
     bindR (envBool env ''HTTP_REQUEST_LOG'' True) (\<lambda>requestLog.
     Inr \<lparr>sc_pool = pool, sc_dedicated = projectionBudget projectionDSN dedicated, sc_projectionMaxOpen = projection,
       sc_postingBatchSize = postingBatchSize, sc_postingBatchWait = postingBatchWait, sc_postingBatchWorkers = postingBatchWorkers,
       sc_publishAsyncMaxPending = publishAsyncMaxPending, sc_workerBatch = workerBatch, sc_workerIdleDelay = workerIdleDelay,
       sc_transferWorkers = transferWorkers, sc_publisherWorkers = publisherWorkers, sc_aggregateWorkers = aggregateWorkers,
       sc_aggregateFetchBatch = aggregateFetchBatch, sc_requestLog = requestLog\<rparr>)))))))))))))))"

subsection \<open>Background workers\<close>

text \<open>One round of the loop of \<open>startBackgroundWorker\<close>, and whether it sleeps before the next: after an error and when there was no work.\<close>

definition workerRound :: "('s \<Rightarrow> 's \<times> nat \<times> 'e option) \<Rightarrow> 's \<Rightarrow> 's \<times> bool" where
  "workerRound work s = (case work s of (s, processed, Some e) \<Rightarrow> (s, True) | (s, processed, None) \<Rightarrow> (s, processed = 0))"

text \<open>The workers \<open>main\<close> starts: their names, how long they sleep and what they call.\<close>

datatype workerRole = RecoverTransfers | CompensateTransfers | PublishEvents

definition backgroundWorkers :: "serverConfig \<Rightarrow> (string \<times> int \<times> workerRole) list" where
  "backgroundWorkers c =
     map (\<lambda>i. (''transfer recovery worker '' @ decimalText (i + 1), sc_workerIdleDelay c, RecoverTransfers)) [0..<nat (sint (sc_transferWorkers c))] @
     [(''transfer compensation worker'', 100 * 1000000, CompensateTransfers)] @
     map (\<lambda>i. (''transaction event publisher '' @ decimalText (i + 1), sc_workerIdleDelay c, PublishEvents)) [0..<nat (sint (sc_publisherWorkers c))]"

subsection \<open>What is read is in range\<close>

lemma sint_of_Atoi: "0 \<le> v \<Longrightarrow> v \<le> maxInt \<Longrightarrow> sint (word_of_int v :: goInt) = v"
  by (simp add: maxInt_def signed_of_int signed_take_bit_int_eq_self)

lemma envInt_range:
  assumes "envInt env name fallback = Inr v" and "0 \<le> sint fallback"
  shows "0 \<le> sint v"
proof (cases "Getenv env name = ''''")
  case True
  then show ?thesis using assms by (simp add: envInt_def)
next
  case False
  then obtain n where "Atoi (Getenv env name) = Some n" "0 \<le> n" "v = word_of_int n"
    using assms(1) by (auto simp: envInt_def Let_def split: option.splits if_splits)
  then show ?thesis using Atoi_range [of "Getenv env name" n] sint_of_Atoi [of n] by simp
qed

lemma positiveEnvInt_range:
  assumes "positiveEnvInt env name fallback = (Inr v :: ('d err, goInt) res)" and "0 \<le> sint fallback"
  shows "0 < sint v"
proof -
  have v: "envInt env name fallback = (Inr v :: ('d err, goInt) res)" "v \<noteq> 0" using assms(1) by (auto simp: positiveEnvInt_def bindR_Inr split: if_splits)
  have "sint v \<noteq> 0" using v(2) by (metis signed_0 signed_word_eqI)
  then show ?thesis using envInt_range [OF v(1) assms(2)] by simp
qed

lemma envDuration_range: "envDuration env name fallback = Inr v \<Longrightarrow> 0 \<le> fallback \<Longrightarrow> 0 \<le> v"
  by (auto simp: envDuration_def Let_def split: option.splits if_splits)

lemma sint_add:
  assumes "0 \<le> sint a" and "0 \<le> sint b" and "sint a + sint b \<le> maxInt"
  shows "sint (a + b :: goInt) = sint a + sint b"
proof -
  have "a + b = word_of_int (sint a + sint b)" by simp
  then show ?thesis using sint_of_Atoi [of "sint a + sint b"] assms by simp
qed

lemma sint_diff:
  assumes "0 \<le> sint b" and "sint b \<le> sint a"
  shows "sint (a - b :: goInt) = sint a - sint b"
proof -
  have "a - b = word_of_int (sint a - sint b)" by simp
  moreover have "sint a < 2 ^ 63" using sint_lt [of a] by simp
  ultimately show ?thesis using sint_of_Atoi [of "sint a - sint b"] assms by (simp add: maxInt_def)
qed

lemma sint_positive:
  assumes "envInt env name 0 = (Inr v :: ('d err, goInt) res)" and "v \<noteq> 0"
  shows "0 < sint v"
proof -
  have "sint v \<noteq> 0" using assms(2) by (metis signed_0 signed_word_eqI)
  then show ?thesis using envInt_range [OF assms(1)] by simp
qed

subsection \<open>The division of the connections\<close>

lemma loadDedicatedPoolConfigE:
  assumes "loadDedicatedPoolConfig env budget = (Inr c :: ('d err, dedicatedPoolConfig) res)"
  obtains (none) "c = \<lparr>foreground = budget, transfer = 0, publisher = 0, aggregate = 0\<rparr>"
  | (some) t p a where "envInt env ''DB_TRANSFER_POOL_CONNS'' 0 = (Inr t :: ('d err, goInt) res)"
      "envInt env ''DB_PUBLISHER_POOL_CONNS'' 0 = (Inr p :: ('d err, goInt) res)"
      "envInt env ''DB_AGGREGATE_POOL_CONNS'' 0 = (Inr a :: ('d err, goInt) res)"
      "c = \<lparr>foreground = budget - (t + p + a), transfer = t, publisher = p, aggregate = a\<rparr>" "t + p + a \<noteq> 0"
      "t \<noteq> 0" "p \<noteq> 0" "a \<noteq> 0" "sint (t + p + a) < sint budget"
  using assms by (auto simp: loadDedicatedPoolConfig_def bindR_Inr Let_def split: if_splits)

text \<open>Of an accepted configuration: the whole budget is shared out, and each share is positive, when the sum of the background does not overflow.\<close>

lemma loadDedicatedPoolConfig_shares:
  assumes "loadDedicatedPoolConfig env budget = (Inr c :: ('d err, dedicatedPoolConfig) res)" and "0 \<le> sint budget"
    and "sint (transfer c) + sint (publisher c) + sint (aggregate c) \<le> maxInt"
  shows "sint (foreground c) + sint (transfer c) + sint (publisher c) + sint (aggregate c) = sint budget"
    and "c = \<lparr>foreground = budget, transfer = 0, publisher = 0, aggregate = 0\<rparr> \<or>
      (0 < sint (foreground c) \<and> 0 < sint (transfer c) \<and> 0 < sint (publisher c) \<and> 0 < sint (aggregate c))"
proof -
  have "sint (foreground c) + sint (transfer c) + sint (publisher c) + sint (aggregate c) = sint budget \<and>
    (c = \<lparr>foreground = budget, transfer = 0, publisher = 0, aggregate = 0\<rparr> \<or>
      (0 < sint (foreground c) \<and> 0 < sint (transfer c) \<and> 0 < sint (publisher c) \<and> 0 < sint (aggregate c)))"
    using assms(1)
  proof (cases rule: loadDedicatedPoolConfigE)
    case none
    then show ?thesis by simp
  next
    case (some t p a)
    note pos = sint_positive [OF some(1) some(6)] sint_positive [OF some(2) some(7)] sint_positive [OF some(3) some(8)]
    have "sint (t + p) = sint t + sint p" using pos assms(3) some(4) by (intro sint_add) simp_all
    then have sum: "sint (t + p + a) = sint t + sint p + sint a" using sint_add [of "t + p" a] pos assms(3) some(4) by simp
    have "sint (budget - (t + p + a)) = sint budget - sint (t + p + a)" using pos sum some(9) by (intro sint_diff) simp_all
    then show ?thesis using pos sum some(4,9) by simp
  qed
  then show "sint (foreground c) + sint (transfer c) + sint (publisher c) + sint (aggregate c) = sint budget"
    and "c = \<lparr>foreground = budget, transfer = 0, publisher = 0, aggregate = 0\<rparr> \<or>
      (0 < sint (foreground c) \<and> 0 < sint (transfer c) \<and> 0 < sint (publisher c) \<and> 0 < sint (aggregate c))"
    by simp_all
qed

lemma projectionBudget_shares:
  assumes "0 \<le> sint (foreground c)" and "0 \<le> sint (transfer c)" and "0 \<le> sint (publisher c)" and "0 \<le> sint (aggregate c)"
    and "sint (foreground c) + sint (transfer c) + sint (publisher c) + sint (aggregate c) \<le> maxInt"
  shows "sint (foreground (projectionBudget dsn c)) + sint (aggregate (projectionBudget dsn c)) = sint (foreground c) + sint (aggregate c)"
    and "sint (foreground c) \<le> sint (foreground (projectionBudget dsn c))" and "0 \<le> sint (aggregate (projectionBudget dsn c))"
  using assms by (simp_all add: projectionBudget_def sint_add)

lemma sint_le_maxInt: "sint (w :: goInt) \<le> maxInt"
  using sint_lt [of w] by (simp add: maxInt_def)

lemma configureDBPool_limits: "0 < sint limit \<Longrightarrow> sint (po_maxOpen (configureDBPool limit config)) = sint limit \<and>
    sint (po_maxIdle (configureDBPool limit config)) \<le> sint limit"
  by (auto simp: configureDBPool_def)

lemma configureDBPool_open [simp]: "po_maxOpen (configureDBPool limit config) = limit"
  by (simp add: configureDBPool_def)

text \<open>The pools of a division into positive shares.\<close>

lemma oltpPools_positive:
  assumes "0 < sint (foreground c)" and "0 < sint (transfer c)" and "0 < sint (publisher c)" and "0 \<le> sint (aggregate c)"
    and "sint (transfer c) + sint (publisher c) + sint (aggregate c) \<le> maxInt"
  shows "sum_list (map (\<lambda>(name, pool). sint (po_maxOpen pool)) (oltpPools c config)) =
      sint (foreground c) + sint (transfer c) + sint (publisher c) + sint (aggregate c)"
    and "(name, pool) \<in> set (oltpPools c config) \<Longrightarrow> 0 < sint (po_maxOpen pool) \<and> sint (po_maxIdle pool) \<le> sint (po_maxOpen pool)"
proof -
  have "sint (transfer c + publisher c) = sint (transfer c) + sint (publisher c)" using assms by (intro sint_add) simp_all
  then have "dedicatedEnabled c" using sint_add [of "transfer c + publisher c" "aggregate c"] assms by (simp add: dedicatedEnabled_def)
  then show "sum_list (map (\<lambda>(name, pool). sint (po_maxOpen pool)) (oltpPools c config)) =
      sint (foreground c) + sint (transfer c) + sint (publisher c) + sint (aggregate c)"
    and "(name, pool) \<in> set (oltpPools c config) \<Longrightarrow> 0 < sint (po_maxOpen pool) \<and> sint (po_maxIdle pool) \<le> sint (po_maxOpen pool)"
    using assms configureDBPool_limits by (auto simp: oltpPools_def split: if_splits)
qed

text \<open>
  C39: The connection limits of the pools the server opens on the main database add up to the configured maximum, whether or not the
  projection has a database of its own, no pool is without a limit when the whole has one, and no pool keeps more idle connections
  than its limit. The hypothesis on the sum excludes only configurations that overflow a machine integer.
\<close>

theorem pools_divide_connections:
  assumes "loadDedicatedPoolConfig env budget = (Inr c :: ('d err, dedicatedPoolConfig) res)" and "0 < sint budget"
    and "sint (transfer c) + sint (publisher c) + sint (aggregate c) \<le> maxInt"
  shows "sum_list (map (\<lambda>(name, pool). sint (po_maxOpen pool)) (oltpPools (projectionBudget dsn c) config)) = sint budget \<and>
    (\<forall>(name, pool) \<in> set (oltpPools (projectionBudget dsn c) config).
      0 < sint (po_maxOpen pool) \<and> sint (po_maxIdle pool) \<le> sint (po_maxOpen pool))"
  using loadDedicatedPoolConfig_shares(2) [OF assms(1) order.strict_implies_order [OF assms(2)] assms(3)]
proof
  assume "c = \<lparr>foreground = budget, transfer = 0, publisher = 0, aggregate = 0\<rparr>"
  then show ?thesis using assms(2) configureDBPool_limits by (auto simp: projectionBudget_def oltpPools_def dedicatedEnabled_def)
next
  let ?c = "projectionBudget dsn c"
  assume pos: "0 < sint (foreground c) \<and> 0 < sint (transfer c) \<and> 0 < sint (publisher c) \<and> 0 < sint (aggregate c)"
  have total: "sint (foreground c) + sint (transfer c) + sint (publisher c) + sint (aggregate c) = sint budget"
    using loadDedicatedPoolConfig_shares(1) [OF assms(1) order.strict_implies_order [OF assms(2)] assms(3)] .
  have same: "transfer ?c = transfer c" "publisher ?c = publisher c" by (simp_all add: projectionBudget_def)
  note shares = projectionBudget_shares [of c dsn]
  have P: "sint (foreground ?c) + sint (aggregate ?c) = sint (foreground c) + sint (aggregate c)"
    "sint (foreground c) \<le> sint (foreground ?c)" "0 \<le> sint (aggregate ?c)" using shares pos total sint_le_maxInt [of budget] by simp_all
  then show ?thesis using oltpPools_positive [where c = "?c" and config = config] pos total same assms(3) by auto
qed

text \<open>An environment with the given variables.\<close>

definition env_of :: "(string \<times> string) list \<Rightarrow> server_env" where
  "env_of vars = \<lparr>Getenv = (\<lambda>name. case map_of vars name of None \<Rightarrow> [] | Some v \<Rightarrow> v), ParseDuration = (\<lambda>_. None)\<rparr>"

definition dedicated_env :: server_env where
  "dedicated_env = env_of [(''DB_TRANSFER_POOL_CONNS'', ''2''), (''DB_PUBLISHER_POOL_CONNS'', ''14''), (''DB_AGGREGATE_POOL_CONNS'', ''4'')]"

lemma dedicated_env_config: "loadDedicatedPoolConfig dedicated_env 90 =
    (Inr \<lparr>foreground = 70, transfer = 2, publisher = 14, aggregate = 4\<rparr> :: ('d err, dedicatedPoolConfig) res)"
  by (simp add: loadDedicatedPoolConfig_def envInt_def dedicated_env_def env_of_def Atoi_def digitOf_def minInt_def maxInt_def Let_def)

theorem pools_divide_connections_witness:
  "sum_list (map (\<lambda>(name, pool). sint (po_maxOpen pool))
     (oltpPools (projectionBudget ''postgres://projection'' \<lparr>foreground = 70, transfer = 2, publisher = 14, aggregate = 4\<rparr>)
       \<lparr>maxOpen = 90, maxIdle = 25, maxLifetime = 0, maxIdleTime = 0\<rparr>)) = 90"
  using pools_divide_connections [OF dedicated_env_config, where dsn = "''postgres://projection''" and config = "\<lparr>maxOpen = 90, maxIdle = 25, maxLifetime = 0, maxIdleTime = 0\<rparr>"]
  by (simp add: maxInt_def)

text \<open>
  The sum of the background pools is computed in machine integers and may overflow: two pools of \<open>2 ^ 63 - 1\<close> connections and one
  of two add up to zero, and the server starts with no dedicated pool instead of reporting that the budget is too small.
\<close>

definition overflowing_env :: server_env where
  "overflowing_env = env_of [(''DB_TRANSFER_POOL_CONNS'', ''9223372036854775807''), (''DB_PUBLISHER_POOL_CONNS'', ''9223372036854775807''),
     (''DB_AGGREGATE_POOL_CONNS'', ''2'')]"

lemma overflow_disables_pools: "loadDedicatedPoolConfig overflowing_env 90 =
    (Inr \<lparr>foreground = 90, transfer = 0, publisher = 0, aggregate = 0\<rparr> :: ('d err, dedicatedPoolConfig) res)"
  by (simp add: loadDedicatedPoolConfig_def envInt_def overflowing_env_def env_of_def Atoi_def digitOf_def minInt_def maxInt_def Let_def)

subsection \<open>The configuration the server starts with\<close>

lemma worker_batch_range:
  assumes "(case (envInt env name fallback :: ('d err, goInt) res) of Inl _ \<Rightarrow> Inl e | Inr n \<Rightarrow> if n = 0 then Inl e' else Inr n) = (Inr v :: ('d err, goInt) res)"
    and "0 \<le> sint fallback"
  shows "0 < sint v"
proof -
  have v: "envInt env name fallback = (Inr v :: ('d err, goInt) res)" "v \<noteq> 0" using assms(1) by (auto split: sum.splits if_splits)
  have "sint v \<noteq> 0" using v(2) by (metis signed_0 signed_word_eqI)
  then show ?thesis using envInt_range [OF v(1) assms(2)] by simp
qed

lemma loadServerConfig_range:
  assumes "loadServerConfig env = (Inr c :: ('d err, serverConfig) res)"
  shows "0 < sint (sc_postingBatchSize c) \<and> 0 < sint (sc_postingBatchWorkers c) \<and> 0 \<le> sc_postingBatchWait c \<and>
    0 < sint (sc_transferWorkers c) \<and> 0 < sint (sc_publisherWorkers c) \<and> 0 < sint (sc_aggregateWorkers c) \<and>
    0 < sint (sc_aggregateFetchBatch c) \<and> 0 < sint (sc_workerBatch c) \<and> 0 < sint (sc_publishAsyncMaxPending c) \<and> 0 \<le> sc_workerIdleDelay c \<and>
    validBatchConfiguration (sint (sc_postingBatchSize c)) (sc_postingBatchWait c) (sint (sc_postingBatchWorkers c))"
  using assms
  by (auto simp: loadServerConfig_def bindR_Inr Let_def split: if_splits
    intro: positiveEnvInt_range envDuration_range worker_batch_range dest!: sym [of "Inr _"])

lemma decimalText_inj: "decimalText m = decimalText n \<Longrightarrow> m = n"
  by (metis readDigits_decimal option.inject)

lemma backgroundWorkers_names: "distinct (map fst (backgroundWorkers c))"
  by (auto simp: backgroundWorkers_def distinct_map o_def case_prod_unfold dest!: decimalText_inj intro!: inj_onI)

text \<open>
  With a configuration the server accepts, the posting batcher starts with the configured number of workers, and there is at
  least one background worker for each of the three duties (recovering transfers, compensating them, publishing events), each with a
  name of its own; each call of a worker may process at least one row, and none sleeps a negative time.
\<close>

theorem accepted_configuration_runs:
  assumes "loadServerConfig env = (Inr c :: ('d :: linordered_ab_group_add err, serverConfig) res)"
  shows "(\<exists>b. (NewBatchingPostgresStore store (sint (sc_postingBatchSize c)) (sc_postingBatchWait c) (sint (sc_postingBatchWorkers c))
        :: ('d err, 'd BatchingPostgresStore) res) = Inr b \<and> length (bt_workers b) = nat (sint (sc_postingBatchWorkers c)) \<and> bt_workers b \<noteq> []) \<and>
    (\<lambda>(name, delay, role). role) ` set (backgroundWorkers c) = {RecoverTransfers, CompensateTransfers, PublishEvents} \<and>
    distinct (map fst (backgroundWorkers c)) \<and> 0 < sint (sc_workerBatch c) \<and>
    list_all (\<lambda>(name, delay, role). 0 \<le> delay) (backgroundWorkers c)"
proof -
  note R = loadServerConfig_range [OF assms]
  then have "(\<lambda>(name, delay, role). role) ` set (backgroundWorkers c) = {RecoverTransfers, CompensateTransfers, PublishEvents}"
    by (simp add: backgroundWorkers_def image_Un image_image image_constant_conv insert_commute)
  moreover have "list_all (\<lambda>(name, delay, role). 0 \<le> delay) (backgroundWorkers c)"
    using R by (auto simp: backgroundWorkers_def list_all_iff)
  ultimately show ?thesis using R backgroundWorkers_names by (simp add: NewBatchingPostgresStore_def)
qed

theorem accepted_configuration_runs_witness:
  "\<exists>c. loadServerConfig (env_of [(''WORKER_BATCH_SIZE'', ''10'')]) = (Inr c :: (int err, serverConfig) res) \<and>
    (\<lambda>(name, delay, role). role) ` set (backgroundWorkers c) = {RecoverTransfers, CompensateTransfers, PublishEvents}"
proof -
  obtain c where "loadServerConfig (env_of [(''WORKER_BATCH_SIZE'', ''10'')]) = (Inr c :: (int err, serverConfig) res)"
    by (simp add: loadServerConfig_def loadDBPoolConfig_def loadDedicatedPoolConfig_def positiveEnvInt_def envInt_def envDuration_def
        envBool_def env_of_def Atoi_def digitOf_def minInt_def maxInt_def validBatchConfiguration_def maxPostingBatchSize_def Let_def)
  then show ?thesis using accepted_configuration_runs [of _ c] by blast
qed


subsection \<open>The statistics endpoint\<close>

text \<open>
  \<open>/debug/db-stats\<close> of \<open>serveDiagnostics\<close>: the statistics of each pool by its name, and their sums, taken in the order in which
  Go ranges over the map of pools. The counters are those of \<open>sql.DBStats\<close>; \<open>WaitDuration\<close> is in nanoseconds.
\<close>

datatype dbStats = DBStats (MaxOpenConnections: goInt) (OpenConnections: goInt) (InUse: goInt) (Idle: goInt) (WaitCount: goInt)
  (WaitDuration: goInt) (MaxIdleClosed: goInt) (MaxIdleTimeClosed: goInt) (MaxLifetimeClosed: goInt)

instantiation dbStats :: comm_monoid_add
begin

definition zero_dbStats :: dbStats where
  "0 = DBStats 0 0 0 0 0 0 0 0 0"

definition plus_dbStats :: "dbStats \<Rightarrow> dbStats \<Rightarrow> dbStats" where
  "a + b = DBStats (MaxOpenConnections a + MaxOpenConnections b) (OpenConnections a + OpenConnections b) (InUse a + InUse b) (Idle a + Idle b)
     (WaitCount a + WaitCount b) (WaitDuration a + WaitDuration b) (MaxIdleClosed a + MaxIdleClosed b)
     (MaxIdleTimeClosed a + MaxIdleTimeClosed b) (MaxLifetimeClosed a + MaxLifetimeClosed b)"

instance
  by standard (simp_all add: zero_dbStats_def plus_dbStats_def ac_simps)

end

definition diagnosticDBStats :: "(string \<times> dbStats) list \<Rightarrow> dbStats \<times> (string \<rightharpoonup> dbStats)" where
  "diagnosticDBStats pools = fold (\<lambda>(name, poolStats) (stats, byName). (stats + poolStats, byName(name \<mapsto> poolStats))) pools (0, Map.empty)"

text \<open>The answer does not depend on the order of the map: the sums are those of the pools, and each pool is found by its name.\<close>

lemma diagnosticDBStats_sum: "fst (diagnosticDBStats pools) = sum_list (map snd pools)"
proof -
  have "fst (fold (\<lambda>(name, poolStats) (stats, byName). (stats + poolStats, byName(name \<mapsto> poolStats))) pools (st, m)) = st + sum_list (map snd pools)" for st m
    by (induction pools arbitrary: st m) (auto simp: add.assoc)
  from this [of 0 Map.empty] show ?thesis by (simp add: diagnosticDBStats_def)
qed

lemma diagnosticDBStats_pools:
  assumes "distinct (map fst pools)"
  shows "snd (diagnosticDBStats pools) = map_of pools"
proof -
  have "snd (fold (\<lambda>(name, poolStats) (stats, byName). (stats + poolStats, byName(name \<mapsto> poolStats))) pools (st, m)) = m ++ map_of pools"
    if "distinct (map fst pools)" for st m
    using that
  proof (induction pools arbitrary: st m)
    case (Cons p pools)
    obtain n x where p: "p = (n, x)" by (cases p)
    then have "map_of pools n = None" using Cons.prems by (simp add: map_of_eq_None_iff)
    then show ?case using Cons p by (auto simp: map_add_def split: option.split)
  qed simp
  from this [OF assms, of 0 Map.empty] show ?thesis by (simp add: diagnosticDBStats_def)
qed

lemma diagnosticDBStats_any_order:
  assumes "distinct (map fst pools)" and "mset pools' = mset pools"
  shows "diagnosticDBStats pools' = diagnosticDBStats pools"
proof (rule prod_eqI)
  have "mset (map snd pools') = mset (map snd pools)" using assms(2) by simp
  then show "fst (diagnosticDBStats pools') = fst (diagnosticDBStats pools)"
    unfolding diagnosticDBStats_sum by (metis sum_mset_sum_list)
  have "mset (map fst pools') = mset (map fst pools)" using assms(2) by simp
  then have "distinct (map fst pools')" using assms(1) by (metis mset_eq_imp_distinct_iff)
  moreover have "set pools' = set pools" using assms(2) by (metis set_mset_mset)
  ultimately show "snd (diagnosticDBStats pools') = snd (diagnosticDBStats pools)"
    unfolding diagnosticDBStats_pools [OF assms(1)] using diagnosticDBStats_pools [of pools'] assms(1) map_of_inject_set by metis
qed

end
