(* ===== verification/Server.thy ===== *)
theory Server
  imports Pg_Used_Keys Http_Properties Server_Config
begin

text \<open>
  The service as a whole: the router of \<open>cmd/ledger/main.go\<close> with the handlers on the PostgreSQL store and the batching
  store, beside the workers of transfers, publication and projection. Here the tables of the projection are in the
  database of the ledger (no \<open>PROJECTION_DATABASE_URL\<close>).

  A step of the server is a request that a handler answers or a step of the pipeline. Every run of the server is a run of the
  pipeline, and the answer to a posting lasts, whatever the server does in the meantime.
\<close>

subsection \<open>The stores\<close>

text \<open>
  A store of a database, and a store of another pool or database that shares the notifications of the first. The positions in
  the readings of the environment are those of the process.
\<close>

definition NewPostgresStore :: "'d Database \<Rightarrow> 'd Pg" where
  "NewPostgresStore sqlDB = \<lparr>db = sqlDB, draws = 0, ticks = 0, calls = 0, retryAttempts = 0, retryExhausted = 0,
     projectionWaiters = newCompletionWaiters, transferWaiters = newCompletionWaiters\<rparr>"

definition WithDatabase :: "'d Pg \<Rightarrow> 'd Database \<Rightarrow> 'd Pg" where
  "WithDatabase s sqlDB = s\<lparr>db := sqlDB, retryAttempts := 0, retryExhausted := 0\<rparr>"

definition RetryMetrics :: "'d Pg \<Rightarrow> 64 word \<times> 64 word" where
  "RetryMetrics s = (retryAttempts s, retryExhausted s)"

definition NewProjectionStatusStore :: "'d Pg \<Rightarrow> 'd Pg \<Rightarrow> 'd ProjectionStatusStore" where
  "NewProjectionStatusStore store projection = \<lparr>oltp = store, projectionDB = projection\<rparr>"

subsection \<open>The router\<close>

datatype endpoint =
    PostAccounts | GetAccountTransactions | GetAccountAggregates | GetLedgerAggregatesDaily | GetBalanceOf
  | PostTransactions | GetProjectionStatus | PostTransfers | GetTransferByID

text \<open>
  What a request meets: the time, the postings without a key that share its batch, and what other goroutines do while it waits. A
  batch is posted once, in the step of one of its requests; the answers to the others are those of \<open>runBatch\<close> in that step.
\<close>

record 'd circumstances =
  ci_time :: time
  ci_ahead :: "'d EntryRequest list list"
  ci_behind :: "'d EntryRequest list list"
  ci_others1 :: "'d Pg \<Rightarrow> 'd Pg"
  ci_others2 :: "'d Pg \<Rightarrow> 'd Pg"

text \<open>
  The batching store as the store of a handler, seen from its database: a posting with a key goes to the store, one without is
  validated and posted in a batch.
\<close>

definition batchedCreateTransaction ::
  "('d :: linordered_ab_group_add, 'm) pg_env_scheme \<Rightarrow> 'd EntryRequest list list \<Rightarrow> 'd EntryRequest list list
     \<Rightarrow> string \<Rightarrow> 'd EntryRequest list \<Rightarrow> ('d, 'd Transaction \<times> bool) act" where
  "batchedCreateTransaction env ahead behind idempotencyKey entries s =
     (if idempotencyKey \<noteq> '''' then PgCreateTransaction env idempotencyKey entries s
      else case ValidateTransaction entries of
          Some e \<Rightarrow> (s, Inl e)
        | None \<Rightarrow>
            (case runBatch env (ahead @ entries # behind) s of
               (s, answers) \<Rightarrow>
                 (s, case answers ! length ahead of
                     (_, Some e) \<Rightarrow> Inl e
                   | (transaction, None) \<Rightarrow> Inr (the transaction, False))))"

definition postingStore ::
  "('d :: linordered_ab_group_add, 'm) pg_env_scheme \<Rightarrow> 'd circumstances \<Rightarrow> ('d Pg, 'd) StoreOps" where
  "postingStore env c = (postgresStore env)\<lparr>opCreateTransaction := batchedCreateTransaction env (ci_ahead c) (ci_behind c)\<rparr>"

fun serve ::
  "('d :: linordered_ab_group_add, 'm) pg_env_scheme \<Rightarrow> 'd http_env \<Rightarrow> 'd circumstances \<Rightarrow> endpoint \<Rightarrow> httpRequest
     \<Rightarrow> 'd Pg \<Rightarrow> 'd Pg \<times> 'd httpResponse" where
  "serve env henv c PostAccounts = CreateAccountHandler henv (postgresStore env)"
| "serve env henv c GetAccountTransactions = GetAccountEntriesHandler henv (postgresStore env) (ci_time c)"
| "serve env henv c GetAccountAggregates = GetAccountAggregatesHandler (postgresAggregates env)"
| "serve env henv c GetLedgerAggregatesDaily = GetLedgerDailyAggregatesHandler (postgresAggregates env)"
| "serve env henv c GetBalanceOf = GetBalanceHandler (postgresStore env)"
| "serve env henv c PostTransactions = CreateTransactionHandler henv (postingStore env c)"
| "serve env henv c GetProjectionStatus =
     GetTransactionProjectionStatusHandler env (postgresProjection env (ci_others1 c) (ci_others2 c))"
| "serve env henv c PostTransfers = CreateTransferHandler henv (postgresTransfers env (ci_others1 c) (ci_others2 c))"
| "serve env henv c GetTransferByID = GetTransferHandler (postgresTransfers env (ci_others1 c) (ci_others2 c))"

text \<open>A posting without a key always has an answer in its batch: its transaction, or its error.\<close>

lemma CreateTransactionsBatch_answered:
  assumes "CreateTransactionsBatch env ess s = (s', Inr results)"
  shows "length results = length ess \<and> (\<forall>j < length ess. br_Transaction (results ! j) \<noteq> None \<longleftrightarrow> br_Err (results ! j) = None)"
proof (cases "snd (prepareBatch env 0 ess) = []")
  case True
  then show ?thesis
    using assms prepareBatch_results [of env 0 ess]
    by (auto simp: CreateTransactionsBatch_def failE_def returnE_def Let_def split: if_splits prod.splits)
next
  case False
  let ?prepared = "snd (prepareBatch env 0 ess)" and ?res = "fst (prepareBatch env 0 ess)"
  note P = prepareBatch_results [of env 0 ess]
  obtain acc tot res1 where ap:
    "acceptPostings env ?prepared (batchStates (selectAccounts (db s) (batchAccountIDs ?prepared)), Map.empty) ?res = (acc, tot, res1)"
    by (metis prod_cases3)
  have ok: "\<forall>p \<in> set ?prepared. bp_index p < length ?res \<and> br_Err (?res ! bp_index p) = None" using P by auto
  have A: "length res1 = length ess" "bp_index ` set acc \<subseteq> {..< length ess}"
    "\<forall>j < length ess. br_Transaction (res1 ! j) = None \<and> (br_Err (res1 ! j) = None \<longleftrightarrow> j \<in> bp_index ` set acc)"
    using acceptPostings_results [OF ap _ ok] P by auto
  obtain s1 s2 res2 u where w: "(if acc \<noteq> [] then writePostingBatch env acc tot res1 else returnE res1) s1 = (s2, Inr res2)"
    and res: "results = map (stampResult u) res2"
    using assms False ap
    by (auto simp: CreateTransactionsBatch_def bindE_Inr atomically_def failE_def returnE_def Let_def dbCall_def timeP_def getDb_def
        split: if_splits prod.splits sum.splits option.splits)
  have "length res2 = length ess \<and> (\<forall>j < length ess. br_Transaction (res2 ! j) \<noteq> None \<longleftrightarrow> br_Err (res2 ! j) = None)"
  proof (cases "acc = []")
    case True
    then show ?thesis using w A by (simp add: returnE_def)
  next
    case False
    then have "writePostingBatch env acc tot res1 s1 = (s2, Inr res2)" using w by simp
    then obtain writes where wo: "writes_ok writes acc" "res2 = setTransactions env writes res1"
      by (rule writePostingBatch_Inr) blast
    then have m: "map (fst \<circ> snd) writes = acc" by (simp add: writes_ok_def)
    have "\<forall>p \<in> set (map (fst \<circ> snd) writes). bp_index p < length res1" using A(1,2) unfolding m by auto
    note S = setTransactions_results [OF this]
    have "ess \<noteq> []" using assms by (auto simp: CreateTransactionsBatch_def failE_def)
    then show ?thesis using S A unfolding m wo(2) by (metis length_greater_0_conv)
  qed
  then show ?thesis using res by (simp add: stampResult_def)
qed

lemma runBatch_answered:
  assumes "runBatch env ess s = (s', answers)" and "i < length ess"
  shows "fst (answers ! i) \<noteq> None \<longleftrightarrow> snd (answers ! i) = None"
proof (cases "CreateTransactionsBatch env ess s")
  case (Pair s1 r)
  show ?thesis
  proof (cases r)
    case (Inr results)
    from CreateTransactionsBatch_answered [OF Pair [unfolded Inr]] assms Pair Inr show ?thesis by (auto simp: runBatch_def)
  next
    case (Inl e)
    then show ?thesis using assms Pair by (auto simp: runBatch_def)
  qed
qed

subsection \<open>Steps of the server\<close>

definition waits :: "('d :: linordered_ab_group_add, 'm) stream_env_scheme \<Rightarrow> broker \<Rightarrow> ('d Pg \<Rightarrow> 'd Pg) \<Rightarrow> bool" where
  "waits env b others \<longleftrightarrow> (\<forall>s. (pipeline_step env)\<^sup>*\<^sup>* (b, s) (b, others s))"

text \<open>
  While a request waits, the other parts take steps; what the publisher sends is a step of its own, before or after. A
  worker, or another process of the service on the same database, takes a step of the pipeline.
\<close>

inductive server_step ::
  "('d :: linordered_ab_group_add, 'm) stream_env_scheme \<Rightarrow> 'd http_env \<Rightarrow> broker \<times> 'd Pg \<Rightarrow> broker \<times> 'd Pg \<Rightarrow> bool"
  for env :: "('d, 'm) stream_env_scheme" and henv :: "'d http_env" where
  request: "waits env b (ci_others1 c) \<Longrightarrow> waits env b (ci_others2 c) \<Longrightarrow> serve env henv c ep r s = (s', a) \<Longrightarrow>
    server_step env henv (b, s) (b, s')"
| worker: "pipeline_step env c c' \<Longrightarrow> server_step env henv c c'"

inductive_cases server_stepE: "server_step env henv c c'"

subsection \<open>A run of the server is a run of the pipeline\<close>

lemma same_db_runs: "db s' = db s \<Longrightarrow> (pipeline_step env)\<^sup>*\<^sup>* (b, s) (b, s')"
  by (rule r_into_rtranclp [of "pipeline_step env"], rule pipeline_step.reads)

lemma wait_runs:
  assumes o: "waits env b others1" "waits env b others2"
    and q: "\<And>s s' r. readStatus s = (s', r) \<Longrightarrow> db s' = db s" "\<And>key s s' w. sub key s = (s', w) \<Longrightarrow> db s' = db s"
      "\<And>key w s. db (unsub key w s) = db s"
    and w: "waitForCompletion others1 others2 sub unsub timeout readStatus key s = (s', r)"
  shows "(pipeline_step env)\<^sup>*\<^sup>* (b, s) (b, s')"
proof -
  obtain s1 r1 where 1: "readStatus s = (s1, r1)" by fastforce
  obtain s2 wid where 2: "sub key s1 = (s2, wid)" by fastforce
  obtain s3 r3 where 3: "readStatus (others1 s2) = (s3, r3)" by fastforce
  obtain s4 r4 where 4: "readStatus (others2 s3) = (s4, r4)" by fastforce
  have a: "(pipeline_step env)\<^sup>*\<^sup>* (b, s) (b, s1)" using same_db_runs [OF q(1) [OF 1]] .
  have c: "(pipeline_step env)\<^sup>*\<^sup>* (b, s) (b, s3)"
    by (rule rtranclp_trans [OF a rtranclp_trans [OF same_db_runs [OF q(2) [OF 2]]
          rtranclp_trans [OF _ same_db_runs [OF q(1) [OF 3]]]]]) (use o(1) in \<open>simp add: waits_def\<close>)
  have e: "(pipeline_step env)\<^sup>*\<^sup>* (b, s) (b, s4)"
    by (rule rtranclp_trans [OF c rtranclp_trans [OF _ same_db_runs [OF q(1) [OF 4]]]]) (use o(2) in \<open>simp add: waits_def\<close>)
  have u: "(pipeline_step env)\<^sup>*\<^sup>* (b, x) (b, unsub key wid x)" for x by (rule same_db_runs) (rule q(3))
  have "s' = s1 \<or> s' = unsub key wid s3 \<or> s' = unsub key wid s4"
    using w 1 2 3 4 by (auto simp: waitForCompletion_def Let_def split: sum.splits prod.splits if_splits)
  then show ?thesis using a rtranclp_trans [OF c u] rtranclp_trans [OF e u] by blast
qed

lemma quiet_reads [quiet_intros]:
  "quiet (PgGetBalance env a)" "quiet (PgGetAccountEntries env a params)" "quiet (PgGetTransfer env sid)"
  "quiet (GetAccountDailyAggregates env a)" "quiet (GetLedgerDailyAggregates env l)"
  "quiet (GetTransactionProjectionStatus env t consumer)"
  unfolding PgGetBalance_def PgGetAccountEntries_def PgGetTransfer_def GetAccountDailyAggregates_def GetLedgerDailyAggregates_def
    GetTransactionProjectionStatus_def getDailyAggregates_def parseE_def scanSaga_def Let_def
  by (auto intro!: quiet_intros split: option.splits prod.splits)

lemma posting_runs:
  assumes "batchedCreateTransaction env ahead behind key es s = (s', r)"
  shows "(pipeline_step env)\<^sup>*\<^sup>* (b, s) (b, s')"
proof (cases "key = '''' \<and> ValidateTransaction es = None")
  case True
  then have "s' = fst (CreateTransactionsBatch env (ahead @ es # behind) s)"
    using assms runBatch_store [of env "ahead @ es # behind" s] by (auto simp: batchedCreateTransaction_def split: prod.splits)
  then show ?thesis
    by (metis pipeline_step.createBatch prod.collapse r_into_rtranclp)
next
  case False
  then have "s' = s \<or> (\<exists>r. PgCreateTransaction env key es s = (s', r))"
    using assms by (auto simp: batchedCreateTransaction_def split: if_splits option.splits)
  then show ?thesis using pipeline_step.createTransaction [of env key es s s' _ b] by (metis r_into_rtranclp rtranclp.rtrancl_refl)
qed

lemma serve_runs:
  assumes o: "waits env b (ci_others1 c)" "waits env b (ci_others2 c)" and run: "serve env henv c ep r s = (s', a)"
  shows "(pipeline_step env)\<^sup>*\<^sup>* (b, s) (b, s')"
proof -
  have q: "(pipeline_step env)\<^sup>*\<^sup>* (b, s) (b, s')" if "quiet m" "m s = (s', x)" for m x
    using same_db_runs [OF quietD [OF that]] .
  show ?thesis
  proof (cases ep)
    case PostAccounts
    then have "s' = s \<or> (\<exists>n t x. PgCreateAccount env n t s = (s', x)) \<or> (\<exists>l n t x. PgCreateAccountInLedger env l n t s = (s', x))"
      using run by (auto simp: CreateAccountHandler_def postgresStore_def Let_def split: option.splits prod.splits sum.splits if_splits)
    then show ?thesis
      by (metis pipeline_step.createAccount pipeline_step.createAccountInLedger r_into_rtranclp rtranclp.rtrancl_refl)
  next
    case GetAccountTransactions
    then have "s' = s \<or> (\<exists>i p x. PgGetAccountEntries env i p s = (s', x))"
      using run by (auto simp: GetAccountEntriesHandler_def postgresStore_def answerBadRequest_def Let_def
          split: option.splits prod.splits sum.splits if_splits)
    then show ?thesis using q [OF quiet_reads(2)] by blast
  next
    case GetAccountAggregates
    then have "\<exists>i x. GetAccountDailyAggregates env i s = (s', x)"
      using run by (auto simp: GetAccountAggregatesHandler_def postgresAggregates_def answerBadRequest_def split: prod.splits sum.splits)
    then show ?thesis using q [OF quiet_reads(4)] by blast
  next
    case GetLedgerAggregatesDaily
    then have "\<exists>i x. GetLedgerDailyAggregates env i s = (s', x)"
      using run by (auto simp: GetLedgerDailyAggregatesHandler_def postgresAggregates_def answerBadRequest_def split: prod.splits sum.splits)
    then show ?thesis using q [OF quiet_reads(5)] by blast
  next
    case GetBalanceOf
    then have "s' = s \<or> (\<exists>i x. PgGetBalance env i s = (s', x))"
      using run by (auto simp: GetBalanceHandler_def postgresStore_def answerBadRequest_def Let_def split: prod.splits sum.splits if_splits)
    then show ?thesis using q [OF quiet_reads(1)] by blast
  next
    case PostTransactions
    then have "s' = s \<or> (\<exists>key es x. batchedCreateTransaction env (ci_ahead c) (ci_behind c) key es s = (s', x))"
      using run by (auto simp: CreateTransactionHandler_def postingStore_def split: option.splits prod.splits sum.splits)
    then show ?thesis using posting_runs by blast
  next
    case GetProjectionStatus
    then have "s' = s \<or> (\<exists>i j w x. WaitForTransactionProjection env (ci_others1 c) (ci_others2 c) i j w s = (s', x)) \<or>
        (\<exists>i j x. GetTransactionProjectionStatus env i j s = (s', x))"
      using run by (auto simp: GetTransactionProjectionStatusHandler_def postgresProjection_def Let_def
          split: option.splits prod.splits sum.splits if_splits)
    moreover have "(pipeline_step env)\<^sup>*\<^sup>* (b, s) (b, s')"
      if "WaitForTransactionProjection env (ci_others1 c) (ci_others2 c) i j w s = (s', x)" for i j w x
      by (rule wait_runs [OF o _ _ _ that [unfolded WaitForTransactionProjection_def]])
        (auto elim!: quietD [rotated] intro!: quiet_intros split: prod.splits)
    ultimately show ?thesis using q [OF quiet_reads(6)] by blast
  next
    case PostTransfers
    then have "s' = s \<or> (\<exists>q x. PgCreateTransfer env q s = (s', x))"
      using run by (auto simp: CreateTransferHandler_def postgresTransfers_def Let_def split: option.splits prod.splits sum.splits)
    then show ?thesis by (metis pipeline_step.createTransfer r_into_rtranclp rtranclp.rtrancl_refl)
  next
    case GetTransferByID
    then have "s' = s \<or> (\<exists>i w x. WaitForTransfer env (ci_others1 c) (ci_others2 c) i w s = (s', x)) \<or> (\<exists>i x. PgGetTransfer env i s = (s', x))"
      using run by (auto simp: GetTransferHandler_def postgresTransfers_def Let_def
          split: option.splits prod.splits sum.splits if_splits)
    moreover have "(pipeline_step env)\<^sup>*\<^sup>* (b, s) (b, s')"
      if "WaitForTransfer env (ci_others1 c) (ci_others2 c) i w s = (s', x)" for i w x
      by (rule wait_runs [OF o _ _ _ that [unfolded WaitForTransfer_def]])
        (auto elim!: quietD [rotated] intro!: quiet_intros split: prod.splits)
    ultimately show ?thesis using q [OF quiet_reads(3)] by blast
  qed
qed

lemma server_step_runs: "server_step env henv c c' \<Longrightarrow> (pipeline_step env)\<^sup>*\<^sup>* c c'"
  by (induction rule: server_step.induct) (auto intro: serve_runs r_into_rtranclp [of "pipeline_step env"])

lemma server_runs: "(server_step env henv)\<^sup>*\<^sup>* c c' \<Longrightarrow> (pipeline_step env)\<^sup>*\<^sup>* c c'"
  by (induction rule: rtranclp_induct) (auto dest: server_step_runs intro: rtranclp_trans)

lemma pipeline_reach_runs: "(pipeline_step env)\<^sup>*\<^sup>* c c' \<Longrightarrow> pipeline_reach env c \<Longrightarrow> pipeline_reach env c'"
  by (induction rule: rtranclp_induct) (auto intro: pipeline_reach.more)

lemma pipeline_runs_keys:
  assumes "(pipeline_step env)\<^sup>*\<^sup>* c c'" and "stream_env_ok env" and "pipeline_reach env c"
  shows "used_keys_kept (db (snd c)) (db (snd c'))"
  using assms(1)
proof (induction rule: rtranclp_induct)
  case base
  show ?case by (rule uk.refl)
next
  case (step x y)
  have "pipeline_ok env (fst x) (db (snd x))"
    by (rule pipeline_reach_ok [OF pipeline_reach_runs [OF step(1) assms(3)] assms(2)])
  then have "used_keys_kept (db (snd x)) (db (snd y))"
    using pipeline_step_keys [of env "fst x" "snd x" "fst y" "snd y"] step(2) by simp
  then show ?case by (rule uk.trans [OF step(3)])
qed

text \<open>What the background workers of \<open>main\<close> call; \<open>limit\<close> is \<open>WORKER_BATCH_SIZE\<close>.\<close>

fun workerWork ::
  "('d :: linordered_ab_group_add, 'm) stream_env_scheme \<Rightarrow> int \<Rightarrow> workerRole \<Rightarrow> broker \<times> 'd Pg \<Rightarrow> (broker \<times> 'd Pg) \<times> nat \<times> 'd err option" where
  "workerWork env limit RecoverTransfers (b, s) =
     (case PgProcessOutbox env limit s of (s, Inl e) \<Rightarrow> ((b, s), 0, Some e) | (s, Inr n) \<Rightarrow> ((b, s), n, None))"
| "workerWork env limit CompensateTransfers (b, s) =
     (case ProcessCompensationOutbox env limit s of (s, n, e) \<Rightarrow> ((b, s), n, e))"
| "workerWork env limit PublishEvents c = PublishCommittedEvents env (JetStreamPublisher env) limit c"

lemma workerRound_fst: "fst (workerRound f c) = fst (f c)"
  by (auto simp: workerRound_def split: prod.split option.split)

lemma workerRound_reach:
  assumes "stream_env_ok env" and "pipeline_reach env c"
  shows "pipeline_reach env (fst (workerRound (workerWork env limit role) c))"
proof -
  obtain b s where c: "c = (b, s)" by fastforce
  show ?thesis
    unfolding workerRound_fst c
  proof (cases role)
    case RecoverTransfers
    obtain s' r where r: "PgProcessOutbox env limit s = (s', r)" by fastforce
    then have "fst (workerWork env limit role (b, s)) = (b, s')" using RecoverTransfers by (simp split: sum.split)
    then show "pipeline_reach env (fst (workerWork env limit role (b, s)))"
      using pipeline_reach.more [OF assms(2) [unfolded c] pipeline_step.processOutbox [OF r]] by simp
  next
    case CompensateTransfers
    obtain s' n e where r: "ProcessCompensationOutbox env limit s = (s', n, e)" by (metis prod_cases3)
    then have "fst (workerWork env limit role (b, s)) = (b, s')" using CompensateTransfers by simp
    then show "pipeline_reach env (fst (workerWork env limit role (b, s)))"
      using pipeline_reach.more [OF assms(2) [unfolded c] pipeline_step.compensate [OF r]] by simp
  next
    case PublishEvents
    obtain b' s' n e where r: "PublishCommittedEvents env (JetStreamPublisher env) limit (b, s) = ((b', s'), n, e)" by (metis prod_cases3 prod.collapse)
    then have "fst (workerWork env limit role (b, s)) = (b', s')" using PublishEvents by simp
    then show "pipeline_reach env (fst (workerWork env limit role (b, s)))"
      using PublishCommittedEvents_reach [OF assms(1) assms(2) [unfolded c] r] by simp
  qed
qed

text \<open>
  A worker of \<open>RunAggregateConsumerConcurrent\<close>: what each of its fetches brings. A fetch may fail; a fetched batch has its messages, what
  acknowledging each of them brings, and the error of the batch that is not its timeout. The worker ends with the first
  error of the client library; after an error of the database it gives the batch back and goes on.
\<close>

datatype 'e fetch = FetchFailed 'e | Fetched "EventPublication list" "EventPublication \<Rightarrow> 'e option" "'e option"

fun fetchedMessages :: "'e fetch \<Rightarrow> EventPublication list" where
  "fetchedMessages (FetchFailed e) = []"
| "fetchedMessages (Fetched msgs acks err) = msgs"

definition afterBatch :: "EventPublication list \<Rightarrow> (EventPublication \<Rightarrow> 'e option) \<Rightarrow> 'e option \<Rightarrow> verdict list \<Rightarrow> 'e option" where
  "afterBatch msgs acks err verdicts =
     (if Nak \<in> set verdicts then None
      else case List.map_filter (\<lambda>(m, v). if v = Ack then acks m else None) (zip msgs verdicts) of
          e # _ \<Rightarrow> Some e
        | [] \<Rightarrow> err)"

fun consumerLoop ::
  "('d :: linordered_ab_group_add, 'm) stream_env_scheme \<Rightarrow> 'e fetch list \<Rightarrow> 'd Pg \<Rightarrow> 'd Pg \<times> 'e option" where
  "consumerLoop env [] s = (s, None)"
| "consumerLoop env (FetchFailed e # fetches) s = (s, Some e)"
| "consumerLoop env (Fetched msgs acks err # fetches) s =
     (case consumeBatch env msgs s of
        (s, verdicts) \<Rightarrow>
          (case afterBatch msgs acks err verdicts of Some e \<Rightarrow> (s, Some e) | None \<Rightarrow> consumerLoop env fetches s))"

definition validConsumer :: "int \<Rightarrow> int \<Rightarrow> bool" where
  "validConsumer workers batch \<longleftrightarrow> \<not> (workers \<le> 0 \<or> batch \<le> 0)"

lemma consumerLoop_reach:
  "pipeline_reach env (b, s) \<Longrightarrow> \<forall>f \<in> set fetches. set (fetchedMessages f) \<subseteq> set (messages b) \<Longrightarrow>
   pipeline_reach env (b, fst (consumerLoop env fetches s))"
proof (induction env fetches s rule: consumerLoop.induct)
  case (3 env msgs acks err fetches s)
  obtain s' vs where c: "consumeBatch env msgs s = (s', vs)" by fastforce
  have "pipeline_reach env (b, s')"
    by (rule pipeline_reach.more [OF 3(2) pipeline_step.consume [OF _ c]]) (use 3(3) in simp)
  then show ?case using 3(1) [OF c [symmetric]] 3(3) c by (auto split: option.split)
qed simp_all

subsection \<open>A run\<close>

definition keyedPosted :: "int Pg" where
  "keyedPosted = fst (PgCreateTransaction streamEnv ''k'' pgRequest pgStart)"

definition claimedEvents :: "int Pg" where
  "claimedEvents = fst (claimTransactionOutboxEvents streamEnv 99 1 keyedPosted)"

definition quietly :: "int circumstances" where
  "quietly = \<lparr>ci_time = 0, ci_ahead = [], ci_behind = [], ci_others1 = (\<lambda>s. s), ci_others2 = (\<lambda>s. s)\<rparr>"

lemma keyedPosted_eq:
  "\<exists>t. PgCreateTransaction streamEnv ''k'' pgRequest pgStart = (keyedPosted, Inr (t, False)) \<and> t_ID t = uuidString pgEnv 10"
  using pgRequest_valid streamRequest_prepared
  by (simp add: keyedPosted_def pgStart_def pgRequest_def pg_eval)

lemma server_first:
  "\<exists>t. serve streamEnv httpEnv quietly PostTransactions (keyedRequest ''one'' []) pgStart = (keyedPosted, answer 201 (TransactionBody t)) \<and>
     t_ID t = uuidString pgEnv 10"
  using keyedPosted_eq
  by (auto simp: CreateTransactionHandler_def httpEnv_def keyedRequest_def postingStore_def batchedCreateTransaction_def postingKey_def)

lemma pgStart_fresh: "pipeline_start emptyBroker (db pgStart)"
  by (simp add: pipeline_start_def emptyBroker_def pgStart_def emptyDatabase_def)

lemma quietly_waits: "waits env b (ci_others1 quietly)" "waits env b (ci_others2 quietly)"
  by (simp_all add: waits_def quietly_def)

lemma server_run: "(server_step streamEnv httpEnv)\<^sup>*\<^sup>* (emptyBroker, keyedPosted) (emptyBroker, claimedEvents)"
proof -
  obtain s r where c: "claimTransactionOutboxEvents streamEnv 99 1 keyedPosted = (s, r)" by fastforce
  show ?thesis
    unfolding claimedEvents_def c fst_conv
    by (rule r_into_rtranclp [of "server_step streamEnv httpEnv", OF server_step.worker [OF pipeline_step.claim [OF c]]])
qed

subsection \<open>Properties\<close>



text \<open>
  A posting with a key: the handler on the batching store is the handler on the store.
\<close>

lemma serve_keyed:
  assumes "decodeTransaction henv (rq_body r) = Some req" and "postingKey r req \<noteq> ''''"
  shows "serve env henv c PostTransactions r s = CreateTransactionHandler henv (postgresStore env) r s"
  using assms by (simp add: CreateTransactionHandler_def postingStore_def batchedCreateTransaction_def postgresStore_def)

interpretation srv: keyed_posting "PgCreateTransaction env" "\<lambda>_. True"
  "\<lambda>key s1 s2. used_keys_kept (db s1) (db s2)"
  "\<lambda>s s'. db s' = db s" "\<lambda>t t'. t_ID t' = t_ID t" "\<lambda>e. \<exists>w f. e = DbFault w f" for env
proof unfold_locales
  fix s key es s1 t s2 es' s3 r
  assume run: "key \<noteq> ''''" "PgCreateTransaction env key es s = (s1, Inr (t, False))" and kept: "used_keys_kept (db s1) (db s2)"
    and again: "mset es' = mset es" "PgCreateTransaction env key es' s2 = (s3, r)"
  obtain k tid where "keysT (db s1) key = Some k" "kr_transaction k = Some tid"
    using PgCreateTransaction_key_row [OF run(2,1)] by blast
  then have "keysT (db s2) key = keysT (db s1) key" using kept by (simp add: used_keys_kept_def)
  from PgCreateTransaction_again [OF run(2,1) this again]
  show "db s3 = db s2 \<and> (case r of Inl e \<Rightarrow> \<exists>w f. e = DbFault w f | Inr (t', existed) \<Rightarrow> existed \<and> t_ID t' = t_ID t)" .
qed

text \<open>
  C7: A retried posting is safe for as long as the service runs. A client gets \<open>201 Created\<close> for a posting with a key; then
  the server runs, other clients post, transfers are credited, events are published and projected; at any later time the client sends
  the same entries again, in any order, with the key in the header or in the body. It gets \<open>200\<close>
  with the transaction of the first answer or, when the database fails, an error, and no table changes.
\<close>

theorem server_posting_retry:
  assumes "stream_env_ok env" and "pipeline_reach env (b, s)"
    and "decodeTransaction henv (rq_body r) = Some req" and "decodeTransaction henv (rq_body r') = Some req'"
    and "postingKey r req \<noteq> ''''" and "postingKey r' req' = postingKey r req" and "mset (ctr_Entries req') = mset (ctr_Entries req)"
    and "serve env henv c PostTransactions r s = (s1, a)" and "hr_status a = 201"
    and "(server_step env henv)\<^sup>*\<^sup>* (b, s1) (b2, s2)"
    and "serve env henv c' PostTransactions r' s2 = (s3, a')"
  shows "db s3 = db s2 \<and>
    ((\<exists>t t'. a = answer 201 (TransactionBody t) \<and> a' = answer 200 (TransactionBody t') \<and> t_ID t' = t_ID t) \<or>
     (\<exists>w f. hr_body a' = ErrorBody (ErrorOf (DbFault w f))))"
proof -
  have first: "CreateTransactionHandler henv (postgresStore env) r s = (s1, a)"
    using assms(8) serve_keyed [of henv r req env c s] assms(3,5) by simp
  have second: "CreateTransactionHandler henv (postgresStore env) r' s2 = (s3, a')"
    using assms(11) serve_keyed [of henv r' req' env c' s2] assms(4,5,6) by simp
  have "s1 = s \<or> (\<exists>x. PgCreateTransaction env (postingKey r req) (ctr_Entries req) s = (s1, x))"
    using first assms(3) by (auto simp: CreateTransactionHandler_def postgresStore_def split: prod.splits sum.splits)
  then have "pipeline_reach env (b, s1)" using assms(2) pipeline_step.createTransaction [of env _ _ s s1 _ b] pipeline_reach.more by blast
  from pipeline_runs_keys [OF server_runs [OF assms(10)] assms(1) this]
  have kept: "used_keys_kept (db s1) (db s2)" by simp
  have op: "opCreateTransaction (postgresStore env) = PgCreateTransaction env" by (simp add: postgresStore_def)
  from srv.retry [OF op TrueI assms(3-7) first assms(9) kept second] show ?thesis by blast
qed


text \<open>The first request has its key in the body, the second in the header, and its entries in the other order; an event is claimed between them.\<close>

theorem server_posting_retry_witness:
  "\<exists>s3 a'. serve streamEnv httpEnv quietly PostTransactions (keyedRequest ''two'' ''k'') claimedEvents = (s3, a') \<and> db s3 = db claimedEvents \<and>
    ((\<exists>t. a' = answer 200 (TransactionBody t) \<and> t_ID t = uuidString pgEnv 10) \<or> (\<exists>w f. hr_body a' = ErrorBody (ErrorOf (DbFault w f))))"
proof -
  obtain t where first: "serve streamEnv httpEnv quietly PostTransactions (keyedRequest ''one'' []) pgStart = (keyedPosted, answer 201 (TransactionBody t))"
    "t_ID t = uuidString pgEnv 10"
    using server_first by blast
  obtain s3 a' where second: "serve streamEnv httpEnv quietly PostTransactions (keyedRequest ''two'' ''k'') claimedEvents = (s3, a')"
    by (cases "serve streamEnv httpEnv quietly PostTransactions (keyedRequest ''two'' ''k'') claimedEvents")
  have "db s3 = db claimedEvents \<and>
    ((\<exists>u u'. answer 201 (TransactionBody t) = answer 201 (TransactionBody u) \<and> a' = answer 200 (TransactionBody u') \<and> t_ID u' = t_ID u) \<or>
     (\<exists>w f. hr_body a' = ErrorBody (ErrorOf (DbFault w f))))"
    by (rule server_posting_retry [where req = "\<lparr>ctr_Entries = pgRequest, ctr_IdempotencyKey = ''k''\<rparr>"
        and req' = "\<lparr>ctr_Entries = rev pgRequest, ctr_IdempotencyKey = ''ignored''\<rparr>",
        OF streamEnv_ok pipeline_reach.start [OF pgStart_fresh] _ _ _ _ _ first(1) _ server_run second])
      (simp_all add: httpEnv_def keyedRequest_def postingKey_def answer_def)
  then show ?thesis using second first(2) by (auto simp: answer_def)
qed

end
