(* ===== verification/Benchmark_Seed.thy ===== *)
theory Benchmark_Seed
  imports Go_Strconv Pg_Tables "HOL-Library.Sublist"
begin

text \<open>
  \<open>cmd/benchmark-seed/main.go\<close>: the tool that resets a database and fills it for a benchmark: accounts and postings written by plain
  statements, without the operations of the store.

  Parameters are \<open>uuid.NewSHA1\<close> in the OID name space, the decimal of a whole number (\<open>money env n\<close> for the text \<open>n.00\<close>) and the size the
  database reports. \<open>NOW()\<close> is the time at which the database transaction began.
\<close>

record 'd seed_env = "'d pg_env" +
  NewSHA1 :: "string \<Rightarrow> uuid"
  money :: "int \<Rightarrow> 'd"
  databaseSize :: "'d Database \<Rightarrow> int"

subsection \<open>The description of a seeded database\<close>

record accountPair =
  ap_LedgerID :: string
  ap_DebitAccountID :: string
  ap_CreditAccountID :: string
  ap_IdempotencyKey :: string
  ap_TransactionID :: string

record transferPair =
  tp_SourceLedgerID :: string
  tp_SourceAccountID :: string
  tp_DestinationLedgerID :: string
  tp_DestinationAccountID :: string

record seedFile =
  SchemaVersion :: int
  GeneratedAt :: time
  sf_Database :: string
  ds_AccountPairs :: nat
  ds_HistoryTransactions :: nat
  ds_Accounts :: nat
  ds_Transactions :: nat
  ds_Entries :: nat
  ds_DatabaseBytes :: int
  NormalBalancedPosting :: "accountPair list"
  IdempotentDuplicatePosting :: "accountPair list"
  CrossLedgerTransfer :: "transferPair list"
  AggregateEventIngestion :: "accountPair list"

record 'd accountSeed =
  as_id :: uuid
  as_ledgerID :: uuid
  as_name :: string
  as_typeName :: string
  as_balance :: 'd

definition benchmarkUUID :: "('d, 'm) seed_env_scheme \<Rightarrow> string \<Rightarrow> nat \<Rightarrow> string \<Rightarrow> uuid" where
  "benchmarkUUID env scenario index purpose =
     NewSHA1 env (''double-entry-ledger/benchmark/'' @ scenario @ ''/'' @ decimalText index @ ''/'' @ purpose)"

text \<open>The verb \<open>%06d\<close>.\<close>

definition sixDigits :: "nat \<Rightarrow> string" where
  "sixDigits i = replicate (6 - length (decimalText i)) CHR ''0'' @ decimalText i"

subsection \<open>Statements\<close>

definition insertSeedAccount :: "('d :: linordered_ab_group_add, 'm) seed_env_scheme \<Rightarrow> 'd accountSeed \<Rightarrow> 'd statement" where
  "insertSeedAccount env a d =
     (case numeric env (as_balance a) of
        None \<Rightarrow> Inl (DbConstraint ''numeric field overflow'')
      | Some balance \<Rightarrow>
          if \<not> account_type (as_typeName a) then Inl (DbConstraint ''account_type'')
          else if accountRow d (as_id a) \<noteq> None then Inl (DbConstraint ''accounts_pkey'')
          else if accountByName d (as_ledgerID a) (as_name a) \<noteq> None then Inl (DbConstraint ''accounts_ledger_name_unique'')
          else Inr (d\<lparr>accountsT := accountsT d @
            [(as_id a, \<lparr>ar_ledger = as_ledgerID a, ar_name = as_name a, ar_type = as_typeName a, ar_balance = balance\<rparr>)]\<rparr>))"

definition insertAccounts :: "('d :: linordered_ab_group_add, 'm) seed_env_scheme \<Rightarrow> 'd accountSeed list \<Rightarrow> ('d, unit list) act" where
  "insertAccounts env = mapE (\<lambda>a. execDb env ''insert account'' (insertSeedAccount env a))"

definition insertEntryValues ::
  "('d :: linordered_ab_group_add, 'm) seed_env_scheme \<Rightarrow> time \<Rightarrow> 'd entryValue list \<Rightarrow> 'd statement" where
  "insertEntryValues env t vals d = bindR (entryRows env t vals) (\<lambda>rows. insertEntries rows d)"

definition insertKey :: "string \<Rightarrow> uuid \<Rightarrow> string \<Rightarrow> 'd statement" where
  "insertKey key tid checksum d =
     (if keysT d key \<noteq> None then Inl (DbConstraint ''idempotency_keys_pkey'')
      else if transactionsT d tid = None then Inl (DbConstraint ''idempotency_keys_transaction_id_fkey'')
      else Inr (d\<lparr>keysT := (keysT d)(key \<mapsto> \<lparr>kr_transaction = Some tid, kr_checksum = checksum, kr_status = ''completed''\<rparr>)\<rparr>))"

text \<open>An event that counts as published.\<close>

definition processedEvent :: "uuid \<Rightarrow> time \<Rightarrow> uuid \<Rightarrow> OutboxRow" where
  "processedEvent oid t tid = (postedEvent oid t tid)\<lparr>or_status := ''processed''\<rparr>"

subsection \<open>Scenarios\<close>

definition seedNormal :: "('d :: linordered_ab_group_add, 'm) seed_env_scheme \<Rightarrow> nat \<Rightarrow> ('d, accountPair) act" where
  "seedNormal env i =
     (let ledger = benchmarkUUID env ''normal'' i ''ledger''; debit = benchmarkUUID env ''normal'' i ''debit'';
          credit = benchmarkUUID env ''normal'' i ''credit''
      in bindE (insertAccounts env
           [\<lparr>as_id = debit, as_ledgerID = ledger, as_name = ''bench-normal-debit-'' @ sixDigits i, as_typeName = ''asset'', as_balance = money env 0\<rparr>,
            \<lparr>as_id = credit, as_ledgerID = ledger, as_name = ''bench-normal-credit-'' @ sixDigits i, as_typeName = ''revenue'', as_balance = money env 0\<rparr>]) (\<lambda>_.
         returnE \<lparr>ap_LedgerID = uuidString env ledger, ap_DebitAccountID = uuidString env debit, ap_CreditAccountID = uuidString env credit,
           ap_IdempotencyKey = '''', ap_TransactionID = ''''\<rparr>))"

definition duplicateKey :: "nat \<Rightarrow> string" where
  "duplicateKey i = ''benchmark-duplicate-'' @ sixDigits i"

text \<open>The request whose repetition the scenario measures.\<close>

definition duplicateRequest :: "('d :: linordered_ab_group_add, 'm) seed_env_scheme \<Rightarrow> nat \<Rightarrow> 'd EntryRequest list" where
  "duplicateRequest env i =
     [\<lparr>AccountID = uuidString env (benchmarkUUID env ''duplicate'' i ''debit''), Credit = 0, Debit = money env 1\<rparr>,
      \<lparr>AccountID = uuidString env (benchmarkUUID env ''duplicate'' i ''credit''), Credit = money env 1, Debit = 0\<rparr>]"

definition seedDuplicate :: "('d :: linordered_ab_group_add, 'm) seed_env_scheme \<Rightarrow> time \<Rightarrow> nat \<Rightarrow> ('d, accountPair) act" where
  "seedDuplicate env t i =
     (let ledger = benchmarkUUID env ''duplicate'' i ''ledger''; debit = benchmarkUUID env ''duplicate'' i ''debit'';
          credit = benchmarkUUID env ''duplicate'' i ''credit''; tx = benchmarkUUID env ''duplicate'' i ''transaction''
      in bindE (insertAccounts env
           [\<lparr>as_id = debit, as_ledgerID = ledger, as_name = ''bench-duplicate-debit-'' @ sixDigits i, as_typeName = ''asset'', as_balance = money env 1\<rparr>,
            \<lparr>as_id = credit, as_ledgerID = ledger, as_name = ''bench-duplicate-credit-'' @ sixDigits i, as_typeName = ''revenue'',
             as_balance = money env (- 1)\<rparr>]) (\<lambda>_.
         bindE (execDb env ''insert transaction'' (insertTransactions t [(tx, ledger)])) (\<lambda>_.
         bindE (execDb env ''insert entries'' (insertEntryValues env t
           [(benchmarkUUID env ''duplicate'' i ''debit-entry'', debit, tx, money env 0, money env 1),
            (benchmarkUUID env ''duplicate'' i ''credit-entry'', credit, tx, money env 1, money env 0)])) (\<lambda>_.
         bindE (execDb env ''insert key'' (insertKey (duplicateKey i) tx (TransactionRequestChecksum env '''' (duplicateRequest env i)))) (\<lambda>_.
         bindE (execDb env ''insert event'' (insertOutbox (processedEvent (benchmarkUUID env ''duplicate'' i ''outbox'') t tx))) (\<lambda>_.
         returnE \<lparr>ap_LedgerID = uuidString env ledger, ap_DebitAccountID = uuidString env debit, ap_CreditAccountID = uuidString env credit,
           ap_IdempotencyKey = duplicateKey i, ap_TransactionID = uuidString env tx\<rparr>))))))"

definition seedTransfer :: "('d :: linordered_ab_group_add, 'm) seed_env_scheme \<Rightarrow> time \<Rightarrow> nat \<Rightarrow> ('d, transferPair) act" where
  "seedTransfer env t i =
     (let sourceLedger = benchmarkUUID env ''transfer'' i ''source-ledger''; destinationLedger = benchmarkUUID env ''transfer'' i ''destination-ledger'';
          source = benchmarkUUID env ''transfer'' i ''source''; sourceOffset = benchmarkUUID env ''transfer'' i ''source-offset'';
          destination = benchmarkUUID env ''transfer'' i ''destination''; sourceClearing = benchmarkUUID env ''transfer'' i ''source-clearing'';
          destinationClearing = benchmarkUUID env ''transfer'' i ''destination-clearing''; tx = benchmarkUUID env ''transfer'' i ''funding-transaction''
      in bindE (insertAccounts env
           [\<lparr>as_id = source, as_ledgerID = sourceLedger, as_name = ''bench-transfer-source-'' @ sixDigits i, as_typeName = ''asset'',
             as_balance = money env 1000000000\<rparr>,
            \<lparr>as_id = sourceOffset, as_ledgerID = sourceLedger, as_name = ''bench-transfer-offset-'' @ sixDigits i, as_typeName = ''revenue'',
             as_balance = money env (- 1000000000)\<rparr>,
            \<lparr>as_id = sourceClearing, as_ledgerID = sourceLedger, as_name = ''__transfer_clearing__'', as_typeName = ''asset'', as_balance = money env 0\<rparr>,
            \<lparr>as_id = destination, as_ledgerID = destinationLedger, as_name = ''bench-transfer-destination-'' @ sixDigits i, as_typeName = ''asset'',
             as_balance = money env 0\<rparr>,
            \<lparr>as_id = destinationClearing, as_ledgerID = destinationLedger, as_name = ''__transfer_clearing__'', as_typeName = ''asset'',
             as_balance = money env 0\<rparr>]) (\<lambda>_.
         bindE (execDb env ''insert transaction'' (insertTransactions t [(tx, sourceLedger)])) (\<lambda>_.
         bindE (execDb env ''insert entries'' (insertEntryValues env t
           [(benchmarkUUID env ''transfer'' i ''funding-debit-entry'', source, tx, money env 0, money env 1000000000),
            (benchmarkUUID env ''transfer'' i ''funding-credit-entry'', sourceOffset, tx, money env 1000000000, money env 0)])) (\<lambda>_.
         bindE (execDb env ''insert event'' (insertOutbox (processedEvent (benchmarkUUID env ''transfer'' i ''funding-outbox'') t tx))) (\<lambda>_.
         returnE \<lparr>tp_SourceLedgerID = uuidString env sourceLedger, tp_SourceAccountID = uuidString env source,
           tp_DestinationLedgerID = uuidString env destinationLedger, tp_DestinationAccountID = uuidString env destination\<rparr>)))))"

definition seedAggregate :: "('d :: linordered_ab_group_add, 'm) seed_env_scheme \<Rightarrow> nat \<Rightarrow> ('d, accountPair) act" where
  "seedAggregate env i =
     (let ledger = benchmarkUUID env ''aggregate'' i ''ledger''; debit = benchmarkUUID env ''aggregate'' i ''debit'';
          credit = benchmarkUUID env ''aggregate'' i ''credit''
      in bindE (insertAccounts env
           [\<lparr>as_id = debit, as_ledgerID = ledger, as_name = ''bench-aggregate-debit-'' @ sixDigits i, as_typeName = ''asset'', as_balance = money env 0\<rparr>,
            \<lparr>as_id = credit, as_ledgerID = ledger, as_name = ''bench-aggregate-credit-'' @ sixDigits i, as_typeName = ''revenue'', as_balance = money env 0\<rparr>]) (\<lambda>_.
         returnE \<lparr>ap_LedgerID = uuidString env ledger, ap_DebitAccountID = uuidString env debit, ap_CreditAccountID = uuidString env credit,
           ap_IdempotencyKey = '''', ap_TransactionID = ''''\<rparr>))"

text \<open>One round of the loop over the pairs.\<close>

definition seedPair ::
  "('d :: linordered_ab_group_add, 'm) seed_env_scheme \<Rightarrow> time \<Rightarrow> nat \<Rightarrow> ('d, accountPair \<times> accountPair \<times> transferPair \<times> accountPair) act" where
  "seedPair env t i =
     bindE (seedNormal env i) (\<lambda>normal.
     bindE (seedDuplicate env t i) (\<lambda>duplicate.
     bindE (seedTransfer env t i) (\<lambda>transfer.
     bindE (seedAggregate env i) (\<lambda>aggregate.
     returnE (normal, duplicate, transfer, aggregate)))))"

text \<open>
  \<open>SELECT id FROM transactions WHERE ledger_id = ...\<close>. The table of transactions is a map, so its rows are listed through the entries: every
  transaction the tool has inserted since the truncation has some.
\<close>

definition transactionsOf :: "'d Database \<Rightarrow> uuid list" where
  "transactionsOf d = remdups (map er_transaction (entriesT d))"

definition selectLedgerTransactions :: "uuid \<Rightarrow> 'd Database \<Rightarrow> uuid list" where
  "selectLedgerTransactions ledger d =
     filter (\<lambda>tid. case transactionsT d tid of None \<Rightarrow> False | Some r \<Rightarrow> tr_ledger r = ledger) (transactionsOf d)"

text \<open>
  The history: transactions whose identifiers the database draws, each with a debit and a credit of one, written by one statement, and
  their events by another.
\<close>

definition historyValues ::
  "('d :: linordered_ab_group_add, 'm) seed_env_scheme \<Rightarrow> uuid \<Rightarrow> uuid \<Rightarrow> uuid list \<Rightarrow> uuid list \<Rightarrow> uuid list \<Rightarrow> 'd entryValue list" where
  "historyValues env debit credit txs debitIDs creditIDs =
     map (\<lambda>(tid, eid). (eid, debit, tid, money env 0, money env 1)) (zip txs debitIDs) @
     map (\<lambda>(tid, eid). (eid, credit, tid, money env 1, money env 0)) (zip txs creditIDs)"

definition insertHistory ::
  "('d :: linordered_ab_group_add, 'm) seed_env_scheme \<Rightarrow> time \<Rightarrow> uuid \<Rightarrow> uuid \<Rightarrow> uuid \<Rightarrow> uuid list \<Rightarrow> uuid list \<Rightarrow> uuid list \<Rightarrow> 'd statement" where
  "insertHistory env t ledger debit credit txs debitIDs creditIDs d =
     bindR (insertTransactions t (map (\<lambda>tid. (tid, ledger)) txs) d)
       (insertEntryValues env t (historyValues env debit credit txs debitIDs creditIDs))"

definition seedHistory :: "('d :: linordered_ab_group_add, 'm) seed_env_scheme \<Rightarrow> time \<Rightarrow> nat \<Rightarrow> ('d, unit) act" where
  "seedHistory env t history =
     (let ledger = benchmarkUUID env ''history'' 0 ''ledger''; debit = benchmarkUUID env ''history'' 0 ''debit'';
          credit = benchmarkUUID env ''history'' 0 ''credit''
      in bindE (insertAccounts env
           [\<lparr>as_id = debit, as_ledgerID = ledger, as_name = ''bench-history-debit'', as_typeName = ''asset'', as_balance = money env (int history)\<rparr>,
            \<lparr>as_id = credit, as_ledgerID = ledger, as_name = ''bench-history-credit'', as_typeName = ''revenue'',
             as_balance = money env (- int history)\<rparr>]) (\<lambda>_.
         bindE (mapE (\<lambda>_. newID env) [0..<history]) (\<lambda>txs.
         bindE (mapE (\<lambda>_. newID env) txs) (\<lambda>debitIDs.
         bindE (mapE (\<lambda>_. newID env) txs) (\<lambda>creditIDs.
         bindE (execDb env ''seed history'' (insertHistory env t ledger debit credit txs debitIDs creditIDs)) (\<lambda>_.
         bindE getDb (\<lambda>d. let selected = selectLedgerTransactions ledger d in
         bindE (mapE (\<lambda>_. newID env) selected) (\<lambda>eventIDs.
         execDb env ''seed history outbox''
           (insertOutboxes (map (\<lambda>(eid, tid). processedEvent eid t tid) (zip eventIDs selected)))))))))))"

subsection \<open>Seeding\<close>

definition seedTransaction ::
  "('d :: linordered_ab_group_add, 'm) seed_env_scheme \<Rightarrow> string \<Rightarrow> nat \<Rightarrow> nat \<Rightarrow> ('d, seedFile) act" where
  "seedTransaction env databaseName pairs history =
     bindE (dbCall env ''begin'') (\<lambda>_.
     bindE (timeP env) (\<lambda>t.
     bindE (execDb env ''reset tables'' (\<lambda>_. Inr emptyDatabase)) (\<lambda>_.
     bindE (timeP env) (\<lambda>generated.
     bindE (dbCall env ''prepare'') (\<lambda>_.
     bindE (mapE (seedPair env t) [0..<pairs]) (\<lambda>scenarios.
     bindE (if 0 < history then seedHistory env t history else returnE ()) (\<lambda>_.
     bindE (dbCall env ''commit'') (\<lambda>_.
     returnE \<lparr>SchemaVersion = 1, GeneratedAt = generated, sf_Database = databaseName, ds_AccountPairs = pairs, ds_HistoryTransactions = history,
       ds_Accounts = 0, ds_Transactions = 0, ds_Entries = 0, ds_DatabaseBytes = 0,
       NormalBalancedPosting = map fst scenarios, IdempotentDuplicatePosting = map (fst \<circ> snd) scenarios,
       CrossLedgerTransfer = map (fst \<circ> snd \<circ> snd) scenarios, AggregateEventIngestion = map (snd \<circ> snd \<circ> snd) scenarios\<rparr>))))))))"

definition seed :: "('d :: linordered_ab_group_add, 'm) seed_env_scheme \<Rightarrow> string \<Rightarrow> nat \<Rightarrow> nat \<Rightarrow> ('d, seedFile) act" where
  "seed env databaseName pairs history =
     bindE (atomically (seedTransaction env databaseName pairs history)) (\<lambda>result.
     bindE (dbCall env ''analyze'') (\<lambda>_.
     bindE (dbCall env ''count rows'') (\<lambda>_.
     bindE getDb (\<lambda>d.
     returnE (result\<lparr>ds_Accounts := length (accountsT d), ds_Transactions := length (transactionsOf d), ds_Entries := length (entriesT d),
       ds_DatabaseBytes := databaseSize env d\<rparr>)))))"

text \<open>The databases the tool may reset.\<close>

definition namedBenchmark :: "('d, 'm) seed_env_scheme \<Rightarrow> string \<Rightarrow> bool" where
  "namedBenchmark env databaseName \<longleftrightarrow> sublist ''benchmark'' (ToLower env databaseName)"

text \<open>
  \<open>main\<close>, from its check of the flags: \<open>allowUnsafeReset\<close> is the flag, \<open>unsafeVariable\<close> the variable \<open>BENCHMARK_ALLOW_UNSAFE_RESET\<close>. \<open>None\<close> is
  an exit by \<open>fatalf\<close>. Migrations and the reset of the stream come between the check of the name and the seeding.
\<close>

definition seedMain ::
  "('d :: linordered_ab_group_add, 'm) seed_env_scheme \<Rightarrow> int \<Rightarrow> int \<Rightarrow> bool \<Rightarrow> string \<Rightarrow> string \<Rightarrow> 'd Pg \<Rightarrow> 'd Pg \<times> seedFile option" where
  "seedMain env pairs history allowUnsafeReset unsafeVariable databaseName s =
     (if pairs < 1 \<or> history < 0 then (s, None)
      else if \<not> namedBenchmark env databaseName \<and> \<not> allowUnsafeReset \<and> unsafeVariable \<noteq> ''1'' then (s, None)
      else case seed env databaseName (nat pairs) (nat history) s of
          (s, Inl _) \<Rightarrow> (s, None)
        | (s, Inr result) \<Rightarrow> (s, Some result))"

text \<open>The database of the projection has a check of its own, which the flags do not override.\<close>

definition resetProjectionDatabase :: "('d, 'm) seed_env_scheme \<Rightarrow> string \<Rightarrow> 'd Pg \<Rightarrow> 'd Pg \<times> bool" where
  "resetProjectionDatabase env databaseName s =
     (if \<not> namedBenchmark env databaseName then (s, False)
      else case execDb env ''truncate'' (\<lambda>d. Inr (d\<lparr>inboxT := [], accountDaysT := [], ledgerDaysT := []\<rparr>)) s of
          (s, Inl _) \<Rightarrow> (s, False)
        | (s, Inr _) \<Rightarrow> (s, True))"

end
