(* ===== verification/Benchmark_Books.thy ===== *)
theory Benchmark_Books
  imports Benchmark_Seed
begin

text \<open>
  What the seeding tool leaves behind: tables whose books balance and whose rows are typed, with nothing left for the publishers to do.

  The tool writes balances and entries by separate statements, so in between the balances run ahead of the entries. \<open>seed_inv env off\<close> is the
  invariant of the books with the difference \<open>off\<close> for each account; at the end of each scenario it is zero.
\<close>

subsection \<open>The invariant\<close>

definition money_ok :: "('d :: linordered_ab_group_add, 'm) seed_env_scheme \<Rightarrow> bool" where
  "money_ok env \<longleftrightarrow> (\<forall>m n. money env (m + n) = money env m + money env n) \<and> 0 < money env 1 \<and> (\<forall>n. cents env (money env n))"

lemma money_zero [simp]: "money_ok env \<Longrightarrow> money env 0 = 0"
  unfolding money_ok_def by (metis add_0 add_cancel_left_left)

lemma money_minus: "money_ok env \<Longrightarrow> money env (- n) = - money env n"
  using money_zero [of env] unfolding money_ok_def by (metis add.right_inverse eq_neg_iff_add_eq_0 add.commute)

lemma money_Suc: "money_ok env \<Longrightarrow> money env (1 + int n) = money env 1 + money env (int n)"
  by (simp add: money_ok_def)

definition seed_inv :: "('d :: linordered_ab_group_add, 'm) seed_env_scheme \<Rightarrow> (uuid \<Rightarrow> 'd) \<Rightarrow> 'd Database \<Rightarrow> bool" where
  "seed_inv env off d \<longleftrightarrow>
     distinct (map fst (accountsT d)) \<and>
     (\<forall>r \<in> set (entriesT d). entryCheck r \<and> row_placed d r) \<and>
     (\<forall>tid. rowImbalance tid (entriesT d) = 0) \<and>
     (\<forall>k a. accountRow d k = Some a \<longrightarrow> ar_balance a = rowNet k (entriesT d) + off k \<and> cents env (ar_balance a)) \<and>
     tables_typed d \<and> (\<forall>r \<in> set (outboxT d). or_status r = ''processed'')"

lemma seed_invD:
  assumes "seed_inv env off d"
  shows "distinct (map fst (accountsT d))" and "\<forall>r \<in> set (entriesT d). entryCheck r \<and> row_placed d r"
    and "rowImbalance tid (entriesT d) = 0" and "tables_typed d" and "\<forall>r \<in> set (outboxT d). or_status r = ''processed''"
    and "accountRow d k = Some a \<Longrightarrow> ar_balance a = rowNet k (entriesT d) + off k \<and> cents env (ar_balance a)"
  using assms unfolding seed_inv_def by blast+

lemma seed_invI:
  assumes "distinct (map fst (accountsT d))" and "\<And>r. r \<in> set (entriesT d) \<Longrightarrow> entryCheck r \<and> row_placed d r"
    and "\<And>tid. rowImbalance tid (entriesT d) = 0" and "tables_typed d" and "\<And>r. r \<in> set (outboxT d) \<Longrightarrow> or_status r = ''processed''"
    and "\<And>k a. accountRow d k = Some a \<Longrightarrow> ar_balance a = rowNet k (entriesT d) + off k \<and> cents env (ar_balance a)"
  shows "seed_inv env off d"
  using assms unfolding seed_inv_def by blast

lemma seed_inv_frame:
  assumes "seed_inv env off d" and "accountsT d' = accountsT d" and "transactionsT d' = transactionsT d" and "entriesT d' = entriesT d"
    and "tables_typed d'" and "\<forall>r \<in> set (outboxT d'). or_status r = ''processed''"
  shows "seed_inv env off d'"
  using assms(1,5,6) unfolding seed_inv_def row_placed_def assms(2-4) by blast

lemma seed_inv_books: "seed_inv env (\<lambda>_. 0) d \<Longrightarrow> pg_books env d"
  unfolding seed_inv_def pg_books_def by (simp only: add_0_right) blast

lemma seed_inv_empty: "seed_inv env off emptyDatabase"
  by (simp add: seed_inv_def emptyDatabase_def tables_typed_def accounts_typed_def entries_typed_def keys_typed_def outbox_typed_def
      steps_typed_def sagas_typed_def)

lemma seed_inv_placed: "seed_inv env off d \<Longrightarrow> r \<in> set (entriesT d) \<Longrightarrow> row_placed d r"
  by (simp add: seed_inv_def)

text \<open>An account that does not exist has no entries, and neither has a transaction.\<close>

lemma seed_inv_unused:
  assumes "seed_inv env off d"
  shows "accountRow d k = None \<Longrightarrow> rowNet k (entriesT d) = 0"
    and "transactionsT d tid = None \<Longrightarrow> tid \<notin> set (transactionsOf d)"
proof -
  show "rowNet k (entriesT d) = 0" if "accountRow d k = None"
    using that seed_inv_placed [OF assms] by (intro rowNet_notin) (force simp: row_placed_def)
  show "tid \<notin> set (transactionsOf d)" if "transactionsT d tid = None"
    using that seed_inv_placed [OF assms] by (force simp: row_placed_def transactionsOf_def)
qed

subsection \<open>Statements\<close>

lemma insertSeedAccount_Inr:
  assumes "insertSeedAccount env a d = Inr d'" and "numeric_ok env" and "cents env (as_balance a)"
  shows "accountRow d (as_id a) = None" and "account_type (as_typeName a)" and
    "d' = d\<lparr>accountsT := accountsT d @ [(as_id a, \<lparr>ar_ledger = as_ledgerID a, ar_name = as_name a, ar_type = as_typeName a, ar_balance = as_balance a\<rparr>)]\<rparr>"
  using assms(1) numeric_okD(5) [OF assms(2) _ assms(3)]
  by (auto simp: insertSeedAccount_def split: option.splits if_splits)

text \<open>The tables after the accounts were added; the rest is as before.\<close>

definition added :: "'d accountSeed list \<Rightarrow> 'd Database \<Rightarrow> 'd Database \<Rightarrow> bool" where
  "added as d d' \<longleftrightarrow> d' = d\<lparr>accountsT := accountsT d @ map (\<lambda>a.
     (as_id a, \<lparr>ar_ledger = as_ledgerID a, ar_name = as_name a, ar_type = as_typeName a, ar_balance = as_balance a\<rparr>)) as\<rparr>"

fun offAfter :: "'d accountSeed list \<Rightarrow> (uuid \<Rightarrow> 'd) \<Rightarrow> uuid \<Rightarrow> 'd" where
  "offAfter [] off = off"
| "offAfter (a # as) off = offAfter as (off(as_id a := as_balance a))"

lemma seed_inv_account:
  assumes "insertSeedAccount env a d = Inr d'" and "numeric_ok env" and "cents env (as_balance a)" and "seed_inv env off d"
  shows "seed_inv env (off(as_id a := as_balance a)) d'"
proof -
  note A = insertSeedAccount_Inr [OF assms(1-3)]
  have fst: "as_id a \<notin> fst ` set (accountsT d)" using A(1) by (simp add: map_of_eq_None_iff)
  have row: "accountRow d' k = (if k = as_id a then Some \<lparr>ar_ledger = as_ledgerID a, ar_name = as_name a, ar_type = as_typeName a,
      ar_balance = as_balance a\<rparr> else accountRow d k)" for k
    using A(1,3) by (auto simp: map_add_def split: option.splits)
  have placed: "row_placed d' r" if "row_placed d r" for r
    using that A(1) unfolding row_placed_def row by (auto simp: A(3))
  show ?thesis
  proof (rule seed_invI)
    show "distinct (map fst (accountsT d'))" using seed_invD(1) [OF assms(4)] fst by (simp add: A(3))
    show "entryCheck r \<and> row_placed d' r" if "r \<in> set (entriesT d')" for r
      using that placed seed_invD(2) [OF assms(4)] by (simp add: A(3))
    show "rowImbalance tid (entriesT d') = 0" for tid using seed_invD(3) [OF assms(4)] by (simp add: A(3))
    show "tables_typed d'" using seed_invD(4) [OF assms(4)] A(2) by (simp add: A(3) tables_typed_def accounts_typed_def)
    show "or_status r = ''processed''" if "r \<in> set (outboxT d')" for r using that seed_invD(5) [OF assms(4)] by (simp add: A(3))
    show "ar_balance b = rowNet k (entriesT d') + (off(as_id a := as_balance a)) k \<and> cents env (ar_balance b)"
      if "accountRow d' k = Some b" for k b
    proof (cases "k = as_id a")
      case True
      then show ?thesis using that assms(3) seed_inv_unused(1) [OF assms(4) A(1)] unfolding row by (auto simp: A(3))
    next
      case False
      then have "accountRow d k = Some b" using that row [of k] by simp
      then have "ar_balance b = rowNet k (entriesT d) + off k" "cents env (ar_balance b)"
        using seed_invD(6) [OF assms(4)] by blast+
      then show ?thesis using False by (simp add: A(3))
    qed
  qed
qed

lemma added_Nil [simp]: "added [] d d"
  by (simp add: added_def)

lemma insertAccounts_Inr:
  assumes "insertAccounts env as s = (s', Inr us)" and "numeric_ok env" and "\<forall>a \<in> set as. cents env (as_balance a)"
    and "seed_inv env off (db s)"
  shows "seed_inv env (offAfter as off) (db s')" and "added as (db s) (db s')" and "distinct (map as_id as)"
    and "a \<in> set as \<Longrightarrow> accountRow (db s) (as_id a) = None"
proof -
  have "seed_inv env (offAfter as off) (db s') \<and> added as (db s) (db s') \<and> distinct (map as_id as) \<and>
      (\<forall>a \<in> set as. accountRow (db s) (as_id a) = None)"
    using assms(1,3,4)
  proof (induction as arbitrary: s us off)
    case Nil
    then show ?case by (simp add: insertAccounts_def returnE_def)
  next
    case (Cons a as)
    obtain vs d where 1: "insertSeedAccount env a (db s) = Inr d"
      "insertAccounts env as (s\<lparr>calls := Suc (calls s), db := d\<rparr>) = (s', Inr vs)"
      using Cons.prems(1) by (auto simp: insertAccounts_def bindE_Inr execDb_Inr returnE_def)
    let ?s = "s\<lparr>calls := Suc (calls s), db := d\<rparr>"
    have c: "cents env (as_balance a)" using Cons.prems(2) by simp
    note A = insertSeedAccount_Inr [OF 1(1) assms(2) c]
    have "seed_inv env (off(as_id a := as_balance a)) (db ?s)"
      using seed_inv_account [OF 1(1) assms(2) c Cons.prems(3)] by simp
    note IH0 = Cons.IH [OF 1(2) _ this]
    from IH0 Cons.prems(2)
    have IH: "seed_inv env (offAfter as (off(as_id a := as_balance a))) (db s')" "added as d (db s')" "distinct (map as_id as)"
      "\<forall>b \<in> set as. accountRow d (as_id b) = None" by (simp_all del: fun_upd_apply)
    have "as_id b \<noteq> as_id a \<and> accountRow (db s) (as_id b) = None" if "b \<in> set as" for b
      using bspec [OF IH(4) that] by (auto simp: A(3) map_of_eq_None_iff)
    then have new: "as_id a \<notin> as_id ` set as" "\<forall>b \<in> set as. accountRow (db s) (as_id b) = None" by (fastforce, blast)
    then show ?case using IH A(1) by (simp add: added_def A(3) del: fun_upd_apply)
  qed
  then show "seed_inv env (offAfter as off) (db s')" "added as (db s) (db s')" "distinct (map as_id as)"
    "a \<in> set as \<Longrightarrow> accountRow (db s) (as_id a) = None" by blast+
qed

text \<open>The row of an added account.\<close>

lemma added_row:
  assumes "added as d d'" and "distinct (map as_id as)" and "\<forall>a \<in> set as. accountRow d (as_id a) = None" and "a \<in> set as"
  shows "\<exists>r. accountRow d' (as_id a) = Some r \<and> ar_ledger r = as_ledgerID a"
proof -
  let ?row = "\<lambda>a. \<lparr>ar_ledger = as_ledgerID a, ar_name = as_name a, ar_type = as_typeName a, ar_balance = as_balance a\<rparr>"
  have "accountRow d' (as_id a) = map_of (map (\<lambda>a. (as_id a, ?row a)) as) (as_id a)"
    using assms(1) bspec [OF assms(3,4)] by (auto simp: added_def map_add_def split: option.splits)
  also have "\<dots> = Some (?row a)" using assms(2,4) by (intro map_of_is_SomeI) (auto simp: o_def)
  finally show ?thesis by simp
qed

subsection \<open>Postings\<close>

text \<open>New transactions and their entries: the entries catch up with the balances.\<close>

lemma posting_Inr:
  assumes "insertTransactions t txs d = Inr d1" and "insertEntryValues env t vals d1 = Inr d2" and "numeric_ok env"
    and "\<forall>v \<in> set vals. valueCents env v"
  obtains m where "d2 = d\<lparr>transactionsT := m, entriesT := entriesT d @ map (mkRow t) vals\<rparr>"
    and "\<forall>v \<in> set vals. entryCheck (mkRow t v)" and "distinct (map fst txs)"
    and "\<forall>tid r. transactionsT d tid = Some r \<longrightarrow> m tid = Some r"
    and "\<forall>tid l. (tid, l) \<in> set txs \<longrightarrow> transactionsT d tid = None \<and> m tid = Some \<lparr>tr_ledger = l, tr_created = t\<rparr>"
proof -
  obtain m where m: "d1 = d\<lparr>transactionsT := m\<rparr>" "distinct (map fst txs)" "\<forall>tid r. transactionsT d tid = Some r \<longrightarrow> m tid = Some r"
    "\<forall>(tid, l) \<in> set txs. transactionsT d tid = None \<and> m tid = Some \<lparr>tr_ledger = l, tr_created = t\<rparr>"
    using insertTransactions_Inr [OF assms(1)] by blast
  obtain rows where rows: "entryRows env t vals = Inr rows" "insertEntries rows d1 = Inr d2"
    using assms(2) by (auto simp: insertEntryValues_def bindR_Inr)
  have eq: "rows = map (mkRow t) vals" by (rule entryRows_Inr [OF assms(3) rows(1) assms(4)])
  show ?thesis
    by (rule that [of m]) (use m rows(2) eq in \<open>auto simp: insertEntries_def list_all_iff split: if_splits\<close>)
qed

lemma seed_inv_posting:
  assumes "insertTransactions t txs d = Inr d1" and "insertEntryValues env t vals d1 = Inr d2" and "numeric_ok env"
    and "\<forall>v \<in> set vals. valueCents env v" and "\<forall>v \<in> set vals. value_placed d txs v" and "\<forall>tid. valueImbalance tid vals = 0"
    and "seed_inv env off d"
  shows "seed_inv env (\<lambda>k. off k - valueNet k vals) d2"
proof -
  obtain m where d2: "d2 = d\<lparr>transactionsT := m, entriesT := entriesT d @ map (mkRow t) vals\<rparr>"
    and check: "\<forall>v \<in> set vals. entryCheck (mkRow t v)"
    and old: "\<forall>tid r. transactionsT d tid = Some r \<longrightarrow> m tid = Some r"
    and new: "\<forall>tid l. (tid, l) \<in> set txs \<longrightarrow> transactionsT d tid = None \<and> m tid = Some \<lparr>tr_ledger = l, tr_created = t\<rparr>"
    by (rule posting_Inr [OF assms(1-4)])
  show ?thesis
  proof (rule seed_invI)
    show "distinct (map fst (accountsT d2))" using seed_invD(1) [OF assms(7)] by (simp add: d2)
    show "rowImbalance tid (entriesT d2) = 0" for tid using seed_invD(3) [OF assms(7)] assms(6) by (simp add: d2 rowImbalance_mkRow)
    show "tables_typed d2"
      using seed_invD(4) [OF assms(7)] check by (auto simp: d2 tables_typed_def entries_typed_def list_all_iff)
    show "or_status r = ''processed''" if "r \<in> set (outboxT d2)" for r using that seed_invD(5) [OF assms(7)] by (simp add: d2)
    show "ar_balance a = rowNet k (entriesT d2) + (off k - valueNet k vals) \<and> cents env (ar_balance a)"
      if "accountRow d2 k = Some a" for k a
    proof -
      have "accountRow d k = Some a" using that by (simp add: d2)
      then have "ar_balance a = rowNet k (entriesT d) + off k" "cents env (ar_balance a)"
        using seed_invD(6) [OF assms(7)] by blast+
      then show ?thesis by (simp add: d2 rowNet_mkRow)
    qed
    show "entryCheck r \<and> row_placed d2 r" if r: "r \<in> set (entriesT d2)" for r
    proof -
      from r consider "r \<in> set (entriesT d)" | v where "v \<in> set vals" "r = mkRow t v" by (auto simp: d2)
      then show ?thesis
      proof cases
        case 1
        then show ?thesis using seed_invD(2) [OF assms(7)] old by (fastforce simp: row_placed_def d2)
      next
        case 2
        obtain eid aid tid c b where v: "v = (eid, aid, tid, c, b)" by (cases v)
        obtain a where "accountRow d aid = Some a" "(tid, ar_ledger a) \<in> set txs"
          using bspec [OF assms(5) 2(1)] by (auto simp: value_placed_def v)
        then show ?thesis using new check 2 by (auto simp: row_placed_def d2 v)
      qed
    qed
  qed
qed

subsection \<open>What is added\<close>

definition adds :: "nat \<Rightarrow> nat \<Rightarrow> nat \<Rightarrow> 'd Database \<Rightarrow> 'd Database \<Rightarrow> bool" where
  "adds a x e d d' \<longleftrightarrow>
     length (accountsT d') = length (accountsT d) + a \<and> length (transactionsOf d') = length (transactionsOf d) + x \<and>
     length (entriesT d') = length (entriesT d) + e \<and> keysT d \<subseteq>\<^sub>m keysT d'"

lemma adds_refl [simp]: "adds 0 0 0 d d"
  by (simp add: adds_def)

lemma adds_trans: "adds a x e d d1 \<Longrightarrow> adds a' x' e' d1 d2 \<Longrightarrow> adds (a + a') (x + x') (e + e') d d2"
  by (auto simp: adds_def intro: map_le_trans)

lemma adds_accounts: "added as d d' \<Longrightarrow> adds (length as) 0 0 d d'"
  by (simp add: added_def adds_def transactionsOf_def)

lemma adds_posting:
  assumes "insertTransactions t txs d = Inr d1" and "insertEntryValues env t vals d1 = Inr d2" and "numeric_ok env"
    and "\<forall>v \<in> set vals. valueCents env v" and "seed_inv env off d" and "(\<lambda>(eid, aid, tid, c, b). tid) ` set vals = fst ` set txs"
  shows "adds 0 (length txs) (length vals) d d2"
proof -
  obtain m where d2: "d2 = d\<lparr>transactionsT := m, entriesT := entriesT d @ map (mkRow t) vals\<rparr>" and dist: "distinct (map fst txs)"
    and new: "\<forall>tid l. (tid, l) \<in> set txs \<longrightarrow> transactionsT d tid = None \<and> m tid = Some \<lparr>tr_ledger = l, tr_created = t\<rparr>"
    by (rule posting_Inr [OF assms(1-4)])
  have tids: "(\<lambda>x. er_transaction (mkRow t x)) ` set vals = fst ` set txs"
    unfolding assms(6) [symmetric] by (rule image_cong) auto
  have "tid \<notin> er_transaction ` set (entriesT d)" if "tid \<in> fst ` set txs" for tid
    using that new seed_inv_unused(2) [OF assms(5), of tid] by (auto simp: transactionsOf_def)
  then have "fst ` set txs \<inter> er_transaction ` set (entriesT d) = {}" by blast
  then have "card (er_transaction ` set (entriesT d) \<union> fst ` set txs) = card (er_transaction ` set (entriesT d)) + card (fst ` set txs)"
    by (intro card_Un_disjoint) auto
  moreover have "card (fst ` set txs) = length txs" using distinct_card [OF dist] by simp
  ultimately show ?thesis
    by (simp add: adds_def d2 transactionsOf_def length_remdups_card_conv image_image tids)
qed

lemma seed_inv_key:
  assumes "insertKey key tid c d = Inr d'" and "seed_inv env off d"
  shows "seed_inv env off d'" and "adds 0 0 0 d d'"
    and "keysT d' key = Some \<lparr>kr_transaction = Some tid, kr_checksum = c, kr_status = ''completed''\<rparr>"
proof -
  have d': "d' = d\<lparr>keysT := (keysT d)(key \<mapsto> \<lparr>kr_transaction = Some tid, kr_checksum = c, kr_status = ''completed''\<rparr>)\<rparr>" and n: "keysT d key = None"
    using assms(1) by (auto simp: insertKey_def split: if_splits)
  have "tables_typed d'"
    using seed_invD(4) [OF assms(2)] by (simp add: d' tables_typed_def keys_typed_upd key_typed_def)
  then show "seed_inv env off d'"
    using seed_invD(5) [OF assms(2)] by (intro seed_inv_frame [OF assms(2)]) (simp_all add: d')
  show "adds 0 0 0 d d'" using n by (simp add: adds_def d' transactionsOf_def map_le_def dom_def)
  show "keysT d' key = Some \<lparr>kr_transaction = Some tid, kr_checksum = c, kr_status = ''completed''\<rparr>" by (simp add: d')
qed

lemma seed_inv_events:
  assumes "insertOutboxes (map (\<lambda>(eid, tid). processedEvent eid t tid) evs) d = Inr d'" and "seed_inv env off d"
  shows "seed_inv env off d'" and "adds 0 0 0 d d'" and "keysT d' = keysT d"
proof -
  have d': "d' = d\<lparr>outboxT := outboxT d @ map (\<lambda>(eid, tid). processedEvent eid t tid) evs\<rparr>" by (rule insertOutboxes_Inr [OF assms(1)])
  have "tables_typed d'"
    using seed_invD(4) [OF assms(2)]
    by (auto simp: d' tables_typed_def outbox_typed_def event_typed_def processedEvent_def postedEvent_def)
  then show "seed_inv env off d'"
    using seed_invD(5) [OF assms(2)] by (intro seed_inv_frame [OF assms(2)]) (auto simp: d' processedEvent_def)
  show "adds 0 0 0 d d'" and "keysT d' = keysT d" by (simp_all add: adds_def d' transactionsOf_def)
qed

lemma seed_inv_event: "insertOutbox (processedEvent eid t tid) d = Inr d' \<Longrightarrow> seed_inv env off d \<Longrightarrow> seed_inv env off d'"
  and adds_event: "insertOutbox (processedEvent eid t tid) d = Inr d' \<Longrightarrow> seed_inv env off d \<Longrightarrow> adds 0 0 0 d d' \<and> keysT d' = keysT d"
  using seed_inv_events [of t "[(eid, tid)]" d d' env off] by (simp_all add: bindR_def split: sum.splits)

subsection \<open>Scenarios\<close>

lemma offAfter_zero: "\<forall>a \<in> set as. as_balance a = 0 \<Longrightarrow> offAfter as off = (\<lambda>k. if k \<in> as_id ` set as then 0 else off k)"
proof (induction as arbitrary: off)
  case (Cons a as)
  then have "offAfter as (off(as_id a := 0)) = (\<lambda>k. if k \<in> as_id ` set as then 0 else (off(as_id a := 0)) k)" by simp
  then show ?case using Cons.prems by auto
qed simp

text \<open>Accounts without a balance.\<close>

lemma empty_accounts:
  assumes "insertAccounts env as s = (s', Inr us)" and "numeric_ok env" and "\<forall>a \<in> set as. as_balance a = 0" and "seed_inv env (\<lambda>_. 0) (db s)"
  shows "seed_inv env (\<lambda>_. 0) (db s')" and "adds (length as) 0 0 (db s) (db s')"
proof -
  have "\<forall>a \<in> set as. cents env (as_balance a)" using assms(3) numeric_okD(1) [OF assms(2)] by simp
  note A = insertAccounts_Inr [OF assms(1,2) this assms(4)]
  have "offAfter as (\<lambda>_. 0) = (\<lambda>_. 0)" using offAfter_zero [OF assms(3)] by auto
  then show "seed_inv env (\<lambda>_. 0) (db s')" and "adds (length as) 0 0 (db s) (db s')" using A(1) adds_accounts [OF A(2)] by simp_all
qed

text \<open>Accounts whose balances come from postings \<open>vals\<close> between the first two of them.\<close>

lemma funded_accounts:
  assumes "insertAccounts env (a # b # as) s = (s1, Inr us)" and "numeric_ok env" and "money_ok env" and "seed_inv env (\<lambda>_. 0) (db s)"
    and "as_balance a = money env n" and "as_balance b = money env (- n)" and "\<forall>c \<in> set as. as_balance c = 0"
    and "as_ledgerID a = ledger" and "as_ledgerID b = ledger"
    and "insertTransactions t (map (\<lambda>tid. (tid, ledger)) txs) (db s1) = Inr d2" and "insertEntryValues env t vals d2 = Inr d3"
    and "\<forall>v \<in> set vals. valueCents env v" and "\<forall>(eid, aid, tid, c, e) \<in> set vals. (aid = as_id a \<or> aid = as_id b)"
    and "\<forall>tid. valueImbalance tid vals = 0" and "(\<lambda>(eid, aid, tid, c, b). tid) ` set vals = set txs"
    and "as_id a \<noteq> as_id b \<Longrightarrow> valueNet (as_id a) vals = money env n \<and> valueNet (as_id b) vals = - money env n"
  shows "seed_inv env (\<lambda>_. 0) d3" and "adds (2 + length as) (length txs) (length vals) (db s) d3" and "keysT d3 = keysT (db s)"
proof -
  have c: "\<forall>c \<in> set (a # b # as). cents env (as_balance c)"
    using assms(5-7) assms(3) numeric_okD(1) [OF assms(2)] by (simp add: money_ok_def)
  note A = insertAccounts_Inr [OF assms(1,2) c assms(4)]
  have ids: "as_id a \<noteq> as_id b" "as_id a \<notin> as_id ` set as" "as_id b \<notin> as_id ` set as" using A(3) by auto
  have row: "\<exists>r. accountRow (db s1) (as_id x) = Some r \<and> ar_ledger r = as_ledgerID x" if "x \<in> set (a # b # as)" for x
    using added_row [OF A(2,3) _ that] A(4) by blast
  have placed: "\<forall>v \<in> set vals. value_placed (db s1) (map (\<lambda>tid. (tid, ledger)) txs) v"
  proof
    fix v assume v: "v \<in> set vals"
    obtain eid aid tid x y where eq: "v = (eid, aid, tid, x, y)" by (cases v)
    have "aid = as_id a \<or> aid = as_id b" using assms(13) v by (auto simp: eq)
    moreover have "tid \<in> set txs" using assms(15) v by (force simp: eq)
    ultimately show "value_placed (db s1) (map (\<lambda>tid. (tid, ledger)) txs) v"
      using row [of a] row [of b] assms(8,9) by (auto simp: value_placed_def eq)
  qed
  have net: "valueNet k vals = 0" if "k \<noteq> as_id a" "k \<noteq> as_id b" for k
    using assms(13) that by (induction k vals rule: valueNet.induct) auto
  have "offAfter (a # b # as) (\<lambda>_. 0) k - valueNet k vals = 0" for k
    using assms(16) [OF ids(1)] ids net [of k] offAfter_zero [OF assms(7)] assms(5,6) money_minus [OF assms(3), of n] by auto
  then show "seed_inv env (\<lambda>_. 0) d3"
    using seed_inv_posting [OF assms(10,11,2,12) placed assms(14) A(1)] by simp
  have "adds 0 (length txs) (length vals) (db s1) d3"
    using adds_posting [OF assms(10,11,2,12) A(1)] assms(15) by (simp add: image_image)
  from adds_trans [OF adds_accounts [OF A(2)] this]
  show "adds (2 + length as) (length txs) (length vals) (db s) d3" by simp
  show "keysT d3 = keysT (db s)"
    by (rule posting_Inr [OF assms(10,11,2,12)]) (use A(2) in \<open>simp add: added_def\<close>)
qed

lemma seedNormal_Inr:
  assumes "seedNormal env i s = (s', Inr p)" and "numeric_ok env" and "money_ok env" and "seed_inv env (\<lambda>_. 0) (db s)"
  shows "seed_inv env (\<lambda>_. 0) (db s') \<and> adds 2 0 0 (db s) (db s')"
  using assms(1) empty_accounts [OF _ assms(2) _ assms(4)] money_zero [OF assms(3)]
  by (fastforce simp: seedNormal_def Let_def bindE_Inr returnE_def numeral_2_eq_2)

lemma seedAggregate_Inr:
  assumes "seedAggregate env i s = (s', Inr p)" and "numeric_ok env" and "money_ok env" and "seed_inv env (\<lambda>_. 0) (db s)"
  shows "seed_inv env (\<lambda>_. 0) (db s') \<and> adds 2 0 0 (db s) (db s')"
  using assms(1) empty_accounts [OF _ assms(2) _ assms(4)] money_zero [OF assms(3)]
  by (fastforce simp: seedAggregate_def Let_def bindE_Inr returnE_def numeral_2_eq_2)

text \<open>A debit and a credit of the same amount.\<close>

definition debitCredit :: "('d, 'm) seed_env_scheme \<Rightarrow> uuid \<Rightarrow> uuid \<Rightarrow> uuid \<Rightarrow> uuid \<Rightarrow> uuid \<Rightarrow> int \<Rightarrow> 'd entryValue list" where
  "debitCredit env e1 e2 debit credit tx n = [(e1, debit, tx, money env 0, money env n), (e2, credit, tx, money env n, money env 0)]"

lemma debitCredit_facts:
  assumes "money_ok env"
  shows "\<forall>v \<in> set (debitCredit env e1 e2 debit credit tx n). valueCents env v"
    and "\<forall>(eid, aid, tid, c, e) \<in> set (debitCredit env e1 e2 debit credit tx n). aid = debit \<or> aid = credit"
    and "\<forall>tid. valueImbalance tid (debitCredit env e1 e2 debit credit tx n) = 0"
    and "(\<lambda>(eid, aid, tid, c, b). tid) ` set (debitCredit env e1 e2 debit credit tx n) = set [tx]"
    and "debit \<noteq> credit \<Longrightarrow> valueNet debit (debitCredit env e1 e2 debit credit tx n) = money env n \<and>
      valueNet credit (debitCredit env e1 e2 debit credit tx n) = - money env n"
    and "length (debitCredit env e1 e2 debit credit tx n) = 2"
proof -
  have "cents env 0" using assms money_zero [OF assms] unfolding money_ok_def by metis
  then show "\<forall>v \<in> set (debitCredit env e1 e2 debit credit tx n). valueCents env v"
    using assms money_zero [OF assms] by (simp add: debitCredit_def money_ok_def)
qed (use assms money_zero [OF assms] in \<open>simp_all add: debitCredit_def\<close>)

lemma seedDuplicate_Inr:
  assumes "seedDuplicate env t i s = (s', Inr p)" and "numeric_ok env" and "money_ok env" and "seed_inv env (\<lambda>_. 0) (db s)"
  shows "seed_inv env (\<lambda>_. 0) (db s') \<and> adds 2 1 2 (db s) (db s') \<and>
    keysT (db s') (duplicateKey i) = Some \<lparr>kr_transaction = Some (benchmarkUUID env ''duplicate'' i ''transaction''),
      kr_checksum = TransactionRequestChecksum env '''' (duplicateRequest env i), kr_status = ''completed''\<rparr> \<and>
    ap_IdempotencyKey p = duplicateKey i \<and> ap_TransactionID p = uuidString env (benchmarkUUID env ''duplicate'' i ''transaction'')"
proof -
  let ?u = "benchmarkUUID env ''duplicate'' i"
  let ?vals = "debitCredit env (?u ''debit-entry'') (?u ''credit-entry'') (?u ''debit'') (?u ''credit'') (?u ''transaction'') 1"
  let ?a = "\<lparr>as_id = ?u ''debit'', as_ledgerID = ?u ''ledger'', as_name = ''bench-duplicate-debit-'' @ sixDigits i,
    as_typeName = ''asset'', as_balance = money env 1\<rparr>"
  let ?b = "\<lparr>as_id = ?u ''credit'', as_ledgerID = ?u ''ledger'', as_name = ''bench-duplicate-credit-'' @ sixDigits i,
    as_typeName = ''revenue'', as_balance = money env (- 1)\<rparr>"
  obtain s1 us d2 d3 d4 d5 where run: "insertAccounts env [?a, ?b] s = (s1, Inr us)"
    "insertTransactions t [(?u ''transaction'', ?u ''ledger'')] (db s1) = Inr d2" "insertEntryValues env t ?vals d2 = Inr d3"
    "insertKey (duplicateKey i) (?u ''transaction'') (TransactionRequestChecksum env '''' (duplicateRequest env i)) d3 = Inr d4"
    "insertOutbox (processedEvent (?u ''outbox'') t (?u ''transaction'')) d4 = Inr d5" "db s' = d5"
    and p: "ap_IdempotencyKey p = duplicateKey i" "ap_TransactionID p = uuidString env (?u ''transaction'')"
    using assms(1) by (auto simp: seedDuplicate_def Let_def bindE_Inr execDb_Inr returnE_def debitCredit_def)
  note V = debitCredit_facts [OF assms(3)]
  have 3: "seed_inv env (\<lambda>_. 0) d3" "adds 2 1 2 (db s) d3"
    using funded_accounts [OF run(1) assms(2-4) _ _ _ _ _ _ run(3) V(1), where n = 1 and txs = "[?u ''transaction'']"] run(2) V
    by simp_all
  note 4 = seed_inv_key [OF run(4) 3(1)]
  note 5 = seed_inv_event [OF run(5) 4(1)] adds_event [OF run(5) 4(1)]
  have "adds 2 1 2 (db s) d5" using adds_trans [OF adds_trans [OF 3(2) 4(2)] conjunct1 [OF 5(2)]] by simp
  then show ?thesis using 5 4(3) p run(6) by simp
qed

lemma seedTransfer_Inr:
  assumes "seedTransfer env t i s = (s', Inr p)" and "numeric_ok env" and "money_ok env" and "seed_inv env (\<lambda>_. 0) (db s)"
  shows "seed_inv env (\<lambda>_. 0) (db s') \<and> adds 5 1 2 (db s) (db s')"
proof -
  let ?u = "benchmarkUUID env ''transfer'' i"
  let ?vals = "debitCredit env (?u ''funding-debit-entry'') (?u ''funding-credit-entry'') (?u ''source'') (?u ''source-offset'')
    (?u ''funding-transaction'') 1000000000"
  let ?a = "\<lparr>as_id = ?u ''source'', as_ledgerID = ?u ''source-ledger'', as_name = ''bench-transfer-source-'' @ sixDigits i,
    as_typeName = ''asset'', as_balance = money env 1000000000\<rparr>"
  let ?b = "\<lparr>as_id = ?u ''source-offset'', as_ledgerID = ?u ''source-ledger'', as_name = ''bench-transfer-offset-'' @ sixDigits i,
    as_typeName = ''revenue'', as_balance = money env (- 1000000000)\<rparr>"
  obtain rest s1 us d2 d3 d4 where run: "insertAccounts env (?a # ?b # rest) s = (s1, Inr us)" "\<forall>c \<in> set rest. as_balance c = 0" "length rest = 3"
    "insertTransactions t [(?u ''funding-transaction'', ?u ''source-ledger'')] (db s1) = Inr d2" "insertEntryValues env t ?vals d2 = Inr d3"
    "insertOutbox (processedEvent (?u ''funding-outbox'') t (?u ''funding-transaction'')) d3 = Inr d4" "db s' = d4"
  proof -
    let ?rest = "[\<lparr>as_id = ?u ''source-clearing'', as_ledgerID = ?u ''source-ledger'', as_name = ''__transfer_clearing__'',
        as_typeName = ''asset'', as_balance = money env 0\<rparr>,
      \<lparr>as_id = ?u ''destination'', as_ledgerID = ?u ''destination-ledger'', as_name = ''bench-transfer-destination-'' @ sixDigits i,
        as_typeName = ''asset'', as_balance = money env 0\<rparr>,
      \<lparr>as_id = ?u ''destination-clearing'', as_ledgerID = ?u ''destination-ledger'', as_name = ''__transfer_clearing__'',
        as_typeName = ''asset'', as_balance = money env 0\<rparr>]"
    show ?thesis
      using assms(1) money_zero [OF assms(3)] that [where rest = ?rest]
      by (auto simp: seedTransfer_def Let_def bindE_Inr execDb_Inr returnE_def debitCredit_def)
  qed
  note V = debitCredit_facts [OF assms(3)]
  have 3: "seed_inv env (\<lambda>_. 0) d3" "adds 5 1 2 (db s) d3"
    using funded_accounts [OF run(1) assms(2-4) _ _ run(2) _ _ _ run(5) V(1), where n = 1000000000 and txs = "[?u ''funding-transaction'']"] run(3,4) V
    by simp_all
  note 5 = seed_inv_event [OF run(6) 3(1)] adds_event [OF run(6) 3(1)]
  have "adds 5 1 2 (db s) d4" using adds_trans [OF 3(2) conjunct1 [OF 5(2)]] by simp
  then show ?thesis using 5 run(7) by simp
qed

text \<open>What one round leaves.\<close>

definition duplicate_ready :: "('d :: linordered_ab_group_add, 'm) seed_env_scheme \<Rightarrow> nat \<Rightarrow> 'd Database \<Rightarrow> bool" where
  "duplicate_ready env i d \<longleftrightarrow> keysT d (duplicateKey i) = Some \<lparr>kr_transaction = Some (benchmarkUUID env ''duplicate'' i ''transaction''),
     kr_checksum = TransactionRequestChecksum env '''' (duplicateRequest env i), kr_status = ''completed''\<rparr>"

lemma duplicate_ready_kept: "duplicate_ready env i d \<Longrightarrow> adds a x e d d' \<Longrightarrow> duplicate_ready env i d'"
  by (auto simp: duplicate_ready_def adds_def map_le_def dom_def)

lemma seedPair_Inr:
  assumes "seedPair env t i s = (s', Inr (pn, pd, pt, pa))" and "numeric_ok env" and "money_ok env" and "seed_inv env (\<lambda>_. 0) (db s)"
  shows "seed_inv env (\<lambda>_. 0) (db s') \<and> adds 11 2 4 (db s) (db s') \<and> duplicate_ready env i (db s') \<and>
    ap_IdempotencyKey pd = duplicateKey i \<and> ap_TransactionID pd = uuidString env (benchmarkUUID env ''duplicate'' i ''transaction'')"
proof -
  obtain s1 s2 s3 where run: "seedNormal env i s = (s1, Inr pn)" "seedDuplicate env t i s1 = (s2, Inr pd)"
    "seedTransfer env t i s2 = (s3, Inr pt)" "seedAggregate env i s3 = (s', Inr pa)"
    using assms(1) by (auto simp: seedPair_def bindE_Inr returnE_def)
  have 1: "seed_inv env (\<lambda>_. 0) (db s1)" "adds 2 0 0 (db s) (db s1)" using seedNormal_Inr [OF run(1) assms(2-4)] by auto
  note 2 = seedDuplicate_Inr [OF run(2) assms(2,3) 1(1)]
  have 3: "seed_inv env (\<lambda>_. 0) (db s3)" "adds 5 1 2 (db s2) (db s3)" using seedTransfer_Inr [OF run(3) assms(2,3)] 2 by auto
  have 4: "seed_inv env (\<lambda>_. 0) (db s')" "adds 2 0 0 (db s3) (db s')" using seedAggregate_Inr [OF run(4) assms(2,3) 3(1)] by auto
  have "adds 2 1 2 (db s1) (db s2)" using 2 by blast
  from adds_trans [OF adds_trans [OF adds_trans [OF 1(2) this] 3(2)] 4(2)] have a: "adds 11 2 4 (db s) (db s')"
    by (simp add: numeral_eq_Suc)
  have "duplicate_ready env i (db s2)" using 2 by (simp add: duplicate_ready_def)
  then have "duplicate_ready env i (db s')" using duplicate_ready_kept 3(2) 4(2) by blast
  then show ?thesis using 2 4(1) a by blast
qed

text \<open>The loop over the pairs.\<close>

lemma seedPairs_Inr:
  assumes "mapE (seedPair env t) is s = (s', Inr ps)" and "numeric_ok env" and "money_ok env" and "seed_inv env (\<lambda>_. 0) (db s)"
  shows "seed_inv env (\<lambda>_. 0) (db s') \<and> adds (11 * length is) (2 * length is) (4 * length is) (db s) (db s') \<and>
    (\<forall>i \<in> set is. duplicate_ready env i (db s')) \<and>
    list_all2 (\<lambda>i p. ap_IdempotencyKey p = duplicateKey i \<and> ap_TransactionID p = uuidString env (benchmarkUUID env ''duplicate'' i ''transaction''))
      is (map (fst \<circ> snd) ps)"
  using assms(1,4)
proof (induction "is" arbitrary: s ps)
  case Nil
  then show ?case by (simp add: returnE_def)
next
  case (Cons i "is")
  obtain s1 pn pd pt pa qs where 1: "seedPair env t i s = (s1, Inr (pn, pd, pt, pa))" "mapE (seedPair env t) is s1 = (s', Inr qs)"
    "ps = (pn, pd, pt, pa) # qs"
    using Cons.prems(1) by (auto simp: bindE_Inr returnE_def)
  note P = seedPair_Inr [OF 1(1) assms(2,3) Cons.prems(2)]
  note Q = Cons.IH [OF 1(2) conjunct1 [OF P]]
  have "adds (11 + 11 * length is) (2 + 2 * length is) (4 + 4 * length is) (db s) (db s')"
    using adds_trans P Q by blast
  moreover have "duplicate_ready env i (db s')" using duplicate_ready_kept P Q by blast
  ultimately show ?case using P Q 1(3) by simp
qed

text \<open>The history.\<close>

lemma history_net:
  assumes "length ids = length txs"
  shows "valueNet k (map (\<lambda>(tid, eid). (eid, acc, tid, c, b)) (zip txs ids)) = (if acc = k then (\<Sum>x\<leftarrow>txs. b - c) else 0)"
    and "valueImbalance tid (map (\<lambda>(tid, eid). (eid, acc, tid, c, b)) (zip txs ids)) = (\<Sum>x\<leftarrow>txs. if x = tid then b - c else 0)"
  using assms by (induction txs ids rule: list_induct2') simp_all

lemma history_money: "money_ok env \<Longrightarrow> (\<Sum>x\<leftarrow>txs. money env 1) = money env (int (length txs))"
  by (induction txs) (simp_all add: money_Suc)

lemma historyValues_facts:
  assumes "money_ok env" and "length ids = length txs" and "length ids' = length txs"
  shows "\<forall>v \<in> set (historyValues env debit credit txs ids ids'). valueCents env v"
    and "\<forall>(eid, aid, tid, c, e) \<in> set (historyValues env debit credit txs ids ids'). aid = debit \<or> aid = credit"
    and "\<forall>tid. valueImbalance tid (historyValues env debit credit txs ids ids') = 0"
    and "(\<lambda>(eid, aid, tid, c, b). tid) ` set (historyValues env debit credit txs ids ids') = set txs"
    and "debit \<noteq> credit \<Longrightarrow> valueNet debit (historyValues env debit credit txs ids ids') = money env (int (length txs)) \<and>
      valueNet credit (historyValues env debit credit txs ids ids') = - money env (int (length txs))"
    and "length (historyValues env debit credit txs ids ids') = 2 * length txs"
proof -
  have c0: "cents env 0" using assms(1) money_zero [OF assms(1)] unfolding money_ok_def by metis
  show "\<forall>v \<in> set (historyValues env debit credit txs ids ids'). valueCents env v"
    using assms(1) c0 money_zero [OF assms(1)] by (auto simp: historyValues_def money_ok_def)
  show "\<forall>(eid, aid, tid, c, e) \<in> set (historyValues env debit credit txs ids ids'). aid = debit \<or> aid = credit"
    by (auto simp: historyValues_def)
  have neg: "(\<Sum>x\<leftarrow>txs. if x = tid then - money env 1 else 0) = - (\<Sum>x\<leftarrow>txs. if x = tid then money env 1 else 0)" for tid
    by (induction txs) auto
  then show "\<forall>tid. valueImbalance tid (historyValues env debit credit txs ids ids') = 0"
    using money_zero [OF assms(1)] by (simp add: historyValues_def history_net(2) assms(2,3) cong: if_cong)
  have "fst ` set (zip txs ids) = set txs"
    using assms(2) by (metis list.set_map map_fst_zip)
  moreover have "fst ` set (zip txs ids') = set txs"
    using assms(3) by (metis list.set_map map_fst_zip)
  ultimately show "(\<lambda>(eid, aid, tid, c, b). tid) ` set (historyValues env debit credit txs ids ids') = set txs"
    by (simp add: historyValues_def image_Un image_image case_prod_unfold)
  have "(\<Sum>x\<leftarrow>txs. - money env 1) = - (\<Sum>x\<leftarrow>txs. money env 1)" by (induction txs) auto
  then show "debit \<noteq> credit \<Longrightarrow> valueNet debit (historyValues env debit credit txs ids ids') = money env (int (length txs)) \<and>
      valueNet credit (historyValues env debit credit txs ids ids') = - money env (int (length txs))"
    using money_zero [OF assms(1)] history_money [OF assms(1), of txs] by (simp add: historyValues_def history_net(1) assms(2,3))
  show "length (historyValues env debit credit txs ids ids') = 2 * length txs" using assms(2,3) by (simp add: historyValues_def)
qed

lemma seedHistory_Inr:
  assumes "seedHistory env t n s = (s', Inr u)" and "numeric_ok env" and "money_ok env" and "seed_inv env (\<lambda>_. 0) (db s)"
  shows "seed_inv env (\<lambda>_. 0) (db s') \<and> adds 2 n (2 * n) (db s) (db s')"
proof -
  let ?u = "benchmarkUUID env ''history'' 0"
  let ?a = "\<lparr>as_id = ?u ''debit'', as_ledgerID = ?u ''ledger'', as_name = ''bench-history-debit'', as_typeName = ''asset'',
    as_balance = money env (int n)\<rparr>"
  let ?b = "\<lparr>as_id = ?u ''credit'', as_ledgerID = ?u ''ledger'', as_name = ''bench-history-credit'', as_typeName = ''revenue'',
    as_balance = money env (- int n)\<rparr>"
  obtain s1 us s2 txs s3 ids s4 ids' d5 s6 eids d7 where run: "insertAccounts env [?a, ?b] s = (s1, Inr us)"
    "mapE (\<lambda>_. newID env) [0..<n] s1 = (s2, Inr txs)" "mapE (\<lambda>_. newID env) txs s2 = (s3, Inr ids)"
    "mapE (\<lambda>_. newID env) txs s3 = (s4, Inr ids')"
    "insertHistory env t (?u ''ledger'') (?u ''debit'') (?u ''credit'') txs ids ids' (db s4) = Inr d5"
    "mapE (\<lambda>_. newID env) (selectLedgerTransactions (?u ''ledger'') d5) (s4\<lparr>calls := Suc (calls s4), db := d5\<rparr>) = (s6, Inr eids)"
    "insertOutboxes (map (\<lambda>(eid, tid). processedEvent eid t tid) (zip eids (selectLedgerTransactions (?u ''ledger'') d5))) (db s6) = Inr d7" "db s' = d7"
    using assms(1) by (auto simp: seedHistory_def Let_def bindE_Inr execDb_Inr getDb_def)
  have q: "quiet (mapE (\<lambda>_. newID env) xs)" for xs :: "'x list" by (intro quiet_intros)
  have dbs: "db s4 = db s1" "db s6 = d5"
    using quietD [OF q run(2)] quietD [OF q run(3)] quietD [OF q run(4)] quietD [OF q run(6)] by simp_all
  have len: "length txs = n" "length ids = length txs" "length ids' = length txs"
    using mapE_length [OF run(2)] mapE_length [OF run(3)] mapE_length [OF run(4)] by simp_all
  obtain d2 where d2: "insertTransactions t (map (\<lambda>tid. (tid, ?u ''ledger'')) txs) (db s1) = Inr d2"
    "insertEntryValues env t (historyValues env (?u ''debit'') (?u ''credit'') txs ids ids') d2 = Inr d5"
    using run(5) dbs(1) by (auto simp: insertHistory_def bindR_Inr)
  note V = historyValues_facts [OF assms(3) len(2,3)]
  have 3: "seed_inv env (\<lambda>_. 0) d5" "adds 2 n (2 * n) (db s) d5"
    using funded_accounts [OF run(1) assms(2-4) _ _ _ _ _ d2 V(1), where n = "int n"] V len by simp_all
  note 5 = seed_inv_events [OF run(7) [unfolded dbs(2)] 3(1)]
  show ?thesis using adds_trans [OF 3(2) 5(2)] 5(1) run(8) by simp
qed

end
