(* ===== verification/Benchmark_Properties.thy ===== *)
theory Benchmark_Properties
  imports Benchmark_Books
begin

text \<open>The property of a seeded database, with an instance: the tool run on a small configuration.\<close>

subsection \<open>The whole tool\<close>

lemma seed_Inr:
  assumes "seed env name pairs history s = (s', Inr r)" and "numeric_ok env" and "money_ok env"
  shows "seed_inv env (\<lambda>_. 0) (db s')" and "ds_Accounts r = 11 * pairs + (if 0 < history then 2 else 0)"
    and "ds_Transactions r = 2 * pairs + history" and "ds_Entries r = 4 * pairs + 2 * history"
    and "\<forall>i < pairs. duplicate_ready env i (db s')"
    and "list_all2 (\<lambda>i p. ap_IdempotencyKey p = duplicateKey i \<and> ap_TransactionID p = uuidString env (benchmarkUUID env ''duplicate'' i ''transaction''))
      [0..<pairs] (IdempotentDuplicatePosting r)"
proof -
  let ?s2 = "s\<lparr>db := emptyDatabase, ticks := Suc (Suc (ticks s)), calls := Suc (Suc (Suc (calls s)))\<rparr>"
  obtain t s3 ps s4 where pairs: "mapE (seedPair env t) [0..<pairs] ?s2 = (s3, Inr ps)"
    and hist: "(if 0 < history then seedHistory env t history else returnE ()) s3 = (s4, Inr ())" and final: "db s' = db s4"
    and r: "ds_Accounts r = length (accountsT (db s4))" "ds_Transactions r = length (transactionsOf (db s4))"
      "ds_Entries r = length (entriesT (db s4))" "IdempotentDuplicatePosting r = map (fst \<circ> snd) ps"
    using assms(1) by (auto simp: seed_def seedTransaction_def bindE_Inr execDb_Inr act_defs split: option.splits cong: if_cong)
  have 2: "seed_inv env (\<lambda>_. 0) (db ?s2)" using seed_inv_empty by simp
  note P = seedPairs_Inr [OF pairs assms(2,3) 2]
  have 4: "seed_inv env (\<lambda>_. 0) (db s4) \<and> adds (if 0 < history then 2 else 0) history (2 * history) (db s3) (db s4)"
  proof (cases "0 < history")
    case True
    then show ?thesis using hist P seedHistory_Inr [of env t history s3 s4 "()", OF _ assms(2,3)] by simp
  next
    case False
    then show ?thesis using hist P by (simp add: returnE_def)
  qed
  from adds_trans [OF conjunct1 [OF conjunct2 [OF P]] conjunct2 [OF this]]
  have A: "adds (11 * pairs + (if 0 < history then 2 else 0)) (2 * pairs + history) (4 * pairs + 2 * history) emptyDatabase (db s4)"
    by simp
  show "seed_inv env (\<lambda>_. 0) (db s')" using 4 by (simp add: final)
  show "ds_Accounts r = 11 * pairs + (if 0 < history then 2 else 0)" "ds_Transactions r = 2 * pairs + history" "ds_Entries r = 4 * pairs + 2 * history"
    using A by (simp_all add: r adds_def emptyDatabase_def transactionsOf_def)
  show "\<forall>i < pairs. duplicate_ready env i (db s')" using P 4 duplicate_ready_kept by (fastforce simp: final)
  show "list_all2 (\<lambda>i p. ap_IdempotencyKey p = duplicateKey i \<and> ap_TransactionID p = uuidString env (benchmarkUUID env ''duplicate'' i ''transaction''))
      [0..<pairs] (IdempotentDuplicatePosting r)"
    using P by (simp add: r)
qed

lemma duplicateRequest_valid: "money_ok env \<Longrightarrow> ValidateTransaction (duplicateRequest env i) = None"
  by (auto simp: ValidateTransaction_def duplicateRequest_def money_ok_def)

lemma duplicateKey_nonempty [simp]: "duplicateKey i \<noteq> ''''"
  by (simp add: duplicateKey_def)

text \<open>Without the name of a benchmark database, the flag or the variable, nothing is reset.\<close>

lemma seedMain_refuses:
  "\<not> namedBenchmark env name \<Longrightarrow> unsafeVariable \<noteq> ''1'' \<Longrightarrow> seedMain env pairs history False unsafeVariable name s = (s, None)"
  by (simp add: seedMain_def)

subsection \<open>Properties\<close>

text \<open>
  C40: A seeded database is one the service may start from. Its books balance, though the tool writes balances and entries apart;
  its rows are typed and no event is left to publish; it has as many accounts, transactions and entries as the tool reports and
  the flags ask for. And repeating the request of a pair for duplicate postings under the key of the pair changes no table and
  is answered with the transaction the pair names, or with a fault of the database.
\<close>

theorem seeded_database_ready:
  assumes "seedMain env pairs history allowUnsafeReset unsafeVariable name s = (s', Some r)" and "numeric_ok env" and "money_ok env"
  shows "pg_books env (db s') \<and> tables_typed (db s') \<and> list_all (\<lambda>ev. or_status ev = ''processed'') (outboxT (db s')) \<and>
    ds_Accounts r = 11 * nat pairs + (if 0 < history then 2 else 0) \<and> ds_Transactions r = 2 * nat pairs + nat history \<and>
    ds_Entries r = 4 * nat pairs + 2 * nat history \<and> length (IdempotentDuplicatePosting r) = nat pairs \<and>
    (\<forall>i s2 res. i < nat pairs \<longrightarrow>
      PgCreateTransaction env (ap_IdempotencyKey (IdempotentDuplicatePosting r ! i)) (duplicateRequest env i) s' = (s2, res) \<longrightarrow>
      db s2 = db s' \<and>
      (case res of Inl e \<Rightarrow> \<exists>w f. e = DbFault w f
       | Inr (t, existed) \<Rightarrow> existed \<and> t_ID t = ap_TransactionID (IdempotentDuplicatePosting r ! i)))"
proof -
  have run: "seed env name (nat pairs) (nat history) s = (s', Inr r)"
    using assms(1) by (auto simp: seedMain_def split: if_splits prod.splits sum.splits)
  note S = seed_Inr [OF run assms(2,3)]
  have pair: "ap_IdempotencyKey (IdempotentDuplicatePosting r ! i) = duplicateKey i"
    "ap_TransactionID (IdempotentDuplicatePosting r ! i) = uuidString env (benchmarkUUID env ''duplicate'' i ''transaction'')"
    if "i < nat pairs" for i
    using list_all2_nthD [OF S(6), of i] that by simp_all
  have "length (IdempotentDuplicatePosting r) = nat pairs" using list_all2_lengthD [OF S(6)] by simp
  moreover have "db s2 = db s' \<and> (case res of Inl e \<Rightarrow> \<exists>w f. e = DbFault w f
       | Inr (t, existed) \<Rightarrow> existed \<and> t_ID t = ap_TransactionID (IdempotentDuplicatePosting r ! i))"
    if "i < nat pairs" and "PgCreateTransaction env (ap_IdempotencyKey (IdempotentDuplicatePosting r ! i)) (duplicateRequest env i) s' = (s2, res)"
    for i s2 res
  proof -
    have "keysT (db s') (duplicateKey i) = Some \<lparr>kr_transaction = Some (benchmarkUUID env ''duplicate'' i ''transaction''),
        kr_checksum = TransactionRequestChecksum env '''' (duplicateRequest env i), kr_status = ''completed''\<rparr>"
      using S(5) that(1) by (simp add: duplicate_ready_def)
    from PgCreateTransaction_recorded [OF that(2) [unfolded pair(1) [OF that(1)]] duplicateKey_nonempty duplicateRequest_valid [OF assms(3)] this]
    show ?thesis using pair(2) [OF that(1)] by (cases res) auto
  qed
  moreover have "tables_typed (db s')" "\<forall>ev \<in> set (outboxT (db s')). or_status ev = ''processed''" using seed_invD(4,5) [OF S(1)] .
  moreover have "ds_Accounts r = 11 * nat pairs + (if 0 < history then 2 else 0)" using S(2) by simp
  ultimately show ?thesis using seed_inv_books [OF S(1)] S(3,4) unfolding list_all_iff by blast
qed

text \<open>A sum of the characters of a text as its identifier.\<close>

definition seedEnv :: "int seed_env" where
  "seedEnv = pg_env.extend pgEnv (seed_env.fields (\<lambda>text. of_nat (foldl (\<lambda>h c. (5 * h + of_char c) mod 77) 0 text)) (\<lambda>n. 100 * n) (\<lambda>_. 0))"

lemma seedEnv_simps [simp]:
  "fault seedEnv n = None" "numeric seedEnv x = Some x" "drawUUID seedEnv n = of_nat n" "readClock seedEnv n = int n" "cents seedEnv x"
  "ToLower seedEnv text = text" "money seedEnv m = 100 * m" "NewSHA1 seedEnv text = of_nat (foldl (\<lambda>h c. (5 * h + of_char c) mod 77) 0 text)" "databaseSize seedEnv d = 0"
  by (simp_all add: seedEnv_def pg_env.extend_def seed_env.fields_def pgEnv_def)

lemma seedEnv_ok: "numeric_ok seedEnv" "money_ok seedEnv"
  by (simp_all add: numeric_ok_def money_ok_def)

lemma dbCall_seedEnv [simp]: "bindE (dbCall seedEnv w) f s = f () (s\<lparr>calls := Suc (calls s)\<rparr>)"
  by (simp add: bindE_def dbCall_def)

lemma zeroDigit [simp]: "char_of (48 :: nat) = CHR ''0''"
  by (simp add: char_of_eq_iff)

lemma seedEnv_uuids [simp]:
  "benchmarkUUID seedEnv ''normal'' 0 ''ledger'' = 55"
  "benchmarkUUID seedEnv ''normal'' 0 ''debit'' = 76"
  "benchmarkUUID seedEnv ''normal'' 0 ''credit'' = 70"
  "benchmarkUUID seedEnv ''duplicate'' 0 ''ledger'' = 28"
  "benchmarkUUID seedEnv ''duplicate'' 0 ''debit'' = 9"
  "benchmarkUUID seedEnv ''duplicate'' 0 ''credit'' = 43"
  "benchmarkUUID seedEnv ''duplicate'' 0 ''transaction'' = 64"
  "benchmarkUUID seedEnv ''duplicate'' 0 ''debit-entry'' = 47"
  "benchmarkUUID seedEnv ''duplicate'' 0 ''credit-entry'' = 74"
  "benchmarkUUID seedEnv ''duplicate'' 0 ''outbox'' = 5"
  "benchmarkUUID seedEnv ''transfer'' 0 ''source-ledger'' = 36"
  "benchmarkUUID seedEnv ''transfer'' 0 ''destination-ledger'' = 40"
  "benchmarkUUID seedEnv ''transfer'' 0 ''source'' = 61"
  "benchmarkUUID seedEnv ''transfer'' 0 ''source-offset'' = 39"
  "benchmarkUUID seedEnv ''transfer'' 0 ''destination'' = 66"
  "benchmarkUUID seedEnv ''transfer'' 0 ''source-clearing'' = 15"
  "benchmarkUUID seedEnv ''transfer'' 0 ''destination-clearing'' = 38"
  "benchmarkUUID seedEnv ''transfer'' 0 ''funding-transaction'' = 75"
  "benchmarkUUID seedEnv ''transfer'' 0 ''funding-debit-entry'' = 58"
  "benchmarkUUID seedEnv ''transfer'' 0 ''funding-credit-entry'' = 52"
  "benchmarkUUID seedEnv ''transfer'' 0 ''funding-outbox'' = 60"
  "benchmarkUUID seedEnv ''aggregate'' 0 ''ledger'' = 1"
  "benchmarkUUID seedEnv ''aggregate'' 0 ''debit'' = 19"
  "benchmarkUUID seedEnv ''aggregate'' 0 ''credit'' = 16"
  "benchmarkUUID seedEnv ''history'' 0 ''ledger'' = 20"
  "benchmarkUUID seedEnv ''history'' 0 ''debit'' = 69"
  "benchmarkUUID seedEnv ''history'' 0 ''credit'' = 35"
  by (simp_all add: benchmarkUUID_def decimalText.simps)

lemma seedEnv_digits [simp]: "sixDigits 0 = ''000000''"
  by (simp add: sixDigits_def decimalText.simps) (simp add: eval_nat_numeral)

lemma seedEnv_run: "\<exists>s' r. seedMain seedEnv 1 1 False '''' ''benchmark'' pgStart = (s', Some r)"
  by (simp add: seedMain_def namedBenchmark_def seed_def seedTransaction_def seedPair_def seedNormal_def seedDuplicate_def seedTransfer_def
      seedAggregate_def seedHistory_def insertAccounts_def insertSeedAccount_def insertEntryValues_def insertEntries_def entryCheck_def
      insertKey_def insertOutbox_def processedEvent_def postedEvent_def insertHistory_def historyValues_def selectLedgerTransactions_def
      transactionsOf_def duplicateKey_def execDb_def emptyDatabase_def accountByName_def account_type_def go_consts Let_def bindE_assoc
      bindE_liftE bindE_calls atomically_def returnE_def pgStart_def)

theorem seeded_database_ready_witness:
  "\<exists>s' r. seedMain seedEnv 1 1 False '''' ''benchmark'' pgStart = (s', Some r) \<and> pg_books seedEnv (db s') \<and>
     ds_Accounts r = 13 \<and> ds_Transactions r = 3 \<and> ds_Entries r = 6"
proof -
  obtain s' r where run: "seedMain seedEnv 1 1 False '''' ''benchmark'' pgStart = (s', Some r)" using seedEnv_run by blast
  from seeded_database_ready [OF run seedEnv_ok] show ?thesis using run by simp
qed

end
