(* ===== verification/Spec2Isabelle.thy ===== *)
theory Spec2Isabelle
  imports Memory_Properties Request_Properties Pg_Batch_Properties Pg_Tables_Properties Pg_Race_Properties Pg_Lock_Order Db_Queries
    Split_Projection Server Benchmark_Properties
begin

text \<open>
  A double-entry ledger service, written in Go: its stores, its transfers between ledgers, its stream of posted
  transactions and the daily aggregates kept from it, the HTTP handlers in front and the configuration of the server.

  \<^bold>\<open>The program.\<close> Clients open accounts, post transactions of balanced entries and start transfers. A transfer
  between ledgers is a saga: the source is debited against a clearing account in one transaction, a worker later credits the destination
  in another, and a transfer that cannot be credited is compensated. There are two stores. \<open>MemoryStore\<close> (\<open>store.go\<close>, \<open>transfer.go\<close>)
  keeps slices and maps. \<open>PostgresStore\<close> (\<open>postgres_store.go\<close>, \<open>posting_batch.go\<close>, \<open>postgres_transfer.go\<close>, \<open>transfer_batch.go\<close>,
  \<open>streaming.go\<close>) runs statements in database transactions. A committed posting leaves an event in the outbox table; publishers
  lease events and send them to JetStream; a consumer projects them into daily aggregates, once each, by an inbox table.
  \<open>BatchingPostgresStore\<close> collects postings without a key into batches. \<open>internal/http/handlers.go\<close> answers requests
  over these stores, and \<open>cmd/ledger/main.go\<close> reads the environment, divides the connections and starts the workers. The paths
  below without a directory are those of \<open>internal/ledger\<close>.

  \<^bold>\<open>How code becomes definitions.\<close> A struct is a record with the fields of the Go struct, an enumeration is a datatype, a
  method is a function from its arguments and the state to the new state and its result, an error is a constructor of \<open>err\<close> on
  the left of a sum. A method under a mutex is one step. A database transaction is \<open>atomically\<close>: its statements act on a copy of
  the tables that a commit keeps and an error drops. Every call of the database may fail: \<open>fault env n\<close> says
  whether and how the \<open>n\<close>-th call does, and no hypothesis restricts it unless a property names one. Parameters of the model (fields of \<open>go_env\<close> and \<open>pg_env\<close>) are what
  the code takes from elsewhere: the source of identifiers, the clock, the decimal arithmetic of \<open>shopspring/decimal\<close> and
  \<open>NUMERIC(20,2)\<close>, the parser of UUIDs, the order in which Go ranges over a map. Their documented laws are the hypotheses
  \<open>fresh_ids\<close>, \<open>numeric_ok\<close>, \<open>range_order\<close>, \<open>stream_env_ok\<close> and \<open>reliable\<close>, each shown to hold on a concrete environment.
  That a database transaction is one step is itself examined for postings: in \<open>Pg_Race\<close> their claims, locks and commits interleave.

  \<^bold>\<open>Theories.\<close>
  \<^item> \<open>Ledger_Prelude\<close>: results, collections of rules, lemmas on sums, maps and sorting. \<open>Go_Strconv\<close>: \<open>Atoi\<close> and \<open>ParseBool\<close>.
  \<^item> \<open>Domain\<close> (\<open>domain.go\<close>, \<open>validators.go\<close>), \<open>Idempotency\<close> (\<open>idempotency.go\<close>), with \<open>Request_Properties\<close>: when a
    request is valid and when two requests have the same checksum.
  \<^item> \<open>Memory_Store\<close> (\<open>store.go\<close>), \<open>Memory_Transfer\<close> (\<open>transfer.go\<close>): the in-memory store. \<open>Memory_Invariant\<close>: the books balance.
    \<open>Memory_Saga\<close>, \<open>Memory_Outbox\<close>: what the status of a saga says of its postings, and the outcomes of a worker's iteration.
    \<open>Memory_Runs\<close>: reachable states, the status machine the worker refines, and the measure \<open>outboxWork\<close> it uses up.
    \<open>Memory_Example\<close>: a run on which the hypotheses hold. \<open>Memory_Properties\<close>.
  \<^item> \<open>Completion_Wait\<close> (\<open>completion_wait.go\<close>): long polls and their notification, as a step relation of a waiter and a worker.
  \<^item> \<open>Pg_Schema\<close>: the tables of \<open>migrations/\<close> with the constraints the code meets, database calls and transactions.
    \<open>Pg_Store\<close> (\<open>postgres_store.go\<close>): accounts, postings, keys, retries, reads. \<open>Pg_Books\<close>, \<open>Pg_Posting\<close>: the invariant \<open>pg_books\<close> (each
    balance is the net of its entries, each transaction sums to zero, each entry is in the ledger of its transaction) and what a
    posting does to it. \<open>Pg_Properties\<close>.
  \<^item> \<open>Pg_Batch\<close>, \<open>Pg_Batch_Books\<close>, \<open>Pg_Batch_Properties\<close> (\<open>posting_batch.go\<close>): a batch and its requests one by one.
    \<open>Posting_Batcher\<close>: the channel, the workers and their interleavings.
  \<^item> \<open>Pg_Transfer\<close> (\<open>postgres_transfer.go\<close>, \<open>transfer_batch.go\<close>), \<open>Pg_Transfer_Books\<close>, \<open>Pg_Credit_Books\<close>, \<open>Pg_Transfer_Properties\<close>.
  \<^item> \<open>Streaming\<close> (\<open>streaming.go\<close>): outbox claims, publication, projection, aggregates, projection status. \<open>Projection\<close>: what a
    batch of deliveries does. \<open>Pipeline\<close>, \<open>Pipeline_Properties\<close>: stores, publishers, broker and consumer as one step relation.
    \<open>Split_Projection\<close>: the same with the projection in a database of its own.
  \<^item> \<open>Table_Relation\<close>: operations that move the tables along a relation, a locale with four interpretations: \<open>Pg_Journal\<close> (entries
    and transactions are never changed), \<open>Posting_Batcher\<close> (accounts keep their ledgers), \<open>Pg_Tables\<close> (rows satisfy the
    constraints of the schema, sagas change only their status), \<open>Pg_Used_Keys\<close> (a key that has its transaction keeps it).
    \<open>Pg_Tables_Properties\<close>.
  \<^item> \<open>Pg_Locks\<close>: an attempt of a posting and a batch cut at their claim of a key and their locks of accounts, and the locale \<open>locked_code\<close>, the
    contract that makes what is read under the locks stay true. \<open>Pg_Race\<close>: clients that post at the same time as a step relation with
    exclusive locks and aborts. \<open>Pg_Race_Properties\<close>. \<open>Pg_Lock_Order\<close>: the orders in which postings, transfers and credits lock accounts.
  \<^item> \<open>Db_Queries\<close> (\<open>internal/db\<close>): the generated queries and the helpers of one statement each, as the reference for the commands
    that have collapsed them.
  \<^item> \<open>Http_Handlers\<close> (\<open>internal/http/handlers.go\<close>): the handlers over records of operations. \<open>Http_Stores\<close>: the stores as such
    records, and the locales \<open>keyed_posting\<close> and \<open>durable_posting\<close>, the contract that makes a retry safe. \<open>Http_Properties\<close>.
  \<^item> \<open>Server_Config\<close> (\<open>cmd/ledger/main.go\<close>): variables, pools, accepted configurations, background workers, statistics.
    \<open>Server\<close>: the router with the handlers on the PostgreSQL store, beside the workers and the consumer, as one step relation.
  \<^item> \<open>Benchmark_Seed\<close>, \<open>Benchmark_Books\<close>, \<open>Benchmark_Properties\<close> (\<open>cmd/benchmark-seed/main.go\<close>): the tool that fills a database for
    benchmarks by plain statements, and that the service may start from what it leaves.

  \<^bold>\<open>What is shown.\<close>
  \<^item> Invariants: in every reachable state the books balance, in memory, in the tables (whatever call of the database
    fails), through batches, transfers and any interleaving of batch workers; no operation changes what is in the journal; the rows keep the types
    of the schema; the daily totals are those of the projected transactions.
  \<^item> Safety: a leg of a transfer is posted at most once, a saga is never both completed and compensated, an event is projected once however
    often it is delivered, a batched request is answered once, a repeated keyed request has no second effect, also as seen by a client over
    HTTP at any later time of the running service.
  \<^item> Concurrency: postings that interleave at their locks have the outcome of running one after another, never overdraw an account and
    never deadlock; transfers and destination credits may.
  \<^item> Refinement and equivalence: a run of the server is a run of the pipeline; a batch is its requests in turn; the one query that locks and
    the one command that writes a posting are their single statements; an iteration of the in-memory worker refines the status machine;
    \<open>PublishCommittedEvents\<close> is a run of its claim, publish, complete and release steps; balances agree with entries and with aggregates.
  \<^item> Liveness and termination: repeated calls of the in-memory worker settle every transfer, the batch workers answer
    every request, a waiter that subscribes before it checks is not left waiting.
  \<^item> Bounds: the retry loop makes four attempts, waits are at most thirty seconds, pools divide the configured connections.

  \<^bold>\<open>Bounds and fuel.\<close> The retry loop recurses on the number of attempts left, which starts at \<open>maxSerializationRetries\<close> = 3 as in the code.
  The outbox loops recurse on their \<open>limit\<close> argument, which bounds them in the code. The batch workers run
  as a relation; \<open>batcherWork\<close> decreases with each of their steps. Integers are unbounded where the code counts rows, and 64-bit words where
  it reads them from the environment (\<open>Server_Config\<close>), where their overflow is visible.

  \<^bold>\<open>Not modelled.\<close> Interleavings inside a database transaction other than those of postings (transfers, credits, claims of the outbox and
  projections are one step each; of transfers and credits the order of their locks is modelled), and the isolation level beyond what locked rows
  give; the router over two databases (\<open>Server\<close> has one; the stores, workers and status queries of two are in \<open>Split_Projection\<close>); connecting
  to NATS and to the database, migrations, logging, pprof and the health route (input and output); JSON and RFC 3339 encoding (parameters of the handlers); the
  wrapper of the generated queries (\<open>internal/db/db.go\<close>), which passes calls on; of the seeding tool, waiting for the
  database, the reset of the stream and the file it writes.
\<close>

end
